(* ===== verification/Prelude.thy ===== *)
theory Prelude
  imports Main "HOL-Library.Word" "HOL-Library.Char_ord" "HOL-Library.List_Lexorder"
    "HOL-Library.AList" "HOL-Library.Sublist"
begin

text \<open>
  The prelude of the development: what the Rust sources under \<^verbatim>\<open>src/crates\<close> use of the
  language and its standard library, and the facts every component shares.

  \<^item> A Rust \<^verbatim>\<open>String\<close> is its UTF-8 byte sequence; a \<open>char\<close> of HOL is a byte, so \<open>string\<close> is
    that sequence, \<open>length\<close> is \<^verbatim>\<open>len()\<close>, and the order of \<open>List_Lexorder\<close> over
    \<open>Char_ord\<close> is Rust's byte-wise string order.
  \<^item> A \<^verbatim>\<open>BTreeMap\<close> with string keys is an association list sorted by key (\<open>bt_insert\<close>,
    \<open>bt_remove\<close>, \<open>map_of\<close>); a \<^verbatim>\<open>HashMap\<close> is an association list with distinct keys whose
    order stands for the unspecified iteration order (\<open>AList.update\<close>). Both implement
    the interface \<open>dict\<close> below, and so do the tables of rows built from them.
  \<^item> \<open>u32\<close> and \<open>u64\<close> are words, which wrap as a release build does; \<open>i64\<close> is \<open>int\<close> with the
    wrap-around written out (\<open>i64_wrap\<close>).
  \<^item> A JSON value (\<^verbatim>\<open>serde_json::Value\<close>) is the datatype \<open>json\<close>; a number is an integer or
    an opaque 64-bit pattern.
\<close>

named_theorems dict_simps \<open>lookups after map updates\<close>
named_theorems str_simps \<open>lexicographic comparison of strings\<close>

section \<open>Strings\<close>

text \<open>The UTF-8 encodings of the characters with Unicode property White_Space, which
  \<^verbatim>\<open>str::trim\<close> and \<^verbatim>\<open>split_whitespace\<close> recognise.\<close>

definition ws_encodings :: "string list" where
  "ws_encodings =
     map (\<lambda>n. [char_of (n::nat)]) [9, 10, 11, 12, 13, 32] @
     map (map (char_of :: nat \<Rightarrow> char))
       [[0xC2, 0x85], [0xC2, 0xA0], [0xE1, 0x9A, 0x80], [0xE2, 0x80, 0x80], [0xE2, 0x80, 0x81],
        [0xE2, 0x80, 0x82], [0xE2, 0x80, 0x83], [0xE2, 0x80, 0x84], [0xE2, 0x80, 0x85],
        [0xE2, 0x80, 0x86], [0xE2, 0x80, 0x87], [0xE2, 0x80, 0x88], [0xE2, 0x80, 0x89],
        [0xE2, 0x80, 0x8A], [0xE2, 0x80, 0xA8], [0xE2, 0x80, 0xA9], [0xE2, 0x80, 0xAF],
        [0xE2, 0x81, 0x9F], [0xE3, 0x80, 0x80]]"

text \<open>The first listed byte sequence that starts the string, if any.\<close>

definition starting :: "string list \<Rightarrow> string \<Rightarrow> string option" where
  "starting ws s = find (\<lambda>w. prefix w s) ws"

function strip_starting :: "string list \<Rightarrow> string \<Rightarrow> string" where
  "strip_starting ws s =
     (case starting ws s of
        None \<Rightarrow> s
      | Some w \<Rightarrow> if w = [] then s else strip_starting ws (drop (length w) s))"
  by pat_completeness auto
termination
  by (relation "measure (\<lambda>(ws, s). length s)")
    (auto simp: starting_def find_Some_iff prefix_def)

declare strip_starting.simps [simp del]

definition trim_start :: "string \<Rightarrow> string" where
  "trim_start s = strip_starting ws_encodings s"

definition trim_end :: "string \<Rightarrow> string" where
  "trim_end s = rev (strip_starting (map rev ws_encodings) (rev s))"

definition trim :: "string \<Rightarrow> string" where
  "trim s = trim_end (trim_start s)"

text \<open>Decimal output of \<^verbatim>\<open>format!\<close>: \<open>dec\<close> for \<^verbatim>\<open>{}\<close>, \<open>zpad\<close> for a zero-padded width.\<close>

definition digit_char :: "nat \<Rightarrow> char" where
  "digit_char n = char_of (48 + n)"

fun dec :: "nat \<Rightarrow> string" where
  "dec n = (if n < 10 then [digit_char n] else dec (n div 10) @ [digit_char (n mod 10)])"

declare dec.simps [simp del]

definition zpad :: "nat \<Rightarrow> string \<Rightarrow> string" where
  "zpad w s = replicate (w - length s) (CHR ''0'') @ s"

text \<open>\<^verbatim>\<open>{:0w}\<close> of a signed integer puts the sign before the padding.\<close>

definition zpad_int :: "nat \<Rightarrow> int \<Rightarrow> string" where
  "zpad_int w i = (if i < 0 then CHR ''-'' # zpad (w - 1) (dec (nat (- i))) else zpad w (dec (nat i)))"

section \<open>Machine integers\<close>

type_synonym u32 = "32 word"
type_synonym u64 = "64 word"

definition i64_wrap :: "int \<Rightarrow> int" where
  "i64_wrap x = (x + 2 ^ 63) mod 2 ^ 64 - 2 ^ 63"

definition in_i64 :: "int \<Rightarrow> bool" where
  "in_i64 x \<longleftrightarrow> - (2 ^ 63) \<le> x \<and> x < 2 ^ 63"

section \<open>JSON values\<close>

datatype json =
    JNull
  | JBool bool
  | JInt int
  | JFloat "64 word"
  | JStr string
  | JArr "json list"
  | JObj "(string \<times> json) list"

fun as_str :: "json \<Rightarrow> string option" where
  "as_str (JStr s) = Some s"
| "as_str _ = None"

fun as_bool :: "json \<Rightarrow> bool option" where
  "as_bool (JBool b) = Some b"
| "as_bool _ = None"

fun as_i64 :: "json \<Rightarrow> int option" where
  "as_i64 (JInt i) = (if in_i64 i then Some i else None)"
| "as_i64 _ = None"

fun json_get :: "json \<Rightarrow> string \<Rightarrow> json option" where
  "json_get (JObj m) k = map_of m k"
| "json_get _ k = None"

section \<open>Maps\<close>

type_synonym 'v btmap = "(string \<times> 'v) list"
type_synonym ('k, 'v) hmap = "('k \<times> 'v) list"

fun bt_insert :: "string \<Rightarrow> 'v \<Rightarrow> 'v btmap \<Rightarrow> 'v btmap" where
  "bt_insert k v [] = [(k, v)]"
| "bt_insert k v ((k', v') # m) =
     (if k < k' then (k, v) # (k', v') # m
      else if k = k' then (k, v) # m
      else (k', v') # bt_insert k v m)"

definition bt_remove :: "string \<Rightarrow> 'v btmap \<Rightarrow> 'v btmap" where
  "bt_remove k m = filter (\<lambda>(k', v). k' \<noteq> k) m"

definition bt_ok :: "'v btmap \<Rightarrow> bool" where
  "bt_ok m \<longleftrightarrow> sorted_wrt (<) (map fst m)"

definition hm_ok :: "('k, 'v) hmap \<Rightarrow> bool" where
  "hm_ok m \<longleftrightarrow> distinct (map fst m)"

text \<open>\<^verbatim>\<open>collect()\<close> into a \<^verbatim>\<open>BTreeMap\<close>: later entries replace earlier ones.\<close>

definition bt_of_list :: "(string \<times> 'v) list \<Rightarrow> 'v btmap" where
  "bt_of_list kvs = fold (\<lambda>(k, v). bt_insert k v) kvs []"

section \<open>The dictionary interface\<close>

text \<open>What a client of a map relies on. A \<open>table\<close> promises what a lookup returns after an
  insertion and that the insertion keeps the representation invariant; the lemmas on a whole
  loop of insertions are proved once, here. A \<open>dict\<close> promises the same of a removal.\<close>

locale table =
  fixes get :: "'m \<Rightarrow> 'k \<Rightarrow> 'v option"
    and ins :: "'k \<Rightarrow> 'v \<Rightarrow> 'm \<Rightarrow> 'm"
    and ok :: "'m \<Rightarrow> bool"
  assumes get_ins: "ok m \<Longrightarrow> get (ins k v m) = (get m)(k := Some v)"
    and ok_ins: "ok m \<Longrightarrow> ok (ins k v m)"
begin

lemma ok_fold_ins: "ok m \<Longrightarrow> ok (fold (\<lambda>x. ins (key x) (val x)) xs m)"
  by (induction xs arbitrary: m) (auto intro: ok_ins)

lemma get_fold_ins:
  "ok m \<Longrightarrow> get (fold (\<lambda>x. ins (key x) (val x)) xs m) =
     (get m) ++ map_of (rev (map (\<lambda>x. (key x, val x)) xs))"
proof (induction xs arbitrary: m)
  case Nil
  then show ?case by simp
next
  case (Cons x xs)
  then have "get (fold (\<lambda>x. ins (key x) (val x)) (x # xs) m) =
      (get (ins (key x) (val x) m)) ++ map_of (rev (map (\<lambda>x. (key x, val x)) xs))"
    by (simp add: ok_ins)
  with Cons.prems show ?case
    by (auto simp: get_ins map_add_def fun_eq_iff split: option.splits)
qed

end

locale dict = table +
  fixes del :: "'b \<Rightarrow> 'a \<Rightarrow> 'a"
  assumes get_del: "ok m \<Longrightarrow> get (del k m) = (get m)(k := None)"
    and ok_del: "ok m \<Longrightarrow> ok (del k m)"

section \<open>Facts on maps\<close>

lemma bt_ok_simps [simp]:
  "bt_ok []"
  "bt_ok ((k, v) # m) \<longleftrightarrow> (\<forall>k' \<in> fst ` set m. k < k') \<and> bt_ok m"
  by (auto simp: bt_ok_def)

lemma fst_set_bt_insert [simp]: "fst ` set (bt_insert k v m) = insert k (fst ` set m)"
  by (induction k v m rule: bt_insert.induct) auto

lemma bt_ok_insert [simp]: "bt_ok m \<Longrightarrow> bt_ok (bt_insert k v m)"
  by (induction k v m rule: bt_insert.induct) auto

lemma bt_ok_remove [simp]: "bt_ok m \<Longrightarrow> bt_ok (bt_remove k m)"
  by (induction m) (auto simp: bt_remove_def)

lemma bt_ok_distinct: "bt_ok m \<Longrightarrow> distinct (map fst m)"
  unfolding bt_ok_def by (induction m) auto

lemma map_of_bt_insert [dict_simps]: "map_of (bt_insert k v m) = (map_of m)(k \<mapsto> v)"
  by (induction k v m rule: bt_insert.induct) (auto simp: fun_upd_def)

lemma map_of_bt_remove [dict_simps]: "map_of (bt_remove k m) = (map_of m)(k := None)"
  by (induction m) (auto simp: bt_remove_def)

interpretation bt: dict map_of bt_insert bt_ok bt_remove
  by unfold_locales (auto simp: dict_simps)

interpretation hm: dict map_of AList.update hm_ok AList.delete
  by unfold_locales
    (auto simp: hm_ok_def AList.update_conv' AList.delete_conv' AList.distinct_update
      AList.distinct_delete)

lemma bt_of_list_ok [simp]: "bt_ok (bt_of_list kvs)"
  unfolding bt_of_list_def using bt.ok_fold_ins [of "[]" fst snd kvs] by (simp add: split_def)

lemma map_of_bt_of_list [dict_simps]: "map_of (bt_of_list kvs) = map_of (rev kvs)"
  unfolding bt_of_list_def using bt.get_fold_ins [of "[]" fst snd kvs] by (simp add: split_def)

lemma map_of_rev_distinct: "hm_ok m \<Longrightarrow> map_of (rev m) = map_of m"
  using map_of_inject_set [of "rev m" m] by (simp add: hm_ok_def rev_map [symmetric])

text \<open>A sorted association list is determined by its lookups.\<close>

lemma bt_eqI: "bt_ok m \<Longrightarrow> bt_ok m' \<Longrightarrow> map_of m = map_of m' \<Longrightarrow> m = m'"
proof (induction m arbitrary: m')
  case Nil
  then show ?case by (cases m') (auto simp: fun_eq_iff split: if_splits)
next
  case (Cons kv m)
  obtain k v where kv: "kv = (k, v)" by force
  from Cons.prems(3) kv have k': "map_of m' k = Some v" by (metis map_of_Cons_code(2))
  then obtain k2 v2 m2 where m': "m' = (k2, v2) # m2" by (cases m') auto
  have "k2 = k"
  proof (rule ccontr)
    assume ne: "k2 \<noteq> k"
    from ne k' m' have "map_of m2 k = Some v" by simp
    then have "k \<in> fst ` set m2" by (metis domI dom_map_of_conv_image_fst)
    with Cons.prems(2) m' have lt: "k2 < k" by auto
    have "map_of ((k, v) # m) k2 = map_of ((k2, v2) # m2) k2" using Cons.prems(3) kv m' by metis
    then have "map_of ((k, v) # m) k2 = Some v2" by simp
    with ne have "map_of m k2 = Some v2" by (simp split: if_splits)
    then have "k2 \<in> fst ` set m" by (metis domI dom_map_of_conv_image_fst)
    with Cons.prems(1) kv have "k < k2" by auto
    with lt show False by simp
  qed
  moreover have "v2 = v" using k' m' \<open>k2 = k\<close> by simp
  moreover have "m = m2"
  proof (rule Cons.IH)
    show "bt_ok m" "bt_ok m2" using Cons.prems kv m' by auto
    have "map_of m k = None" "map_of m2 k = None"
      using Cons.prems kv m' \<open>k2 = k\<close> by (auto simp: map_of_eq_None_iff)
    with Cons.prems(3) kv m' \<open>k2 = k\<close> \<open>v2 = v\<close> show "map_of m = map_of m2"
      by (auto simp: fun_eq_iff split: if_splits) metis
  qed
  ultimately show ?case using kv m' by simp
qed

section \<open>Facts on strings\<close>

lemma append_less_same_length [str_simps]:
  fixes xs ys us vs :: "'a :: linorder list"
  assumes "length xs = length ys"
  shows "xs @ us < ys @ vs \<longleftrightarrow> xs < ys \<or> xs = ys \<and> us < vs"
  using assms by (induction xs ys rule: list_induct2) auto

lemma append_less_prefix [simp]: "(xs :: 'a :: linorder list) @ us < xs @ vs \<longleftrightarrow> us < vs"
  by (induction xs) auto

lemma digit_char_less: "a < 10 \<Longrightarrow> b < 10 \<Longrightarrow> digit_char a < digit_char b \<longleftrightarrow> a < b"
  by (simp add: digit_char_def less_char_def)

lemma digit_char_inj: "a < 10 \<Longrightarrow> b < 10 \<Longrightarrow> digit_char a = digit_char b \<longleftrightarrow> a = b"
  by (auto simp: digit_char_def dest!: arg_cong [where f = "of_char :: char \<Rightarrow> nat"])

text \<open>The fixed-width decimal expansion, the reference for zero-padded output.\<close>

fun fixdec :: "nat \<Rightarrow> nat \<Rightarrow> string" where
  "fixdec 0 n = []"
| "fixdec (Suc w) n = fixdec w (n div 10) @ [digit_char (n mod 10)]"

lemma length_fixdec [simp]: "length (fixdec w n) = w"
  by (induction w arbitrary: n) auto

lemma fixdec_less:
  "fixdec w a < fixdec w b \<longleftrightarrow> a mod 10 ^ w < b mod 10 ^ w" (is "?L w a b")
  and fixdec_eq: "fixdec w a = fixdec w b \<longleftrightarrow> a mod 10 ^ w = b mod 10 ^ w" (is "?E w a b")
proof -
  have "?L w a b \<and> ?E w a b"
  proof (induction w arbitrary: a b)
    case 0
    then show ?case by simp
  next
    case (Suc w)
    have m: "n mod 10 ^ Suc w = 10 * (n div 10 mod 10 ^ w) + n mod 10" for n :: nat
      by (simp add: mod_mult2_eq)
    have d: "x mod 10 < 10" for x :: nat by simp
    have lt: "10 * p + r < 10 * q + s \<longleftrightarrow> p < q \<or> p = q \<and> r < s"
      if "r < 10" "s < 10" for p q r s :: nat using that by auto
    have eq: "10 * p + r = 10 * q + s \<longleftrightarrow> p = q \<and> r = s"
      if "r < 10" "s < 10" for p q r s :: nat using that by presburger
    have "?L (Suc w) a b"
      unfolding m lt [OF d d] using Suc.IH
      by (simp add: append_less_same_length digit_char_less)
    moreover have "?E (Suc w) a b"
      unfolding m eq [OF d d] using Suc.IH by (simp add: digit_char_inj)
    ultimately show ?case by blast
  qed
  then show "?L w a b" "?E w a b" by blast+
qed

lemma fixdec_small: "n < 10 \<Longrightarrow> fixdec (Suc w) n = replicate w (CHR ''0'') @ [digit_char n]"
proof -
  have "digit_char 0 = CHR ''0''" by code_simp
  then have z: "fixdec w 0 = replicate w (CHR ''0'')" for w
    by (induction w) (simp_all add: replicate_append_same)
  show "n < 10 \<Longrightarrow> fixdec (Suc w) n = replicate w (CHR ''0'') @ [digit_char n]"
    by (simp add: z)
qed

lemma length_dec_bound: "n < 10 ^ w \<Longrightarrow> 0 < w \<Longrightarrow> length (dec n) \<le> w"
proof (induction n arbitrary: w rule: dec.induct)
  case (1 n)
  show ?case
  proof (cases "n < 10")
    case True
    with "1.prems" show ?thesis by (simp add: dec.simps)
  next
    case False
    then obtain v where w: "w = Suc v" using "1.prems"(2) by (cases w) auto
    with False "1.prems"(1) have "n div 10 < 10 ^ v" "0 < v"
      by (auto simp: less_mult_imp_div_less mult.commute intro: Nat.gr0I)
    with "1.IH" False w show ?thesis by (simp add: dec.simps [of n])
  qed
qed

lemma zpad_dec: "n < 10 ^ w \<Longrightarrow> 0 < w \<Longrightarrow> zpad w (dec n) = fixdec w n"
proof (induction n arbitrary: w rule: dec.induct)
  case (1 n)
  then obtain v where w: "w = Suc v" by (cases w) auto
  show ?case
  proof (cases "n < 10")
    case True
    with w show ?thesis by (simp add: dec.simps zpad_def fixdec_small del: fixdec.simps)
  next
    case False
    with w "1.prems"(1) have v: "n div 10 < 10 ^ v" "0 < v"
      by (auto simp: less_mult_imp_div_less mult.commute intro: Nat.gr0I)
    with "1.IH" False have "zpad v (dec (n div 10)) = fixdec v (n div 10)" by blast
    moreover have "length (dec (n div 10)) \<le> v" using v by (rule length_dec_bound)
    ultimately show ?thesis using w False by (simp add: dec.simps [of n] zpad_def)
  qed
qed

section \<open>Facts on integers\<close>

lemma i64_wrap_id [simp]: "in_i64 x \<Longrightarrow> i64_wrap x = x"
  by (simp add: i64_wrap_def in_i64_def)

lemma in_i64_wrap [simp]: "in_i64 (i64_wrap x)"
  by (simp add: i64_wrap_def in_i64_def)

section \<open>Facts on optional and filtered lists\<close>

lemma set_map_filter: "set (List.map_filter f xs) = {y. \<exists>x \<in> set xs. f x = Some y}"
  by (force simp: List.map_filter_def)

end
