(* ===== verification/Hlc.thy ===== *)
theory Hlc
  imports Prelude
begin

text \<open>
  The hybrid logical clock of the workspace registry
  (\<^verbatim>\<open>src/crates/doc/src/registry.rs\<close>, section HLC): the string encoding of a clock, the
  comparison of two clocks, the clock source of a replica, and the observation of a
  clock that another device wrote (\<^verbatim>\<open>registry/sidebar_sections.rs\<close>).

  A replica stamps every write with a string. The lemmas show that for clocks whose
  milliseconds have at most 13 digits and whose counter has at most 6 the order of the
  strings is the order of (milliseconds, counter, device), that the source never repeats
  or regresses whatever the wall clock does, and that a write after an observation is
  newer than what was observed.
\<close>

section \<open>Definitions\<close>

definition encode_hlc :: "int \<Rightarrow> u32 \<Rightarrow> string \<Rightarrow> string" where
  "encode_hlc ms counter device =
     zpad_int 13 ms @ ''-'' @ zpad 6 (dec (unat counter)) @ ''-'' @ device"

fun hlc_newer :: "string \<Rightarrow> string option \<Rightarrow> bool" where
  "hlc_newer a None = True"
| "hlc_newer a (Some b) = (a > b)"

record HlcClock =
  last_ms :: int
  counter :: u32

definition HlcClock_default :: HlcClock where
  "HlcClock_default = \<lparr>last_ms = 0, counter = 0\<rparr>"

definition hlc_tick :: "HlcClock \<Rightarrow> int \<Rightarrow> HlcClock" where
  "hlc_tick c now_ms =
     (if now_ms > last_ms c then c\<lparr>last_ms := now_ms, counter := 0\<rparr>
      else (let c1 = c\<lparr>counter := counter c + 1\<rparr> in
        if counter c1 > 999999 then c1\<lparr>last_ms := i64_wrap (last_ms c1 + 1), counter := 0\<rparr>
        else c1))"

definition hlc_next :: "HlcClock \<Rightarrow> int \<Rightarrow> string \<Rightarrow> string \<times> HlcClock" where
  "hlc_next c now_ms device =
     (let c' = hlc_tick c now_ms in (encode_hlc (last_ms c') (counter c') device, c'))"

text \<open>\<^verbatim>\<open>str::parse\<close> for decimal integers: an optional sign, at least one digit, and a value in
  the range of the type; \<^verbatim>\<open>splitn(3, '-')\<close> of a clock string.\<close>

definition char_digit :: "char \<Rightarrow> nat option" where
  "char_digit ch = (let n = of_char ch :: nat in if 48 \<le> n \<and> n \<le> 57 then Some (n - 48) else None)"

fun parse_digits :: "nat \<Rightarrow> string \<Rightarrow> nat option" where
  "parse_digits acc [] = Some acc"
| "parse_digits acc (ch # s) =
     (case char_digit ch of None \<Rightarrow> None | Some d \<Rightarrow> parse_digits (10 * acc + d) s)"

definition parse_nat :: "string \<Rightarrow> nat option" where
  "parse_nat s = (if s = [] then None else parse_digits 0 s)"

definition parse_i64 :: "string \<Rightarrow> int option" where
  "parse_i64 s =
     (let r = (case s of
         [] \<Rightarrow> None
       | ch # s' \<Rightarrow>
           if ch = CHR ''-'' then map_option (\<lambda>n. - int n) (parse_nat s')
           else if ch = CHR ''+'' then map_option int (parse_nat s')
           else map_option int (parse_nat s))
      in case r of None \<Rightarrow> None | Some i \<Rightarrow> if in_i64 i then Some i else None)"

definition parse_u32 :: "string \<Rightarrow> u32 option" where
  "parse_u32 s =
     (let r = (case s of
         [] \<Rightarrow> None
       | ch # s' \<Rightarrow> if ch = CHR ''+'' then parse_nat s' else parse_nat s)
      in case r of None \<Rightarrow> None | Some n \<Rightarrow> if n < 2 ^ 32 then Some (of_nat n) else None)"

fun split_first :: "char \<Rightarrow> string \<Rightarrow> string \<times> string option" where
  "split_first sep [] = ([], None)"
| "split_first sep (ch # s) =
     (if ch = sep then ([], Some s)
      else (case split_first sep s of (a, r) \<Rightarrow> (ch # a, r)))"

definition parse_hlc :: "string \<Rightarrow> (int \<times> u32) option" where
  "parse_hlc clock =
     (case split_first (CHR ''-'') clock of
        (p1, None) \<Rightarrow> None
      | (p1, Some rest) \<Rightarrow>
          (case (parse_i64 p1, parse_u32 (fst (split_first (CHR ''-'') rest))) of
             (Some ms, Some cnt) \<Rightarrow> Some (ms, cnt)
           | _ \<Rightarrow> None))"

definition observe_clock :: "string \<Rightarrow> HlcClock \<Rightarrow> HlcClock" where
  "observe_clock clock c =
     (case parse_hlc clock of
        None \<Rightarrow> c
      | Some (ms, cnt) \<Rightarrow>
          if ms > last_ms c \<or> (ms = last_ms c \<and> cnt > counter c)
          then c\<lparr>last_ms := ms, counter := cnt\<rparr> else c)"

text \<open>The clocks a replica hands out over a run of wall-clock readings.\<close>

fun hlc_run :: "HlcClock \<Rightarrow> string \<Rightarrow> int list \<Rightarrow> string list \<times> HlcClock" where
  "hlc_run c device [] = ([], c)"
| "hlc_run c device (now # nows) =
     (case hlc_next c now device of
        (h, c1) \<Rightarrow> (case hlc_run c1 device nows of (hs, c2) \<Rightarrow> (h # hs, c2)))"

text \<open>The range in which the fixed-width encoding is faithful.\<close>

definition ms_ok :: "int \<Rightarrow> bool" where
  "ms_ok ms \<longleftrightarrow> 0 \<le> ms \<and> ms < 10 ^ 13"

definition clock_ok :: "HlcClock \<Rightarrow> bool" where
  "clock_ok c \<longleftrightarrow> ms_ok (last_ms c) \<and> counter c \<le> 999999"

section \<open>The order of encoded clocks\<close>

lemma encode_hlc_fix:
  assumes "ms_ok ms" "cnt \<le> 999999"
  shows "encode_hlc ms cnt d =
    fixdec 13 (nat ms) @ CHR ''-'' # fixdec 6 (unat cnt) @ CHR ''-'' # d"
proof -
  have "nat ms < 10 ^ 13" using assms(1) by (simp add: ms_ok_def nat_less_iff)
  moreover have "unat cnt < 10 ^ 6"
    using assms(2) by (simp add: word_le_nat_alt)
  ultimately show ?thesis
    using assms(1) by (simp add: encode_hlc_def zpad_int_def ms_ok_def zpad_dec)
qed

lemma fix_ms:
  assumes "ms_ok ms" "ms_ok ms'"
  shows "fixdec 13 (nat ms) < fixdec 13 (nat ms') \<longleftrightarrow> ms < ms'"
    and "fixdec 13 (nat ms) = fixdec 13 (nat ms') \<longleftrightarrow> ms = ms'"
proof -
  have "nat ms < 10 ^ 13" "nat ms' < 10 ^ 13"
    using assms by (simp_all add: ms_ok_def nat_less_iff)
  then have "nat ms mod 10 ^ 13 = nat ms" "nat ms' mod 10 ^ 13 = nat ms'"
    by (simp_all only: mod_less)
  then show "fixdec 13 (nat ms) < fixdec 13 (nat ms') \<longleftrightarrow> ms < ms'"
    and "fixdec 13 (nat ms) = fixdec 13 (nat ms') \<longleftrightarrow> ms = ms'"
    unfolding fixdec_less fixdec_eq using assms by (auto simp: ms_ok_def)
qed

lemma fix_counter:
  fixes cnt cnt' :: u32
  assumes "cnt \<le> 999999" "cnt' \<le> 999999"
  shows "fixdec 6 (unat cnt) < fixdec 6 (unat cnt') \<longleftrightarrow> cnt < cnt'"
    and "fixdec 6 (unat cnt) = fixdec 6 (unat cnt') \<longleftrightarrow> cnt = cnt'"
proof -
  have "unat cnt < 10 ^ 6" "unat cnt' < 10 ^ 6"
    using assms by (simp_all add: word_le_nat_alt)
  then have "unat cnt mod 10 ^ 6 = unat cnt" "unat cnt' mod 10 ^ 6 = unat cnt'"
    by (simp_all only: mod_less)
  then show "fixdec 6 (unat cnt) < fixdec 6 (unat cnt') \<longleftrightarrow> cnt < cnt'"
    and "fixdec 6 (unat cnt) = fixdec 6 (unat cnt') \<longleftrightarrow> cnt = cnt'"
    unfolding fixdec_less fixdec_eq by (simp_all only: word_less_nat_alt word_unat_eq_iff)
qed

lemma encode_hlc_less_iff:
  assumes "ms_ok ms" "ms_ok ms'" "cnt \<le> 999999" "cnt' \<le> 999999"
  shows "encode_hlc ms cnt d < encode_hlc ms' cnt' d' \<longleftrightarrow>
    ms < ms' \<or> ms = ms' \<and> (cnt < cnt' \<or> cnt = cnt' \<and> d < d')"
  using assms
  by (simp add: encode_hlc_fix append_less_same_length fix_ms fix_counter)

lemma encode_hlc_inj:
  assumes "ms_ok ms" "ms_ok ms'" "cnt \<le> 999999" "cnt' \<le> 999999"
  shows "encode_hlc ms cnt d = encode_hlc ms' cnt' d' \<longleftrightarrow> ms = ms' \<and> cnt = cnt' \<and> d = d'"
  using encode_hlc_less_iff [OF assms, of d d'] encode_hlc_less_iff [OF assms(2,1,4,3), of d' d]
  by (metis less_irrefl linorder_less_linear)

section \<open>The clock source\<close>

lemma counter_Suc:
  fixes n :: u32
  assumes "n \<le> 999999"
  shows "n < n + 1" "\<not> 999999 < n + 1 \<Longrightarrow> n + 1 \<le> 999999"
proof -
  have "unat n \<le> 999999" using assms by (simp add: word_le_nat_alt)
  then have "unat (n + 1) = unat n + 1" by (simp add: unat_word_ariths)
  then show "n < n + 1" by (simp add: word_less_nat_alt)
qed simp

lemma hlc_tick_cases:
  assumes "clock_ok c" "ms_ok (last_ms (hlc_tick c now))"
  shows "clock_ok (hlc_tick c now)"
    and "last_ms c < last_ms (hlc_tick c now) \<or>
     last_ms c = last_ms (hlc_tick c now) \<and> counter c < counter (hlc_tick c now)"
proof -
  have i: "i64_wrap (last_ms c + 1) = last_ms c + 1"
    using assms(1) by (simp add: clock_ok_def ms_ok_def in_i64_def)
  have w: "counter c < counter c + 1" "\<not> 999999 < counter c + 1 \<Longrightarrow> counter c + 1 \<le> 999999"
    using assms(1) counter_Suc by (auto simp: clock_ok_def)
  show "clock_ok (hlc_tick c now)"
    using assms w by (auto simp: hlc_tick_def clock_ok_def Let_def)
  show "last_ms c < last_ms (hlc_tick c now) \<or>
     last_ms c = last_ms (hlc_tick c now) \<and> counter c < counter (hlc_tick c now)"
    using i w(1) by (auto simp: hlc_tick_def Let_def)
qed

lemma hlc_tick_bounds:
  assumes "clock_ok c" "now \<le> M" "last_ms c \<le> M"
  shows "last_ms c \<le> last_ms (hlc_tick c now) \<and> last_ms (hlc_tick c now) \<le> M + 1"
proof -
  have "i64_wrap (last_ms c + 1) = last_ms c + 1"
    using assms(1) by (simp add: clock_ok_def ms_ok_def in_i64_def)
  with assms show ?thesis by (auto simp: hlc_tick_def Let_def)
qed

lemma hlc_next_newer:
  assumes "clock_ok c" "hlc_next c now dev = (h, c')" "ms_ok (last_ms c')"
  shows "encode_hlc (last_ms c) (counter c) d < h"
    and "clock_ok c'" and "h = encode_hlc (last_ms c') (counter c') dev"
proof -
  from assms(2) have c': "c' = hlc_tick c now" "h = encode_hlc (last_ms c') (counter c') dev"
    by (auto simp: hlc_next_def Let_def)
  with hlc_tick_cases [OF assms(1), of now] assms(3)
  show "clock_ok c'" "h = encode_hlc (last_ms c') (counter c') dev"
    "encode_hlc (last_ms c) (counter c) d < h"
    using assms(1) by (auto simp: encode_hlc_less_iff clock_ok_def)
qed

lemma hlc_run_Cons:
  "hlc_run c dev (now # nows) =
     (encode_hlc (last_ms (hlc_tick c now)) (counter (hlc_tick c now)) dev #
        fst (hlc_run (hlc_tick c now) dev nows), snd (hlc_run (hlc_tick c now) dev nows))"
  by (simp add: hlc_next_def Let_def split: prod.splits)

lemma hlc_run_sorted:
  assumes "clock_ok c" "\<forall>now \<in> set nows. now \<le> M" "last_ms c \<le> M"
    "M + int (length nows) < 10 ^ 13"
  shows "sorted_wrt (<) (encode_hlc (last_ms c) (counter c) dev # fst (hlc_run c dev nows))"
  using assms
proof (induction nows arbitrary: c M)
  case Nil
  then show ?case by simp
next
  case (Cons now nows)
  let ?c = "hlc_tick c now"
  let ?h = "encode_hlc (last_ms ?c) (counter ?c) dev"
  have b: "last_ms c \<le> last_ms ?c" "last_ms ?c \<le> M + 1"
    using hlc_tick_bounds [OF Cons.prems(1), of now M] Cons.prems(2,3) by auto
  have ok: "ms_ok (last_ms ?c)"
    using b Cons.prems(1,4) by (simp add: clock_ok_def ms_ok_def)
  have s: "sorted_wrt (<) (?h # fst (hlc_run ?c dev nows))"
    using Cons.IH [of ?c "M + 1"] hlc_tick_cases(1) [OF Cons.prems(1) ok] b Cons.prems(2,4)
    by force
  have "encode_hlc (last_ms c) (counter c) dev < ?h"
    using hlc_next_newer(1) [OF Cons.prems(1), of now dev ?h ?c dev] ok
    by (simp add: hlc_next_def Let_def)
  with s show ?case unfolding hlc_run_Cons by (auto intro: less_trans)
qed

section \<open>Observing a clock\<close>

lemma char_digit_digit_char [simp]: "n < 10 \<Longrightarrow> char_digit (digit_char n) = Some n"
  by (simp add: char_digit_def digit_char_def)

lemma digit_char_not_dash [simp]: "n < 10 \<Longrightarrow> digit_char n \<noteq> CHR ''-''"
  "n < 10 \<Longrightarrow> digit_char n \<noteq> CHR ''+''"
  by (auto simp: digit_char_def dest!: arg_cong [where f = "of_char :: char \<Rightarrow> nat"])

lemma parse_digits_append:
  "parse_digits acc (s @ t) =
     (case parse_digits acc s of None \<Rightarrow> None | Some a \<Rightarrow> parse_digits a t)"
  by (induction s arbitrary: acc) (auto split: option.splits)

lemma parse_fixdec: "parse_digits acc (fixdec w n) = Some (acc * 10 ^ w + n mod 10 ^ w)"
proof (induction w arbitrary: acc n)
  case 0
  then show ?case by simp
next
  case (Suc w)
  have "n mod 10 ^ Suc w = 10 * (n div 10 mod 10 ^ w) + n mod 10"
    by (simp add: mod_mult2_eq)
  with Suc show ?case by (simp add: parse_digits_append algebra_simps)
qed

lemma set_fixdec: "set (fixdec w n) \<subseteq> digit_char ` {..<10}"
  by (induction w arbitrary: n) auto

lemma split_first_append:
  "sep \<notin> set a \<Longrightarrow> split_first sep (a @ sep # s) = (a, Some s)"
  by (induction a) auto

lemma dash_notin_fixdec [simp]: "CHR ''-'' \<notin> set (fixdec w n)"
proof
  assume "CHR ''-'' \<in> set (fixdec w n)"
  then obtain k where "k < 10" "CHR ''-'' = digit_char k" using set_fixdec by blast
  then show False using digit_char_not_dash(1) by metis
qed

lemma fixdec_Cons: "0 < w \<Longrightarrow> \<exists>k s. k < 10 \<and> fixdec w n = digit_char k # s"
proof -
  assume "0 < w"
  then obtain ch s where eq: "fixdec w n = ch # s"
    by (cases "fixdec w n") (auto dest: arg_cong [where f = length])
  then have "ch \<in> digit_char ` {..<10}" using set_fixdec [of w n] by auto
  with eq show ?thesis by auto
qed

lemma parse_nat_fixdec: "0 < w \<Longrightarrow> n < 10 ^ w \<Longrightarrow> parse_nat (fixdec w n) = Some n"
  using parse_fixdec [of 0 w n] length_fixdec [of w n] by (auto simp: parse_nat_def simp del: length_fixdec)

lemma parse_i64_fixdec:
  assumes "0 < w" "n < 10 ^ w" "in_i64 (int n)"
  shows "parse_i64 (fixdec w n) = Some (int n)"
proof -
  obtain k s where k: "k < 10" "fixdec w n = digit_char k # s" using fixdec_Cons [OF assms(1)] by blast
  moreover have "parse_nat (fixdec w n) = Some n" using assms(1,2) by (rule parse_nat_fixdec)
  ultimately show ?thesis using assms(3) by (simp add: parse_i64_def Let_def)
qed

lemma parse_u32_fixdec:
  assumes "0 < w" "n < 10 ^ w" "n < 2 ^ 32"
  shows "parse_u32 (fixdec w n) = Some (of_nat n)"
proof -
  obtain k s where k: "k < 10" "fixdec w n = digit_char k # s" using fixdec_Cons [OF assms(1)] by blast
  moreover have "parse_nat (fixdec w n) = Some n" using assms(1,2) by (rule parse_nat_fixdec)
  ultimately show ?thesis using assms(3) by (simp add: parse_u32_def Let_def)
qed

lemma parse_encode_hlc:
  assumes "ms_ok ms" "cnt \<le> 999999"
  shows "parse_hlc (encode_hlc ms cnt d) = Some (ms, cnt)"
proof -
  have m: "nat ms < 10 ^ 13" "in_i64 (int (nat ms))" "int (nat ms) = ms"
    using assms(1) by (auto simp: ms_ok_def nat_less_iff in_i64_def)
  have c: "unat cnt < 10 ^ 6" "unat cnt < 2 ^ 32"
    using assms(2) by (simp_all add: word_le_nat_alt)
  have "parse_i64 (fixdec 13 (nat ms)) = Some ms"
    using parse_i64_fixdec [OF _ m(1,2)] m(3) by simp
  moreover have "parse_u32 (fixdec 6 (unat cnt)) = Some cnt"
    using parse_u32_fixdec [OF _ c] by simp
  ultimately show ?thesis
    unfolding encode_hlc_fix [OF assms] parse_hlc_def
    by (simp add: split_first_append del: fixdec.simps)
qed

lemma observe_clock_ok:
  assumes "clock_ok c" "ms_ok ms" "cnt \<le> 999999"
  shows "clock_ok (observe_clock (encode_hlc ms cnt d) c)"
    and "ms < last_ms (observe_clock (encode_hlc ms cnt d) c) \<or>
      ms = last_ms (observe_clock (encode_hlc ms cnt d) c) \<and>
      cnt \<le> counter (observe_clock (encode_hlc ms cnt d) c)"
    and "last_ms c \<le> last_ms (observe_clock (encode_hlc ms cnt d) c)"
  using assms by (auto simp: observe_clock_def parse_encode_hlc clock_ok_def)

section \<open>Properties\<close>

text \<open>C15: the comment of \<^verbatim>\<open>encode_hlc\<close>: the lexicographic order of two clock strings is the order of
  (milliseconds, counter, device), and two clocks are equal only when all three parts are,
  so two writers never tie. The hypotheses are the widths of the encoding: 13 and 6 digits.\<close>

theorem hlc_order_faithful:
  assumes "ms_ok ms" "ms_ok ms'" "cnt \<le> 999999" "cnt' \<le> 999999"
  shows "(encode_hlc ms cnt d < encode_hlc ms' cnt' d' \<longleftrightarrow>
      ms < ms' \<or> ms = ms' \<and> (cnt < cnt' \<or> cnt = cnt' \<and> d < d')) \<and>
    (encode_hlc ms cnt d = encode_hlc ms' cnt' d' \<longleftrightarrow> ms = ms' \<and> cnt = cnt' \<and> d = d')"
  using assms by (simp add: encode_hlc_less_iff encode_hlc_inj)

theorem hlc_order_faithful_witness:
  "encode_hlc 1700000000000 7 ''laptop'' < encode_hlc 1700000000000 10 ''phone''"
  using hlc_order_faithful [of 1700000000000 1700000000000 7 10 "''laptop''" "''phone''"]
  by (simp add: ms_ok_def)

text \<open>C14: the clock source never emits the same or an earlier clock twice: over any run of
  wall-clock readings, regressions and repetitions included, the emitted strings increase
  strictly, and all are newer than the clock the run started from. The hypothesis is that
  the readings leave room below 13 digits for one millisecond of carry per emission.\<close>

theorem hlc_never_regresses:
  assumes "clock_ok c" "\<forall>now \<in> set nows. now \<le> M" "last_ms c \<le> M"
    "M + int (length nows) < 10 ^ 13"
  shows "sorted_wrt (<) (encode_hlc (last_ms c) (counter c) dev # fst (hlc_run c dev nows))"
  using assms by (rule hlc_run_sorted)

theorem hlc_never_regresses_witness:
  "sorted_wrt (<) (encode_hlc 5 999999 ''a'' #
     fst (hlc_run \<lparr>last_ms = 5, counter = 999999\<rparr> ''a'' [3, 5, 9, 2]))"
  using hlc_never_regresses [of "\<lparr>last_ms = 5, counter = 999999\<rparr>" "[3, 5, 9, 2]" 9 "''a''"]
  by (simp add: clock_ok_def ms_ok_def del: hlc_run.simps)

text \<open>An edit made after observing a clock is newer than the observed one, also when the
  observed device's wall clock runs ahead of ours: after \<^verbatim>\<open>observe_sidebar_row\<close> has read any
  well-formed clock, the next emitted clock is strictly greater.\<close>

theorem observed_clock_is_beaten:
  assumes "clock_ok c" "ms_ok ms" "cnt \<le> 999999"
    and "hlc_next (observe_clock (encode_hlc ms cnt d) c) now dev = (h, c')"
    and "ms_ok (last_ms c')"
  shows "encode_hlc ms cnt d < h"
proof -
  let ?o = "observe_clock (encode_hlc ms cnt d) c"
  have ok: "clock_ok ?o" using observe_clock_ok(1) [OF assms(1-3)] .
  have "encode_hlc ms cnt d \<le> encode_hlc (last_ms ?o) (counter ?o) d"
    using observe_clock_ok(2) [OF assms(1-3), of d] ok assms(2,3)
    by (auto simp: le_less encode_hlc_less_iff clock_ok_def)
  also have "\<dots> < h" using hlc_next_newer(1) [OF ok assms(4,5)] .
  finally show ?thesis .
qed

theorem observed_clock_is_beaten_witness:
  "encode_hlc 1700000009999 3 ''ahead'' <
     fst (hlc_next (observe_clock (encode_hlc 1700000009999 3 ''ahead'') HlcClock_default)
       1700000000000 ''me'')"
proof -
  let ?o = "observe_clock (encode_hlc 1700000009999 3 ''ahead'') HlcClock_default"
  have p: "parse_hlc (encode_hlc 1700000009999 3 ''ahead'') = Some (1700000009999, 3)"
    by (rule parse_encode_hlc) (simp_all add: ms_ok_def)
  show ?thesis
    using observed_clock_is_beaten [of HlcClock_default 1700000009999 3 "''ahead''" 1700000000000
        "''me''" "fst (hlc_next ?o 1700000000000 ''me'')" "snd (hlc_next ?o 1700000000000 ''me'')"]
    by (simp add: clock_ok_def ms_ok_def HlcClock_default_def observe_clock_def p hlc_next_def
        hlc_tick_def Let_def)
qed

end
