(* ===== verification/Convergence.thy ===== *)
theory Convergence
  imports Main
begin

text \<open>
  The interface between a replicated record and its transport: operations that commute and
  are idempotent on well-formed states. A transport that reorders, repeats and re-pushes
  operations then cannot make two replicas differ. The result is proved once, for any such
  record, and interpreted on the registry's row in \<open>Registry_Row\<close>.
\<close>

locale replicated =
  fixes app :: "'op \<Rightarrow> 's \<Rightarrow> 's"
    and compat :: "'op \<Rightarrow> 'op \<Rightarrow> bool"
    and ok :: "'s \<Rightarrow> bool"
  assumes ok_app: "ok s \<Longrightarrow> compat a a \<Longrightarrow> ok (app a s)"
    and commute: "ok s \<Longrightarrow> compat a a \<Longrightarrow> compat b b \<Longrightarrow> compat a b \<Longrightarrow>
      app a (app b s) = app b (app a s)"
    and idem: "ok s \<Longrightarrow> compat a a \<Longrightarrow> app a (app a s) = app a s"
begin

definition coherent :: "'op set \<Rightarrow> bool" where
  "coherent A \<longleftrightarrow> (\<forall>a \<in> A. \<forall>b \<in> A. compat a b)"

lemma ok_fold: "ok s \<Longrightarrow> coherent (set xs) \<Longrightarrow> ok (fold app xs s)"
  by (induction xs arbitrary: s) (auto simp: coherent_def ok_app)

lemma fold_app_commute:
  "ok s \<Longrightarrow> coherent (insert a (set xs)) \<Longrightarrow> fold app xs (app a s) = app a (fold app xs s)"
proof (induction xs arbitrary: s)
  case Nil
  then show ?case by simp
next
  case (Cons x xs)
  have c: "compat a a" "compat x x" "compat x a" "coherent (insert a (set xs))"
    using Cons.prems(2) by (auto simp: coherent_def)
  have "fold app (x # xs) (app a s) = fold app xs (app a (app x s))"
    using commute [OF Cons.prems(1) c(2,1,3)] by simp
  also have "\<dots> = app a (fold app (x # xs) s)"
    using Cons.IH [OF ok_app [OF Cons.prems(1) c(2)] c(4)] by simp
  finally show ?case .
qed

lemma fold_absorbs:
  assumes "ok s" "coherent (set xs)" "a \<in> set xs"
  shows "app a (fold app xs s) = fold app xs s"
proof -
  obtain us vs where xs: "xs = us @ a # vs" using assms(3) by (meson split_list)
  let ?t = "fold app us s"
  have t: "ok ?t" using assms(1,2) xs by (auto intro!: ok_fold simp: coherent_def)
  have a: "compat a a" and v: "coherent (insert a (set vs))"
    using assms(2) xs by (auto simp: coherent_def)
  have "app a (fold app xs s) = app a (fold app vs (app a ?t))" using xs by simp
  also have "\<dots> = fold app vs (app a (app a ?t))"
    using fold_app_commute [OF ok_app [OF t a] v] by simp
  also have "\<dots> = fold app xs s" using idem [OF t a] xs by simp
  finally show ?thesis .
qed

lemma fold_absorbs_all:
  "ok s \<Longrightarrow> coherent (set xs) \<Longrightarrow> set ys \<subseteq> set xs \<Longrightarrow>
   fold app ys (fold app xs s) = fold app xs s"
  by (induction ys) (auto simp: fold_absorbs)

lemma fold_fold_commute:
  "ok s \<Longrightarrow> coherent (set xs \<union> set ys) \<Longrightarrow>
   fold app ys (fold app xs s) = fold app xs (fold app ys s)"
proof (induction ys arbitrary: s)
  case Nil
  then show ?case by simp
next
  case (Cons y ys)
  have c: "coherent (insert y (set xs))" "compat y y" "coherent (set xs \<union> set ys)"
    using Cons.prems(2) by (auto simp: coherent_def)
  have "fold app (y # ys) (fold app xs s) = fold app ys (fold app xs (app y s))"
    using fold_app_commute [OF Cons.prems(1) c(1)] by simp
  also have "\<dots> = fold app xs (fold app (y # ys) s)"
    using Cons.IH [OF ok_app [OF Cons.prems(1) c(2)] c(3)] by simp
  finally show ?case .
qed

theorem converge:
  assumes "ok s" "set xs = set ys" "coherent (set xs)"
  shows "fold app xs s = fold app ys s"
proof -
  have "fold app xs s = fold app ys (fold app xs s)"
    using fold_absorbs_all [OF assms(1,3)] assms(2) by simp
  also have "\<dots> = fold app xs (fold app ys s)"
    using fold_fold_commute [OF assms(1)] assms(2,3) by simp
  also have "\<dots> = fold app ys s"
    using fold_absorbs_all [OF assms(1), of ys xs] assms(2,3) by simp
  finally show ?thesis .
qed

end

end
