(* ===== verification/Registry_Row.thy ===== *)
theory Registry_Row
  imports Hlc Convergence
begin

text \<open>
  The rows of the workspace registry and the merge of one operation into a row
  (\<^verbatim>\<open>src/crates/doc/src/registry.rs\<close>, section rows and ops): \<^verbatim>\<open>RegistryRow\<close>, \<^verbatim>\<open>RowOp\<close>, \<open>apply_op\<close>
  and the re-seed operation. The lemmas show that the merge is a last-writer-wins register
  per field, that its change flag is exact, that re-applying an operation is a no-op, and
  that coherent sets of field writes converge in any order and multiplicity.
\<close>

section \<open>Rows and operations\<close>

record RegistryRow =
  row_kind :: string
  row_id :: string
  row_seq :: u64
  row_deleted :: bool
  row_del_hlc :: "string option"
  row_fields :: "json btmap"
  row_clocks :: "string btmap"

datatype OpKind = OpUpsert | OpUpdate | OpDelete

record RowOp =
  op_kind :: string
  op_id :: string
  op_op :: OpKind
  op_set :: "json btmap option"
  op_hlc :: string
  op_clocks :: "string btmap option"

definition row_tombstone :: "string \<Rightarrow> string \<Rightarrow> string \<Rightarrow> RegistryRow" where
  "row_tombstone kind ident hlc =
     \<lparr>row_kind = kind, row_id = ident, row_seq = 0, row_deleted = True, row_del_hlc = Some hlc,
      row_fields = [], row_clocks = []\<rparr>"

definition max_clock :: "RegistryRow \<Rightarrow> string option" where
  "max_clock row =
     fold (\<lambda>(_, clock) m. case m of
             None \<Rightarrow> Some clock
           | Some x \<Rightarrow> if clock > x then Some clock else m)
       (row_clocks row) (row_del_hlc row)"

definition clock_for :: "RowOp \<Rightarrow> string \<Rightarrow> string" where
  "clock_for op field =
     (case op_clocks op of
        None \<Rightarrow> op_hlc op
      | Some c \<Rightarrow> (case map_of c field of None \<Rightarrow> op_hlc op | Some clock \<Rightarrow> clock))"

text \<open>One iteration of the loop over \<^verbatim>\<open>op.set\<close>.\<close>

definition apply_field :: "RowOp \<Rightarrow> string \<times> json \<Rightarrow> RegistryRow \<times> bool \<Rightarrow> RegistryRow \<times> bool" where
  "apply_field op kv st =
     (case (kv, st) of ((key, val), (base, changed)) \<Rightarrow>
        let clock = clock_for op key in
        if \<not> hlc_newer clock (map_of (row_clocks base) key) then (base, changed)
        else
          (base\<lparr>row_fields := (if val = JNull then bt_remove key (row_fields base)
                             else bt_insert key val (row_fields base)),
                row_clocks := bt_insert key clock (row_clocks base)\<rparr>, True))"

definition apply_set :: "RowOp \<Rightarrow> RegistryRow \<times> bool \<Rightarrow> RegistryRow \<times> bool" where
  "apply_set op st = (case op_set op of None \<Rightarrow> st | Some s \<Rightarrow> fold (apply_field op) s st)"

text \<open>The row the writes apply to, or the early return of the two guards.\<close>

definition base_row :: "RegistryRow option \<Rightarrow> RowOp \<Rightarrow> (RegistryRow option \<times> bool) + RegistryRow" where
  "base_row row op =
     (case row of
        None \<Rightarrow>
          if op_op op = OpUpdate then Inl (None, False)
          else Inr \<lparr>row_kind = op_kind op, row_id = op_id op, row_seq = 0, row_deleted = False,
                    row_del_hlc = None, row_fields = [], row_clocks = []\<rparr>
      | Some r \<Rightarrow>
          if row_deleted r then
            if op_op op = OpUpdate \<or> \<not> hlc_newer (op_hlc op) (row_del_hlc r)
            then Inl (Some r, False)
            else Inr \<lparr>row_kind = row_kind r, row_id = row_id r, row_seq = row_seq r,
                      row_deleted = False, row_del_hlc = row_del_hlc r,
                      row_fields = [], row_clocks = []\<rparr>
          else Inr r)"

definition apply_op :: "RegistryRow option \<Rightarrow> RowOp \<Rightarrow> RegistryRow option \<times> bool" where
  "apply_op row op =
     (if op_op op = OpDelete then
        (case row of
           None \<Rightarrow> (Some (row_tombstone (op_kind op) (op_id op) (op_hlc op)), True)
         | Some r \<Rightarrow>
             let beats = (if row_deleted r then hlc_newer (op_hlc op) (row_del_hlc r)
                          else hlc_newer (op_hlc op) (max_clock r)) in
             if beats then
               (Some (r\<lparr>row_deleted := True, row_del_hlc := Some (op_hlc op),
                        row_fields := [], row_clocks := []\<rparr>), True)
             else (Some r, False))
      else
        (case base_row row op of
           Inl early \<Rightarrow> early
         | Inr base \<Rightarrow>
             let changed = (row = None \<or>
               ((case row of None \<Rightarrow> False | Some r \<Rightarrow> row_deleted r) \<and> \<not> row_deleted base)) in
             (case apply_set op (base, changed) of (base', changed') \<Rightarrow>
                if changed' then (Some (base'\<lparr>row_deleted := False\<rparr>), True)
                else (Some base', False))))"

definition row_to_seed_op :: "RegistryRow \<Rightarrow> RowOp" where
  "row_to_seed_op row =
     (if row_deleted row then
        \<lparr>op_kind = row_kind row, op_id = row_id row, op_op = OpDelete, op_set = None,
         op_hlc = (case row_del_hlc row of None \<Rightarrow> encode_hlc 0 0 ''seed'' | Some h \<Rightarrow> h),
         op_clocks = None\<rparr>
      else
        \<lparr>op_kind = row_kind row, op_id = row_id row, op_op = OpUpsert,
         op_set = Some (bt_of_list (row_fields row)),
         op_hlc = (case max_clock row of None \<Rightarrow> encode_hlc 0 0 ''seed'' | Some h \<Rightarrow> h),
         op_clocks = Some (row_clocks row)\<rparr>)"

section \<open>Well-formed rows\<close>

text \<open>What every row built by \<open>apply_op\<close> satisfies: sorted maps, a clock for every field, no
  JSON null among the values, and an empty body under a tombstone.\<close>

definition row_ok :: "RegistryRow \<Rightarrow> bool" where
  "row_ok r \<longleftrightarrow> bt_ok (row_fields r) \<and> bt_ok (row_clocks r) \<and>
     fst ` set (row_fields r) \<subseteq> fst ` set (row_clocks r) \<and>
     JNull \<notin> snd ` set (row_fields r) \<and>
     (row_deleted r \<longrightarrow> row_fields r = [] \<and> row_clocks r = [] \<and> row_del_hlc r \<noteq> None)"

section \<open>The abstract register\<close>

text \<open>A field as a last-writer-wins register: its clock and its value (\<open>None\<close> for a deleted
  field). \<open>lww\<close> joins a write into it, \<open>field_write\<close> is what an operation writes to a field.\<close>

type_synonym register = "(string \<times> json option) option"

definition field_reg :: "RegistryRow \<Rightarrow> string \<Rightarrow> register" where
  "field_reg r k = map_option (\<lambda>c. (c, map_of (row_fields r) k)) (map_of (row_clocks r) k)"

definition field_write :: "RowOp \<Rightarrow> string \<Rightarrow> register" where
  "field_write op k =
     (case op_set op of
        None \<Rightarrow> None
      | Some s \<Rightarrow> map_option (\<lambda>v. (clock_for op k, if v = JNull then None else Some v)) (map_of s k))"

definition lww :: "register \<Rightarrow> register \<Rightarrow> register" where
  "lww w cur =
     (case w of
        None \<Rightarrow> cur
      | Some (c, v) \<Rightarrow> if hlc_newer c (map_option fst cur) then Some (c, v) else cur)"

definition op_wf :: "RowOp \<Rightarrow> bool" where
  "op_wf op \<longleftrightarrow> (case op_set op of None \<Rightarrow> True | Some s \<Rightarrow> bt_ok s)"

section \<open>The loop over the written fields\<close>

lemma apply_field_frame:
  assumes "apply_field op kv (b, c) = (b', c')"
  shows "row_kind b' = row_kind b" "row_id b' = row_id b" "row_seq b' = row_seq b"
    "row_deleted b' = row_deleted b" "row_del_hlc b' = row_del_hlc b" "c \<Longrightarrow> c'"
  using assms by (cases kv; auto simp: apply_field_def Let_def split: if_splits)+

lemma fold_apply_field_frame:
  assumes "fold (apply_field op) s (b, c) = (b', c')"
  shows "row_kind b' = row_kind b \<and> row_id b' = row_id b \<and> row_seq b' = row_seq b \<and>
    row_deleted b' = row_deleted b \<and> row_del_hlc b' = row_del_hlc b \<and> (c \<longrightarrow> c')"
  using assms
proof (induction s arbitrary: b c)
  case Nil
  then show ?case by simp
next
  case (Cons kv s)
  obtain b1 c1 where st: "apply_field op kv (b, c) = (b1, c1)" by force
  with Cons.prems have "fold (apply_field op) s (b1, c1) = (b', c')" by simp
  from Cons.IH [OF this] apply_field_frame [OF st] show ?case by auto
qed

lemma apply_set_frame:
  assumes "apply_set op (b, c) = (b', c')"
  shows "row_kind b' = row_kind b" "row_id b' = row_id b" "row_seq b' = row_seq b"
    "row_deleted b' = row_deleted b" "row_del_hlc b' = row_del_hlc b" "c \<Longrightarrow> c'"
  using assms fold_apply_field_frame
  by (fastforce simp: apply_set_def split: option.splits)+

text \<open>The flag rises exactly when the row changes.\<close>

lemma apply_field_changed:
  "apply_field op kv (b, False) = (b', c') \<Longrightarrow> c' \<longleftrightarrow> b' \<noteq> b"
proof (cases kv)
  case (Pair k v)
  assume st: "apply_field op kv (b, False) = (b', c')"
  show ?thesis
  proof (cases "hlc_newer (clock_for op k) (map_of (row_clocks b) k)")
    case True
    with st Pair have c: "c'" and
      m: "map_of (row_clocks b') k = Some (clock_for op k)"
      by (auto simp: apply_field_def Let_def dict_simps)
    from True have "map_of (row_clocks b) k \<noteq> Some (clock_for op k)" by auto
    with c m show ?thesis by auto
  next
    case False
    with st Pair show ?thesis by (auto simp: apply_field_def Let_def)
  qed
qed

lemma apply_field_clock_mono:
  assumes "apply_field op kv (b, c) = (b', c')" "map_of (row_clocks b) k = Some x"
  shows "\<exists>y. map_of (row_clocks b') k = Some y \<and> x \<le> y"
  using assms by (cases kv) (auto simp: apply_field_def Let_def dict_simps split: if_splits)

lemma fold_apply_field_clock_mono:
  assumes "fold (apply_field op) s (b, c) = (b', c')" "map_of (row_clocks b) k = Some x"
  shows "\<exists>y. map_of (row_clocks b') k = Some y \<and> x \<le> y"
  using assms
proof (induction s arbitrary: b c x)
  case Nil
  then show ?case by simp
next
  case (Cons kv s)
  obtain b1 c1 where st: "apply_field op kv (b, c) = (b1, c1)" by force
  obtain y where "map_of (row_clocks b1) k = Some y" "x \<le> y"
    using apply_field_clock_mono [OF st Cons.prems(2)] by blast
  with Cons.IH [of b1 c1 y] Cons.prems(1) st show ?case by (auto intro: order_trans)
qed

lemma apply_field_settled:
  "apply_field op (k, v) (b, c) = (b', c') \<Longrightarrow>
   \<exists>y. map_of (row_clocks b') k = Some y \<and> clock_for op k \<le> y"
  by (cases "map_of (row_clocks b) k")
    (auto simp: apply_field_def Let_def dict_simps not_less split: if_splits)

lemma fold_apply_field_settled:
  assumes "fold (apply_field op) s (b, c) = (b', c')" "(k, v) \<in> set s"
  shows "\<exists>y. map_of (row_clocks b') k = Some y \<and> clock_for op k \<le> y"
  using assms
proof (induction s arbitrary: b c)
  case Nil
  then show ?case by simp
next
  case (Cons kv s)
  obtain b1 c1 where st: "apply_field op kv (b, c) = (b1, c1)" by force
  then have rest: "fold (apply_field op) s (b1, c1) = (b', c')" using Cons.prems(1) by simp
  show ?case
  proof (cases "kv = (k, v)")
    case True
    then obtain y where y: "map_of (row_clocks b1) k = Some y" "clock_for op k \<le> y"
      using apply_field_settled st by metis
    from fold_apply_field_clock_mono [OF rest y(1)] y(2) show ?thesis by (auto intro: order_trans)
  next
    case False
    with Cons.IH [OF rest] Cons.prems(2) show ?thesis by auto
  qed
qed

lemma fold_apply_field_noop:
  assumes "\<And>k v. (k, v) \<in> set s \<Longrightarrow> \<exists>y. map_of (row_clocks b) k = Some y \<and> clock_for op k \<le> y"
  shows "fold (apply_field op) s (b, c) = (b, c)"
  using assms
proof (induction s)
  case Nil
  then show ?case by simp
next
  case (Cons kv s)
  obtain k v where kv: "kv = (k, v)" by force
  then obtain y where "map_of (row_clocks b) k = Some y" "clock_for op k \<le> y"
    using Cons.prems by auto
  with kv have "apply_field op kv (b, c) = (b, c)"
    by (auto simp: apply_field_def Let_def)
  moreover have "fold (apply_field op) s (b, c) = (b, c)"
    by (rule Cons.IH) (use Cons.prems in auto)
  ultimately show ?case by simp
qed

lemma fold_apply_field_changed:
  assumes "fold (apply_field op) s (b, False) = (b', c')"
  shows "c' \<longleftrightarrow> b' \<noteq> b"
  using assms
proof (induction s)
  case Nil
  then show ?case by simp
next
  case (Cons kv s)
  obtain b1 c1 where st: "apply_field op kv (b, False) = (b1, c1)" by force
  then have rest: "fold (apply_field op) s (b1, c1) = (b', c')" using Cons.prems by simp
  show ?case
  proof (cases c1)
    case False
    then have "b1 = b" using apply_field_changed [OF st] by simp
    with Cons.IH rest False show ?thesis by simp
  next
    case True
    with rest have c': "c'" using fold_apply_field_frame by blast
    obtain k v where kv: "kv = (k, v)" by force
    from True st kv have n: "hlc_newer (clock_for op k) (map_of (row_clocks b) k)"
      and m: "map_of (row_clocks b1) k = Some (clock_for op k)"
      by (auto simp: apply_field_def Let_def dict_simps split: if_splits)
    obtain y where "map_of (row_clocks b') k = Some y" "clock_for op k \<le> y"
      using fold_apply_field_clock_mono [OF rest m] by blast
    with n have "b' \<noteq> b" by auto
    with c' show ?thesis by simp
  qed
qed

lemma apply_set_changed: "apply_set op (b, False) = (b', c') \<Longrightarrow> c' \<longleftrightarrow> b' \<noteq> b"
  using fold_apply_field_changed by (auto simp: apply_set_def split: option.splits)

lemma apply_set_settled:
  "apply_set op (b, c) = (b', c') \<Longrightarrow> apply_set op (b', d) = (b', d)"
  unfolding apply_set_def
  by (cases "op_set op") (auto intro!: fold_apply_field_noop dest: fold_apply_field_settled)

lemma row_deleted_cong: "r\<lparr>row_deleted := row_deleted r\<rparr> = r"
  by simp

lemma row_deleted_triv: "\<not> row_deleted r \<Longrightarrow> r\<lparr>row_deleted := False\<rparr> = r"
  by (cases r) simp

section \<open>Refinement to registers\<close>

lemma apply_field_other:
  "apply_field op (k', v) (b, c) = (b', c') \<Longrightarrow> k \<noteq> k' \<Longrightarrow> field_reg b' k = field_reg b k"
  by (auto simp: apply_field_def Let_def field_reg_def dict_simps split: if_splits)

lemma apply_field_same:
  assumes "apply_field op (k, v) (b, c) = (b', c')"
  shows "field_reg b' k = lww (Some (clock_for op k, if v = JNull then None else Some v)) (field_reg b k)"
proof -
  have "map_option fst (field_reg b k) = map_of (row_clocks b) k"
    by (cases "map_of (row_clocks b) k") (auto simp: field_reg_def)
  with assms show ?thesis
    by (auto simp: apply_field_def Let_def lww_def field_reg_def dict_simps split: if_splits)
qed

lemma fold_apply_field_reg:
  assumes "distinct (map fst s)" "fold (apply_field op) s (b, c) = (b', c')"
  shows "field_reg b' k =
    lww (map_option (\<lambda>v. (clock_for op k, if v = JNull then None else Some v)) (map_of s k))
      (field_reg b k)"
  using assms
proof (induction s arbitrary: b c)
  case Nil
  then show ?case by (simp add: lww_def)
next
  case (Cons kv s)
  obtain k' v where kv: "kv = (k', v)" by force
  obtain b1 c1 where st: "apply_field op (k', v) (b, c) = (b1, c1)" by force
  then have rest: "fold (apply_field op) s (b1, c1) = (b', c')" using Cons.prems(2) kv by simp
  have ih: "field_reg b' k =
      lww (map_option (\<lambda>v. (clock_for op k, if v = JNull then None else Some v)) (map_of s k))
        (field_reg b1 k)"
    using Cons.IH [OF _ rest] Cons.prems(1) by simp
  show ?case
  proof (cases "k = k'")
    case True
    moreover have "map_of s k' = None" using Cons.prems(1) kv by (simp add: map_of_eq_None_iff)
    ultimately show ?thesis using ih apply_field_same [OF st] kv by (simp add: lww_def)
  next
    case False
    then show ?thesis using ih apply_field_other [OF st] kv by simp
  qed
qed

lemma apply_set_reg:
  assumes "op_wf op" "apply_set op (b, c) = (b', c')"
  shows "field_reg b' k = lww (field_write op k) (field_reg b k)"
proof (cases "op_set op")
  case None
  with assms show ?thesis by (simp add: apply_set_def field_write_def lww_def)
next
  case (Some s)
  with assms have "distinct (map fst s)" by (simp add: op_wf_def bt_ok_distinct)
  with fold_apply_field_reg [OF this] Some assms(2) show ?thesis
    by (simp add: apply_set_def field_write_def)
qed

text \<open>A well-formed live row is determined by its header and its registers.\<close>

lemma row_eq_by_regs:
  assumes "row_ok r" "row_ok r'" "\<And>k. field_reg r k = field_reg r' k"
    and "row_kind r = row_kind r'" "row_id r = row_id r'" "row_seq r = row_seq r'"
    "row_deleted r = row_deleted r'" "row_del_hlc r = row_del_hlc r'"
  shows "r = r'"
proof -
  have c: "map_of (row_clocks r) k = map_of (row_clocks r') k" for k
    using assms(3) [of k]
    by (cases "map_of (row_clocks r) k"; cases "map_of (row_clocks r') k") (auto simp: field_reg_def)
  have f: "map_of (row_fields r) k = map_of (row_fields r') k" for k
  proof (cases "map_of (row_clocks r) k")
    case None
    then have "k \<notin> fst ` set (row_clocks r)" "k \<notin> fst ` set (row_clocks r')"
      using c [of k] map_of_eq_None_iff by metis+
    then have "k \<notin> fst ` set (row_fields r)" "k \<notin> fst ` set (row_fields r')"
      using assms(1,2) by (auto simp: row_ok_def)
    then show ?thesis using map_of_eq_None_iff by metis
  next
    case (Some x)
    then have "map_of (row_clocks r') k = Some x" using c [of k] by simp
    with Some assms(3) [of k] show ?thesis by (simp add: field_reg_def)
  qed
  have "row_clocks r = row_clocks r'" "row_fields r = row_fields r'"
    using assms(1,2) c f by (auto simp: row_ok_def intro!: bt_eqI)
  with assms(4-8) show ?thesis by simp
qed

lemma snd_set_bt_insert: "snd ` set (bt_insert k v m) \<subseteq> insert v (snd ` set m)"
  by (induction k v m rule: bt_insert.induct) auto

lemma keys_bt_remove: "fst ` set (bt_remove k m) = fst ` set m - {k}"
  by (force simp: bt_remove_def)

lemma vals_bt_remove: "snd ` set (bt_remove k m) \<subseteq> snd ` set m"
  by (auto simp: bt_remove_def)

lemma row_ok_apply_field:
  assumes "row_ok b" "\<not> row_deleted b" "apply_field op kv (b, c) = (b', c')"
  shows "row_ok b'"
proof -
  obtain k v where kv: "kv = (k, v)" by force
  show ?thesis
  proof (cases "hlc_newer (clock_for op k) (map_of (row_clocks b) k)")
    case False
    with assms kv show ?thesis by (simp add: apply_field_def)
  next
    case True
    let ?f = "if v = JNull then bt_remove k (row_fields b) else bt_insert k v (row_fields b)"
    have b': "b' = b\<lparr>row_fields := ?f, row_clocks := bt_insert k (clock_for op k) (row_clocks b)\<rparr>"
      using assms(3) kv True by (simp add: apply_field_def Let_def)
    have "fst ` set ?f \<subseteq> insert k (fst ` set (row_clocks b))"
      using assms(1) by (auto simp: row_ok_def keys_bt_remove)
    moreover have "JNull \<notin> snd ` set ?f"
      using assms(1) snd_set_bt_insert [of k v "row_fields b"] vals_bt_remove [of k "row_fields b"]
      by (auto simp: row_ok_def)
    ultimately show ?thesis using assms(1,2) unfolding b' by (simp add: row_ok_def)
  qed
qed

lemma row_ok_apply_set:
  assumes "row_ok b" "\<not> row_deleted b" "apply_set op (b, c) = (b', c')"
  shows "row_ok b'"
proof -
  have "row_ok b'" if "row_ok b" "\<not> row_deleted b" "fold (apply_field op) s (b, c) = (b', c')"
    for s b c using that
  proof (induction s arbitrary: b c)
    case Nil
    then show ?case by simp
  next
    case (Cons kv s)
    obtain b1 c1 where st: "apply_field op kv (b, c) = (b1, c1)" by force
    with Cons.prems have "fold (apply_field op) s (b1, c1) = (b', c')" by simp
    with Cons.IH row_ok_apply_field [OF Cons.prems(1,2) st] apply_field_frame(4) [OF st]
      Cons.prems(2) show ?case by blast
  qed
  with assms show ?thesis by (auto simp: apply_set_def split: option.splits)
qed

section \<open>Merging an operation\<close>

lemma apply_op_delete:
  "op_op op = OpDelete \<Longrightarrow> apply_op (Some r) op =
     (if hlc_newer (op_hlc op) (if row_deleted r then row_del_hlc r else max_clock r)
      then (Some (r\<lparr>row_deleted := True, row_del_hlc := Some (op_hlc op),
                    row_fields := [], row_clocks := []\<rparr>), True)
      else (Some r, False))"
  by (simp add: apply_op_def Let_def)

lemma apply_op_live:
  assumes "op_op op \<noteq> OpDelete" "\<not> row_deleted r"
  shows "apply_op (Some r) op = (Some (fst (apply_set op (r, False))), snd (apply_set op (r, False)))"
proof -
  obtain r' c where st: "apply_set op (r, False) = (r', c)" by force
  then have "\<not> row_deleted r'" using apply_set_frame(4) [OF st] assms(2) by simp
  with assms st show ?thesis
    by (auto simp: apply_op_def base_row_def Let_def row_deleted_triv)
qed

lemma apply_op_base:
  assumes "op_op op \<noteq> OpDelete" "base_row row op = Inr base"
    and "row = None \<or> (\<exists>r. row = Some r \<and> row_deleted r)"
  shows "apply_op row op = (Some (fst (apply_set op (base, True))), True)" and "\<not> row_deleted base"
    and "row_fields base = []" and "row_clocks base = []"
proof -
  show nd: "\<not> row_deleted base" and "row_fields base = []" and "row_clocks base = []"
    using assms by (auto simp: base_row_def split: if_splits)
  obtain b c where st: "apply_set op (base, True) = (b, c)" by force
  then have "c" "\<not> row_deleted b" using apply_set_frame(4,6) [OF st] nd by auto
  then show "apply_op row op = (Some (fst (apply_set op (base, True))), True)"
    using assms nd st by (auto simp: apply_op_def Let_def row_deleted_triv)
qed

text \<open>The four shapes of a non-delete merge.\<close>

lemma apply_op_write_cases:
  assumes "op_op op \<noteq> OpDelete"
  obtains (live) r where "row = Some r" "\<not> row_deleted r"
      "apply_op row op = (Some (fst (apply_set op (r, False))), snd (apply_set op (r, False)))"
  | (absent) "row = None" "op_op op = OpUpdate" "apply_op row op = (None, False)"
  | (kept) r where "row = Some r" "row_deleted r" "apply_op row op = (Some r, False)"
      "op_op op = OpUpdate \<or> \<not> hlc_newer (op_hlc op) (row_del_hlc r)"
  | (fresh) base where "row = None \<or> (\<exists>r. row = Some r \<and> row_deleted r)"
      "base_row row op = Inr base" "\<not> row_deleted base" "row_fields base = []" "row_clocks base = []"
      "op_op op = OpUpsert" "apply_op row op = (Some (fst (apply_set op (base, True))), True)"
proof (cases "base_row row op")
  case (Inl e)
  with assms that(2,3) show ?thesis
    by (auto simp: base_row_def apply_op_def split: option.splits if_splits)
next
  case (Inr base)
  show ?thesis
  proof (cases "row = None \<or> (\<exists>r. row = Some r \<and> row_deleted r)")
    case True
    moreover have "op_op op = OpUpsert"
      using assms Inr True by (cases "op_op op") (auto simp: base_row_def split: if_splits)
    ultimately show ?thesis using that(4) apply_op_base [OF assms Inr True] Inr by blast
  next
    case False
    then obtain r where "row = Some r" "\<not> row_deleted r" by auto
    then show ?thesis using that(1) apply_op_live [OF assms] by blast
  qed
qed

lemma max_clock_mono: "max_clock r = None \<Longrightarrow> row_del_hlc r = None \<and> row_clocks r = []"
proof -
  let ?f = "\<lambda>(_ :: string, clock) m. case m of None \<Rightarrow> Some clock
      | Some x \<Rightarrow> if clock > x then Some clock else m"
  have s: "fold ?f cs (Some x) \<noteq> None" for cs and x :: string
    by (induction cs arbitrary: x) auto
  assume "max_clock r = None"
  then show ?thesis
    unfolding max_clock_def
    by (cases "row_clocks r"; cases "row_del_hlc r") (auto simp: s split: if_splits)
qed

text \<open>The newest clock bounds every clock of the row and is one of them.\<close>

lemma fold_max_clock:
  fixes cs :: "(string \<times> string) list"
  shows "fold (\<lambda>(_, clock) m. case m of None \<Rightarrow> Some clock
      | Some x \<Rightarrow> if clock > x then Some clock else m) cs m = Some y \<Longrightarrow>
    (\<forall>c \<in> snd ` set cs. c \<le> y) \<and> (\<forall>x. m = Some x \<longrightarrow> x \<le> y) \<and> (y \<in> snd ` set cs \<or> m = Some y)"
proof (induction cs arbitrary: m)
  case Nil
  then show ?case by simp
next
  case (Cons kc cs)
  obtain k c where kc: "kc = (k, c)" by force
  let ?m = "case m of None \<Rightarrow> Some c | Some x \<Rightarrow> if c > x then Some c else m"
  have "(\<forall>c \<in> snd ` set cs. c \<le> y) \<and> (\<forall>x. ?m = Some x \<longrightarrow> x \<le> y) \<and> (y \<in> snd ` set cs \<or> ?m = Some y)"
    using Cons.IH [of ?m] Cons.prems kc by simp
  then show ?case using kc by (cases m) (auto split: if_splits)
qed

lemma max_clock_Some:
  assumes "max_clock r = Some y"
  shows "c \<in> snd ` set (row_clocks r) \<Longrightarrow> c \<le> y" "row_del_hlc r = Some x \<Longrightarrow> x \<le> y"
    "y \<in> snd ` set (row_clocks r) \<or> row_del_hlc r = Some y"
  using fold_max_clock [OF assms [unfolded max_clock_def]] by auto

section \<open>Live rows as a replicated record\<close>

definition app_live :: "RowOp \<Rightarrow> RegistryRow \<Rightarrow> RegistryRow" where
  "app_live op r = the (fst (apply_op (Some r) op))"

definition live_ok :: "RegistryRow \<Rightarrow> bool" where
  "live_ok r \<longleftrightarrow> row_ok r \<and> \<not> row_deleted r"

text \<open>Two field writes are compatible when neither deletes the row and they agree on the value
  of every field they write under the same clock, as writes of distinct clocks do.\<close>

definition compatible :: "RowOp \<Rightarrow> RowOp \<Rightarrow> bool" where
  "compatible a b \<longleftrightarrow> op_op a \<noteq> OpDelete \<and> op_op b \<noteq> OpDelete \<and> op_wf a \<and> op_wf b \<and>
     (\<forall>k c v w. field_write a k = Some (c, v) \<longrightarrow> field_write b k = Some (c, w) \<longrightarrow> v = w)"

lemma app_live_eq: "op_op op \<noteq> OpDelete \<Longrightarrow> \<not> row_deleted r \<Longrightarrow> app_live op r = fst (apply_set op (r, False))"
  by (simp add: app_live_def apply_op_live)

lemma app_live_frame:
  assumes "live_ok r" "op_op op \<noteq> OpDelete"
  shows "live_ok (app_live op r)" "row_kind (app_live op r) = row_kind r"
    "row_id (app_live op r) = row_id r" "row_seq (app_live op r) = row_seq r"
    "row_del_hlc (app_live op r) = row_del_hlc r"
proof -
  obtain r' c where st: "apply_set op (r, False) = (r', c)" by force
  then have "app_live op r = r'" using assms by (simp add: app_live_eq live_ok_def)
  with apply_set_frame [OF st] row_ok_apply_set [OF _ _ st] assms(1)
  show "live_ok (app_live op r)" "row_kind (app_live op r) = row_kind r"
    "row_id (app_live op r) = row_id r" "row_seq (app_live op r) = row_seq r"
    "row_del_hlc (app_live op r) = row_del_hlc r" by (auto simp: live_ok_def)
qed

lemma app_live_reg:
  assumes "live_ok r" "op_op op \<noteq> OpDelete" "op_wf op"
  shows "field_reg (app_live op r) k = lww (field_write op k) (field_reg r k)"
proof -
  obtain r' c where st: "apply_set op (r, False) = (r', c)" by force
  then show ?thesis using apply_set_reg [OF assms(3) st] assms(1,2)
    by (simp add: app_live_eq live_ok_def)
qed

lemma lww_commute:
  assumes "\<And>c v w. a = Some (c, v) \<Longrightarrow> b = Some (c, w) \<Longrightarrow> v = w"
  shows "lww a (lww b r) = lww b (lww a r)"
proof (cases a; cases b)
  fix x y assume ab: "a = Some x" "b = Some y"
  obtain c v d w where xy: "x = (c, v)" "y = (d, w)" by force
  have "c = d \<Longrightarrow> v = w" using assms ab xy by blast
  then show ?thesis using ab xy by (cases r; cases c d rule: linorder_cases) (auto simp: lww_def)
qed (auto simp: lww_def)

lemma lww_idem: "lww a (lww a r) = lww a r"
  by (auto simp: lww_def split: option.splits if_splits)

lemma live_eqI:
  assumes "live_ok r" "live_ok r'" "\<And>k. field_reg r k = field_reg r' k"
    "row_kind r = row_kind r'" "row_id r = row_id r'" "row_seq r = row_seq r'"
    "row_del_hlc r = row_del_hlc r'"
  shows "r = r'"
  using assms by (auto simp: live_ok_def intro: row_eq_by_regs)

interpretation row: replicated app_live compatible live_ok
proof unfold_locales
  fix s a assume s: "live_ok s" and a: "compatible a a"
  then have d: "op_op a \<noteq> OpDelete" "op_wf a" by (auto simp: compatible_def)
  show ok: "live_ok (app_live a s)" using s d app_live_frame by blast
  show "app_live a (app_live a s) = app_live a s"
    by (rule live_eqI) (use s d ok in \<open>auto simp: app_live_frame app_live_reg lww_idem\<close>)
next
  fix s a b assume s: "live_ok s" and ab: "compatible a b" "compatible a a" "compatible b b"
  then have d: "op_op a \<noteq> OpDelete" "op_wf a" "op_op b \<noteq> OpDelete" "op_wf b"
    by (auto simp: compatible_def)
  show "app_live a (app_live b s) = app_live b (app_live a s)"
  proof (rule live_eqI)
    show "field_reg (app_live a (app_live b s)) k = field_reg (app_live b (app_live a s)) k" for k
      using s d ab(1) by (auto simp: app_live_frame app_live_reg compatible_def intro!: lww_commute)
  qed (use s d in \<open>auto simp: app_live_frame\<close>)
qed

section \<open>Re-seeding\<close>

lemma bt_of_list_id: "bt_ok m \<Longrightarrow> bt_of_list m = m"
proof (rule bt_eqI)
  assume "bt_ok m"
  then have "distinct (map fst m)" by (rule bt_ok_distinct)
  then have "map_of (rev m) = map_of m" by (subst map_of_inject_set) (simp_all flip: rev_map)
  then show "map_of (bt_of_list m) = map_of m" by (simp add: dict_simps)
qed simp_all

lemma lww_None: "lww w None = w"
  by (auto simp: lww_def split: option.splits)

definition empty_row :: "string \<Rightarrow> string \<Rightarrow> RegistryRow" where
  "empty_row kind ident =
     \<lparr>row_kind = kind, row_id = ident, row_seq = 0, row_deleted = False, row_del_hlc = None,
      row_fields = [], row_clocks = []\<rparr>"

lemma empty_row_ok [simp]: "live_ok (empty_row kind ident)" "field_reg (empty_row kind ident) k = None"
  by (simp_all add: empty_row_def live_ok_def row_ok_def field_reg_def)

lemma apply_upsert_None:
  assumes "op_op op = OpUpsert"
  shows "apply_op None op = (Some (fst (apply_set op (empty_row (op_kind op) (op_id op), True))), True)"
  by (rule apply_op_base(1)) (use assms in \<open>simp_all add: base_row_def empty_row_def\<close>)

text \<open>Re-seeding an empty server with a live row gives back its values and, for the fields that
  have one, their original clocks; a field whose last write deleted it leaves no trace.\<close>

lemma seed_live_reg:
  assumes "live_ok r" "apply_op None (row_to_seed_op r) = (Some r', c)"
  shows "field_reg r' k = (if map_of (row_fields r) k = None then None else field_reg r k)"
proof -
  let ?op = "row_to_seed_op r"
  have r: "row_ok r" "\<not> row_deleted r" using assms(1) by (auto simp: live_ok_def)
  then have wf: "op_wf ?op" "op_op ?op = OpUpsert"
    by (simp_all add: op_wf_def row_to_seed_op_def)
  obtain b d where st: "apply_set ?op (empty_row (op_kind ?op) (op_id ?op), True) = (b, d)" by force
  then have r': "r' = b" using assms(2) apply_upsert_None [OF wf(2)] by simp
  have "field_reg r' k = field_write ?op k"
    using apply_set_reg [OF wf(1) st, of k] r' by (simp add: lww_None)
  also have "\<dots> = (if map_of (row_fields r) k = None then None else field_reg r k)"
  proof (cases "map_of (row_fields r) k")
    case None
    then show ?thesis using r by (simp add: field_write_def row_to_seed_op_def bt_of_list_id row_ok_def)
  next
    case (Some v)
    then have "k \<in> fst ` set (row_clocks r)" "v \<noteq> JNull"
      using r(1) by (auto simp: row_ok_def dest!: map_of_SomeD) force+
    then obtain cl where "map_of (row_clocks r) k = Some cl"
      by (metis map_of_eq_None_iff not_None_eq)
    with Some \<open>v \<noteq> JNull\<close> r show ?thesis
      by (simp add: field_write_def field_reg_def row_to_seed_op_def bt_of_list_id row_ok_def
          clock_for_def)
  qed
  finally show ?thesis .
qed

section \<open>Deletion and well-formedness\<close>

lemma delete_live_iff:
  assumes d: "op_op op = OpDelete" "\<not> row_deleted r"
  shows "snd (apply_op (Some r) op) \<longleftrightarrow>
       (\<forall>c \<in> snd ` set (row_clocks r). c < op_hlc op) \<and>
       (\<forall>h. row_del_hlc r = Some h \<longrightarrow> h < op_hlc op)"
proof (cases "max_clock r")
  case None
  with d max_clock_mono [OF None] show ?thesis by (simp add: apply_op_delete)
next
  case (Some y)
  from d Some have "snd (apply_op (Some r) op) \<longleftrightarrow> y < op_hlc op" by (simp add: apply_op_delete)
  with max_clock_Some [OF Some] show ?thesis by (metis le_less_trans)
qed

text \<open>A merge keeps the identity of its row, and a row once present stays present.\<close>

lemma apply_op_identity:
  assumes "fst (apply_op row op) = Some n"
  shows "row_kind n = (case row of None \<Rightarrow> op_kind op | Some r \<Rightarrow> row_kind r)"
    and "row_id n = (case row of None \<Rightarrow> op_id op | Some r \<Rightarrow> row_id r)"
    and "row_seq n = (case row of None \<Rightarrow> 0 | Some r \<Rightarrow> row_seq r)"
proof -
  have "row_kind n = (case row of None \<Rightarrow> op_kind op | Some r \<Rightarrow> row_kind r) \<and>
    row_id n = (case row of None \<Rightarrow> op_id op | Some r \<Rightarrow> row_id r) \<and>
    row_seq n = (case row of None \<Rightarrow> 0 | Some r \<Rightarrow> row_seq r)"
  proof (cases "op_op op = OpDelete")
    case True
    with assms show ?thesis
      by (cases row) (auto simp: apply_op_def row_tombstone_def Let_def split: if_splits)
  next
    case False
    then show ?thesis
    proof (cases rule: apply_op_write_cases [of op row])
      case (live r)
      obtain r1 c where st: "apply_set op (r, False) = (r1, c)" by force
      with live assms apply_set_frame [OF st] show ?thesis by auto
    next
      case (fresh base)
      obtain r1 c where st: "apply_set op (base, True) = (r1, c)" by force
      with fresh assms apply_set_frame [OF st] show ?thesis
        by (auto simp: base_row_def split: option.splits if_splits)
    qed (use assms in auto)
  qed
  then show "row_kind n = (case row of None \<Rightarrow> op_kind op | Some r \<Rightarrow> row_kind r)"
    "row_id n = (case row of None \<Rightarrow> op_id op | Some r \<Rightarrow> row_id r)"
    "row_seq n = (case row of None \<Rightarrow> 0 | Some r \<Rightarrow> row_seq r)" by blast+
qed

lemma row_ok_apply_op:
  assumes "\<And>r. row = Some r \<Longrightarrow> row_ok r" "apply_op row op = (Some r', ch)"
  shows "row_ok r'"
proof (cases "op_op op = OpDelete")
  case True
  with assms show ?thesis
    by (cases row) (auto simp: apply_op_def row_tombstone_def row_ok_def Let_def split: if_splits)
next
  case False
  then show ?thesis
  proof (cases rule: apply_op_write_cases [of op row])
    case (live r)
    obtain r1 c where st: "apply_set op (r, False) = (r1, c)" by force
    with row_ok_apply_set [OF _ _ st] live assms show ?thesis by simp
  next
    case (fresh base)
    obtain r1 c where st: "apply_set op (base, True) = (r1, c)" by force
    moreover have "row_ok base" using fresh by (simp add: row_ok_def)
    ultimately show ?thesis using row_ok_apply_set [OF _ _ st] fresh assms by simp
  qed (use assms in auto)
qed

section \<open>Properties\<close>

text \<open>Re-applying any operation to the row it produced is a no-op that reports no change, so
  the batches a client pushes again after a reconnect are idempotent.\<close>

theorem reapply_is_noop:
  assumes "apply_op row op = (Some r, ch)"
  shows "apply_op (Some r) op = (Some r, False)"
proof (cases "op_op op = OpDelete")
  case True
  show ?thesis
  proof (cases row)
    case None
    with assms True show ?thesis by (auto simp: apply_op_def row_tombstone_def)
  next
    case (Some r0)
    with assms True show ?thesis by (auto simp: apply_op_delete split: if_splits)
  qed
next
  case False
  then show ?thesis
  proof (cases rule: apply_op_write_cases [of op row])
    case (live r0)
    obtain r1 c where st: "apply_set op (r0, False) = (r1, c)" by force
    with live assms have "r = r1" "\<not> row_deleted r1" using apply_set_frame(4) [OF st] by auto
    with apply_set_settled [OF st, of False] show ?thesis by (simp add: apply_op_live False)
  next
    case absent
    with assms show ?thesis by simp
  next
    case (kept r0)
    with assms show ?thesis by auto
  next
    case (fresh base)
    obtain r1 c where st: "apply_set op (base, True) = (r1, c)" by force
    with fresh assms have "r = r1" "\<not> row_deleted r1" using apply_set_frame(4) [OF st] by auto
    with apply_set_settled [OF st, of False] show ?thesis by (simp add: apply_op_live False)
  qed
qed

definition demo_op :: "OpKind \<Rightarrow> string \<Rightarrow> json \<Rightarrow> string \<Rightarrow> RowOp" where
  "demo_op k f v h = \<lparr>op_kind = ''chats'', op_id = ''c1'', op_op = k, op_set = Some [(f, v)],
     op_hlc = h, op_clocks = None\<rparr>"

definition demo_row :: RegistryRow where
  "demo_row = \<lparr>row_kind = ''chats'', row_id = ''c1'', row_seq = 0, row_deleted = False,
     row_del_hlc = None, row_fields = [(''title'', JStr ''x'')], row_clocks = [(''title'', ''2'')]\<rparr>"

lemma demo_ops:
  "apply_op None (demo_op OpUpsert ''title'' (JStr ''x'') ''2'') = (Some demo_row, True)"
  "live_ok demo_row" "op_wf (demo_op k f v h)"
  by (simp_all add: apply_op_def base_row_def demo_op_def demo_row_def apply_set_def apply_field_def
      clock_for_def live_ok_def row_ok_def op_wf_def)

theorem reapply_is_noop_witness:
  "apply_op (Some demo_row) (demo_op OpUpsert ''title'' (JStr ''x'') ''2'') = (Some demo_row, False)"
  using reapply_is_noop [OF demo_ops(1)] .

text \<open>The change flag of the merge is exact: it is raised exactly when the row after the
  operation differs from the row before it, for every operation and every row.\<close>

theorem change_flag_exact: "snd (apply_op row op) \<longleftrightarrow> fst (apply_op row op) \<noteq> row"
proof (cases "op_op op = OpDelete")
  case True
  show ?thesis
  proof (cases row)
    case None
    with True show ?thesis by (simp add: apply_op_def)
  next
    case (Some r)
    show ?thesis
    proof (cases "hlc_newer (op_hlc op) (if row_deleted r then row_del_hlc r else max_clock r)")
      case newer: True
      have "r\<lparr>row_deleted := True, row_del_hlc := Some (op_hlc op), row_fields := [],
          row_clocks := []\<rparr> \<noteq> r" (is "?g \<noteq> r")
      proof
        assume "?g = r"
        then have "row_deleted r = row_deleted ?g" "row_del_hlc r = row_del_hlc ?g" by simp_all
        with newer show False by simp
      qed
      with Some True newer show ?thesis by (simp add: apply_op_delete)
    next
      case False
      with Some True show ?thesis by (simp add: apply_op_delete)
    qed
  qed
next
  case False
  then show ?thesis
  proof (cases rule: apply_op_write_cases [of op row])
    case (live r)
    obtain r1 c where st: "apply_set op (r, False) = (r1, c)" by force
    with live apply_set_changed [OF st] show ?thesis by simp
  next
    case (fresh base)
    obtain r1 c where st: "apply_set op (base, True) = (r1, c)" by force
    with fresh show ?thesis using apply_set_frame(4) [OF st] by auto
  qed simp_all
qed

text \<open>C1: on a live row a field write refines one last-writer-wins register per field: every
  field of the merged row is the join of its old register with what the operation writes to
  it (a null write deletes the value and keeps the clock), and the row's identity, sequence
  number and tombstone clock are untouched.\<close>

theorem live_merge_refines_lww:
  assumes "live_ok r" "op_op op \<noteq> OpDelete" "op_wf op" "apply_op (Some r) op = (Some r', ch)"
  shows "(\<forall>k. field_reg r' k = lww (field_write op k) (field_reg r k)) \<and>
    row_kind r' = row_kind r \<and> row_id r' = row_id r \<and> row_seq r' = row_seq r \<and>
    row_del_hlc r' = row_del_hlc r \<and> live_ok r'"
proof -
  have "app_live op r = r'" using assms(4) by (simp add: app_live_def)
  with app_live_reg [OF assms(1-3)] app_live_frame [OF assms(1,2)] show ?thesis by auto
qed

theorem live_merge_refines_lww_witness:
  "field_reg (app_live (demo_op OpUpdate ''title'' JNull ''3'') demo_row) ''title'' = Some (''3'', None)"
proof -
  let ?op = "demo_op OpUpdate ''title'' JNull ''3''"
  have "apply_op (Some demo_row) ?op = (Some (app_live ?op demo_row), True)"
    by (simp add: app_live_def apply_op_def base_row_def demo_op_def demo_row_def apply_set_def
        apply_field_def clock_for_def bt_remove_def)
  from live_merge_refines_lww [OF demo_ops(2) _ demo_ops(3) this]
  show ?thesis
    by (simp add: demo_op_def field_write_def clock_for_def lww_def field_reg_def demo_row_def)
qed

text \<open>C2: replicas that hold the same live row and receive the same set of coherent field writes
  end with the same row, whatever the order and however often each write arrives.\<close>

theorem field_writes_converge:
  assumes "live_ok r" "set ops = set ops'"
    and "\<forall>a \<in> set ops. \<forall>b \<in> set ops. compatible a b"
  shows "fold app_live ops r = fold app_live ops' r"
  using row.converge [OF assms(1,2)] assms(3) by (simp add: row.coherent_def)

theorem field_writes_converge_witness:
  "let a = demo_op OpUpdate ''title'' (JStr ''y'') ''3''; b = demo_op OpUpsert ''title'' JNull ''4'' in
   fold app_live [a, b, a] demo_row = fold app_live [b, a] demo_row"
proof -
  let ?a = "demo_op OpUpdate ''title'' (JStr ''y'') ''3''"
  let ?b = "demo_op OpUpsert ''title'' JNull ''4''"
  have "fold app_live [?a, ?b, ?a] demo_row = fold app_live [?b, ?a] demo_row"
    by (rule field_writes_converge)
      (auto simp: demo_ops compatible_def demo_op_def field_write_def clock_for_def op_wf_def
        split: if_splits)
  then show ?thesis by (simp add: Let_def)
qed

text \<open>Every operation keeps the row well formed: sorted maps, a clock under every field, no
  stored null, nothing but the tombstone clock on a deleted row.\<close>

theorem merge_keeps_row_ok:
  assumes "\<forall>r. row = Some r \<longrightarrow> row_ok r" "apply_op row op = (Some r', ch)"
  shows "row_ok r'"
  using row_ok_apply_op [OF _ assms(2)] assms(1) by blast

theorem merge_keeps_row_ok_witness:
  "row_ok (app_live (demo_op OpUpdate ''archived'' (JBool True) ''3'') demo_row)"
proof -
  have "apply_op (Some demo_row) (demo_op OpUpdate ''archived'' (JBool True) ''3'') =
      (Some (app_live (demo_op OpUpdate ''archived'' (JBool True) ''3'') demo_row), True)"
    by (simp add: app_live_def apply_op_def base_row_def demo_op_def demo_row_def apply_set_def
        apply_field_def clock_for_def)
  then show ?thesis using merge_keeps_row_ok [of "Some demo_row"] demo_ops(2) by (simp add: live_ok_def)
qed



lemma upsert_creates:
  assumes "op_op op = OpUpsert"
  shows "\<exists>r. apply_op None op = (Some r, True) \<and> \<not> row_deleted r"
proof -
  let ?base = "\<lparr>row_kind = op_kind op, row_id = op_id op, row_seq = 0, row_deleted = False,
    row_del_hlc = None, row_fields = [], row_clocks = []\<rparr>"
  obtain b c where s: "apply_set op (?base, True) = (b, c)" by force
  then have c by (rule apply_set_frame(6)) simp
  with s assms show ?thesis by (simp add: apply_op_def base_row_def)
qed

lemma seed_keeps_field:
  assumes "live_ok r" "apply_op None (row_to_seed_op r) = (Some r', ch)" "map_of (row_fields r) k = Some v"
  shows "map_of (row_fields r') k = Some v \<and> map_of (row_clocks r') k = map_of (row_clocks r) k"
proof -
  have "field_reg r' k = field_reg r k" using seed_live_reg [OF assms(1,2), of k] assms(3) by simp
  moreover have "k \<in> fst ` set (row_clocks r)"
    using assms(1,3) by (auto simp: live_ok_def row_ok_def dest!: map_of_SomeD) force
  then obtain c where "map_of (row_clocks r) k = Some c" by (metis map_of_eq_None_iff not_None_eq)
  ultimately show ?thesis using assms(3) by (auto simp: field_reg_def)
qed

text \<open>Re-seeding a wiped server from a live row restores every present field with its value
  and its original clock.\<close>

theorem seed_restores_present_fields:
  assumes "live_ok r" "apply_op None (row_to_seed_op r) = (Some r', ch)"
    and "map_of (row_fields r) k = Some v"
  shows "map_of (row_fields r') k = Some v \<and> map_of (row_clocks r') k = map_of (row_clocks r) k"
  by (rule seed_keeps_field [OF assms])

theorem seed_restores_present_fields_witness:
  "map_of (row_clocks (the (fst (apply_op None (row_to_seed_op demo_row))))) ''title'' = Some ''2''"
proof -
  let ?r = "the (fst (apply_op None (row_to_seed_op demo_row)))"
  have "apply_op None (row_to_seed_op demo_row) = (Some ?r, True)"
    by (simp add: apply_op_def base_row_def row_to_seed_op_def demo_row_def apply_set_def
        apply_field_def clock_for_def bt_of_list_def)
  from seed_restores_present_fields [OF demo_ops(2) this, of "''title''"]
  show ?thesis by (simp add: demo_row_def)
qed

text \<open>A re-seed forgets field deletions: the comment of \<^verbatim>\<open>RowOp.clocks\<close> says that recovery never
  coarsens causality, but the operation of \<^verbatim>\<open>row_to_seed_op\<close> writes only the present fields. A
  field cleared under clock 2 rejects an older write under clock 1; after the server was
  re-seeded from that row the same older write is accepted and the cleared value is back.\<close>

theorem seed_forgets_cleared_fields:
  "let r = demo_row\<lparr>row_fields := []\<rparr>;
       stale = demo_op OpUpdate ''title'' (JStr ''old'') ''1'';
       seeded = fst (apply_op None (row_to_seed_op r))
   in live_ok r \<and> apply_op (Some r) stale = (Some r, False) \<and>
      (\<exists>r'. apply_op seeded stale = (Some r', True) \<and> map_of (row_fields r') ''title'' = Some (JStr ''old''))"
  by (simp add: apply_op_def base_row_def row_to_seed_op_def demo_row_def demo_op_def apply_set_def
      apply_field_def clock_for_def bt_of_list_def live_ok_def row_ok_def)

end
