(* ===== verification/Registry_Doc.thy ===== *)
theory Registry_Doc
  imports Registry_Row
begin

text \<open>
  The local replica of the registry room (\<^verbatim>\<open>src/crates/doc/src/registry.rs\<close>, sections pending
  batches and the doc): the record \<open>RegistryDoc\<close>, its persistence, the server frames
  (\<^verbatim>\<open>apply_state\<close>, \<^verbatim>\<open>apply_rows\<close>, \<^verbatim>\<open>ack_batch\<close>), the local writes and the overlay reads.

  The wall clock is an argument \<open>now :: nat \<Rightarrow> int\<close>, the reading at each call of \<^verbatim>\<open>now_ms\<close>; the ghost
  field \<open>wall_reads\<close> counts the calls made so far. \<open>serde_json\<close> is an argument too.
  The lemmas show the representation invariant of the replica and that every operation keeps
  it, that the cursor only moves over a contiguous prefix of frames, that batches are never
  over the server's cap and keep the order of their operations, and what the overlay shows.
\<close>

section \<open>State\<close>

record PendingBatch =
  batch_id :: string
  batch_ops :: "RowOp list"
  in_flight :: bool

datatype StateOutcome = Delta | Replaced | Reseeded

datatype DocError = DocSerde | DocSchema string

type_synonym auth_map = "(string, (string, RegistryRow) hmap) hmap"

record RegistryDoc =
  device_id :: string
  authoritative :: auth_map
  server_seq :: u64
  gc_floor :: u64
  clock :: HlcClock
  pending :: "PendingBatch list"
  generation :: u64
  wall_reads :: nat

record PersistedState =
  ps_v :: u32
  ps_resync_epoch :: u32
  ps_device_id :: string
  ps_server_seq :: u64
  ps_gc_floor :: u64
  ps_clock :: HlcClock
  ps_rows :: "RegistryRow list"
  ps_pending :: "PendingBatch list"

definition CURRENT_RESYNC_EPOCH :: u32 where
  "CURRENT_RESYNC_EPOCH = 1"

definition MAX_OPS_PER_BATCH :: nat where
  "MAX_OPS_PER_BATCH = 400"

definition registry_new :: "string \<Rightarrow> RegistryDoc" where
  "registry_new dev =
     \<lparr>device_id = dev, authoritative = [], server_seq = 0, gc_floor = 0, clock = HlcClock_default,
      pending = [], generation = 0, wall_reads = 0\<rparr>"

definition cursor :: "RegistryDoc \<Rightarrow> u64" where
  "cursor d = server_seq d"

definition pending_len :: "RegistryDoc \<Rightarrow> nat" where
  "pending_len d = length (pending d)"

section \<open>The authoritative rows\<close>

text \<open>\<^verbatim>\<open>entry(kind).or_default().insert(id, row)\<close>.\<close>

definition auth_ins :: "string \<times> string \<Rightarrow> RegistryRow \<Rightarrow> auth_map \<Rightarrow> auth_map" where
  "auth_ins key row m =
     (case key of (kind, ident) \<Rightarrow>
        AList.update kind
          (AList.update ident row (case map_of m kind of None \<Rightarrow> [] | Some b \<Rightarrow> b)) m)"

definition row_key :: "RegistryRow \<Rightarrow> string \<times> string" where
  "row_key row = (row_kind row, row_id row)"

definition put_row :: "RegistryRow \<Rightarrow> auth_map \<Rightarrow> auth_map" where
  "put_row row m = auth_ins (row_key row) row m"

definition auth_get :: "auth_map \<Rightarrow> string \<Rightarrow> string \<Rightarrow> RegistryRow option" where
  "auth_get m kind ident = (case map_of m kind of None \<Rightarrow> None | Some b \<Rightarrow> map_of b ident)"

definition auth_rows :: "auth_map \<Rightarrow> RegistryRow list" where
  "auth_rows m = concat (map (\<lambda>(kind, b). map snd b) m)"

definition put_authoritative :: "RegistryRow \<Rightarrow> RegistryDoc \<Rightarrow> RegistryDoc" where
  "put_authoritative row d = d\<lparr>authoritative := put_row row (authoritative d)\<rparr>"

section \<open>Persistence\<close>

definition to_persisted :: "RegistryDoc \<Rightarrow> PersistedState" where
  "to_persisted d =
     \<lparr>ps_v = 1, ps_resync_epoch = CURRENT_RESYNC_EPOCH, ps_device_id = device_id d,
      ps_server_seq = server_seq d, ps_gc_floor = gc_floor d, ps_clock = clock d,
      ps_rows = auth_rows (authoritative d), ps_pending = pending d\<rparr>"

definition to_bytes :: "(PersistedState \<Rightarrow> string option) \<Rightarrow> RegistryDoc \<Rightarrow> DocError + string" where
  "to_bytes to_vec d =
     (case to_vec (to_persisted d) of None \<Rightarrow> Inl DocSerde | Some bytes \<Rightarrow> Inr bytes)"

definition from_persisted :: "PersistedState \<Rightarrow> string \<Rightarrow> DocError + RegistryDoc" where
  "from_persisted st dev =
     (if ps_v st \<noteq> 1
      then Inl (DocSchema (''unknown registry snapshot version '' @ dec (unat (ps_v st))))
      else
        let d = registry_new dev;
            d = d\<lparr>server_seq := (if ps_resync_epoch st < CURRENT_RESYNC_EPOCH then 0
                                else ps_server_seq st)\<rparr>;
            d = d\<lparr>gc_floor := ps_gc_floor st, clock := ps_clock st, pending := ps_pending st\<rparr>
        in Inr (fold put_authoritative (ps_rows st) d))"

definition from_bytes :: "(string \<Rightarrow> PersistedState option) \<Rightarrow> string \<Rightarrow> string \<Rightarrow> DocError + RegistryDoc" where
  "from_bytes from_slice bytes dev =
     (case from_slice bytes of None \<Rightarrow> Inl DocSerde | Some st \<Rightarrow> from_persisted st dev)"

section \<open>Local writes\<close>

definition next_hlc :: "(nat \<Rightarrow> int) \<Rightarrow> RegistryDoc \<Rightarrow> string \<times> RegistryDoc" where
  "next_hlc now d =
     (case hlc_next (clock d) (now (wall_reads d)) (device_id d) of
        (h, c) \<Rightarrow> (h, d\<lparr>clock := c, wall_reads := wall_reads d + 1\<rparr>))"

text \<open>The \<^verbatim>\<open>while\<close> loop of \<^verbatim>\<open>enqueue_ops\<close>: split off everything after the cap, push the front.\<close>

function enqueue_loop :: "(nat \<Rightarrow> int) \<Rightarrow> RowOp list \<Rightarrow> RegistryDoc \<Rightarrow> RegistryDoc" where
  "enqueue_loop now ops d =
     (if ops = [] then d
      else
        let (front, tail) = (if length ops > MAX_OPS_PER_BATCH
                             then (take MAX_OPS_PER_BATCH ops, drop MAX_OPS_PER_BATCH ops)
                             else (ops, []));
            (h, d1) = next_hlc now d
        in enqueue_loop now tail
             (d1\<lparr>pending := pending d1 @
                [\<lparr>batch_id = ''b-'' @ h, batch_ops = front, in_flight = False\<rparr>]\<rparr>))"
  by pat_completeness auto
termination
  by (relation "measure (\<lambda>(now, ops, d). length ops)")
    (auto simp: MAX_OPS_PER_BATCH_def split: if_splits)

declare enqueue_loop.simps [simp del]

definition enqueue_ops :: "(nat \<Rightarrow> int) \<Rightarrow> RowOp list \<Rightarrow> RegistryDoc \<Rightarrow> RegistryDoc" where
  "enqueue_ops now ops d =
     (if ops = [] then d else enqueue_loop now ops (d\<lparr>generation := generation d + 1\<rparr>))"

definition registry_write ::
  "(nat \<Rightarrow> int) \<Rightarrow> string \<Rightarrow> string \<Rightarrow> OpKind \<Rightarrow> json btmap \<Rightarrow> RegistryDoc \<Rightarrow> RegistryDoc" where
  "registry_write now kind ident op s d =
     (case next_hlc now d of (h, d1) \<Rightarrow>
        enqueue_ops now
          [\<lparr>op_kind = kind, op_id = ident, op_op = op, op_set = Some s, op_hlc = h, op_clocks = None\<rparr>] d1)"

definition delete_row_ops :: "(nat \<Rightarrow> int) \<Rightarrow> (string \<times> string) list \<Rightarrow> RegistryDoc \<Rightarrow> RegistryDoc" where
  "delete_row_ops now keys d =
     (case next_hlc now d of (h, d1) \<Rightarrow>
        enqueue_ops now
          (map (\<lambda>(kind, ident). \<lparr>op_kind = kind, op_id = ident, op_op = OpDelete, op_set = None,
                                op_hlc = h, op_clocks = None\<rparr>) keys) d1)"

section \<open>Server frames\<close>

definition apply_state ::
  "(nat \<Rightarrow> int) \<Rightarrow> u64 \<Rightarrow> bool \<Rightarrow> u64 \<Rightarrow> RegistryRow list \<Rightarrow> RegistryDoc \<Rightarrow> StateOutcome \<times> RegistryDoc" where
  "apply_state now seq full gc rows d0 =
     (let d = d0\<lparr>generation := generation d0 + 1\<rparr> in
      if \<not> full then
        (Delta, (fold put_authoritative rows d)\<lparr>server_seq := seq, gc_floor := gc\<rparr>)
      else if seq < server_seq d then
        let seed = map row_to_seed_op (auth_rows (authoritative d));
            d1 = (fold put_authoritative rows d)\<lparr>server_seq := seq, gc_floor := gc\<rparr>
        in (Reseeded, if seed \<noteq> [] then enqueue_ops now seed d1 else d1)
      else
        let incoming = fold put_row rows [];
            seed = concat (map (\<lambda>(kind, by_id).
              concat (map (\<lambda>(ident, row).
                if \<not> (case map_of incoming kind of None \<Rightarrow> False | Some m \<Rightarrow> map_of m ident \<noteq> None)
                then [row_to_seed_op row] else []) by_id)) (authoritative d));
            d1 = d\<lparr>authoritative := incoming, server_seq := seq, gc_floor := gc\<rparr>
        in if seed = [] then (Replaced, d1) else (Reseeded, enqueue_ops now seed d1))"

definition apply_rows :: "u64 \<Rightarrow> RegistryRow list \<Rightarrow> RegistryDoc \<Rightarrow> bool \<times> RegistryDoc" where
  "apply_rows seq rows d0 =
     (let d = fold put_authoritative rows (d0\<lparr>generation := generation d0 + 1\<rparr>) in
      if seq > server_seq d + 1 then (False, d)
      else if seq > server_seq d then (True, d\<lparr>server_seq := seq\<rparr>)
      else (True, d))"

definition ack_batch :: "string \<Rightarrow> u64 \<Rightarrow> RegistryDoc \<Rightarrow> bool \<times> RegistryDoc" where
  "ack_batch b seq d =
     (let before = length (pending d);
          d1 = d\<lparr>pending := filter (\<lambda>x. batch_id x \<noteq> b) (pending d)\<rparr>
      in if length (pending d1) \<noteq> before then (True, d1\<lparr>generation := generation d1 + 1\<rparr>)
         else (False, d1))"

definition take_pushable :: "RegistryDoc \<Rightarrow> PendingBatch list \<times> RegistryDoc" where
  "take_pushable d =
     (map (\<lambda>b. b\<lparr>in_flight := True\<rparr>) (filter (\<lambda>b. \<not> in_flight b) (pending d)),
      d\<lparr>pending := map (\<lambda>b. if \<not> in_flight b then b\<lparr>in_flight := True\<rparr> else b) (pending d)\<rparr>)"

definition mark_disconnected :: "RegistryDoc \<Rightarrow> RegistryDoc" where
  "mark_disconnected d = d\<lparr>pending := map (\<lambda>b. b\<lparr>in_flight := False\<rparr>) (pending d)\<rparr>"

section \<open>Overlay reads\<close>

text \<open>One step of the overlay: an operation on the row that is read merges into it.\<close>

definition overlay_op :: "string \<Rightarrow> string \<Rightarrow> RowOp \<Rightarrow> RegistryRow option \<Rightarrow> RegistryRow option" where
  "overlay_op kind ident op row =
     (if op_kind op = kind \<and> op_id op = ident
      then (case fst (apply_op row op) of None \<Rightarrow> row | Some n \<Rightarrow> Some n) else row)"

definition pending_ops :: "RegistryDoc \<Rightarrow> RowOp list" where
  "pending_ops d = concat (map batch_ops (pending d))"

definition overlay_row :: "RegistryDoc \<Rightarrow> string \<Rightarrow> string \<Rightarrow> RegistryRow option" where
  "overlay_row d kind ident =
     (case fold (overlay_op kind ident) (pending_ops d) (auth_get (authoritative d) kind ident) of
        None \<Rightarrow> None
      | Some r \<Rightarrow> if \<not> row_deleted r then Some r else None)"

definition overlay_ids :: "RegistryDoc \<Rightarrow> string \<Rightarrow> string list" where
  "overlay_ids d kind =
     fold (\<lambda>op ids. if op_kind op = kind \<and> op_id op \<notin> set ids then ids @ [op_id op] else ids)
       (pending_ops d)
       (case map_of (authoritative d) kind of None \<Rightarrow> [] | Some m \<Rightarrow> map fst m)"

definition overlay_rows :: "RegistryDoc \<Rightarrow> string \<Rightarrow> RegistryRow list" where
  "overlay_rows d kind = List.map_filter (overlay_row d kind) (overlay_ids d kind)"

text \<open>A row that does not deserialize is logged and skipped.\<close>

definition read_kind :: "(json \<Rightarrow> 'a option) \<Rightarrow> RegistryDoc \<Rightarrow> string \<Rightarrow> 'a list" where
  "read_kind from_value d kind =
     List.map_filter (\<lambda>row. from_value (JObj (row_fields row))) (overlay_rows d kind)"

definition row_exists :: "RegistryDoc \<Rightarrow> string \<Rightarrow> string \<Rightarrow> bool" where
  "row_exists d kind ident = (overlay_row d kind ident \<noteq> None)"

section \<open>Lookups in the authoritative rows\<close>

definition auth_lookup :: "auth_map \<Rightarrow> string \<times> string \<Rightarrow> RegistryRow option" where
  "auth_lookup m key = auth_get m (fst key) (snd key)"

text \<open>The representation invariant of the nested maps, and that every row sits under its key.\<close>

definition nested_ok :: "auth_map \<Rightarrow> bool" where
  "nested_ok m \<longleftrightarrow> hm_ok m \<and> (\<forall>(kind, b) \<in> set m. hm_ok b)"

definition keyed :: "auth_map \<Rightarrow> bool" where
  "keyed m \<longleftrightarrow> (\<forall>key row. auth_lookup m key = Some row \<longrightarrow> row_key row = key)"

definition auth_ok :: "auth_map \<Rightarrow> bool" where
  "auth_ok m \<longleftrightarrow> nested_ok m \<and> keyed m"

lemma nested_ok_SomeD: "nested_ok m \<Longrightarrow> map_of m kind = Some b \<Longrightarrow> hm_ok b"
  by (auto simp: nested_ok_def dest: map_of_SomeD)

lemma nested_ok_ins: "nested_ok m \<Longrightarrow> nested_ok (auth_ins key row m)"
proof -
  assume m: "nested_ok m"
  obtain kind ident where key: "key = (kind, ident)" by force
  let ?b = "AList.update ident row (case map_of m kind of None \<Rightarrow> [] | Some b \<Rightarrow> b)"
  have b: "hm_ok ?b"
    using nested_ok_SomeD [OF m] by (intro hm.ok_ins) (auto simp: hm_ok_def split: option.splits)
  have d: "hm_ok (AList.update kind ?b m)" using m by (intro hm.ok_ins) (simp add: nested_ok_def)
  have "hm_ok b'" if "(k', b') \<in> set (AList.update kind ?b m)" for k' b'
  proof -
    from that d have "map_of (AList.update kind ?b m) k' = Some b'"
      by (simp add: hm_ok_def)
    then show ?thesis using b nested_ok_SomeD [OF m] by (auto simp: AList.update_conv' split: if_splits)
  qed
  with d show ?thesis by (auto simp: nested_ok_def auth_ins_def key)
qed

lemma auth_lookup_ins: "auth_lookup (auth_ins key row m) = (auth_lookup m)(key := Some row)"
  by (rule ext)
    (auto simp: auth_lookup_def auth_get_def auth_ins_def AList.update_conv'
      split: option.splits prod.splits if_splits)

interpretation auth: table auth_lookup auth_ins nested_ok
  by unfold_locales (auto simp: auth_lookup_ins nested_ok_ins)

lemma auth_ok_empty [simp]: "auth_ok []" "auth_lookup [] key = None"
  by (simp_all add: auth_ok_def nested_ok_def hm_ok_def keyed_def auth_lookup_def auth_get_def)

lemma fold_put_row_conv: "fold put_row rows m = fold (\<lambda>r. auth_ins (row_key r) (id r)) rows m"
  by (simp add: put_row_def [abs_def])

lemma lookup_put_rows:
  assumes "nested_ok m"
  shows "auth_lookup (fold put_row rows m) = auth_lookup m ++ map_of (rev (map (\<lambda>r. (row_key r, r)) rows))"
  using auth.get_fold_ins [OF assms, of row_key id rows] by (simp add: fold_put_row_conv)

lemma auth_ok_put_row [simp]: "auth_ok m \<Longrightarrow> auth_ok (put_row row m)"
  by (auto simp: auth_ok_def put_row_def nested_ok_ins keyed_def auth_lookup_ins)

lemma auth_ok_put_rows [simp]: "auth_ok m \<Longrightarrow> auth_ok (fold put_row rows m)"
  by (induction rows arbitrary: m) simp_all

lemma set_auth_rows:
  assumes "nested_ok m"
  shows "row \<in> set (auth_rows m) \<longleftrightarrow> (\<exists>key. auth_lookup m key = Some row)"
proof
  assume "row \<in> set (auth_rows m)"
  then obtain kind b ident where "(kind, b) \<in> set m" "(ident, row) \<in> set b"
    by (auto simp: auth_rows_def)
  moreover from this assms have "map_of m kind = Some b" by (simp add: nested_ok_def hm_ok_def)
  moreover have "hm_ok b" using nested_ok_SomeD [OF assms \<open>map_of m kind = Some b\<close>] .
  ultimately have "auth_lookup m (kind, ident) = Some row"
    by (simp add: auth_lookup_def auth_get_def hm_ok_def)
  then show "\<exists>key. auth_lookup m key = Some row" ..
next
  assume "\<exists>key. auth_lookup m key = Some row"
  then obtain kind ident b where "map_of m kind = Some b" "map_of b ident = Some row"
    by (auto simp: auth_lookup_def auth_get_def split: option.splits)
  then show "row \<in> set (auth_rows m)"
    by (force simp: auth_rows_def dest!: map_of_SomeD)
qed

lemma fold_put_authoritative:
  "fold put_authoritative rows d = d\<lparr>authoritative := fold put_row rows (authoritative d)\<rparr>"
  by (induction rows arbitrary: d) (simp_all add: put_authoritative_def)

section \<open>The invariant of the replica\<close>

text \<open>The id the latest clock of the replica would give a batch. Ids are handed out in
  increasing order, so every pending id is at most this one.\<close>

definition stamp :: "RegistryDoc \<Rightarrow> string" where
  "stamp d = ''b-'' @ encode_hlc (last_ms (clock d)) (counter (clock d)) (device_id d)"

definition batch_ok :: "string \<Rightarrow> PendingBatch \<Rightarrow> bool" where
  "batch_ok newest b \<longleftrightarrow> batch_id b \<le> newest \<and> batch_ops b \<noteq> [] \<and> length (batch_ops b) \<le> MAX_OPS_PER_BATCH"

definition doc_ok :: "RegistryDoc \<Rightarrow> bool" where
  "doc_ok d \<longleftrightarrow> auth_ok (authoritative d) \<and> clock_ok (clock d) \<and>
     sorted_wrt (<) (map batch_id (pending d)) \<and> list_all (batch_ok (stamp d)) (pending d)"

text \<open>The wall clock never shows more than \<open>M\<close>, and \<open>M\<close> leaves room below 13 digits for one
  millisecond of carry per reading made up to the state \<open>d\<close>.\<close>

definition within :: "int \<Rightarrow> RegistryDoc \<Rightarrow> bool" where
  "within M d \<longleftrightarrow> last_ms (clock d) \<le> M + int (wall_reads d)"

definition roomy :: "int \<Rightarrow> RegistryDoc \<Rightarrow> bool" where
  "roomy M d \<longleftrightarrow> M + int (wall_reads d) < 10 ^ 13"

lemma batch_ok_mono: "batch_ok s b \<Longrightarrow> s \<le> t \<Longrightarrow> batch_ok t b"
  by (auto simp: batch_ok_def)

lemma next_hlc_frame:
  assumes "next_hlc now d = (h, d')"
  shows "device_id d' = device_id d" "authoritative d' = authoritative d"
    "server_seq d' = server_seq d" "gc_floor d' = gc_floor d" "pending d' = pending d"
    "generation d' = generation d" "wall_reads d' = wall_reads d + 1"
  using assms by (auto simp: next_hlc_def split: prod.splits)

lemma next_hlc_ok:
  assumes "next_hlc now d = (h, d')" "doc_ok d" "now (wall_reads d) \<le> M" "within M d" "roomy M d'"
  shows "doc_ok d'" "within M d'" "stamp d < stamp d'" "''b-'' @ h = stamp d'"
    "encode_hlc (last_ms (clock d)) (counter (clock d)) dev < h"
proof -
  let ?M = "M + int (wall_reads d)"
  from assms(1) have n: "hlc_next (clock d) (now (wall_reads d)) (device_id d) = (h, clock d')"
    and f: "wall_reads d' = wall_reads d + 1" "device_id d' = device_id d" "pending d' = pending d"
      "authoritative d' = authoritative d"
    by (auto simp: next_hlc_def split: prod.splits)
  then have c': "clock d' = hlc_tick (clock d) (now (wall_reads d))"
    by (simp add: hlc_next_def Let_def)
  have ck: "clock_ok (clock d)" using assms(2) by (simp add: doc_ok_def)
  have b: "last_ms (clock d) \<le> last_ms (clock d') \<and> last_ms (clock d') \<le> ?M + 1"
    unfolding c' using ck assms(3,4) by (intro hlc_tick_bounds) (auto simp: within_def)
  then show w: "within M d'" using f by (simp add: within_def)
  have ms: "ms_ok (last_ms (clock d'))"
    using b ck assms(5) f by (auto simp: ms_ok_def clock_ok_def roomy_def)
  note h = hlc_next_newer [OF ck n ms]
  from h(1,3) f show s: "stamp d < stamp d'" by (simp add: stamp_def)
  show "''b-'' @ h = stamp d'" using h(3) f by (simp add: stamp_def)
  show "encode_hlc (last_ms (clock d)) (counter (clock d)) dev < h" by (rule h(1))
  show "doc_ok d'" using assms(2) h(2) f s
    by (auto simp: doc_ok_def list_all_iff intro: batch_ok_mono)
qed

lemma doc_ok_push:
  assumes "doc_ok d" "stamp d < stamp d'" "doc_ok d'" "pending d' = pending d" "ops \<noteq> []"
    "length ops \<le> MAX_OPS_PER_BATCH"
  shows "doc_ok (d'\<lparr>pending := pending d' @ [\<lparr>batch_id = stamp d', batch_ops = ops, in_flight = False\<rparr>]\<rparr>)"
proof -
  have "batch_id b < stamp d'" if "b \<in> set (pending d)" for b
    using assms(1,2) that by (auto simp: doc_ok_def list_all_iff batch_ok_def)
  then show ?thesis using assms
    by (auto simp: doc_ok_def sorted_wrt_append list_all_iff batch_ok_def stamp_def)
qed

section \<open>Enqueueing\<close>

text \<open>One round of the loop, with the record of the pushed batch named.\<close>

definition front_ops :: "RowOp list \<Rightarrow> RowOp list" where
  "front_ops ops = (if length ops > MAX_OPS_PER_BATCH then take MAX_OPS_PER_BATCH ops else ops)"

definition push_batch :: "string \<Rightarrow> RowOp list \<Rightarrow> RegistryDoc \<Rightarrow> RegistryDoc" where
  "push_batch h ops d =
     d\<lparr>pending := pending d @ [\<lparr>batch_id = ''b-'' @ h, batch_ops = ops, in_flight = False\<rparr>]\<rparr>"

lemma enqueue_loop_Nil [simp]: "enqueue_loop now [] d = d"
  by (simp add: enqueue_loop.simps)

lemma enqueue_loop_step:
  assumes "ops \<noteq> []" "next_hlc now d = (h, d1)"
  shows "enqueue_loop now ops d =
    enqueue_loop now (drop MAX_OPS_PER_BATCH ops) (push_batch h (front_ops ops) d1)"
  using assms by (subst enqueue_loop.simps) (auto simp: push_batch_def front_ops_def)

lemma front_ops_simps:
  "front_ops ops @ drop MAX_OPS_PER_BATCH ops = ops"
  "length (front_ops ops) \<le> MAX_OPS_PER_BATCH" "ops \<noteq> [] \<Longrightarrow> front_ops ops \<noteq> []"
  by (auto simp: front_ops_def MAX_OPS_PER_BATCH_def)

lemma push_batch_frame [simp]:
  "device_id (push_batch h ops d) = device_id d" "authoritative (push_batch h ops d) = authoritative d"
  "server_seq (push_batch h ops d) = server_seq d" "gc_floor (push_batch h ops d) = gc_floor d"
  "clock (push_batch h ops d) = clock d" "generation (push_batch h ops d) = generation d"
  "wall_reads (push_batch h ops d) = wall_reads d"
  by (simp_all add: push_batch_def)

lemma enqueue_induct [case_names Nil Step]:
  assumes "\<And>d. P [] d"
    and "\<And>ops d h d1. ops \<noteq> [] \<Longrightarrow> next_hlc now d = (h, d1) \<Longrightarrow>
      P (drop MAX_OPS_PER_BATCH ops) (push_batch h (front_ops ops) d1) \<Longrightarrow> P ops d"
  shows "P ops d"
proof (induction "length ops" arbitrary: ops d rule: less_induct)
  case (less ops d)
  show ?case
  proof (cases "ops = []")
    case False
    obtain h d1 where n: "next_hlc now d = (h, d1)" by force
    show ?thesis
      by (rule assms(2) [OF False n], rule less) (use False in \<open>simp add: MAX_OPS_PER_BATCH_def\<close>)
  qed (simp add: assms(1))
qed

lemma enqueue_loop_frame:
  "device_id (enqueue_loop now ops d) = device_id d \<and>
   authoritative (enqueue_loop now ops d) = authoritative d \<and>
   server_seq (enqueue_loop now ops d) = server_seq d \<and> gc_floor (enqueue_loop now ops d) = gc_floor d \<and>
   generation (enqueue_loop now ops d) = generation d \<and> wall_reads d \<le> wall_reads (enqueue_loop now ops d)"
proof (induction ops d rule: enqueue_induct [where now = now])
  case (Step ops d h d1)
  then show ?case using next_hlc_frame [OF Step(2)] by (simp add: enqueue_loop_step)
qed simp

lemmas enqueue_loop_framed [simp] =
  enqueue_loop_frame [THEN conjunct1]
  enqueue_loop_frame [THEN conjunct2, THEN conjunct1]
  enqueue_loop_frame [THEN conjunct2, THEN conjunct2, THEN conjunct1]
  enqueue_loop_frame [THEN conjunct2, THEN conjunct2, THEN conjunct2, THEN conjunct1]
  enqueue_loop_frame [THEN conjunct2, THEN conjunct2, THEN conjunct2, THEN conjunct2, THEN conjunct1]
  enqueue_loop_frame [THEN conjunct2, THEN conjunct2, THEN conjunct2, THEN conjunct2, THEN conjunct2]

lemma enqueue_loop_batches:
  "\<exists>new. pending (enqueue_loop now ops d) = pending d @ new \<and> concat (map batch_ops new) = ops \<and>
     list_all (\<lambda>b. batch_ops b \<noteq> [] \<and> length (batch_ops b) \<le> MAX_OPS_PER_BATCH \<and> \<not> in_flight b) new"
proof (induction ops d rule: enqueue_induct [where now = now])
  case (Step ops d h d1)
  then obtain new where new: "pending (enqueue_loop now ops d) =
      pending (push_batch h (front_ops ops) d1) @ new"
    "concat (map batch_ops new) = drop MAX_OPS_PER_BATCH ops"
    "list_all (\<lambda>b. batch_ops b \<noteq> [] \<and> length (batch_ops b) \<le> MAX_OPS_PER_BATCH \<and> \<not> in_flight b) new"
    by (auto simp: enqueue_loop_step)
  let ?b = "\<lparr>batch_id = ''b-'' @ h, batch_ops = front_ops ops, in_flight = False\<rparr>"
  have "pending d1 = pending d" using next_hlc_frame [OF Step(2)] by simp
  with new Step(1) show ?case
    by (intro exI [of _ "?b # new"]) (simp add: push_batch_def front_ops_simps)
qed simp

lemma enqueue_loop_ok:
  assumes "doc_ok d" "\<forall>n. now n \<le> M" "within M d" "roomy M (enqueue_loop now ops d)"
  shows "doc_ok (enqueue_loop now ops d) \<and> within M (enqueue_loop now ops d)"
  using assms
proof (induction ops d rule: enqueue_induct [where now = now])
  case (Step ops d h d1)
  let ?d = "push_batch h (front_ops ops) d1"
  have eq: "enqueue_loop now ops d = enqueue_loop now (drop MAX_OPS_PER_BATCH ops) ?d"
    using Step(1,2) by (rule enqueue_loop_step)
  have "wall_reads d1 \<le> wall_reads (enqueue_loop now (drop MAX_OPS_PER_BATCH ops) ?d)"
    using enqueue_loop_framed(6) [of ?d now "drop MAX_OPS_PER_BATCH ops"] by simp
  then have r1: "roomy M d1" using Step.prems(4) eq by (simp add: roomy_def)
  note n = next_hlc_ok [OF Step(2) Step.prems(1) _ Step.prems(3) r1]
  have now: "now (wall_reads d) \<le> M" using Step.prems(2) by blast
  have "doc_ok ?d"
    using doc_ok_push [OF Step.prems(1) n(3) n(1), of "front_ops ops"] now Step(1)
      next_hlc_frame(5) [OF Step(2)] n(4) front_ops_simps
    by (simp add: push_batch_def)
  moreover have "within M ?d" using n(2) [OF now] by (simp add: within_def)
  ultimately show ?case using Step.IH Step.prems(2,4) eq by simp
qed simp

section \<open>Steps of a replica\<close>

text \<open>Everything that changes a replica: the three server frames, a push round, a lost
  connection, and the three moves local writes are made of (a fresh clock, an enqueued list of
  operations, the observation of a clock of another device, whose wall clock is bounded by \<open>M\<close>
  as well).\<close>

definition observe_doc :: "string \<Rightarrow> RegistryDoc \<Rightarrow> RegistryDoc" where
  "observe_doc s d = d\<lparr>clock := observe_clock s (clock d)\<rparr>"

definition sane_clock :: "int \<Rightarrow> string \<Rightarrow> bool" where
  "sane_clock M s \<longleftrightarrow>
     (case parse_hlc s of None \<Rightarrow> True | Some (ms, cnt) \<Rightarrow> ms \<le> M \<and> ms < 10 ^ 13 \<and> cnt \<le> 999999)"

inductive doc_step :: "int \<Rightarrow> (nat \<Rightarrow> int) \<Rightarrow> RegistryDoc \<Rightarrow> RegistryDoc \<Rightarrow> bool" for M now where
  state: "apply_state now seq full gc rows d = (out, d') \<Longrightarrow> doc_step M now d d'"
| rows: "apply_rows seq rows d = (contiguous, d') \<Longrightarrow> doc_step M now d d'"
| ack: "ack_batch b seq d = (existed, d') \<Longrightarrow> doc_step M now d d'"
| push: "take_pushable d = (bs, d') \<Longrightarrow> doc_step M now d d'"
| disconnect: "doc_step M now d (mark_disconnected d)"
| tick: "next_hlc now d = (h, d') \<Longrightarrow> doc_step M now d d'"
| enqueue: "doc_step M now d (enqueue_ops now ops d)"
| observe: "sane_clock M s \<Longrightarrow> doc_step M now d (observe_doc s d)"

inductive doc_run :: "int \<Rightarrow> (nat \<Rightarrow> int) \<Rightarrow> RegistryDoc \<Rightarrow> RegistryDoc \<Rightarrow> bool" for M now where
  stop: "doc_run M now d d"
| more: "doc_run M now d d1 \<Longrightarrow> doc_step M now d1 d2 \<Longrightarrow> doc_run M now d d2"

lemma doc_run_trans: "doc_run M now d1 d2 \<Longrightarrow> doc_run M now d0 d1 \<Longrightarrow> doc_run M now d0 d2"
  by (induction rule: doc_run.induct) (auto intro: doc_run.more)

lemma doc_run_step: "doc_step M now d d' \<Longrightarrow> doc_run M now d d'"
  by (rule doc_run.more [OF doc_run.stop])

lemma enqueue_ops_wall [simp]: "wall_reads d \<le> wall_reads (enqueue_ops now ops d)"
proof (cases "ops = []")
  case False
  then show ?thesis
    using enqueue_loop_framed(6) [of "d\<lparr>generation := generation d + 1\<rparr>" now ops]
    by (simp add: enqueue_ops_def)
qed (simp add: enqueue_ops_def)

lemma enqueue_ops_framed [simp]:
  "device_id (enqueue_ops now ops d) = device_id d"
  "authoritative (enqueue_ops now ops d) = authoritative d"
  "server_seq (enqueue_ops now ops d) = server_seq d" "gc_floor (enqueue_ops now ops d) = gc_floor d"
  by (simp_all add: enqueue_ops_def)

lemma doc_ok_cong:
  assumes "doc_ok d" "auth_ok (authoritative d')" "clock d' = clock d" "device_id d' = device_id d"
    "map batch_id (pending d') = map batch_id (pending d)"
    "map batch_ops (pending d') = map batch_ops (pending d)"
  shows "doc_ok d'"
proof -
  have "map (\<lambda>b. (batch_id b, batch_ops b)) (pending d') = map (\<lambda>b. (batch_id b, batch_ops b)) (pending d)"
    using assms(5,6) by (simp add: list_eq_iff_nth_eq)
  moreover have "list_all (batch_ok s) bs \<longleftrightarrow>
      list_all (\<lambda>(i, ops). i \<le> s \<and> ops \<noteq> [] \<and> length ops \<le> MAX_OPS_PER_BATCH)
        (map (\<lambda>b. (batch_id b, batch_ops b)) bs)" for s bs
    by (simp add: list_all_iff batch_ok_def)
  ultimately show ?thesis using assms by (simp add: doc_ok_def stamp_def)
qed

lemma doc_ok_generation [simp]: "doc_ok (d\<lparr>generation := g\<rparr>) = doc_ok d"
  by (simp add: doc_ok_def stamp_def)

lemma doc_ok_filter:
  assumes "doc_ok d"
  shows "doc_ok (d\<lparr>pending := filter P (pending d)\<rparr>)"
proof -
  have "sorted_wrt (<) (map batch_id (filter P bs))" if "sorted_wrt (<) (map batch_id bs)"
    for bs :: "PendingBatch list"
    using that by (induction bs) auto
  with assms show ?thesis by (auto simp: doc_ok_def list_all_iff stamp_def)
qed

lemma enqueue_ops_ok:
  assumes "doc_ok d" "\<forall>n. now n \<le> M" "within M d" "roomy M (enqueue_ops now ops d)"
  shows "doc_ok (enqueue_ops now ops d)" "within M (enqueue_ops now ops d)"
proof -
  have "doc_ok (d\<lparr>generation := g\<rparr>)" "within M (d\<lparr>generation := g\<rparr>)" for g
    using doc_ok_cong [OF assms(1)] assms(1,3) by (simp_all add: within_def doc_ok_def stamp_def)
  with enqueue_loop_ok [of "d\<lparr>generation := generation d + 1\<rparr>" now M ops] assms
  show "doc_ok (enqueue_ops now ops d)" "within M (enqueue_ops now ops d)"
    by (auto simp: enqueue_ops_def split: if_splits)
qed

lemma observe_doc_ok:
  assumes "sane_clock M s" "doc_ok d" "within M d"
  shows "doc_ok (observe_doc s d) \<and> within M (observe_doc s d)"
proof (cases "clock (observe_doc s d) = clock d")
  case True
  then show ?thesis
    using doc_ok_cong [OF assms(2), of "observe_doc s d"] assms(2,3)
    by (auto simp: observe_doc_def doc_ok_def within_def stamp_def)
next
  case False
  then obtain ms cnt where p: "parse_hlc s = Some (ms, cnt)"
    and gt: "ms > last_ms (clock d) \<or> ms = last_ms (clock d) \<and> cnt > counter (clock d)"
    and c': "clock (observe_doc s d) = (clock d)\<lparr>last_ms := ms, counter := cnt\<rparr>"
    by (auto simp: observe_doc_def observe_clock_def split: option.splits if_splits)
  have b: "ms \<le> M" "ms < 10 ^ 13" "cnt \<le> 999999" using assms(1) p by (auto simp: sane_clock_def)
  have ck: "clock_ok (clock d)" using assms(2) by (simp add: doc_ok_def)
  then have ok: "clock_ok (clock (observe_doc s d))"
    using gt b unfolding c' by (auto simp: clock_ok_def ms_ok_def)
  have dev: "device_id (observe_doc s d) = device_id d" by (simp add: observe_doc_def)
  have "stamp d < stamp (observe_doc s d)"
    unfolding stamp_def using ck ok gt c' dev by (auto simp: encode_hlc_less_iff clock_ok_def)
  then have "doc_ok (observe_doc s d)" using assms(2) ok
    by (auto simp: doc_ok_def observe_doc_def list_all_iff intro: batch_ok_mono)
  moreover have "within M (observe_doc s d)" using b by (simp add: within_def c')
  ultimately show ?thesis ..
qed

lemma apply_state_ok:
  assumes "apply_state now seq full gc rows d = (out, d')" "doc_ok d" "\<forall>n. now n \<le> M" "within M d"
    "roomy M d'"
  shows "doc_ok d' \<and> within M d' \<and> wall_reads d \<le> wall_reads d'"
proof -
  let ?upd = "\<lambda>g a s f. d\<lparr>generation := g, authoritative := a, server_seq := s, gc_floor := f\<rparr>"
  have base: "doc_ok (?upd g a s f)" "within M (?upd g a s f)" if "auth_ok a" for g a s f
    using that assms(2,4) by (simp_all add: doc_ok_def within_def stamp_def)
  have enq: "doc_ok (enqueue_ops now ops (?upd g a s f))" "within M (enqueue_ops now ops (?upd g a s f))"
    if "auth_ok a" "roomy M (enqueue_ops now ops (?upd g a s f))" for g a s f ops
    using enqueue_ops_ok [OF base(1) assms(3) base(2)] that by simp_all
  have a: "auth_ok (fold put_row rows (authoritative d))" "auth_ok (fold put_row rows [])"
    using assms(2) by (simp_all add: doc_ok_def)
  have wall: "wall_reads d \<le> wall_reads (enqueue_ops now ops (?upd g a s f))" for g a s f ops
    using enqueue_ops_wall [of "?upd g a s f" now ops] by simp
  show ?thesis
    using assms(1,5) a base enq wall
    by (auto simp: apply_state_def Let_def fold_put_authoritative split: if_splits)
qed

lemma doc_step_wall: "doc_step M now d d' \<Longrightarrow> wall_reads d \<le> wall_reads d'"
proof (induction rule: doc_step.induct)
  case (state seq full gc rows d out d')
  then show ?case using enqueue_ops_wall
    by (auto simp: apply_state_def Let_def fold_put_authoritative split: if_splits intro: order_trans [OF _ enqueue_ops_wall])
qed (auto simp: apply_rows_def ack_batch_def take_pushable_def mark_disconnected_def observe_doc_def
    Let_def fold_put_authoritative next_hlc_frame split: if_splits)

lemma doc_step_ok:
  assumes "doc_step M now d d'" "doc_ok d" "\<forall>n. now n \<le> M" "within M d" "roomy M d'"
  shows "doc_ok d' \<and> within M d'"
  using assms
proof (cases rule: doc_step.cases)
  case (state seq full gc rows out)
  then show ?thesis using apply_state_ok assms by blast
next
  case (rows seq rows c)
  then show ?thesis using assms(2,4)
    by (auto simp: apply_rows_def Let_def fold_put_authoritative doc_ok_def within_def stamp_def
        split: if_splits)
next
  case (ack b seq e)
  then show ?thesis
    using assms(2,4) doc_ok_filter [OF assms(2), where P = "\<lambda>x. batch_id x \<noteq> b"]
    by (auto simp: ack_batch_def Let_def within_def split: if_splits)
next
  case (push bs)
  then have d': "d' = d\<lparr>pending := map (\<lambda>b. if \<not> in_flight b then b\<lparr>in_flight := True\<rparr> else b) (pending d)\<rparr>"
    by (simp add: take_pushable_def)
  then show ?thesis using assms(2,4) doc_ok_cong [OF assms(2), of d']
    by (auto simp: within_def doc_ok_def comp_def if_distrib)
next
  case disconnect
  then show ?thesis using assms(2,4) doc_ok_cong [OF assms(2), of d']
    by (auto simp: within_def doc_ok_def mark_disconnected_def comp_def)
next
  case (tick h)
  moreover have "now (wall_reads d) \<le> M" using assms(3) by blast
  ultimately show ?thesis using next_hlc_ok(1,2) assms(2,4,5) by simp
next
  case (enqueue ops)
  then show ?thesis using enqueue_ops_ok assms(2-5) by blast
next
  case (observe s)
  then show ?thesis using observe_doc_ok assms(2,4) by blast
qed

lemma roomy_mono: "wall_reads d \<le> wall_reads d' \<Longrightarrow> roomy M d' \<Longrightarrow> roomy M d"
  by (simp add: roomy_def)

lemma doc_run_ok:
  assumes "doc_run M now d d'" "doc_ok d" "\<forall>n. now n \<le> M" "within M d" "roomy M d'"
  shows "doc_ok d' \<and> within M d'"
  using assms
proof (induction rule: doc_run.induct)
  case (more d d1 d2)
  then have "roomy M d1" using doc_step_wall roomy_mono by blast
  with more doc_step_ok show ?case by blast
qed simp

section \<open>Overlay facts\<close>

lemma pending_ops_enqueue [simp]: "pending_ops (enqueue_ops now ops d) = pending_ops d @ ops"
proof (cases "ops = []")
  case False
  obtain new where "pending (enqueue_loop now ops (d\<lparr>generation := generation d + 1\<rparr>)) = pending d @ new"
    "concat (map batch_ops new) = ops"
    using enqueue_loop_batches [of now ops "d\<lparr>generation := generation d + 1\<rparr>"] by auto
  with False show ?thesis by (simp add: enqueue_ops_def pending_ops_def)
qed (simp add: enqueue_ops_def)

lemma overlay_op_key:
  assumes "\<And>r. row = Some r \<Longrightarrow> row_key r = (kind, ident)" "overlay_op kind ident op row = Some r'"
  shows "row_key r' = (kind, ident)"
proof (cases "op_kind op = kind \<and> op_id op = ident")
  case True
  show ?thesis
  proof (cases "fst (apply_op row op)")
    case None
    with assms True show ?thesis by (auto simp: overlay_op_def)
  next
    case (Some n)
    then have "r' = n" using assms(2) True by (simp add: overlay_op_def)
    moreover have "row_key n = (kind, ident)"
      using apply_op_identity [of row op n] Some True assms(1) by (cases row) (auto simp: row_key_def)
    ultimately show ?thesis by simp
  qed
qed (use assms in \<open>auto simp: overlay_op_def\<close>)

lemma fold_overlay_key:
  assumes "\<And>r. row = Some r \<Longrightarrow> row_key r = (kind, ident)"
    "fold (overlay_op kind ident) ops row = Some r'"
  shows "row_key r' = (kind, ident)"
  using assms
proof (induction ops arbitrary: row)
  case (Cons op ops)
  show ?case
  proof (rule Cons.IH)
    show "row_key r = (kind, ident)" if "overlay_op kind ident op row = Some r" for r
      using overlay_op_key Cons.prems(1) that by blast
  qed (use Cons.prems in simp)
qed simp

lemma overlay_row_key:
  assumes "keyed (authoritative d)" "overlay_row d kind ident = Some r"
  shows "row_key r = (kind, ident)" and "\<not> row_deleted r"
proof -
  have "row_key r = (kind, ident)" if "auth_get (authoritative d) kind ident = Some r" for r
    using assms(1) that unfolding keyed_def auth_lookup_def
    by (metis fst_conv snd_conv)
  with assms(2) show "row_key r = (kind, ident)" "\<not> row_deleted r"
    by (auto simp: overlay_row_def split: option.splits if_splits intro: fold_overlay_key)
qed

lemma fold_overlay_other:
  "(\<And>op. op \<in> set ops \<Longrightarrow> \<not> (op_kind op = kind \<and> op_id op = ident)) \<Longrightarrow>
   fold (overlay_op kind ident) ops row = row"
  by (induction ops) (auto simp: overlay_op_def)

text \<open>The ids of a kind: the authoritative ones, then each new id of a pending operation once.\<close>

lemma fold_ids:
  fixes ids :: "string list"
  assumes "distinct ids"
  shows "distinct (fold (\<lambda>op ids. if op_kind op = kind \<and> op_id op \<notin> set ids then ids @ [op_id op] else ids) ops ids)
    \<and> set (fold (\<lambda>op ids. if op_kind op = kind \<and> op_id op \<notin> set ids then ids @ [op_id op] else ids) ops ids)
      = set ids \<union> {op_id op |op. op \<in> set ops \<and> op_kind op = kind}"
  using assms
proof (induction ops arbitrary: ids)
  case (Cons op ops)
  let ?ids = "if op_kind op = kind \<and> op_id op \<notin> set ids then ids @ [op_id op] else ids"
  have "distinct ?ids" using Cons.prems by auto
  from Cons.IH [OF this] show ?case by auto
qed simp

lemma overlay_ids_distinct: "nested_ok (authoritative d) \<Longrightarrow> distinct (overlay_ids d kind)"
  unfolding overlay_ids_def
  using fold_ids [of _ kind "pending_ops d"] nested_ok_SomeD [of "authoritative d" kind]
  by (auto simp: hm_ok_def split: option.splits)

lemma overlay_ids_complete:
  assumes "nested_ok (authoritative d)" "overlay_row d kind ident = Some r"
  shows "ident \<in> set (overlay_ids d kind)"
proof (rule ccontr)
  let ?m = "case map_of (authoritative d) kind of None \<Rightarrow> [] | Some m \<Rightarrow> map fst m"
  assume no: "ident \<notin> set (overlay_ids d kind)"
  have "distinct ?m"
    using nested_ok_SomeD [OF assms(1), of kind] by (auto simp: hm_ok_def split: option.splits)
  from fold_ids [OF this, of kind "pending_ops d"] no
  have "ident \<notin> set ?m" "\<And>op. op \<in> set (pending_ops d) \<Longrightarrow> \<not> (op_kind op = kind \<and> op_id op = ident)"
    unfolding overlay_ids_def by auto
  moreover from this(1) have "auth_get (authoritative d) kind ident = None"
    by (auto simp: auth_get_def map_of_eq_None_iff split: option.splits)
  ultimately have "overlay_row d kind ident = None"
    by (simp add: overlay_row_def fold_overlay_other)
  with assms(2) show False by simp
qed

lemma distinct_map_filter_inj:
  assumes "distinct xs" "\<And>x y z. f x = Some z \<Longrightarrow> f y = Some z \<Longrightarrow> x = y"
  shows "distinct (List.map_filter f xs)"
  using assms
proof (induction xs)
  case (Cons x xs)
  then show ?case
    by (cases "f x") (auto simp: List.map_filter_simps set_map_filter)
qed (simp add: List.map_filter_simps)

lemma row_ok_overlay_op:
  "(\<And>r. row = Some r \<Longrightarrow> row_ok r) \<Longrightarrow> overlay_op kind ident op row = Some r' \<Longrightarrow> row_ok r'"
  using row_ok_apply_op [of row op]
  by (cases "apply_op row op") (auto simp: overlay_op_def split: if_splits option.splits)

lemma overlay_live_ok:
  assumes "\<And>r. auth_get (authoritative d) kind ident = Some r \<Longrightarrow> row_ok r" "overlay_row d kind ident = Some r"
  shows "live_ok r"
proof -
  have "row_ok r" if "\<And>r. row = Some r \<Longrightarrow> row_ok r" "fold (overlay_op kind ident) ops row = Some r"
    for ops row r
    using that
  proof (induction ops arbitrary: row)
    case (Cons op ops)
    have "row_ok r'" if "overlay_op kind ident op row = Some r'" for r'
      using row_ok_overlay_op [OF _ that] Cons.prems(1) by blast
    then show ?case using Cons.IH [of "overlay_op kind ident op row"] Cons.prems(2) by auto
  qed auto
  with assms show ?thesis
    by (auto simp: overlay_row_def live_ok_def split: option.splits if_splits)
qed

lemma pending_ops_next_hlc: "next_hlc now d = (h, d1) \<Longrightarrow> pending_ops d1 = pending_ops d"
  using next_hlc_frame(5) by (simp add: pending_ops_def)

lemma write_appends:
  assumes "next_hlc now d = (h, d1)"
  shows "pending_ops (registry_write now kind ident op s d) = pending_ops d @
      [\<lparr>op_kind = kind, op_id = ident, op_op = op, op_set = Some s, op_hlc = h, op_clocks = None\<rparr>]"
    and "authoritative (registry_write now kind ident op s d) = authoritative d"
    and "cursor (registry_write now kind ident op s d) = cursor d"
  using next_hlc_frame [OF assms] pending_ops_next_hlc [OF assms]
  by (simp_all add: registry_write_def assms cursor_def)

lemma overlay_write:
  assumes "overlay_row d kind ident = Some r" "live_ok r" "op \<noteq> OpDelete" "bt_ok s"
    and "next_hlc now d = (h, d1)"
  shows "\<exists>r'. overlay_row (registry_write now kind ident op s d) kind ident = Some r' \<and>
    (\<forall>k. field_reg r' k =
      (case map_of s k of
         None \<Rightarrow> field_reg r k
       | Some v \<Rightarrow> lww (Some (h, if v = JNull then None else Some v)) (field_reg r k))) \<and>
    (\<forall>kind' ident'. (kind', ident') \<noteq> (kind, ident) \<longrightarrow>
       overlay_row (registry_write now kind ident op s d) kind' ident' = overlay_row d kind' ident')"
proof -
  let ?op = "\<lparr>op_kind = kind, op_id = ident, op_op = op, op_set = Some s, op_hlc = h, op_clocks = None\<rparr>"
  let ?d = "registry_write now kind ident op s d"
  have p: "pending_ops ?d = pending_ops d @ [?op]" "authoritative ?d = authoritative d"
    using next_hlc_frame [OF assms(5)] by (simp_all add: registry_write_def assms(5) pending_ops_def [of d1])
      (simp add: pending_ops_def)
  have ov: "fold (overlay_op kind ident) (pending_ops d) (auth_get (authoritative d) kind ident) = Some r"
    "\<not> row_deleted r"
    using assms(1) by (auto simp: overlay_row_def split: option.splits if_splits)
  have m: "fst (apply_op (Some r) ?op) = Some (app_live ?op r)"
    using apply_op_live [of ?op r] assms(3) ov(2) by (simp add: app_live_def)
  have live: "live_ok (app_live ?op r)" using app_live_frame(1) [OF assms(2)] assms(3) by simp
  have "overlay_row ?d kind ident = Some (app_live ?op r)"
    using ov live m by (simp add: overlay_row_def p overlay_op_def live_ok_def)
  moreover have "field_reg (app_live ?op r) k =
      (case map_of s k of None \<Rightarrow> field_reg r k
       | Some v \<Rightarrow> lww (Some (h, if v = JNull then None else Some v)) (field_reg r k))" for k
    using app_live_reg [OF assms(2), of ?op k] assms(3,4)
    by (auto simp: op_wf_def field_write_def clock_for_def lww_def split: option.splits)
  moreover have "overlay_row ?d kind' ident' = overlay_row d kind' ident'"
    if "(kind', ident') \<noteq> (kind, ident)" for kind' ident'
    using that by (auto simp: overlay_row_def p overlay_op_def)
  ultimately show ?thesis by blast
qed

lemma overlay_rows_facts:
  assumes "auth_ok (authoritative d)"
  shows "set (overlay_rows d kind) = {r. \<exists>ident. overlay_row d kind ident = Some r} \<and>
    distinct (map row_id (overlay_rows d kind)) \<and>
    (\<forall>r \<in> set (overlay_rows d kind). row_kind r = kind \<and> \<not> row_deleted r \<and>
       overlay_row d kind (row_id r) = Some r)"
proof -
  have n: "nested_ok (authoritative d)" and k: "keyed (authoritative d)"
    using assms by (auto simp: auth_ok_def)
  have key: "row_kind r = kind \<and> row_id r = ident \<and> \<not> row_deleted r" if "overlay_row d kind ident = Some r" for ident r
    using overlay_row_key [OF k that] by (simp add: row_key_def)
  have set: "set (overlay_rows d kind) = {r. \<exists>ident. overlay_row d kind ident = Some r}"
    using overlay_ids_complete [OF n, of kind] by (auto simp: overlay_rows_def set_map_filter)
  have "map row_id (List.map_filter (overlay_row d kind) ids) =
      filter (\<lambda>i. overlay_row d kind i \<noteq> None) ids" for ids
    by (induction ids) (auto simp: List.map_filter_simps key split: option.splits)
  then have "distinct (map row_id (overlay_rows d kind))"
    using overlay_ids_distinct [OF n] by (simp add: overlay_rows_def)
  with set key show ?thesis by fastforce
qed

section \<open>Properties\<close>

text \<open>C13: the invariant of the replica. Over any run of server frames, pushes, disconnects, local
  writes and observed clocks, rows sit under their own key, batch ids increase strictly (so no id
  is used twice), none exceeds the replica's clock, and every batch is non-empty and at most 400
  operations. The hypotheses bound the wall clocks so that 13 digits suffice.\<close>

theorem replica_invariant:
  assumes "doc_run M now d d'" "doc_ok d" "\<forall>n. now n \<le> M" "within M d" "roomy M d'"
  shows "doc_ok d'"
  using doc_run_ok [OF assms] by blast

lemma doc_run_write: "doc_run M now d (registry_write now kind ident op s d)"
proof -
  obtain h d1 where n: "next_hlc now d = (h, d1)" by force
  show ?thesis unfolding registry_write_def n prod.case
    by (rule doc_run.more [OF doc_run_step [OF doc_step.tick [OF n]] doc_step.enqueue])
qed

lemma doc_ok_new: "doc_ok (registry_new dev)"
  by (simp add: doc_ok_def registry_new_def HlcClock_default_def clock_ok_def ms_ok_def)

definition demo_now :: "nat \<Rightarrow> int" where
  "demo_now n = 1700000000000"

definition demo_doc :: RegistryDoc where
  "demo_doc = registry_write demo_now ''chats'' ''c1'' OpUpsert [(''title'', JStr ''x'')] (registry_new ''laptop'')"

definition demo_hlc :: "u32 \<Rightarrow> string" where
  "demo_hlc n = encode_hlc 1700000000000 n ''laptop''"

lemma demo_doc_simps:
  "authoritative demo_doc = []" "server_seq demo_doc = 0" "wall_reads demo_doc = 2"
  "pending demo_doc = [\<lparr>batch_id = ''b-'' @ demo_hlc 1,
     batch_ops = [\<lparr>op_kind = ''chats'', op_id = ''c1'', op_op = OpUpsert,
       op_set = Some [(''title'', JStr ''x'')], op_hlc = demo_hlc 0, op_clocks = None\<rparr>],
     in_flight = False\<rparr>]"
  by (simp_all add: demo_doc_def registry_write_def next_hlc_def hlc_next_def hlc_tick_def Let_def
      registry_new_def HlcClock_default_def demo_now_def enqueue_ops_def enqueue_loop.simps
      MAX_OPS_PER_BATCH_def demo_hlc_def)

theorem replica_invariant_witness: "doc_ok demo_doc"
proof (rule replica_invariant)
  show "doc_run 1700000000000 demo_now (registry_new ''laptop'') demo_doc"
    unfolding demo_doc_def by (rule doc_run_write)
  show "roomy 1700000000000 demo_doc" by (simp add: roomy_def demo_doc_simps)
  show "doc_ok (registry_new ''laptop'')" by (rule doc_ok_new)
qed (simp_all add: demo_now_def within_def registry_new_def HlcClock_default_def)

text \<open>Enqueueing any number of operations appends batches whose concatenation is exactly the
  list of operations in order, each non-empty, not in flight and within the cap of 400 (below the
  500 at which the room rejects a batch for good), and touches nothing but the clock.\<close>

theorem enqueue_chunks_in_order:
  "\<exists>new. pending (enqueue_ops now ops d) = pending d @ new \<and> concat (map batch_ops new) = ops \<and>
     (\<forall>b \<in> set new. batch_ops b \<noteq> [] \<and> length (batch_ops b) \<le> 400 \<and> \<not> in_flight b) \<and>
     authoritative (enqueue_ops now ops d) = authoritative d \<and> cursor (enqueue_ops now ops d) = cursor d"
proof (cases "ops = []")
  case True
  then show ?thesis by (intro exI [of _ "[]"]) (simp add: enqueue_ops_def)
next
  case False
  then show ?thesis
    using enqueue_loop_batches [of now ops "d\<lparr>generation := generation d + 1\<rparr>"]
    by (auto simp: enqueue_ops_def list_all_iff MAX_OPS_PER_BATCH_def cursor_def)
qed

theorem enqueue_chunks_in_order_witness:
  "list_all (\<lambda>b. length (batch_ops b) \<le> 400)
     (pending (enqueue_ops demo_now (replicate 900 (row_to_seed_op demo_row)) (registry_new ''laptop'')))"
  using enqueue_chunks_in_order
    [of demo_now "replicate 900 (row_to_seed_op demo_row)" "registry_new ''laptop''"]
  by (auto simp: registry_new_def list_all_iff)

text \<open>An acknowledgement retires exactly the batches of its id and reports whether one
  existed; it never moves the cursor and never touches the rows, whatever sequence number it
  carries.\<close>

theorem ack_retires_only_its_batch:
  "case ack_batch b seq d of (existed, d') \<Rightarrow>
     pending d' = filter (\<lambda>x. batch_id x \<noteq> b) (pending d) \<and>
     (existed \<longleftrightarrow> b \<in> batch_id ` set (pending d)) \<and>
     cursor d' = cursor d \<and> authoritative d' = authoritative d \<and> gc_floor d' = gc_floor d \<and>
     clock d' = clock d"
proof -
  have "length (filter (\<lambda>x. batch_id x \<noteq> b) xs) \<noteq> length xs \<longleftrightarrow> b \<in> batch_id ` set xs"
    for xs :: "PendingBatch list"
    by (metis (mono_tags, lifting) filter_True image_iff length_filter_less less_irrefl)
  then show ?thesis by (auto simp: ack_batch_def cursor_def Let_def)
qed

text \<open>A push round hands out every batch that is not in flight, in order, and marks it; the
  next round of the same connection hands out nothing, and after a lost connection everything
  unacknowledged is handed out again.\<close>

theorem push_once_per_connection:
  "fst (take_pushable (snd (take_pushable d))) = [] \<and>
   map batch_id (fst (take_pushable (mark_disconnected d))) = map batch_id (pending d) \<and>
   map batch_ops (fst (take_pushable (mark_disconnected d))) = map batch_ops (pending d) \<and>
   pending_ops (snd (take_pushable d)) = pending_ops d"
proof -
  have "filter (\<lambda>b. \<not> in_flight b) (map (\<lambda>b. if \<not> in_flight b then b\<lparr>in_flight := True\<rparr> else b) bs) = []"
    for bs :: "PendingBatch list"
    by (auto simp: filter_empty_conv)
  moreover have "map batch_ops (map (\<lambda>b. if \<not> in_flight b then b\<lparr>in_flight := True\<rparr> else b) bs) =
      map batch_ops bs" for bs :: "PendingBatch list"
    by simp
  ultimately show ?thesis
    unfolding take_pushable_def mark_disconnected_def pending_ops_def
    by (intro conjI) (simp_all add: filter_map comp_def del: map_map, simp_all add: comp_def)
qed

text \<open>A broadcast never moves the cursor across a gap. The rows of the frame always replace
  the stored ones; the answer is false exactly on a gap; and the cursor moves only when the frame
  is the very next one. The hypothesis is that the 64-bit cursor is not at its maximum.\<close>

theorem broadcast_cursor_contiguous:
  assumes "nested_ok (authoritative d)" "unat (cursor d) + 1 < 2 ^ 64" "apply_rows seq rows d = (contiguous, d')"
  shows "(contiguous \<longleftrightarrow> unat seq \<le> unat (cursor d) + 1) \<and>
    cursor d' = (if unat seq = unat (cursor d) + 1 then seq else cursor d) \<and>
    auth_lookup (authoritative d') =
      auth_lookup (authoritative d) ++ map_of (rev (map (\<lambda>r. (row_key r, r)) rows)) \<and>
    pending d' = pending d"
proof -
  have s: "unat (server_seq d + 1) = unat (server_seq d) + 1"
    using assms(2) by (simp add: cursor_def unat_word_ariths)
  show ?thesis
    using assms(3) lookup_put_rows [OF assms(1), of rows] s
    by (auto simp: apply_rows_def Let_def fold_put_authoritative cursor_def word_less_nat_alt
        word_unat_eq_iff split: if_splits)
qed

theorem broadcast_cursor_contiguous_witness:
  "cursor (snd (apply_rows 5 [demo_row] (registry_new ''laptop''))) = 0 \<and>
   cursor (snd (apply_rows 1 [demo_row] (registry_new ''laptop''))) = 1"
proof -
  let ?d = "registry_new ''laptop''"
  have d: "nested_ok (authoritative ?d)" "unat (cursor ?d) + 1 < 2 ^ 64" "cursor ?d = 0"
    by (simp_all add: registry_new_def nested_ok_def hm_ok_def cursor_def)
  have "unat (5 :: u64) = 5" by simp
  with broadcast_cursor_contiguous [OF d(1,2), of 5 "[demo_row]"]
    broadcast_cursor_contiguous [OF d(1,2), of 1 "[demo_row]"] d(3)
  show ?thesis by (auto simp: prod_eq_iff)
qed

text \<open>The overlay list of a kind is exactly the live rows the overlay shows one by one: each
  id once, every row under the requested kind and its own id, none deleted.\<close>

theorem overlay_rows_exact:
  assumes "auth_ok (authoritative d)"
  shows "set (overlay_rows d kind) = {r. \<exists>ident. overlay_row d kind ident = Some r} \<and>
    distinct (map row_id (overlay_rows d kind)) \<and>
    (\<forall>r \<in> set (overlay_rows d kind). row_kind r = kind \<and> \<not> row_deleted r \<and>
       overlay_row d kind (row_id r) = Some r)"
  using overlay_rows_facts [OF assms] .

theorem overlay_rows_exact_witness: "distinct (map row_id (overlay_rows demo_doc ''chats''))"
  using overlay_rows_exact [of demo_doc "''chats''"] by (simp add: demo_doc_simps)

text \<open>A local field write shows at once. The overlay row after the write is the merge of the
  operation, stamped with the replica's next clock, into the overlay before it: on a live row each
  written field shows the new value unless the row holds a newer clock, other fields and all other
  rows are as before.\<close>

theorem local_write_shows_at_once:
  assumes "overlay_row d kind ident = Some r" "live_ok r" "op \<noteq> OpDelete" "bt_ok s"
    and "next_hlc now d = (h, d1)"
  shows "\<exists>r'. overlay_row (registry_write now kind ident op s d) kind ident = Some r' \<and>
    (\<forall>k. field_reg r' k =
      (case map_of s k of
         None \<Rightarrow> field_reg r k
       | Some v \<Rightarrow> lww (Some (h, if v = JNull then None else Some v)) (field_reg r k))) \<and>
    (\<forall>kind' ident'. (kind', ident') \<noteq> (kind, ident) \<longrightarrow>
       overlay_row (registry_write now kind ident op s d) kind' ident' = overlay_row d kind' ident')"
  using overlay_write [OF assms] .

definition demo_loaded :: RegistryDoc where
  "demo_loaded = (registry_new ''laptop'')\<lparr>authoritative := [(''chats'', [(''c1'', demo_row)])]\<rparr>"

theorem local_write_shows_at_once_witness:
  "\<exists>r'. overlay_row (registry_write demo_now ''chats'' ''c1'' OpUpdate [(''title'', JStr ''y'')] demo_loaded)
     ''chats'' ''c1'' = Some r' \<and>
     field_reg r' ''title'' = lww (Some (demo_hlc 0, Some (JStr ''y''))) (Some (''2'', Some (JStr ''x'')))"
proof -
  have o: "overlay_row demo_loaded ''chats'' ''c1'' = Some demo_row"
    by (simp add: overlay_row_def demo_loaded_def registry_new_def pending_ops_def auth_get_def demo_row_def)
  have n: "next_hlc demo_now demo_loaded = (demo_hlc 0, snd (next_hlc demo_now demo_loaded))"
    by (simp add: next_hlc_def hlc_next_def hlc_tick_def demo_loaded_def registry_new_def
        HlcClock_default_def demo_now_def demo_hlc_def)
  have f: "field_reg demo_row ''title'' = Some (''2'', Some (JStr ''x''))"
    by (simp add: field_reg_def demo_row_def)
  obtain r' where "overlay_row (registry_write demo_now ''chats'' ''c1'' OpUpdate [(''title'', JStr ''y'')] demo_loaded)
     ''chats'' ''c1'' = Some r'"
    "field_reg r' ''title'' = lww (Some (demo_hlc 0, Some (JStr ''y''))) (field_reg demo_row ''title'')"
    using local_write_shows_at_once [OF o demo_ops(2) _ _ n, of OpUpdate "[(''title'', JStr ''y'')]"]
    by auto
  then show ?thesis using f by auto
qed

lemma lookup_put_auth_rows:
  assumes "auth_ok m"
  shows "auth_lookup (fold put_row (auth_rows m) []) = auth_lookup m"
proof
  fix key
  have n: "nested_ok m" "keyed m" using assms by (auto simp: auth_ok_def)
  let ?l = "rev (map (\<lambda>r. (row_key r, r)) (auth_rows m))"
  have l: "auth_lookup (fold put_row (auth_rows m) []) key = map_of ?l key"
    by (subst lookup_put_rows) (auto simp: nested_ok_def hm_ok_def map_add_def split: option.splits)
  have keyD: "auth_lookup m (row_key r) = Some r" if "r \<in> set (auth_rows m)" for r
    using that set_auth_rows [OF n(1)] n(2) by (auto simp: keyed_def)
  show "auth_lookup (fold put_row (auth_rows m) []) key = auth_lookup m key"
  proof (cases "map_of ?l key")
    case None
    then have "key \<notin> row_key ` set (auth_rows m)" by (simp add: map_of_eq_None_iff image_image)
    moreover have "r \<in> set (auth_rows m)" "row_key r = key" if "auth_lookup m key = Some r" for r
      using that set_auth_rows [OF n(1)] n(2) unfolding keyed_def by blast+
    ultimately have "auth_lookup m key = None" by (cases "auth_lookup m key") auto
    with None l show ?thesis by simp
  next
    case (Some r)
    then have "key = row_key r" "r \<in> set (auth_rows m)" by (auto dest!: map_of_SomeD)
    with Some l keyD show ?thesis by simp
  qed
qed

text \<open>C17: a snapshot restores the replica. When the serializer reads back what it wrote, except
  that the in-flight marks are not written, a replica loaded from its own snapshot has the same
  rows, cursor, clock and unsent operations, shows the same overlay, and pushes every pending
  batch again.\<close>

theorem snapshot_roundtrip:
  assumes "auth_ok (authoritative d)"
    and serde: "\<forall>st bytes. to_vec st = Some bytes \<longrightarrow>
      from_slice bytes = Some (st\<lparr>ps_pending := map (\<lambda>b. b\<lparr>in_flight := False\<rparr>) (ps_pending st)\<rparr>)"
    and "to_bytes to_vec d = Inr bytes"
  shows "\<exists>d'. from_bytes from_slice bytes (device_id d) = Inr d' \<and>
    device_id d' = device_id d \<and> cursor d' = cursor d \<and> gc_floor d' = gc_floor d \<and> clock d' = clock d \<and>
    auth_lookup (authoritative d') = auth_lookup (authoritative d) \<and>
    pending d' = pending (mark_disconnected d) \<and>
    (\<forall>kind ident. overlay_row d' kind ident = overlay_row d kind ident)"
proof -
  let ?ps = "map (\<lambda>b. b\<lparr>in_flight := False\<rparr>) (pending d)"
  let ?d = "(registry_new (device_id d))\<lparr>server_seq := server_seq d, gc_floor := gc_floor d,
      clock := clock d, pending := ?ps, authoritative := fold put_row (auth_rows (authoritative d)) []\<rparr>"
  have "to_vec (to_persisted d) = Some bytes"
    using assms(3) by (simp add: to_bytes_def split: option.splits)
  with serde have "from_bytes from_slice bytes (device_id d) = Inr ?d"
    by (simp add: from_bytes_def to_persisted_def from_persisted_def Let_def fold_put_authoritative
        registry_new_def CURRENT_RESYNC_EPOCH_def)
  moreover have a: "auth_lookup (authoritative ?d) = auth_lookup (authoritative d)"
    using lookup_put_auth_rows [OF assms(1)] by simp
  then have "auth_get (authoritative ?d) kind ident = auth_get (authoritative d) kind ident" for kind ident
    by (metis auth_lookup_def fst_conv snd_conv)
  then have "overlay_row ?d kind ident = overlay_row d kind ident" for kind ident
    by (simp add: overlay_row_def pending_ops_def comp_def)
  ultimately show ?thesis
    by (intro exI [of _ ?d])
      (simp add: cursor_def mark_disconnected_def registry_new_def lookup_put_auth_rows [OF assms(1)])
qed

theorem snapshot_roundtrip_witness:
  "let enc = (\<lambda>st. if st = to_persisted demo_loaded then Some ''{}'' else None);
       dec1 = (\<lambda>bytes. Some (to_persisted demo_loaded))
   in \<exists>d'. from_bytes dec1 ''{}'' ''laptop'' = Inr d' \<and> overlay_row d' ''chats'' ''c1'' = Some demo_row"
proof -
  let ?enc = "\<lambda>st. if st = to_persisted demo_loaded then Some ''{}'' else None"
  let ?dec = "\<lambda>bytes. Some (to_persisted demo_loaded)"
  have p: "pending demo_loaded = []" and dev: "device_id demo_loaded = ''laptop''"
    by (simp_all add: demo_loaded_def registry_new_def)
  have a: "auth_ok (authoritative demo_loaded)"
    by (auto simp: demo_loaded_def auth_ok_def nested_ok_def hm_ok_def keyed_def auth_lookup_def
        auth_get_def row_key_def demo_row_def split: if_splits)
  have s: "\<forall>st bytes. ?enc st = Some bytes \<longrightarrow>
      ?dec bytes = Some (st\<lparr>ps_pending := map (\<lambda>b. b\<lparr>in_flight := False\<rparr>) (ps_pending st)\<rparr>)"
    using p by (auto simp: to_persisted_def split: if_splits)
  have b: "to_bytes ?enc demo_loaded = Inr ''{}''" by (simp add: to_bytes_def)
  have o: "overlay_row demo_loaded ''chats'' ''c1'' = Some demo_row"
    by (simp add: overlay_row_def demo_loaded_def registry_new_def pending_ops_def auth_get_def demo_row_def)
  obtain d' where "from_bytes ?dec ''{}'' (device_id demo_loaded) = Inr d'"
    "overlay_row d' ''chats'' ''c1'' = overlay_row demo_loaded ''chats'' ''c1''"
    using snapshot_roundtrip [OF a s b] by blast
  with o dev show ?thesis by (auto simp: Let_def)
qed

text \<open>Loading a snapshot. An unknown version is refused with a schema error; a snapshot from
  before the current epoch loads all of its rows and pending batches with the cursor zeroed, so
  that the next hello fetches the full state; a current one keeps its cursor.\<close>

theorem snapshot_load_outcomes:
  "from_persisted st dev =
     (if ps_v st \<noteq> 1 then Inl (DocSchema (''unknown registry snapshot version '' @ dec (unat (ps_v st))))
      else Inr \<lparr>device_id = dev, authoritative = fold put_row (ps_rows st) [],
             server_seq = (if ps_resync_epoch st = 0 then 0 else ps_server_seq st),
             gc_floor = ps_gc_floor st, clock = ps_clock st, pending = ps_pending st,
             generation = 0, wall_reads = 0\<rparr>)"
proof -
  have "ps_resync_epoch st < 1 \<longleftrightarrow> ps_resync_epoch st = 0"
    by (simp add: word_less_nat_alt word_unat_eq_iff)
  then show ?thesis
    by (simp add: from_persisted_def Let_def fold_put_authoritative registry_new_def CURRENT_RESYNC_EPOCH_def)
qed

section \<open>Full state frames\<close>

lemma set_full_seed:
  assumes "nested_ok m"
  shows "op \<in> set (concat (map (\<lambda>(kind, by_id). concat (map (\<lambda>(ident, row).
           if \<not> (case map_of inc kind of None \<Rightarrow> False | Some b \<Rightarrow> map_of b ident \<noteq> None)
           then [row_to_seed_op row] else []) by_id)) m)) \<longleftrightarrow>
    (\<exists>key row. auth_lookup m key = Some row \<and> auth_lookup inc key = None \<and> op = row_to_seed_op row)"
    (is "?L \<longleftrightarrow> ?R")
proof -
  have inc: "(case map_of inc kind of None \<Rightarrow> False | Some b \<Rightarrow> map_of b ident \<noteq> None) \<longleftrightarrow>
      auth_lookup inc (kind, ident) \<noteq> None" for kind ident
    by (simp add: auth_lookup_def auth_get_def split: option.splits)
  have look: "auth_lookup m (kind, ident) = Some row \<longleftrightarrow> (\<exists>b. (kind, b) \<in> set m \<and> (ident, row) \<in> set b)"
    for kind ident row
  proof -
    have "map_of m kind = Some b \<longleftrightarrow> (kind, b) \<in> set m" for b
      using assms by (simp add: nested_ok_def hm_ok_def)
    moreover have "map_of b ident = Some row \<longleftrightarrow> (ident, row) \<in> set b" if "(kind, b) \<in> set m" for b
      using assms that by (auto simp: nested_ok_def hm_ok_def)
    moreover have "auth_lookup m (kind, ident) = Some row \<longleftrightarrow>
        (\<exists>b. map_of m kind = Some b \<and> map_of b ident = Some row)"
      by (simp add: auth_lookup_def auth_get_def split: option.splits)
    ultimately show ?thesis by metis
  qed
  have "?L \<longleftrightarrow> (\<exists>kind ident row. (\<exists>b. (kind, b) \<in> set m \<and> (ident, row) \<in> set b) \<and>
      auth_lookup inc (kind, ident) = None \<and> op = row_to_seed_op row)"
    unfolding inc by (auto split: if_splits) (metis+)?
  also have "\<dots> \<longleftrightarrow> ?R" by (metis look surj_pair)
  finally show ?thesis .
qed

lemma full_seed_queued:
  assumes "nested_ok (authoritative d)" "\<not> seq < server_seq d" "auth_lookup (authoritative d) key = Some row"
    "auth_lookup (fold put_row rows []) key = None"
  shows "row_to_seed_op row \<in> set (pending_ops (snd (apply_state now seq True g rows d)))"
proof -
  define seed where "seed = concat (map (\<lambda>(kind, by_id). concat (map (\<lambda>(ident, row).
      if \<not> (case map_of (fold put_row rows []) kind of None \<Rightarrow> False | Some b \<Rightarrow> map_of b ident \<noteq> None)
      then [row_to_seed_op row] else []) by_id)) (authoritative d))"
  have m: "row_to_seed_op row \<in> set seed"
    unfolding seed_def set_full_seed [OF assms(1)] using assms(3,4) by blast
  have "snd (apply_state now seq True g rows d) = (let d1 = d\<lparr>generation := generation d + 1,
      authoritative := fold put_row rows [], server_seq := seq, gc_floor := g\<rparr>
      in if seed = [] then d1 else enqueue_ops now seed d1)"
    using assms(2) unfolding seed_def by (simp add: apply_state_def Let_def)
  with m show ?thesis by (auto simp: Let_def)
qed

text \<open>C16: a state frame never silently drops a row. After a delta the frame's rows replace the
  stored ones and the rest stay. After a full frame every row the replica held is either given by
  the server, or queued as a re-seed operation with its original clocks (and still stored when the
  server is behind); the outcome says which. The cursor is the frame's in all three shapes.\<close>

theorem state_frame_keeps_rows:
  assumes "auth_ok (authoritative d)" "apply_state now seq full gc rows d = (out, d')"
    "auth_lookup (authoritative d) key = Some row"
  shows "cursor d' = seq \<and> gc_floor d' = gc \<and>
    (case out of
       Delta \<Rightarrow> \<not> full \<and> pending d' = pending d \<and>
         auth_lookup (authoritative d') key =
           (auth_lookup (authoritative d) ++ map_of (rev (map (\<lambda>r. (row_key r, r)) rows))) key
     | Replaced \<Rightarrow> full \<and> cursor d \<le> seq \<and> pending d' = pending d \<and> key \<in> row_key ` set rows \<and>
         auth_lookup (authoritative d') = map_of (rev (map (\<lambda>r. (row_key r, r)) rows))
     | Reseeded \<Rightarrow> full \<and>
         (seq < cursor d \<longrightarrow> auth_lookup (authoritative d') key \<noteq> None \<and>
            row_to_seed_op row \<in> set (pending_ops d')) \<and>
         (\<not> seq < cursor d \<longrightarrow> (key \<in> row_key ` set rows \<longleftrightarrow> auth_lookup (authoritative d') key \<noteq> None) \<and>
            (key \<notin> row_key ` set rows \<longrightarrow> row_to_seed_op row \<in> set (pending_ops d'))))"
proof -
  let ?new = "map_of (rev (map (\<lambda>r. (row_key r, r)) rows))"
  have n: "nested_ok (authoritative d)" using assms(1) by (simp add: auth_ok_def)
  have dom: "?new key \<noteq> None \<longleftrightarrow> key \<in> row_key ` set rows"
    by (auto simp: map_of_eq_None_iff image_image)
  have inc: "auth_lookup (fold put_row rows []) = ?new"
    by (subst lookup_put_rows) (auto simp: nested_ok_def hm_ok_def fun_eq_iff map_add_def split: option.splits)
  have old: "auth_lookup (fold put_row rows (authoritative d)) = auth_lookup (authoritative d) ++ ?new"
    by (rule lookup_put_rows [OF n])
  have all: "row_to_seed_op row \<in> row_to_seed_op ` set (auth_rows (authoritative d))"
    using set_auth_rows [OF n] assms(3) by blast
  define seed where "seed = concat (map (\<lambda>(kind, by_id). concat (map (\<lambda>(ident, row).
      if \<not> (case map_of (fold put_row rows []) kind of None \<Rightarrow> False | Some b \<Rightarrow> map_of b ident \<noteq> None)
      then [row_to_seed_op row] else []) by_id)) (authoritative d))"
  have seed: "?new key = None \<Longrightarrow> row_to_seed_op row \<in> set seed"
    unfolding seed_def set_full_seed [OF n] using assms(3) inc by metis
  consider "\<not> full" | "full" "seq < server_seq d" | "full" "\<not> seq < server_seq d" by blast
  then show ?thesis
  proof cases
    case 1
    then show ?thesis using assms(2) old by (auto simp: apply_state_def fold_put_authoritative cursor_def)
  next
    case 2
    have "auth_lookup (fold put_row rows (authoritative d)) key \<noteq> None"
      unfolding old using assms(3) by (simp add: map_add_def split: option.splits)
    with 2 show ?thesis using assms(2) all
      by (auto simp: apply_state_def Let_def fold_put_authoritative cursor_def split: if_splits)
  next
    case 3
    then have e: "(out, d') = (let d1 = d\<lparr>generation := generation d + 1, authoritative := fold put_row rows [],
        server_seq := seq, gc_floor := gc\<rparr>
      in if seed = [] then (Replaced, d1) else (Reseeded, enqueue_ops now seed d1))"
      unfolding assms(2) [symmetric] seed_def by (simp add: apply_state_def Let_def)
    show ?thesis
    proof (cases "seed = []")
      case True
      with e 3 seed dom inc show ?thesis by (auto simp: Let_def cursor_def)
    next
      case False
      with e 3 seed dom inc show ?thesis by (auto simp: Let_def cursor_def)
    qed
  qed
qed

theorem state_frame_keeps_rows_witness:
  "row_to_seed_op demo_row \<in> set (pending_ops (snd (apply_state demo_now 7 True 0 [] demo_loaded)))"
proof -
  have a: "auth_ok (authoritative demo_loaded)"
    by (auto simp: demo_loaded_def auth_ok_def nested_ok_def hm_ok_def keyed_def auth_lookup_def
        auth_get_def row_key_def demo_row_def split: if_splits)
  have l: "auth_lookup (authoritative demo_loaded) (''chats'', ''c1'') = Some demo_row" "cursor demo_loaded = 0"
    by (simp_all add: demo_loaded_def auth_lookup_def auth_get_def cursor_def registry_new_def)
  obtain out d' where s: "apply_state demo_now 7 True 0 [] demo_loaded = (out, d')" by force
  from state_frame_keeps_rows [OF a this l(1)] l(2) show ?thesis
    by (cases out) (simp_all add: s)
qed

end
