(* ===== verification/Entities.thy ===== *)
theory Entities
  imports Prelude
begin

text \<open>
  The synced entities (\<^verbatim>\<open>src/crates/proto/src/entities.rs\<close>, \<^verbatim>\<open>agent.rs\<close>, \<^verbatim>\<open>lib.rs\<close>) and the row shapes
  they are read from (\<^verbatim>\<open>src/crates/doc/src/workspace.rs\<close>): devices, spaces, chats, sessions, sidebar
  preferences, the derived display state of a chat and of a space, the validation of pins, and
  the version gate.

  A \<^verbatim>\<open>DateTime\<close> is the number of nanoseconds since the epoch; \<open>timestamp_millis\<close> rounds down, and
  \<^verbatim>\<open>DateTime::from_timestamp_millis\<close>, which fails outside the range of the calendar library, is an
  argument of the conversions that call it.
\<close>

section \<open>Entities\<close>

type_synonym DateTime = int

definition timestamp_millis :: "DateTime \<Rightarrow> int" where
  "timestamp_millis t = t div 1000000"

datatype HarnessId = ClaudeCode | Codex | Cursor | Devin | Grok | Hermes | Pi | Prime | Opencode
  | Antigravity | Mock

datatype ReasoningLevel = Minimal | Low | Medium | High | XHigh | Max | Ultra | Ultracode | Ultrathink

datatype SandboxLevel = ReadOnly | WorkspaceWrite | DangerFullAccess

datatype SessionStatus = Idle | Working | AwaitingInput | Errored

datatype ChatIndicator = IndWorking | IndAwaitingInput | IndErrored | IndCompleted | IndIdle

record SidebarSection =
  sec_id :: string
  sec_name :: string
  sec_session_ids :: "string list"
  sec_collapsed :: bool

record SidebarPreferences =
  pinned_session_ids :: "string list"
  pref_sections :: "SidebarSection list"

record SidebarPreferencesState =
  sps_revision :: u64
  sps_synced :: bool
  sps_initialized :: bool
  sps_pinned_session_ids :: "string list"
  sps_sections :: "SidebarSection list"

record Device =
  dev_id :: string
  dev_name :: string
  dev_platform :: string
  dev_last_seen_at :: "DateTime option"
  dev_created_at :: "DateTime option"
  dev_version :: "string option"
  dev_cursor_sdk_version :: "string option"
  dev_capabilities :: "string list"

record Space =
  sp_id :: string
  sp_device_id :: string
  sp_path :: string
  sp_name :: "string option"
  sp_git_detected :: bool
  sp_git_checked_at :: "DateTime option"
  sp_checkout_id :: "string option"
  sp_created_at :: DateTime

record ChatConfig =
  cc_harness :: HarnessId
  cc_model :: "string option"
  cc_reasoning :: "ReasoningLevel option"
  cc_model_options :: "json btmap"
  cc_sandbox :: SandboxLevel

record ConversationSourceContext =
  src_checkout_id :: string
  src_repo_root :: string
  src_cwd :: string
  src_branch :: string
  src_head_sha :: "string option"
  src_observed_at :: DateTime

record Chat =
  chat_id :: string
  chat_device_id :: string
  chat_title :: "string option"
  chat_archived :: bool
  chat_cwd :: "string option"
  chat_branch :: "string option"
  chat_checkout_id :: "string option"
  chat_source_context :: "ConversationSourceContext option"
  chat_config :: "ChatConfig option"
  chat_last_message_preview :: "string option"
  chat_last_message_at :: "DateTime option"
  chat_created_at :: DateTime
  chat_harness_session_id :: "string option"
  chat_harness_session_cwd :: "string option"
  chat_space_id :: "string option"
  chat_last_seen_at :: "DateTime option"
  chat_room_gen :: "u32 option"
  chat_parent_chat_id :: "string option"

record Session =
  ses_last_completed_turn :: "string option"
  ses_chat_id :: string
  ses_device_id :: string
  ses_status :: SessionStatus
  ses_started_at :: "DateTime option"
  ses_updated_at :: DateTime

record WorkspaceState =
  ws_devices :: "Device list"
  ws_spaces :: "Space list"
  ws_chats :: "Chat list"
  ws_sessions :: "Session list"

record DeletedSpace =
  del_existed :: bool
  del_chat_ids :: "string list"

section \<open>Derived state\<close>

definition MAX_SIDEBAR_PINS :: nat where
  "MAX_SIDEBAR_PINS = 200"

text \<open>\<^verbatim>\<open>any\<close> with the inserting set: the first empty or repeated id stops the scan.\<close>

fun pins_malformed :: "string set \<Rightarrow> string list \<Rightarrow> bool" where
  "pins_malformed seen [] = False"
| "pins_malformed seen (i # ids) =
     (if i = [] \<or> i \<in> seen then True else pins_malformed (insert i seen) ids)"

definition validate_sidebar_pin_update :: "string list \<Rightarrow> string list \<Rightarrow> string + unit" where
  "validate_sidebar_pin_update current next =
     (if pins_malformed {} next then Inl ''Sidebar pins must be non-empty and unique''
      else if length next > MAX_SIDEBAR_PINS \<and> list_ex (\<lambda>i. i \<notin> set current) next
      then Inl ''You can pin up to 200 sessions''
      else Inr ())"

definition can_edit :: "SidebarPreferencesState \<Rightarrow> bool" where
  "can_edit s \<longleftrightarrow> sps_synced s \<or> sps_initialized s"

definition supports :: "Device \<Rightarrow> string \<Rightarrow> bool" where
  "supports d capability = list_ex (\<lambda>v. v = capability) (dev_capabilities d)"

definition path_sep :: "char \<Rightarrow> bool" where
  "path_sep ch \<longleftrightarrow> ch = CHR ''/'' \<or> ch = char_of (92 :: nat)"

definition trim_end_matches :: "(char \<Rightarrow> bool) \<Rightarrow> string \<Rightarrow> string" where
  "trim_end_matches p s = rev (dropWhile p (rev s))"

text \<open>The last piece of \<^verbatim>\<open>rsplit\<close>.\<close>

definition rsplit_first :: "(char \<Rightarrow> bool) \<Rightarrow> string \<Rightarrow> string" where
  "rsplit_first p s = rev (takeWhile (\<lambda>ch. \<not> p ch) (rev s))"

definition display_name :: "Space \<Rightarrow> string" where
  "display_name sp =
     (case sp_name sp of
        Some name \<Rightarrow>
          if trim name \<noteq> [] then name
          else (let s = rsplit_first path_sep (trim_end_matches path_sep (sp_path sp))
                in if s \<noteq> [] then s else sp_path sp)
      | None \<Rightarrow>
          (let s = rsplit_first path_sep (trim_end_matches path_sep (sp_path sp))
           in if s \<noteq> [] then s else sp_path sp))"

definition on_chat2 :: "Chat \<Rightarrow> bool" where
  "on_chat2 c \<longleftrightarrow> (case chat_room_gen c of None \<Rightarrow> 1 | Some g \<Rightarrow> g) \<ge> 2"

definition unseen :: "Chat \<Rightarrow> bool" where
  "unseen c =
     (case (chat_last_message_at c, chat_last_seen_at c) of
        (Some msg, Some seen) \<Rightarrow> msg > seen
      | (Some _, None) \<Rightarrow> True
      | (None, _) \<Rightarrow> False)"

definition chat_indicator :: "Chat \<Rightarrow> Session option \<Rightarrow> ChatIndicator" where
  "chat_indicator c live =
     (case map_option ses_status live of
        Some Working \<Rightarrow> IndWorking
      | Some AwaitingInput \<Rightarrow> IndAwaitingInput
      | Some Errored \<Rightarrow> if unseen c then IndErrored else IndIdle
      | _ \<Rightarrow> if unseen c then IndCompleted else IndIdle)"

section \<open>Row shapes\<close>

record RawDevice =
  rd_id :: string
  rd_name :: string
  rd_platform :: string
  rd_last_seen_at :: "int option"
  rd_created_at :: "int option"
  rd_version :: "string option"
  rd_cursor_sdk_version :: "string option"
  rd_cursor_sdk_engine_version :: "string option"
  rd_capabilities :: "string list"

record RawSpace =
  rs_id :: string
  rs_device_id :: string
  rs_path :: string
  rs_name :: "string option"
  rs_git_detected :: bool
  rs_git_checked_at :: "int option"
  rs_checkout_id :: "string option"
  rs_created_at :: int

record RawChat =
  rc_id :: string
  rc_device_id :: string
  rc_title :: "string option"
  rc_archived :: bool
  rc_cwd :: "string option"
  rc_branch :: "string option"
  rc_checkout_id :: "string option"
  rc_source_context :: "ConversationSourceContext option"
  rc_config :: "ChatConfig option"
  rc_last_message_preview :: "string option"
  rc_last_message_at :: "int option"
  rc_created_at :: int
  rc_harness_session_id :: "string option"
  rc_harness_session_cwd :: "string option"
  rc_space_id :: "string option"
  rc_last_seen_at :: "int option"
  rc_room_gen :: "u32 option"
  rc_parent_chat_id :: "string option"

record RawSession =
  rse_last_completed_turn :: "string option"
  rse_chat_id :: string
  rse_device_id :: string
  rse_status :: SessionStatus
  rse_started_at :: "int option"
  rse_updated_at :: int

text \<open>\<open>from_ms\<close> stands for \<^verbatim>\<open>DateTime::from_timestamp_millis\<close>.\<close>

definition dt :: "(int \<Rightarrow> DateTime option) \<Rightarrow> int \<Rightarrow> DateTime" where
  "dt from_ms ms = (case from_ms ms of None \<Rightarrow> 0 | Some t \<Rightarrow> t)"

definition device_of_raw :: "(int \<Rightarrow> DateTime option) \<Rightarrow> RawDevice \<Rightarrow> Device" where
  "device_of_raw from_ms raw =
     (let sdk_version =
        (if rd_version raw \<noteq> None \<and> rd_version raw = rd_cursor_sdk_engine_version raw
         then rd_cursor_sdk_version raw else None)
      in \<lparr>dev_id = rd_id raw, dev_name = rd_name raw, dev_platform = rd_platform raw,
          dev_last_seen_at = map_option (dt from_ms) (rd_last_seen_at raw),
          dev_created_at = map_option (dt from_ms) (rd_created_at raw),
          dev_version = rd_version raw, dev_cursor_sdk_version = sdk_version,
          dev_capabilities = rd_capabilities raw\<rparr>)"

definition space_of_raw :: "(int \<Rightarrow> DateTime option) \<Rightarrow> RawSpace \<Rightarrow> Space" where
  "space_of_raw from_ms raw =
     \<lparr>sp_id = rs_id raw, sp_device_id = rs_device_id raw, sp_path = rs_path raw,
      sp_name = rs_name raw, sp_git_detected = rs_git_detected raw,
      sp_git_checked_at = map_option (dt from_ms) (rs_git_checked_at raw),
      sp_checkout_id = rs_checkout_id raw, sp_created_at = dt from_ms (rs_created_at raw)\<rparr>"

text \<open>The lenient decoder of a chat's configuration: \<open>from_value\<close> stands for the deserializer of
  \<open>ChatConfig\<close>; an absent, null or undecodable value costs the configuration, not the row.\<close>

definition lenient_chat_config :: "(json \<Rightarrow> ChatConfig option) \<Rightarrow> json option \<Rightarrow> ChatConfig option" where
  "lenient_chat_config from_value v =
     (case v of
        None \<Rightarrow> None
      | Some j \<Rightarrow> if j = JNull then None else from_value j)"

definition chat_of_raw :: "(int \<Rightarrow> DateTime option) \<Rightarrow> RawChat \<Rightarrow> Chat" where
  "chat_of_raw from_ms raw =
     \<lparr>chat_id = rc_id raw, chat_device_id = rc_device_id raw, chat_title = rc_title raw,
      chat_archived = rc_archived raw, chat_cwd = rc_cwd raw, chat_branch = rc_branch raw,
      chat_checkout_id = rc_checkout_id raw, chat_source_context = rc_source_context raw,
      chat_config = rc_config raw, chat_last_message_preview = rc_last_message_preview raw,
      chat_last_message_at = map_option (dt from_ms) (rc_last_message_at raw),
      chat_created_at = dt from_ms (rc_created_at raw),
      chat_harness_session_id = rc_harness_session_id raw,
      chat_harness_session_cwd = rc_harness_session_cwd raw, chat_space_id = rc_space_id raw,
      chat_last_seen_at = map_option (dt from_ms) (rc_last_seen_at raw),
      chat_room_gen = rc_room_gen raw, chat_parent_chat_id = rc_parent_chat_id raw\<rparr>"

definition session_of_raw :: "(int \<Rightarrow> DateTime option) \<Rightarrow> RawSession \<Rightarrow> Session" where
  "session_of_raw from_ms raw =
     \<lparr>ses_last_completed_turn = rse_last_completed_turn raw, ses_chat_id = rse_chat_id raw,
      ses_device_id = rse_device_id raw, ses_status = rse_status raw,
      ses_started_at = map_option (dt from_ms) (rse_started_at raw),
      ses_updated_at = dt from_ms (rse_updated_at raw)\<rparr>"

definition status_str :: "SessionStatus \<Rightarrow> string" where
  "status_str s =
     (case s of Idle \<Rightarrow> ''idle'' | Working \<Rightarrow> ''working'' | AwaitingInput \<Rightarrow> ''awaitingInput''
      | Errored \<Rightarrow> ''errored'')"

definition presence_key :: "string \<Rightarrow> string" where
  "presence_key dev = ''presence/'' @ dev"

section \<open>Properties\<close>

lemma pins_malformed_iff:
  "pins_malformed seen ids \<longleftrightarrow> [] \<in> set ids \<or> \<not> distinct ids \<or> set ids \<inter> seen \<noteq> {}"
  by (induction seen ids rule: pins_malformed.induct) auto

text \<open>The validation of an optimistic pin list accepts exactly the lists of distinct non-empty
  ids that are within the admission limit or add nothing to the confirmed list, so an overflow of
  concurrent pins stays editable while no new pin is admitted past 200.\<close>

theorem pin_update_accepts_exactly:
  "validate_sidebar_pin_update current next = Inr () \<longleftrightarrow>
     distinct next \<and> [] \<notin> set next \<and> (length next \<le> 200 \<or> set next \<subseteq> set current)"
  by (auto simp: validate_sidebar_pin_update_def pins_malformed_iff MAX_SIDEBAR_PINS_def list_ex_iff)

end
