(* ===== verification/Registry_Api.thy ===== *)
theory Registry_Api
  imports Registry_Doc Entities
begin

text \<open>
  The typed interface of the registry replica (\<^verbatim>\<open>src/crates/doc/src/registry.rs\<close>, section typed API
  to the end): devices, spaces, chats, sessions, the whole-document read and the migration of the
  legacy workspace. Every operation is a guard on the overlay followed by one write or one batch of
  deletions.

  The derived serializers are not code of the repository: \<open>Serde\<close> bundles the functions the
  operations call (\<open>None\<close> for an error), and \<open>from_ms\<close> is the calendar's
  \<^verbatim>\<open>DateTime::from_timestamp_millis\<close>. Operations that can fail return the error with the state.
\<close>

section \<open>Field helpers\<close>

record Serde =
  de_device :: "json \<Rightarrow> RawDevice option"
  de_space :: "json \<Rightarrow> RawSpace option"
  de_chat :: "json \<Rightarrow> RawChat option"
  de_session :: "json \<Rightarrow> RawSession option"
  ser_config :: "ChatConfig \<Rightarrow> json option"
  ser_source_context :: "ConversationSourceContext \<Rightarrow> json option"
  ser_status :: "SessionStatus \<Rightarrow> json option"
  from_ms :: "int \<Rightarrow> DateTime option"

definition KIND_DEVICES :: string where "KIND_DEVICES = ''devices''"
definition KIND_SPACES :: string where "KIND_SPACES = ''spaces''"
definition KIND_CHATS :: string where "KIND_CHATS = ''chats''"
definition KIND_SESSIONS :: string where "KIND_SESSIONS = ''sessions''"
definition KIND_PREFERENCES :: string where "KIND_PREFERENCES = ''preferences''"
definition SIDEBAR_PINS_STATE_ID :: string where "SIDEBAR_PINS_STATE_ID = ''sidebarPins''"
definition KIND_SIDEBAR_PINS :: string where "KIND_SIDEBAR_PINS = ''sidebarPins''"

definition fields :: "(string \<times> json) list \<Rightarrow> json btmap" where
  "fields entries = bt_of_list entries"

definition opt_str :: "string option \<Rightarrow> json" where
  "opt_str v = (case v of Some s \<Rightarrow> JStr s | None \<Rightarrow> JNull)"

definition ms_json :: "DateTime \<Rightarrow> json" where
  "ms_json at = JInt (timestamp_millis at)"

definition opt_ms :: "DateTime option \<Rightarrow> json" where
  "opt_ms v = (case v of Some at \<Rightarrow> ms_json at | None \<Rightarrow> JNull)"

definition newest :: "DateTime option list \<Rightarrow> int" where
  "newest candidates =
     (case List.map_filter (map_option timestamp_millis) candidates of
        [] \<Rightarrow> 1
      | m # ms \<Rightarrow> fold max ms m)"

definition row_to :: "(json \<Rightarrow> 'a option) \<Rightarrow> RegistryRow \<Rightarrow> 'a option" where
  "row_to from_value row = from_value (JObj (row_fields row))"

section \<open>Devices and spaces\<close>

definition device_fields :: "Device \<Rightarrow> json btmap" where
  "device_fields d = fields
     [(''id'', JStr (dev_id d)), (''name'', JStr (dev_name d)), (''platform'', JStr (dev_platform d)),
      (''lastSeenAt'', opt_ms (dev_last_seen_at d)), (''createdAt'', opt_ms (dev_created_at d)),
      (''version'', opt_str (dev_version d)), (''cursorSdkVersion'', opt_str (dev_cursor_sdk_version d)),
      (''cursorSdkEngineVersion'', opt_str (dev_version d)),
      (''capabilities'', JArr (map JStr (dev_capabilities d)))]"

definition upsert_device :: "(nat \<Rightarrow> int) \<Rightarrow> Device \<Rightarrow> RegistryDoc \<Rightarrow> RegistryDoc" where
  "upsert_device now dv d = registry_write now KIND_DEVICES (dev_id dv) OpUpsert (device_fields dv) d"

text \<open>The shape every guarded setter shares: \<open>false\<close> and no write when the overlay has no row.\<close>

definition update_existing ::
  "(nat \<Rightarrow> int) \<Rightarrow> string \<Rightarrow> string \<Rightarrow> json btmap \<Rightarrow> RegistryDoc \<Rightarrow> bool \<times> RegistryDoc" where
  "update_existing now kind ident s d =
     (if \<not> row_exists d kind ident then (False, d)
      else (True, registry_write now kind ident OpUpdate s d))"

definition rename_device :: "(nat \<Rightarrow> int) \<Rightarrow> string \<Rightarrow> string \<Rightarrow> RegistryDoc \<Rightarrow> bool \<times> RegistryDoc" where
  "rename_device now dev name d =
     update_existing now KIND_DEVICES dev (fields [(''name'', JStr name)]) d"

definition set_device_last_seen :: "(nat \<Rightarrow> int) \<Rightarrow> string \<Rightarrow> DateTime \<Rightarrow> RegistryDoc \<Rightarrow> bool \<times> RegistryDoc" where
  "set_device_last_seen now dev at d =
     update_existing now KIND_DEVICES dev (fields [(''lastSeenAt'', ms_json at)]) d"

definition read_devices :: "Serde \<Rightarrow> RegistryDoc \<Rightarrow> Device list" where
  "read_devices s d = sort_key dev_id (map (device_of_raw (from_ms s)) (read_kind (de_device s) d KIND_DEVICES))"

definition space_fields :: "Space \<Rightarrow> json btmap" where
  "space_fields sp = fields
     [(''id'', JStr (sp_id sp)), (''deviceId'', JStr (sp_device_id sp)), (''path'', JStr (sp_path sp)),
      (''name'', opt_str (sp_name sp)), (''gitDetected'', JBool (sp_git_detected sp)),
      (''gitCheckedAt'', opt_ms (sp_git_checked_at sp)), (''checkoutId'', opt_str (sp_checkout_id sp)),
      (''createdAt'', ms_json (sp_created_at sp))]"

definition upsert_space :: "(nat \<Rightarrow> int) \<Rightarrow> Space \<Rightarrow> RegistryDoc \<Rightarrow> RegistryDoc" where
  "upsert_space now sp d = registry_write now KIND_SPACES (sp_id sp) OpUpsert (space_fields sp) d"

definition registry_space :: "Serde \<Rightarrow> RegistryDoc \<Rightarrow> string \<Rightarrow> Space option" where
  "registry_space s d space_id =
     map_option (space_of_raw (from_ms s))
       (Option.bind (overlay_row d KIND_SPACES space_id) (row_to (de_space s)))"

definition read_spaces :: "Serde \<Rightarrow> RegistryDoc \<Rightarrow> Space list" where
  "read_spaces s d = sort_key sp_id (map (space_of_raw (from_ms s)) (read_kind (de_space s) d KIND_SPACES))"

definition rename_space :: "(nat \<Rightarrow> int) \<Rightarrow> string \<Rightarrow> string option \<Rightarrow> RegistryDoc \<Rightarrow> bool \<times> RegistryDoc" where
  "rename_space now space_id name d =
     update_existing now KIND_SPACES space_id (fields [(''name'', opt_str name)]) d"

definition set_space_git ::
  "(nat \<Rightarrow> int) \<Rightarrow> string \<Rightarrow> bool \<Rightarrow> string option \<Rightarrow> DateTime \<Rightarrow> RegistryDoc \<Rightarrow> bool \<times> RegistryDoc" where
  "set_space_git now space_id detected checkout_id checked_at d =
     update_existing now KIND_SPACES space_id
       (fields [(''gitDetected'', JBool detected), (''checkoutId'', opt_str checkout_id),
                (''gitCheckedAt'', ms_json checked_at)]) d"

section \<open>Chats\<close>

definition opt_json :: "('a \<Rightarrow> json option) \<Rightarrow> 'a option \<Rightarrow> DocError + json" where
  "opt_json ser v =
     (case v of None \<Rightarrow> Inr JNull
      | Some x \<Rightarrow> (case ser x of None \<Rightarrow> Inl DocSerde | Some j \<Rightarrow> Inr j))"

definition chat_fields :: "Chat \<Rightarrow> json \<Rightarrow> json \<Rightarrow> json btmap" where
  "chat_fields c source_context config = fields
     [(''id'', JStr (chat_id c)), (''deviceId'', JStr (chat_device_id c)),
      (''title'', opt_str (chat_title c)), (''archived'', JBool (chat_archived c)),
      (''cwd'', opt_str (chat_cwd c)), (''branch'', opt_str (chat_branch c)),
      (''checkoutId'', opt_str (chat_checkout_id c)), (''sourceContext'', source_context),
      (''config'', config), (''lastMessagePreview'', opt_str (chat_last_message_preview c)),
      (''lastMessageAt'', opt_ms (chat_last_message_at c)), (''createdAt'', ms_json (chat_created_at c)),
      (''harnessSessionId'', opt_str (chat_harness_session_id c)),
      (''harnessSessionCwd'', opt_str (chat_harness_session_cwd c)),
      (''spaceId'', opt_str (chat_space_id c)), (''lastSeenAt'', opt_ms (chat_last_seen_at c)),
      (''roomGen'', (case chat_room_gen c of None \<Rightarrow> JNull | Some g \<Rightarrow> JInt (uint g))),
      (''parentChatId'', opt_str (chat_parent_chat_id c))]"

definition upsert_chat :: "Serde \<Rightarrow> (nat \<Rightarrow> int) \<Rightarrow> Chat \<Rightarrow> RegistryDoc \<Rightarrow> (DocError + unit) \<times> RegistryDoc" where
  "upsert_chat s now c d =
     (case opt_json (ser_config s) (chat_config c) of
        Inl e \<Rightarrow> (Inl e, d)
      | Inr config \<Rightarrow>
          (case opt_json (ser_source_context s) (chat_source_context c) of
             Inl e \<Rightarrow> (Inl e, d)
           | Inr ctx \<Rightarrow>
               (Inr (), registry_write now KIND_CHATS (chat_id c) OpUpsert (chat_fields c ctx config) d)))"

definition claim_chat ::
  "(nat \<Rightarrow> int) \<Rightarrow> string \<Rightarrow> string option \<Rightarrow> string option \<Rightarrow> DateTime \<Rightarrow> RegistryDoc \<Rightarrow> RegistryDoc" where
  "claim_chat now cid cwd space_id created_at d =
     (let s = fields [(''id'', JStr cid), (''deviceId'', JStr (device_id d)), (''createdAt'', ms_json created_at)];
          s = (case cwd of None \<Rightarrow> s | Some w \<Rightarrow> bt_insert ''cwd'' (JStr w) s);
          s = (case space_id of None \<Rightarrow> s | Some p \<Rightarrow> bt_insert ''spaceId'' (JStr p) s)
      in registry_write now KIND_CHATS cid OpUpsert s d)"

definition set_chat_seen :: "(nat \<Rightarrow> int) \<Rightarrow> string \<Rightarrow> DateTime \<Rightarrow> RegistryDoc \<Rightarrow> bool \<times> RegistryDoc" where
  "set_chat_seen now cid at d =
     (case overlay_row d KIND_CHATS cid of
        None \<Rightarrow> (False, d)
      | Some row \<Rightarrow>
          let current = Option.bind (map_of (row_fields row) ''lastSeenAt'') as_i64 in
          if (case current of None \<Rightarrow> False | Some ms \<Rightarrow> ms \<ge> timestamp_millis at) then (True, d)
          else (True, registry_write now KIND_CHATS cid OpUpdate
                        (fields [(''lastSeenAt'', ms_json at)]) d))"

definition registry_chat :: "Serde \<Rightarrow> RegistryDoc \<Rightarrow> string \<Rightarrow> Chat option" where
  "registry_chat s d cid =
     map_option (chat_of_raw (from_ms s))
       (Option.bind (overlay_row d KIND_CHATS cid) (row_to (de_chat s)))"

definition read_chats :: "Serde \<Rightarrow> RegistryDoc \<Rightarrow> Chat list" where
  "read_chats s d = sort_key chat_id (map (chat_of_raw (from_ms s)) (read_kind (de_chat s) d KIND_CHATS))"

definition delete_space :: "Serde \<Rightarrow> (nat \<Rightarrow> int) \<Rightarrow> string \<Rightarrow> RegistryDoc \<Rightarrow> DeletedSpace \<times> RegistryDoc" where
  "delete_space s now space_id d =
     (let existed = row_exists d KIND_SPACES space_id;
          chat_ids = map chat_id (filter (\<lambda>c. chat_space_id c = Some space_id) (read_chats s d));
          keys = concat (map (\<lambda>c. [(KIND_CHATS, c), (KIND_SESSIONS, c)]) chat_ids) @ [(KIND_SPACES, space_id)]
      in (\<lparr>del_existed = existed, del_chat_ids = chat_ids\<rparr>, delete_row_ops now keys d))"

definition update_chat :: "(nat \<Rightarrow> int) \<Rightarrow> string \<Rightarrow> (string \<times> json) list \<Rightarrow> RegistryDoc \<Rightarrow> bool \<times> RegistryDoc" where
  "update_chat now cid entries d = update_existing now KIND_CHATS cid (fields entries) d"

definition rename_chat :: "(nat \<Rightarrow> int) \<Rightarrow> string \<Rightarrow> string \<Rightarrow> RegistryDoc \<Rightarrow> bool \<times> RegistryDoc" where
  "rename_chat now cid title d = update_chat now cid [(''title'', JStr title)] d"

definition set_chat_archived :: "(nat \<Rightarrow> int) \<Rightarrow> string \<Rightarrow> bool \<Rightarrow> RegistryDoc \<Rightarrow> bool \<times> RegistryDoc" where
  "set_chat_archived now cid archived d = update_chat now cid [(''archived'', JBool archived)] d"

definition set_chat_room_gen :: "(nat \<Rightarrow> int) \<Rightarrow> string \<Rightarrow> u32 \<Rightarrow> RegistryDoc \<Rightarrow> bool \<times> RegistryDoc" where
  "set_chat_room_gen now cid g d = update_chat now cid [(''roomGen'', JInt (uint g))] d"

definition set_chat_branch :: "(nat \<Rightarrow> int) \<Rightarrow> string \<Rightarrow> string \<Rightarrow> RegistryDoc \<Rightarrow> bool \<times> RegistryDoc" where
  "set_chat_branch now cid branch d = update_chat now cid [(''branch'', JStr branch)] d"

definition set_chat_source_context ::
  "Serde \<Rightarrow> (nat \<Rightarrow> int) \<Rightarrow> string \<Rightarrow> ConversationSourceContext \<Rightarrow> RegistryDoc \<Rightarrow> (DocError + bool) \<times> RegistryDoc" where
  "set_chat_source_context s now cid ctx d =
     (if \<not> row_exists d KIND_CHATS cid then (Inr False, d)
      else (case ser_source_context s ctx of
          None \<Rightarrow> (Inl DocSerde, d)
        | Some j \<Rightarrow>
            (Inr True, registry_write now KIND_CHATS cid OpUpdate
               (fields [(''sourceContext'', j), (''branch'', JStr (src_branch ctx)),
                        (''checkoutId'', JStr (src_checkout_id ctx))]) d)))"

definition set_chat_cwd :: "(nat \<Rightarrow> int) \<Rightarrow> string \<Rightarrow> string \<Rightarrow> RegistryDoc \<Rightarrow> bool \<times> RegistryDoc" where
  "set_chat_cwd now cid cwd d = update_chat now cid [(''cwd'', JStr cwd)] d"

definition set_chat_checkout :: "(nat \<Rightarrow> int) \<Rightarrow> string \<Rightarrow> string \<Rightarrow> RegistryDoc \<Rightarrow> bool \<times> RegistryDoc" where
  "set_chat_checkout now cid checkout_id d = update_chat now cid [(''checkoutId'', JStr checkout_id)] d"

definition set_chat_config ::
  "Serde \<Rightarrow> (nat \<Rightarrow> int) \<Rightarrow> string \<Rightarrow> ChatConfig \<Rightarrow> RegistryDoc \<Rightarrow> (DocError + bool) \<times> RegistryDoc" where
  "set_chat_config s now cid config d =
     (if \<not> row_exists d KIND_CHATS cid then (Inr False, d)
      else (case ser_config s config of
          None \<Rightarrow> (Inl DocSerde, d)
        | Some j \<Rightarrow> (Inr True, registry_write now KIND_CHATS cid OpUpdate (fields [(''config'', j)]) d)))"

definition set_chat_harness_session ::
  "(nat \<Rightarrow> int) \<Rightarrow> string \<Rightarrow> string \<Rightarrow> string \<Rightarrow> RegistryDoc \<Rightarrow> bool \<times> RegistryDoc" where
  "set_chat_harness_session now cid session cwd d =
     update_chat now cid [(''harnessSessionId'', JStr session), (''harnessSessionCwd'', JStr cwd)] d"

definition set_chat_last_message ::
  "(nat \<Rightarrow> int) \<Rightarrow> string \<Rightarrow> string \<Rightarrow> DateTime \<Rightarrow> RegistryDoc \<Rightarrow> bool \<times> RegistryDoc" where
  "set_chat_last_message now cid preview at d =
     update_chat now cid [(''lastMessagePreview'', JStr preview), (''lastMessageAt'', ms_json at)] d"

definition delete_chat :: "(nat \<Rightarrow> int) \<Rightarrow> string \<Rightarrow> RegistryDoc \<Rightarrow> bool \<times> RegistryDoc" where
  "delete_chat now cid d =
     (row_exists d KIND_CHATS cid, delete_row_ops now [(KIND_CHATS, cid), (KIND_SESSIONS, cid)] d)"

section \<open>Sessions and the whole document\<close>

definition session_fields :: "Session \<Rightarrow> json \<Rightarrow> json btmap" where
  "session_fields se status = fields
     [(''chatId'', JStr (ses_chat_id se)), (''deviceId'', JStr (ses_device_id se)), (''status'', status),
      (''lastCompletedTurn'', opt_str (ses_last_completed_turn se)),
      (''startedAt'', opt_ms (ses_started_at se)), (''updatedAt'', ms_json (ses_updated_at se))]"

definition upsert_session :: "Serde \<Rightarrow> (nat \<Rightarrow> int) \<Rightarrow> Session \<Rightarrow> RegistryDoc \<Rightarrow> (DocError + unit) \<times> RegistryDoc" where
  "upsert_session s now se d =
     (case ser_status s (ses_status se) of
        None \<Rightarrow> (Inl DocSerde, d)
      | Some j \<Rightarrow> (Inr (), registry_write now KIND_SESSIONS (ses_chat_id se) OpUpsert (session_fields se j) d))"

definition read_sessions :: "Serde \<Rightarrow> RegistryDoc \<Rightarrow> Session list" where
  "read_sessions s d =
     sort_key ses_chat_id (map (session_of_raw (from_ms s)) (read_kind (de_session s) d KIND_SESSIONS))"

definition read_all :: "Serde \<Rightarrow> RegistryDoc \<Rightarrow> WorkspaceState" where
  "read_all s d = \<lparr>ws_devices = read_devices s d, ws_spaces = read_spaces s d,
     ws_chats = read_chats s d, ws_sessions = read_sessions s d\<rparr>"

section \<open>Migration of the legacy workspace\<close>

definition seed_row :: "string \<Rightarrow> string \<Rightarrow> int \<Rightarrow> json btmap \<Rightarrow> RowOp" where
  "seed_row kind ident ms s =
     \<lparr>op_kind = kind, op_id = ident, op_op = OpUpsert, op_set = Some s,
      op_hlc = encode_hlc (max ms 1) 0 ''migration'', op_clocks = None\<rparr>"

definition seed_device :: "Device \<Rightarrow> RowOp" where
  "seed_device dv =
     seed_row KIND_DEVICES (dev_id dv) (newest [dev_last_seen_at dv, dev_created_at dv]) (device_fields dv)"

definition seed_space :: "Space \<Rightarrow> RowOp" where
  "seed_space sp =
     seed_row KIND_SPACES (sp_id sp) (newest [sp_git_checked_at sp, Some (sp_created_at sp)]) (space_fields sp)"

text \<open>The migrated chat carries neither its source context nor its room generation.\<close>

definition seed_chat :: "Serde \<Rightarrow> Chat \<Rightarrow> DocError + RowOp" where
  "seed_chat s c =
     (case opt_json (ser_config s) (chat_config c) of
        Inl e \<Rightarrow> Inl e
      | Inr config \<Rightarrow> Inr (seed_row KIND_CHATS (chat_id c)
          (newest [chat_last_message_at c, chat_last_seen_at c, Some (chat_created_at c)])
          (fields
            [(''id'', JStr (chat_id c)), (''deviceId'', JStr (chat_device_id c)),
             (''title'', opt_str (chat_title c)), (''archived'', JBool (chat_archived c)),
             (''cwd'', opt_str (chat_cwd c)), (''branch'', opt_str (chat_branch c)),
             (''checkoutId'', opt_str (chat_checkout_id c)), (''config'', config),
             (''lastMessagePreview'', opt_str (chat_last_message_preview c)),
             (''lastMessageAt'', opt_ms (chat_last_message_at c)),
             (''createdAt'', ms_json (chat_created_at c)),
             (''harnessSessionId'', opt_str (chat_harness_session_id c)),
             (''harnessSessionCwd'', opt_str (chat_harness_session_cwd c)),
             (''spaceId'', opt_str (chat_space_id c)), (''lastSeenAt'', opt_ms (chat_last_seen_at c)),
             (''parentChatId'', opt_str (chat_parent_chat_id c))])))"

definition seed_session :: "Serde \<Rightarrow> Session \<Rightarrow> DocError + RowOp" where
  "seed_session s se =
     (case ser_status s (ses_status se) of
        None \<Rightarrow> Inl DocSerde
      | Some j \<Rightarrow> Inr (seed_row KIND_SESSIONS (ses_chat_id se)
          (newest [Some (ses_updated_at se), ses_started_at se]) (session_fields se j)))"

text \<open>A loop whose body may return early with \<^verbatim>\<open>?\<close>.\<close>

fun collect_ops :: "('a \<Rightarrow> DocError + RowOp) \<Rightarrow> 'a list \<Rightarrow> DocError + RowOp list" where
  "collect_ops f [] = Inr []"
| "collect_ops f (x # xs) =
     (case f x of
        Inl e \<Rightarrow> Inl e
      | Inr op \<Rightarrow> (case collect_ops f xs of Inl e \<Rightarrow> Inl e | Inr ops \<Rightarrow> Inr (op # ops)))"

definition workspace_seed_ops :: "Serde \<Rightarrow> WorkspaceState \<Rightarrow> DocError + RowOp list" where
  "workspace_seed_ops s st =
     (case collect_ops (seed_chat s) (ws_chats st) of
        Inl e \<Rightarrow> Inl e
      | Inr chats \<Rightarrow>
          (case collect_ops (seed_session s) (ws_sessions st) of
             Inl e \<Rightarrow> Inl e
           | Inr sessions \<Rightarrow>
               Inr (map seed_device (ws_devices st) @ map seed_space (ws_spaces st) @ chats @ sessions)))"

text \<open>\<^verbatim>\<open>slice::chunks(400)\<close>.\<close>

function op_chunks :: "nat \<Rightarrow> 'a list \<Rightarrow> 'a list list" where
  "op_chunks n xs = (if xs = [] \<or> n = 0 then [] else take n xs # op_chunks n (drop n xs))"
  by pat_completeness auto
termination
  by (relation "measure (\<lambda>(n, xs). length xs)") auto

declare op_chunks.simps [simp del]

definition seed_from_workspace ::
  "Serde \<Rightarrow> (nat \<Rightarrow> int) \<Rightarrow> WorkspaceState \<Rightarrow> RegistryDoc \<Rightarrow> (DocError + nat) \<times> RegistryDoc" where
  "seed_from_workspace s now st d =
     (case workspace_seed_ops s st of
        Inl e \<Rightarrow> (Inl e, d)
      | Inr ops \<Rightarrow> (Inr (length ops), fold (enqueue_ops now) (op_chunks 400 ops) d))"

section \<open>The interface runs on the replica's steps\<close>

text \<open>Every operation of the typed interface is a run of the steps of the replica, so the invariant of
  the replica holds after it.\<close>

lemma doc_run_delete: "doc_run M now d (delete_row_ops now keys d)"
proof -
  obtain h d1 where n: "next_hlc now d = (h, d1)" by force
  show ?thesis unfolding delete_row_ops_def n prod.case
    by (rule doc_run.more [OF doc_run_step [OF doc_step.tick [OF n]] doc_step.enqueue])
qed

lemma doc_run_update: "doc_run M now d (snd (update_existing now kind ident s d))"
  by (simp add: update_existing_def doc_run_write doc_run.stop)

lemma doc_run_fold_enqueue: "doc_run M now d (fold (enqueue_ops now) opss d)"
proof (induction opss arbitrary: d)
  case (Cons ops opss)
  from doc_run_trans [OF Cons.IH doc_run_step [OF doc_step.enqueue]] show ?case by simp
qed (simp add: doc_run.stop)

inductive api_step :: "Serde \<Rightarrow> (nat \<Rightarrow> int) \<Rightarrow> RegistryDoc \<Rightarrow> RegistryDoc \<Rightarrow> bool" for s now where
  "api_step s now d (upsert_device now dv d)"
| "api_step s now d (snd (rename_device now i name d))"
| "api_step s now d (snd (set_device_last_seen now i at d))"
| "api_step s now d (upsert_space now sp d)"
| "api_step s now d (snd (rename_space now i oname d))"
| "api_step s now d (snd (set_space_git now i b co at d))"
| "api_step s now d (snd (delete_space s now i d))"
| "api_step s now d (snd (upsert_chat s now c d))"
| "api_step s now d (claim_chat now i cwd spc at d)"
| "api_step s now d (snd (set_chat_seen now i at d))"
| "api_step s now d (snd (rename_chat now i title d))"
| "api_step s now d (snd (set_chat_archived now i b d))"
| "api_step s now d (snd (set_chat_room_gen now i g d))"
| "api_step s now d (snd (set_chat_branch now i br d))"
| "api_step s now d (snd (set_chat_source_context s now i ctx d))"
| "api_step s now d (snd (set_chat_cwd now i w d))"
| "api_step s now d (snd (set_chat_checkout now i w d))"
| "api_step s now d (snd (set_chat_config s now i cfg d))"
| "api_step s now d (snd (set_chat_harness_session now i se w d))"
| "api_step s now d (snd (set_chat_last_message now i p at d))"
| "api_step s now d (snd (delete_chat now i d))"
| "api_step s now d (snd (upsert_session s now ses d))"
| "api_step s now d (snd (seed_from_workspace s now st d))"

lemmas api_defs = upsert_device_def rename_device_def set_device_last_seen_def upsert_space_def
  rename_space_def set_space_git_def delete_space_def upsert_chat_def claim_chat_def set_chat_seen_def
  update_chat_def rename_chat_def set_chat_archived_def set_chat_room_gen_def set_chat_branch_def
  set_chat_source_context_def set_chat_cwd_def set_chat_checkout_def set_chat_config_def
  set_chat_harness_session_def set_chat_last_message_def delete_chat_def upsert_session_def
  seed_from_workspace_def

lemmas doc_runs = doc_run.stop doc_run_write doc_run_delete doc_run_update doc_run_fold_enqueue

lemma api_step_runs: "api_step s now d d' \<Longrightarrow> doc_run M now d d'"
  by (induction rule: api_step.induct)
    (auto simp: api_defs doc_runs Let_def split: option.splits sum.splits)

section \<open>Frames of the interface\<close>

definition appends :: "RegistryDoc \<Rightarrow> RowOp list \<Rightarrow> RegistryDoc \<Rightarrow> bool" where
  "appends d ops d' \<longleftrightarrow> pending_ops d' = pending_ops d @ ops \<and> authoritative d' = authoritative d \<and>
     cursor d' = cursor d \<and> device_id d' = device_id d"

lemma appends_refl: "appends d [] d"
  by (simp add: appends_def)

lemma appends_enqueue: "appends d ops (enqueue_ops now ops d)"
  by (simp add: appends_def cursor_def)

lemma appends_trans: "appends d ops d1 \<Longrightarrow> appends d1 ops' d2 \<Longrightarrow> appends d (ops @ ops') d2"
  by (simp add: appends_def)

lemma appends_tick: "next_hlc now d = (h, d1) \<Longrightarrow> appends d1 ops d' \<Longrightarrow> appends d ops d'"
  using next_hlc_frame [of now d h d1] pending_ops_next_hlc [of now d h d1]
  by (simp add: appends_def cursor_def)

lemma appends_write:
  "\<exists>ops. appends d ops (registry_write now kind ident op s d)"
proof -
  obtain h d1 where n: "next_hlc now d = (h, d1)" by force
  show ?thesis unfolding registry_write_def n prod.case
    by (rule exI, rule appends_tick [OF n appends_enqueue])
qed

lemma appends_delete: "\<exists>ops. appends d ops (delete_row_ops now keys d)"
proof -
  obtain h d1 where n: "next_hlc now d = (h, d1)" by force
  show ?thesis unfolding delete_row_ops_def n prod.case
    by (rule exI, rule appends_tick [OF n appends_enqueue])
qed

lemma appends_update: "\<exists>ops. appends d ops (snd (update_existing now kind ident s d))"
  using appends_refl appends_write by (auto simp: update_existing_def)

lemma appends_fold: "appends d (concat opss) (fold (enqueue_ops now) opss d)"
proof (induction opss arbitrary: d)
  case (Cons ops opss)
  from appends_trans [OF appends_enqueue Cons.IH] show ?case by simp
qed (simp add: appends_refl)

lemma concat_chunks: "0 < n \<Longrightarrow> concat (op_chunks n xs) = xs"
  by (induction n xs rule: op_chunks.induct) (subst op_chunks.simps, auto)

lemma api_step_appends: "api_step s now d d' \<Longrightarrow> \<exists>ops. appends d ops d'"
  by (induction rule: api_step.induct)
    (use appends_refl appends_write appends_delete appends_update in
      \<open>auto simp: api_defs Let_def split: option.splits sum.splits intro: appends_fold\<close>)

section \<open>Deletion\<close>

definition older_than :: "string \<Rightarrow> RegistryRow \<Rightarrow> bool" where
  "older_than h r \<longleftrightarrow> hlc_newer h (max_clock r)"

lemma overlay_delete_None:
  assumes "op_op op = OpDelete" "op_kind op = kind" "op_id op = ident"
    "case row of None \<Rightarrow> True | Some r \<Rightarrow> row_deleted r \<or> older_than (op_hlc op) r"
  shows "\<exists>t. overlay_op kind ident op row = Some t \<and> row_deleted t"
  using assms
  by (cases row) (auto simp: overlay_op_def apply_op_def row_tombstone_def Let_def older_than_def)

lemma overlay_deletes:
  assumes "\<And>op. op \<in> set ops \<Longrightarrow> op_op op = OpDelete \<and> op_hlc op = h"
    "\<exists>op \<in> set ops. op_kind op = kind \<and> op_id op = ident"
    "case row of None \<Rightarrow> True | Some r \<Rightarrow> row_deleted r \<or> older_than h r"
  shows "\<exists>t. fold (overlay_op kind ident) ops row = Some t \<and> row_deleted t"
proof -
  have keep: "\<exists>t. fold (overlay_op kind ident) ops (Some t0) = Some t \<and> row_deleted t"
    if "row_deleted t0" "\<And>op. op \<in> set ops \<Longrightarrow> op_op op = OpDelete \<and> op_hlc op = h" for ops t0
    using that
  proof (induction ops arbitrary: t0)
    case (Cons op ops)
    obtain t1 where "overlay_op kind ident op (Some t0) = Some t1" "row_deleted t1"
      using overlay_delete_None [of op kind ident "Some t0"] Cons.prems
      by (cases "op_kind op = kind \<and> op_id op = ident") (auto simp: overlay_op_def)
    with Cons.IH [of t1] Cons.prems show ?case by simp
  qed simp
  show ?thesis using assms
  proof (induction ops arbitrary: row)
    case (Cons op ops)
    show ?case
    proof (cases "op_kind op = kind \<and> op_id op = ident")
      case True
      then obtain t1 where "overlay_op kind ident op row = Some t1" "row_deleted t1"
        using overlay_delete_None [of op kind ident row] Cons.prems by auto
      with keep [of t1 ops] Cons.prems show ?thesis by simp
    next
      case False
      then have "overlay_op kind ident op row = row" by (auto simp: overlay_op_def)
      with Cons.IH [of row] Cons.prems False show ?thesis by auto
    qed
  qed simp
qed

lemma delete_row_ops_gone:
  assumes "next_hlc now d = (h, d1)" "(kind, ident) \<in> set keys"
    "\<And>r. overlay_row d kind ident = Some r \<Longrightarrow> older_than h r"
  shows "\<not> row_exists (delete_row_ops now keys d) kind ident"
proof -
  let ?ops = "map (\<lambda>(kind, ident). \<lparr>op_kind = kind, op_id = ident, op_op = OpDelete, op_set = None,
      op_hlc = h, op_clocks = None\<rparr>) keys"
  let ?row = "fold (overlay_op kind ident) (pending_ops d) (auth_get (authoritative d) kind ident)"
  have "appends d ?ops (delete_row_ops now keys d)"
    unfolding delete_row_ops_def assms(1) prod.case by (rule appends_tick [OF assms(1) appends_enqueue])
  then have f: "fold (overlay_op kind ident) (pending_ops (delete_row_ops now keys d))
      (auth_get (authoritative (delete_row_ops now keys d)) kind ident) = fold (overlay_op kind ident) ?ops ?row"
    by (simp add: appends_def)
  have "case ?row of None \<Rightarrow> True | Some r \<Rightarrow> row_deleted r \<or> older_than h r"
  proof (cases ?row)
    case (Some r)
    then show ?thesis using assms(3) [of r] by (cases "row_deleted r") (simp_all add: overlay_row_def)
  qed simp
  then obtain t where "fold (overlay_op kind ident) ?ops ?row = Some t" "row_deleted t"
    using overlay_deletes [of ?ops h kind ident ?row] assms(2) by force
  with f show ?thesis by (simp add: row_exists_def overlay_row_def)
qed

section \<open>Writes that win\<close>

lemma fields_ok [simp]: "bt_ok (fields entries)"
  by (simp add: fields_def)

lemma map_of_fields [dict_simps]: "map_of (fields entries) = map_of (rev entries)"
  by (simp add: fields_def dict_simps)

lemma older_than_field:
  assumes "older_than h r"
  shows "hlc_newer h (map_of (row_clocks r) k)"
proof (cases "map_of (row_clocks r) k")
  case (Some c)
  then have c: "c \<in> snd ` set (row_clocks r)" by (force dest: map_of_SomeD)
  show ?thesis
  proof (cases "max_clock r")
    case None
    with c max_clock_mono [OF None] show ?thesis by simp
  next
    case (Some y)
    with c assms max_clock_Some(1) [OF Some] \<open>map_of (row_clocks r) k = Some c\<close> show ?thesis
      by (fastforce simp: older_than_def)
  qed
qed simp

text \<open>A field write stamped with a clock newer than the row shows every written value.\<close>

lemma winning_write:
  assumes "next_hlc now d = (h, d1)" "overlay_row d kind ident = Some r" "live_ok r" "older_than h r"
    "op \<noteq> OpDelete" "bt_ok s"
  shows "\<exists>r'. overlay_row (registry_write now kind ident op s d) kind ident = Some r' \<and>
    (\<forall>k. map_of (row_fields r') k =
      (case map_of s k of None \<Rightarrow> map_of (row_fields r) k | Some v \<Rightarrow> if v = JNull then None else Some v))"
proof -
  obtain r' where r': "overlay_row (registry_write now kind ident op s d) kind ident = Some r'"
    and reg: "\<And>k. field_reg r' k = (case map_of s k of None \<Rightarrow> field_reg r k
       | Some v \<Rightarrow> lww (Some (h, if v = JNull then None else Some v)) (field_reg r k))"
    using overlay_write [OF assms(2,3,5,6,1)] by blast
  have val: "map_of (row_fields x) k = (case field_reg x k of None \<Rightarrow> None | Some (c, v) \<Rightarrow> v)"
    if "row_ok x" for x k
  proof (cases "map_of (row_clocks x) k")
    case None
    then have "map_of (row_fields x) k = None"
      using that by (auto simp: row_ok_def map_of_eq_None_iff)
    with None show ?thesis by (simp add: field_reg_def)
  qed (simp add: field_reg_def)
  have ok: "row_ok r" using assms(3) by (simp add: live_ok_def)
  have "live_ok r'"
  proof -
    let ?op = "\<lparr>op_kind = kind, op_id = ident, op_op = op, op_set = Some s, op_hlc = h, op_clocks = None\<rparr>"
    have f: "fold (overlay_op kind ident) (pending_ops d) (auth_get (authoritative d) kind ident) = Some r"
      using assms(2) by (auto simp: overlay_row_def split: option.splits if_splits)
    have "fst (apply_op (Some r) ?op) = Some (app_live ?op r)"
      using apply_op_live [of ?op r] assms(3,5) by (simp add: app_live_def live_ok_def)
    then have "overlay_row (registry_write now kind ident op s d) kind ident =
        (if row_deleted (app_live ?op r) then None else Some (app_live ?op r))"
      by (simp add: overlay_row_def write_appends [OF assms(1)] f overlay_op_def)
    with r' app_live_frame(1) [OF assms(3), of ?op] assms(5) show ?thesis by (auto split: if_splits)
  qed
  then have ok': "row_ok r'" by (simp add: live_ok_def)
  have new: "hlc_newer h (map_option fst (field_reg r k))" for k
    using older_than_field [OF assms(4), of k] by (cases "map_of (row_clocks r) k") (simp_all add: field_reg_def)
  have "map_of (row_fields r') k =
      (case map_of s k of None \<Rightarrow> map_of (row_fields r) k | Some v \<Rightarrow> if v = JNull then None else Some v)" for k
    unfolding val [OF ok'] val [OF ok] reg using new [of k]
    by (cases "map_of s k") (simp_all add: lww_def)
  with r' show ?thesis by blast
qed

section \<open>Properties\<close>

text \<open>Every operation of the typed interface only queues operations: the server's rows, the
  cursor and the identity of the replica are untouched, what was pending stays in front, and the
  invariant of the replica is kept.\<close>

theorem typed_api_only_queues:
  assumes "api_step s now d d'" "doc_ok d" "\<forall>n. now n \<le> M" "within M d" "roomy M d'"
  shows "doc_ok d' \<and> authoritative d' = authoritative d \<and> cursor d' = cursor d \<and>
    device_id d' = device_id d \<and> (\<exists>ops. pending_ops d' = pending_ops d @ ops)"
  using api_step_appends [OF assms(1)] doc_run_ok [OF api_step_runs [OF assms(1)] assms(2-5)]
  by (auto simp: appends_def)

definition demo_serde :: Serde where
  "demo_serde = \<lparr>de_device = Map.empty, de_space = Map.empty, de_chat = Map.empty, de_session = Map.empty,
     ser_config = Map.empty, ser_source_context = Map.empty, ser_status = (\<lambda>s. Some (JStr (status_str s))),
     from_ms = (\<lambda>ms. Some (ms * 1000000))\<rparr>"

theorem typed_api_only_queues_witness: "doc_ok (snd (delete_chat demo_now ''c1'' (registry_new ''laptop'')))"
proof -
  let ?d = "snd (delete_chat demo_now ''c1'' (registry_new ''laptop''))"
  have st: "api_step demo_serde demo_now (registry_new ''laptop'') ?d" by (rule api_step.intros)
  have "wall_reads ?d = 2"
    by (simp add: delete_chat_def delete_row_ops_def next_hlc_def hlc_next_def hlc_tick_def
        registry_new_def HlcClock_default_def demo_now_def enqueue_ops_def enqueue_loop.simps MAX_OPS_PER_BATCH_def Let_def)
  then have "roomy 1700000000000 ?d" by (simp add: roomy_def)
  moreover have "within 1700000000000 (registry_new ''laptop'')" "\<forall>n. demo_now n \<le> 1700000000000"
    by (simp_all add: within_def registry_new_def HlcClock_default_def demo_now_def)
  ultimately show ?thesis using typed_api_only_queues [OF st doc_ok_new] by blast
qed

text \<open>Deleting a space removes it together with every chat that belongs to it and that chat's
  session row from what the device shows, unless a row holds a clock newer than the deletion's,
  and reports exactly the removed chats.\<close>

theorem delete_space_cascades:
  assumes "next_hlc now d = (h, d1)" "delete_space s now space_id d = (res, d')"
    and "\<forall>kind ident r. overlay_row d kind ident = Some r \<longrightarrow> older_than h r"
  shows "\<not> row_exists d' KIND_SPACES space_id \<and>
    del_chat_ids res = map chat_id (filter (\<lambda>c. chat_space_id c = Some space_id) (read_chats s d)) \<and>
    (\<forall>c \<in> set (read_chats s d). chat_space_id c = Some space_id \<longrightarrow>
       \<not> row_exists d' KIND_CHATS (chat_id c) \<and> \<not> row_exists d' KIND_SESSIONS (chat_id c))"
proof -
  let ?ids = "map chat_id (filter (\<lambda>c. chat_space_id c = Some space_id) (read_chats s d))"
  let ?keys = "concat (map (\<lambda>c. [(KIND_CHATS, c), (KIND_SESSIONS, c)]) ?ids) @ [(KIND_SPACES, space_id)]"
  have r: "del_chat_ids res = ?ids" "d' = delete_row_ops now ?keys d"
    using assms(2) by (auto simp: delete_space_def Let_def)
  have "\<not> row_exists d' kind ident" if "(kind, ident) \<in> set ?keys" for kind ident
    unfolding r(2) using delete_row_ops_gone [OF assms(1) that] assms(3) by blast
  moreover have "(KIND_CHATS, chat_id c) \<in> set ?keys" "(KIND_SESSIONS, chat_id c) \<in> set ?keys"
    if "c \<in> set (read_chats s d)" "chat_space_id c = Some space_id" for c
    using that by auto
  moreover have "(KIND_SPACES, space_id) \<in> set ?keys" by simp
  ultimately show ?thesis using r(1) by blast
qed

theorem delete_space_cascades_witness:
  "\<not> row_exists (snd (delete_space demo_serde demo_now ''sp'' (registry_new ''laptop''))) KIND_SPACES ''sp''"
proof -
  let ?d = "registry_new ''laptop''"
  have "overlay_row ?d kind ident = None" for kind ident
    by (simp add: overlay_row_def registry_new_def pending_ops_def auth_get_def)
  then show ?thesis
    using delete_space_cascades [of demo_now ?d "fst (next_hlc demo_now ?d)" "snd (next_hlc demo_now ?d)"
        demo_serde "''sp''" "fst (delete_space demo_serde demo_now ''sp'' ?d)"
        "snd (delete_space demo_serde demo_now ''sp'' ?d)"] by simp
qed

text \<open>The seen marker never moves back on the device that sets it. With a clock newer than the
  row's, the marker shown after the call is the later of the stored and the given milliseconds; an
  unknown chat is reported and nothing is written.\<close>

theorem seen_marker_monotone:
  assumes "next_hlc now d = (h, d1)" "in_i64 (timestamp_millis at)"
    and "overlay_row d KIND_CHATS cid = Some r" "live_ok r" "older_than h r"
  shows "\<exists>r'. overlay_row (snd (set_chat_seen now cid at d)) KIND_CHATS cid = Some r' \<and>
    Option.bind (map_of (row_fields r') ''lastSeenAt'') as_i64 =
      Some (case Option.bind (map_of (row_fields r) ''lastSeenAt'') as_i64 of
              None \<Rightarrow> timestamp_millis at | Some ms \<Rightarrow> max ms (timestamp_millis at)) \<and>
    fst (set_chat_seen now cid at d)"
proof -
  let ?cur = "Option.bind (map_of (row_fields r) ''lastSeenAt'') as_i64"
  let ?s = "fields [(''lastSeenAt'', ms_json at)]"
  show ?thesis
  proof (cases "case ?cur of None \<Rightarrow> False | Some ms \<Rightarrow> ms \<ge> timestamp_millis at")
    case True
    then show ?thesis using assms(3) by (auto simp: set_chat_seen_def split: option.splits)
  next
    case False
    then have e: "set_chat_seen now cid at d = (True, registry_write now KIND_CHATS cid OpUpdate ?s d)"
      using assms(3) by (simp add: set_chat_seen_def Let_def)
    obtain r' where r': "overlay_row (registry_write now KIND_CHATS cid OpUpdate ?s d) KIND_CHATS cid = Some r'"
      "map_of (row_fields r') ''lastSeenAt'' = Some (ms_json at)"
      using winning_write [OF assms(1,3,4,5) _ fields_ok, of OpUpdate "[(''lastSeenAt'', ms_json at)]"]
      by (auto simp: dict_simps ms_json_def)
    have "(case ?cur of None \<Rightarrow> timestamp_millis at | Some ms \<Rightarrow> max ms (timestamp_millis at)) = timestamp_millis at"
      using False by (cases ?cur) auto
    moreover have "Option.bind (map_of (row_fields r') ''lastSeenAt'') as_i64 = Some (timestamp_millis at)"
      using r'(2) assms(2) by (simp add: ms_json_def)
    ultimately show ?thesis unfolding e using r'(1) by (intro exI [of _ r']) simp
  qed
qed

definition demo_chat_row :: RegistryRow where
  "demo_chat_row = \<lparr>row_kind = ''chats'', row_id = ''c1'', row_seq = 0, row_deleted = False,
     row_del_hlc = None, row_fields = [(''lastSeenAt'', JInt 3)], row_clocks = [(''lastSeenAt'', encode_hlc 1 0 ''phone'')]\<rparr>"

definition demo_seen :: RegistryDoc where
  "demo_seen = (registry_new ''laptop'')\<lparr>authoritative := [(''chats'', [(''c1'', demo_chat_row)])]\<rparr>"

lemma demo_seen_facts:
  "next_hlc demo_now demo_seen = (demo_hlc 0, snd (next_hlc demo_now demo_seen))"
  "overlay_row demo_seen KIND_CHATS ''c1'' = Some demo_chat_row" "live_ok demo_chat_row"
  "older_than (demo_hlc 0) demo_chat_row"
proof -
  have "encode_hlc 1 0 ''phone'' < demo_hlc 0"
    by (simp add: demo_hlc_def encode_hlc_less_iff ms_ok_def)
  then show "older_than (demo_hlc 0) demo_chat_row"
    by (simp add: older_than_def max_clock_def demo_chat_row_def)
qed (simp_all add: next_hlc_def hlc_next_def hlc_tick_def demo_seen_def registry_new_def HlcClock_default_def
    demo_now_def demo_hlc_def overlay_row_def pending_ops_def auth_get_def KIND_CHATS_def demo_chat_row_def
    live_ok_def row_ok_def)

theorem seen_marker_monotone_witness:
  "\<exists>r'. overlay_row (snd (set_chat_seen demo_now ''c1'' 5000000 demo_seen)) KIND_CHATS ''c1'' = Some r' \<and>
     Option.bind (map_of (row_fields r') ''lastSeenAt'') as_i64 = Some 5"
proof -
  have t: "timestamp_millis 5000000 = 5" "in_i64 (timestamp_millis 5000000)" "in_i64 3"
    by (simp_all add: timestamp_millis_def in_i64_def)
  from seen_marker_monotone [OF demo_seen_facts(1) t(2) demo_seen_facts(2-4)] t
  show ?thesis by (auto simp: demo_chat_row_def)
qed

text \<open>The migration of a legacy workspace is the same on every device: the operations depend on
  the materialized workspace alone (not on the device, its clock or its state), are appended in
  order, and a serializer error leaves the replica as it was.\<close>

theorem migration_device_independent:
  "case workspace_seed_ops s st of
     Inl e \<Rightarrow> seed_from_workspace s now st d = (Inl e, d)
   | Inr ops \<Rightarrow> fst (seed_from_workspace s now st d) = Inr (length ops) \<and>
       pending_ops (snd (seed_from_workspace s now st d)) = pending_ops d @ ops \<and>
       authoritative (snd (seed_from_workspace s now st d)) = authoritative d"
  using appends_fold [of d "op_chunks 400 _" now]
  by (auto simp: seed_from_workspace_def appends_def concat_chunks split: sum.splits)

text \<open>The row a space writes, read back with millisecond stamps.\<close>

definition raw_of_space :: "Space \<Rightarrow> RawSpace" where
  "raw_of_space sp = \<lparr>rs_id = sp_id sp, rs_device_id = sp_device_id sp, rs_path = sp_path sp,
     rs_name = sp_name sp, rs_git_detected = sp_git_detected sp,
     rs_git_checked_at = map_option timestamp_millis (sp_git_checked_at sp),
     rs_checkout_id = sp_checkout_id sp, rs_created_at = timestamp_millis (sp_created_at sp)\<rparr>"

definition space_keys :: "string list" where
  "space_keys = [''id'', ''deviceId'', ''path'', ''name'', ''gitDetected'', ''gitCheckedAt'', ''checkoutId'', ''createdAt'']"

text \<open>What the derived deserializer of \<^verbatim>\<open>RawSpace\<close> promises: a map whose entries under the field names are
  those of a space, null entries left out, decodes to that space; other entries are ignored.\<close>

definition decodes_spaces :: "Serde \<Rightarrow> bool" where
  "decodes_spaces s \<longleftrightarrow> (\<forall>m sp.
     (\<forall>k \<in> set space_keys. map_of m k =
        (case map_of (space_fields sp) k of Some JNull \<Rightarrow> None | v \<Rightarrow> v)) \<longrightarrow>
     de_space s (JObj m) = Some (raw_of_space sp))"

text \<open>A space that was written reads back as the same space, its two stamps rounded down to
  milliseconds, when the row existed with older clocks. The hypotheses are that the deserializer
  decodes such rows and that the calendar accepts the milliseconds.\<close>

theorem space_roundtrip:
  assumes "decodes_spaces s" "\<forall>ms. from_ms s ms = Some (ms * 1000000)"
    and "next_hlc now d = (h, d1)" "overlay_row d KIND_SPACES (sp_id sp) = Some r" "live_ok r" "older_than h r"
  shows "registry_space s (upsert_space now sp d) (sp_id sp) =
    Some (sp\<lparr>sp_git_checked_at := map_option (\<lambda>t. t div 1000000 * 1000000) (sp_git_checked_at sp),
             sp_created_at := sp_created_at sp div 1000000 * 1000000\<rparr>)"
proof -
  obtain r' where r': "overlay_row (upsert_space now sp d) KIND_SPACES (sp_id sp) = Some r'"
    "\<And>k. map_of (row_fields r') k = (case map_of (space_fields sp) k of
        None \<Rightarrow> map_of (row_fields r) k | Some v \<Rightarrow> if v = JNull then None else Some v)"
    using winning_write [OF assms(3-6), of OpUpsert "space_fields sp"]
    by (auto simp: upsert_space_def space_fields_def)
  have "map_of (row_fields r') k = (case map_of (space_fields sp) k of Some JNull \<Rightarrow> None | v \<Rightarrow> v)"
    if "k \<in> set space_keys" for k
  proof -
    have "map_of (space_fields sp) k \<noteq> None"
      using that by (auto simp: space_keys_def space_fields_def map_of_fields map_of_eq_None_iff)
    then obtain v where "map_of (space_fields sp) k = Some v" by blast
    with r'(2) [of k] show ?thesis by (cases v) simp_all
  qed
  then have "de_space s (JObj (row_fields r')) = Some (raw_of_space sp)"
    using assms(1) by (simp add: decodes_spaces_def)
  with r'(1) show ?thesis
    by (simp add: registry_space_def row_to_def space_of_raw_def raw_of_space_def dt_def assms(2)
        timestamp_millis_def option.map_comp comp_def)
qed

definition demo_de_space :: "json \<Rightarrow> RawSpace option" where
  "demo_de_space j =
     (let str = (\<lambda>k. Option.bind (json_get j k) as_str);
          num = (\<lambda>k. case json_get j k of Some (JInt i) \<Rightarrow> Some i | _ \<Rightarrow> None)
      in Some \<lparr>rs_id = the (str ''id''), rs_device_id = the (str ''deviceId''), rs_path = the (str ''path''),
           rs_name = str ''name'', rs_git_detected = (json_get j ''gitDetected'' = Some (JBool True)),
           rs_git_checked_at = num ''gitCheckedAt'', rs_checkout_id = str ''checkoutId'',
           rs_created_at = the (num ''createdAt'')\<rparr>)"

lemma demo_decodes: "decodes_spaces (demo_serde\<lparr>de_space := demo_de_space\<rparr>)"
proof -
  have "demo_de_space (JObj m) = Some (raw_of_space sp)"
    if m: "\<forall>k \<in> set space_keys. map_of m k = (case map_of (space_fields sp) k of Some JNull \<Rightarrow> None | v \<Rightarrow> v)" for m sp
  proof -
    note at = m [rule_format, unfolded space_keys_def]
    have "map_of m ''id'' = Some (JStr (sp_id sp))" "map_of m ''deviceId'' = Some (JStr (sp_device_id sp))"
      "map_of m ''path'' = Some (JStr (sp_path sp))" "map_of m ''name'' = map_option JStr (sp_name sp)"
      "map_of m ''gitDetected'' = Some (JBool (sp_git_detected sp))"
      "map_of m ''gitCheckedAt'' = map_option ms_json (sp_git_checked_at sp)"
      "map_of m ''checkoutId'' = map_option JStr (sp_checkout_id sp)"
      "map_of m ''createdAt'' = Some (ms_json (sp_created_at sp))"
      by (subst at, simp, simp add: space_fields_def map_of_fields opt_str_def opt_ms_def ms_json_def split: option.split)+
    then show ?thesis
      by (cases "sp_name sp"; cases "sp_git_checked_at sp"; cases "sp_checkout_id sp")
        (simp_all add: demo_de_space_def raw_of_space_def ms_json_def Let_def)
  qed
  then show ?thesis by (simp add: decodes_spaces_def)
qed

definition demo_space :: Space where
  "demo_space = \<lparr>sp_id = ''c1'', sp_device_id = ''laptop'', sp_path = ''/src'', sp_name = None,
     sp_git_detected = True, sp_git_checked_at = None, sp_checkout_id = None, sp_created_at = 7000001\<rparr>"

definition demo_space_row :: RegistryRow where
  "demo_space_row = empty_row ''spaces'' ''c1''"

theorem space_roundtrip_witness:
  "registry_space (demo_serde\<lparr>de_space := demo_de_space\<rparr>)
     (upsert_space demo_now demo_space
        ((registry_new ''laptop'')\<lparr>authoritative := [(''spaces'', [(''c1'', demo_space_row)])]\<rparr>)) ''c1''
   = Some (demo_space\<lparr>sp_created_at := 7000000\<rparr>)"
proof -
  let ?s = "demo_serde\<lparr>de_space := demo_de_space\<rparr>"
  let ?d = "(registry_new ''laptop'')\<lparr>authoritative := [(''spaces'', [(''c1'', demo_space_row)])]\<rparr>"
  have f: "\<forall>ms. from_ms ?s ms = Some (ms * 1000000)" by (simp add: demo_serde_def)
  have n: "next_hlc demo_now ?d = (fst (next_hlc demo_now ?d), snd (next_hlc demo_now ?d))" by simp
  have o: "overlay_row ?d KIND_SPACES (sp_id demo_space) = Some demo_space_row"
    by (simp add: overlay_row_def registry_new_def pending_ops_def auth_get_def KIND_SPACES_def
        demo_space_def demo_space_row_def empty_row_def)
  have ok: "live_ok demo_space_row" "older_than h demo_space_row" for h
    by (simp_all add: demo_space_row_def older_than_def max_clock_def empty_row_def live_ok_def row_ok_def)
  from space_roundtrip [OF demo_decodes f n o ok]
  show ?thesis by (simp add: demo_space_def)
qed

end
