(* ===== verification/Pin_Order.thy ===== *)
theory Pin_Order
  imports Entities
begin

text \<open>
  Ordering keys and intents of the sidebar (\<^verbatim>\<open>src/crates/proto/src/sidebar_pins.rs\<close>): the
  hexadecimal key allocated strictly between two others, and the projection of a pending pin or
  section intent onto the confirmed lists.

  The lemmas show that the allocated key is valid, lies strictly between its bounds, always exists
  for bounds of up to 7892 digits, and determines the operation clock it was made from.
\<close>

section \<open>Ordering keys\<close>

definition MAX_PIN_ORDER_KEY_BYTES :: nat where
  "MAX_PIN_ORDER_KEY_BYTES = 8192"

definition NONCE_BYTES :: nat where
  "NONCE_BYTES = 149"

definition hex_byte :: "char \<Rightarrow> bool" where
  "hex_byte b \<longleftrightarrow> (CHR ''0'' \<le> b \<and> b \<le> CHR ''9'') \<or> (CHR ''a'' \<le> b \<and> b \<le> CHR ''f'')"

definition valid_pin_order_key :: "string \<Rightarrow> bool" where
  "valid_pin_order_key key \<longleftrightarrow> key \<noteq> [] \<and> length key \<le> MAX_PIN_ORDER_KEY_BYTES \<and>
     list_all hex_byte key \<and> last key \<noteq> CHR ''0''"

definition hex_digit :: "char \<Rightarrow> nat" where
  "hex_digit b = (if b \<le> CHR ''9'' then of_char b - 48 else of_char b - 97 + 10)"

definition hex :: "nat \<Rightarrow> char" where
  "hex n = ''0123456789abcdef'' ! n"

definition get_digit :: "string \<Rightarrow> nat \<Rightarrow> nat option" where
  "get_digit s i = (if i < length s then Some (hex_digit (s ! i)) else None)"

text \<open>The fixed-width encoding of the nonce: two digits per byte, missing bytes as zero.\<close>

definition nonce_byte :: "string \<Rightarrow> nat \<Rightarrow> nat" where
  "nonce_byte nonce i = (if i < length nonce then of_char (nonce ! i) else 0)"

definition nonce_hex :: "string \<Rightarrow> string" where
  "nonce_hex nonce =
     concat (map (\<lambda>i. [hex (nonce_byte nonce i div 16), hex (nonce_byte nonce i mod 16)]) [0..<NONCE_BYTES])"

datatype pin_error = InvalidPinBounds | PinKeyTooLong

definition pin_error_text :: "pin_error \<Rightarrow> string" where
  "pin_error_text e =
     (case e of InvalidPinBounds \<Rightarrow> ''Invalid pin ordering bounds''
      | PinKeyTooLong \<Rightarrow> ''Pin ordering key is too long'')"

text \<open>The loop: \<open>n\<close> rounds are left of the 8192.\<close>

fun pin_key_loop :: "nat \<Rightarrow> nat \<Rightarrow> string \<Rightarrow> string option \<Rightarrow> string \<Rightarrow> string \<Rightarrow> pin_error + string" where
  "pin_key_loop 0 i lower upper nonce key = Inl PinKeyTooLong"
| "pin_key_loop (Suc n) i lower upper nonce key =
     (let lo = (case get_digit lower i of None \<Rightarrow> 0 | Some d \<Rightarrow> d);
          hi = (case Option.bind upper (\<lambda>u. get_digit u i) of None \<Rightarrow> 16 | Some d \<Rightarrow> d)
      in if hi > lo + 1 then
           (let key = key @ [hex ((lo + hi) div 2)] @ nonce_hex nonce @ ''8''
            in if length key \<le> MAX_PIN_ORDER_KEY_BYTES then Inr key else Inl PinKeyTooLong)
         else pin_key_loop n (i + 1) lower (if lo \<noteq> hi then None else upper) nonce (key @ [hex lo]))"

definition is_ascii :: "string \<Rightarrow> bool" where
  "is_ascii s = list_all (\<lambda>ch. (of_char ch :: nat) < 128) s"

definition pin_order_key_between :: "string option \<Rightarrow> string option \<Rightarrow> string \<Rightarrow> pin_error + string" where
  "pin_order_key_between lower upper nonce =
     (if (case lower of None \<Rightarrow> False | Some k \<Rightarrow> \<not> valid_pin_order_key k) \<or>
         (case upper of None \<Rightarrow> False | Some k \<Rightarrow> \<not> valid_pin_order_key k) \<or>
         (case (lower, upper) of (Some a, Some b) \<Rightarrow> a \<ge> b | _ \<Rightarrow> False) \<or>
         nonce = [] \<or> length nonce > NONCE_BYTES \<or> \<not> is_ascii nonce \<or>
         char_of (0 :: nat) \<in> set nonce
      then Inl InvalidPinBounds
      else pin_key_loop MAX_PIN_ORDER_KEY_BYTES 0 (case lower of None \<Rightarrow> [] | Some k \<Rightarrow> k) upper nonce [])"

section \<open>Intents\<close>

datatype SidebarSectionChange =
    SecCreate string string
  | SecRename string string
  | SecCollapse string bool
  | SecDelete string
  | SecAssign string "string option"
  | SecImport "SidebarSection list"

datatype SidebarPinChange =
    Pin string "string option" "string option"
  | Move string "string option" "string option"
  | Unpin string
  | Section SidebarSectionChange

fun session_id :: "SidebarPinChange \<Rightarrow> string" where
  "session_id (Section _) = []"
| "session_id (Pin i _ _) = i"
| "session_id (Move i _ _) = i"
| "session_id (Unpin i) = i"

fun position :: "'a \<Rightarrow> 'a list \<Rightarrow> nat option" where
  "position x [] = None"
| "position x (y # ys) = (if y = x then Some 0 else map_option Suc (position x ys))"

definition insert_at :: "nat \<Rightarrow> 'a \<Rightarrow> 'a list \<Rightarrow> 'a list" where
  "insert_at i x xs = take i xs @ x # drop i xs"

definition anchor_index :: "string option \<Rightarrow> string option \<Rightarrow> string list \<Rightarrow> nat" where
  "anchor_index after before ids =
     (case Option.bind before (\<lambda>v. position v ids) of
        Some i \<Rightarrow> i
      | None \<Rightarrow>
          (case Option.bind after (\<lambda>v. map_option Suc (position v ids)) of
             Some i \<Rightarrow> i
           | None \<Rightarrow> length ids))"

definition retain_ne :: "string \<Rightarrow> string list \<Rightarrow> string list" where
  "retain_ne i ids = filter (\<lambda>v. v \<noteq> i) ids"

fun pin_project :: "SidebarPinChange \<Rightarrow> string list \<Rightarrow> string list" where
  "pin_project (Section change) ids =
     (case change of SecAssign s _ \<Rightarrow> retain_ne s ids | _ \<Rightarrow> ids)"
| "pin_project (Unpin i) ids = retain_ne i ids"
| "pin_project (Pin i after before) ids =
     (let ids' = retain_ne i ids in insert_at (anchor_index after before ids') i ids')"
| "pin_project (Move i after before) ids =
     (if i \<notin> set ids then ids
      else let ids' = retain_ne i ids in insert_at (anchor_index after before ids') i ids')"

text \<open>\<^verbatim>\<open>iter_mut().find(..)\<close> followed by an update: the first section with the id.\<close>

fun update_first :: "string \<Rightarrow> (SidebarSection \<Rightarrow> SidebarSection) \<Rightarrow> SidebarSection list \<Rightarrow> SidebarSection list" where
  "update_first i f [] = []"
| "update_first i f (s # ss) = (if sec_id s = i then f s # ss else s # update_first i f ss)"

fun section_project :: "SidebarSectionChange \<Rightarrow> SidebarSection list \<Rightarrow> SidebarSection list" where
  "section_project (SecCreate i name) ss =
     (if i \<in> sec_id ` set ss then ss
      else ss @ [\<lparr>sec_id = i, sec_name = name, sec_session_ids = [], sec_collapsed = False\<rparr>])"
| "section_project (SecRename i name) ss = update_first i (\<lambda>s. s\<lparr>sec_name := name\<rparr>) ss"
| "section_project (SecCollapse i c) ss = update_first i (\<lambda>s. s\<lparr>sec_collapsed := c\<rparr>) ss"
| "section_project (SecDelete i) ss = filter (\<lambda>s. sec_id s \<noteq> i) ss"
| "section_project (SecAssign sid target) ss =
     map (\<lambda>s. let s' = s\<lparr>sec_session_ids := retain_ne sid (sec_session_ids s)\<rparr>
              in if target = Some (sec_id s)
                 then s'\<lparr>sec_session_ids := sec_session_ids s' @ [sid], sec_collapsed := False\<rparr>
                 else s') ss"
| "section_project (SecImport _) ss = ss"

fun project_sections :: "SidebarPinChange \<Rightarrow> SidebarSection list \<Rightarrow> SidebarSection list" where
  "project_sections (Pin sid _ _) ss =
     map (\<lambda>s. s\<lparr>sec_session_ids := retain_ne sid (sec_session_ids s)\<rparr>) ss"
| "project_sections (Section change) ss = section_project change ss"
| "project_sections (Move _ _ _) ss = ss"
| "project_sections (Unpin _) ss = ss"

section \<open>Hexadecimal digits\<close>

lemma hex_table:
  "list_all (\<lambda>n. hex_byte (hex n) \<and> hex_digit (hex n) = n) [0..<16]"
  by code_simp

lemma hex_simps: "n < 16 \<Longrightarrow> hex_byte (hex n)" "n < 16 \<Longrightarrow> hex_digit (hex n) = n"
  using hex_table by (auto simp: list_all_iff)

lemma hex_byte_table:
  "list_all (\<lambda>n. hex_digit (char_of n) < 16 \<and> hex (hex_digit (char_of n)) = char_of n)
     ([48..<58] @ [97..<103])"
  by code_simp

lemma hex_byte_simps: "hex_byte b \<Longrightarrow> hex_digit b < 16" "hex_byte b \<Longrightarrow> hex (hex_digit b) = b"
proof -
  have "of_char b \<in> set ([48..<58] @ [97..<103])" if "hex_byte b"
    using that unfolding set_append set_upt by (auto simp: hex_byte_def less_eq_char_def)
  with hex_byte_table have "hex_byte b \<longrightarrow> hex_digit b < 16 \<and> hex (hex_digit b) = b"
    unfolding list_all_iff by (metis char_of_char)
  then show "hex_byte b \<Longrightarrow> hex_digit b < 16" "hex_byte b \<Longrightarrow> hex (hex_digit b) = b" by blast+
qed

lemma hex_less_table: "list_all (\<lambda>m. list_all (\<lambda>n. hex m < hex n \<longleftrightarrow> m < n) [0..<16]) [0..<16]"
  by code_simp

lemma hex_less: "m < 16 \<Longrightarrow> n < 16 \<Longrightarrow> hex m < hex n \<longleftrightarrow> m < n"
  using hex_less_table by (simp add: list_all_iff)

lemma hex_inj: "m < 16 \<Longrightarrow> n < 16 \<Longrightarrow> hex m = hex n \<longleftrightarrow> m = n"
  by (metis hex_simps(2))

lemma hex_zero: "hex 0 = CHR ''0''" "hex_digit (CHR ''0'') = 0"
  by code_simp+

lemma nonce_byte_less: "nonce_byte nonce i div 16 < 16" "nonce_byte nonce i mod 16 < 16"
proof -
  have "nonce_byte nonce i < 256" by (simp add: nonce_byte_def nat_of_char_less_256)
  then show "nonce_byte nonce i div 16 < 16" "nonce_byte nonce i mod 16 < 16" by simp_all
qed

lemma concat_pairs_length: "length (concat (map (\<lambda>i. [f i, g i]) xs)) = 2 * length xs"
  by (induction xs) auto

lemma concat_pairs_inj:
  "concat (map (\<lambda>i. [f i, g i]) xs) = concat (map (\<lambda>i. [f' i, g' i]) xs) \<Longrightarrow> i \<in> set xs \<Longrightarrow>
   f i = f' i \<and> g i = g' i"
  by (induction xs) auto

lemma nonce_hex_length: "length (nonce_hex nonce) = 298"
  unfolding nonce_hex_def concat_pairs_length by (simp add: NONCE_BYTES_def)

lemma nonce_hex_bytes: "list_all hex_byte (nonce_hex nonce)"
  by (auto simp: nonce_hex_def list_all_iff hex_simps nonce_byte_less)

definition nonce_ok :: "string \<Rightarrow> bool" where
  "nonce_ok nonce \<longleftrightarrow> nonce \<noteq> [] \<and> length nonce \<le> NONCE_BYTES \<and> is_ascii nonce \<and> char_of (0 :: nat) \<notin> set nonce"

lemma nonce_hex_inj:
  assumes "nonce_hex a = nonce_hex b" "nonce_ok a" "nonce_ok b"
  shows "a = b"
proof -
  have byte: "nonce_byte a i = nonce_byte b i" for i
  proof (cases "i < NONCE_BYTES")
    case True
    then have "hex (nonce_byte a i div 16) = hex (nonce_byte b i div 16) \<and>
        hex (nonce_byte a i mod 16) = hex (nonce_byte b i mod 16)"
      using concat_pairs_inj [OF assms(1) [unfolded nonce_hex_def], of i] by simp
    then have "nonce_byte a i div 16 = nonce_byte b i div 16" "nonce_byte a i mod 16 = nonce_byte b i mod 16"
      by (simp_all add: hex_inj nonce_byte_less)
    then show ?thesis by (metis div_mult_mod_eq)
  next
    case False
    with assms(2,3) show ?thesis by (simp add: nonce_byte_def nonce_ok_def)
  qed
  have nz: "nonce_byte s i \<noteq> 0 \<longleftrightarrow> i < length s" if "nonce_ok s" for s i
  proof -
    have "(of_char (s ! i) :: nat) \<noteq> 0" if "i < length s"
    proof
      assume "(of_char (s ! i) :: nat) = 0"
      then have "s ! i = char_of (0 :: nat)" by (metis char_of_char)
      with that \<open>nonce_ok s\<close> show False by (metis nonce_ok_def nth_mem)
    qed
    then show ?thesis by (auto simp: nonce_byte_def)
  qed
  have len: "length a = length b" by (metis byte nz assms(2,3) linorder_neqE_nat less_irrefl)
  show ?thesis
  proof (rule nth_equalityI [OF len])
    fix i assume "i < length a"
    with byte [of i] len have "(of_char (a ! i) :: nat) = of_char (b ! i)" by (simp add: nonce_byte_def)
    then show "a ! i = b ! i" by simp
  qed
qed

section \<open>The allocation loop\<close>

definition bounds_ok :: "nat \<Rightarrow> string \<Rightarrow> string option \<Rightarrow> bool" where
  "bounds_ok i lower upper \<longleftrightarrow> list_all hex_byte lower \<and>
     (\<forall>u. upper = Some u \<longrightarrow> list_all hex_byte u \<and> u \<noteq> [] \<and> last u \<noteq> CHR ''0'' \<and> drop i lower < drop i u)"

lemma drop_get_digit:
  assumes "list_all hex_byte s"
  obtains "drop i s = []" "get_digit s i = None"
  | b where "drop i s = b # drop (Suc i) s" "get_digit s i = Some (hex_digit b)" "hex_byte b"
proof (cases "i < length s")
  case True
  then show ?thesis
    using that(2) [of "s ! i"] assms by (simp add: Cons_nth_drop_Suc get_digit_def list_all_length)
next
  case False
  then show ?thesis using that(1) by (simp add: get_digit_def)
qed

text \<open>One round of the loop in terms of the rest of the bounds: either the digits leave room and
  the round emits a digit strictly between them, or the round copies the lower digit.\<close>

lemma hex_less_byte: "m < 16 \<Longrightarrow> hex_byte b \<Longrightarrow> hex m < b \<longleftrightarrow> m < hex_digit b"
  "m < 16 \<Longrightarrow> hex_byte b \<Longrightarrow> b < hex m \<longleftrightarrow> hex_digit b < m"
  by (metis hex_byte_simps hex_less)+

lemma byte_less: "hex_byte a \<Longrightarrow> hex_byte b \<Longrightarrow> a < b \<longleftrightarrow> hex_digit a < hex_digit b"
  by (metis hex_byte_simps hex_less)

lemma pin_round:
  assumes ok: "bounds_ok i lower upper"
    and lo: "lo = (case get_digit lower i of None \<Rightarrow> 0 | Some d \<Rightarrow> d)"
    and hi: "hi = (case Option.bind upper (\<lambda>u. get_digit u i) of None \<Rightarrow> 16 | Some d \<Rightarrow> d)"
  shows "lo < 16" "lo \<le> hi"
    and "lo + 1 < hi \<Longrightarrow> (lo + hi) div 2 < 16 \<and> drop i lower < hex ((lo + hi) div 2) # t \<and>
      (\<forall>u. upper = Some u \<longrightarrow> hex ((lo + hi) div 2) # t < drop i u)"
    and "\<not> lo + 1 < hi \<Longrightarrow> bounds_ok (i + 1) lower (if lo \<noteq> hi then None else upper)"
    and "\<not> lo + 1 < hi \<Longrightarrow> drop (i + 1) lower < t \<Longrightarrow>
      (\<forall>u. (if lo \<noteq> hi then None else upper) = Some u \<longrightarrow> t < drop (i + 1) u) \<Longrightarrow>
      drop i lower < hex lo # t \<and> (\<forall>u. upper = Some u \<longrightarrow> hex lo # t < drop i u)"
    and "\<not> lo + 1 < hi \<Longrightarrow> i < length lower \<or> (\<exists>u. upper = Some u \<and> i < length u)"
proof -
  have hl: "list_all hex_byte lower" using ok by (simp add: bounds_ok_def)
  have L: "drop i lower = [] \<and> lo = 0 \<or>
      (\<exists>a. drop i lower = a # drop (Suc i) lower \<and> lo = hex_digit a \<and> hex_byte a \<and> i < length lower)"
    using drop_get_digit [OF hl, of i] lo by (metis drop_eq_Nil linorder_not_less list.distinct(1) option.case)
  show lo16: "lo < 16" using L hex_byte_simps(1) by auto
  have U: "\<exists>b. drop i u = b # drop (Suc i) u \<and> hi = hex_digit b \<and> hex_byte b \<and> i < length u"
    if u: "upper = Some u" for u
  proof -
    have hu: "list_all hex_byte u" and lt: "drop i lower < drop i u"
      using ok u by (auto simp: bounds_ok_def)
    then have "drop i u \<noteq> []" by auto
    with drop_get_digit [OF hu, of i] hi u show ?thesis
      by (metis bind.bind_lunit drop_eq_Nil linorder_not_less option.case(2))
  qed
  have N: "hi = 16" if "upper = None" using that hi by simp
  show le: "lo \<le> hi"
  proof (cases upper)
    case (Some u)
    with U obtain b where b: "drop i u = b # drop (Suc i) u" "hi = hex_digit b" "hex_byte b" by blast
    have "drop i lower < drop i u" using ok Some by (simp add: bounds_ok_def)
    with L b show ?thesis by (auto simp: byte_less)
  qed (use N lo16 in simp)
  have hi16: "hi \<le> 16" using U N hex_byte_simps(1) by (cases upper) fastforce+
  show "lo + 1 < hi \<Longrightarrow> (lo + hi) div 2 < 16 \<and> drop i lower < hex ((lo + hi) div 2) # t \<and>
      (\<forall>u. upper = Some u \<longrightarrow> hex ((lo + hi) div 2) # t < drop i u)"
  proof -
    assume g: "lo + 1 < hi"
    let ?m = "(lo + hi) div 2"
    have m: "lo < ?m" "?m < hi" "?m < 16" using g hi16 by auto
    have "drop i lower < hex ?m # t" using L m by (auto simp: hex_less_byte)
    moreover have "hex ?m # t < drop i u" if "upper = Some u" for u
      using U [OF that] m by (auto simp: hex_less_byte)
    ultimately show ?thesis using m by blast
  qed
  show "\<not> lo + 1 < hi \<Longrightarrow> i < length lower \<or> (\<exists>u. upper = Some u \<and> i < length u)"
    using L U N by (cases upper) auto
  assume ng: "\<not> lo + 1 < hi"
  show "bounds_ok (i + 1) lower (if lo \<noteq> hi then None else upper)"
  proof (cases "lo = hi")
    case True
    have "drop (i + 1) lower < drop (i + 1) u" if u: "upper = Some u" for u
    proof -
      obtain b where b: "drop i u = b # drop (Suc i) u" "hi = hex_digit b" "hex_byte b"
        using U [OF u] by blast
      have lt: "drop i lower < drop i u" and last: "last u \<noteq> CHR ''0''" "u \<noteq> []"
        using ok u by (auto simp: bounds_ok_def)
      show ?thesis
      proof (cases "drop i lower = []")
        case True
        then have "hi = 0" using L \<open>lo = hi\<close> by auto
        then have "b = CHR ''0''" using b hex_byte_simps(2) hex_zero by metis
        then have "drop (Suc i) u \<noteq> []" using b(1) last by (metis last.simps last_drop drop_eq_Nil list.distinct(1) linorder_not_less)
        with True show ?thesis by (cases "drop (Suc i) u") (auto simp: drop_eq_Nil)
      next
        case False
        with L obtain a where "drop i lower = a # drop (Suc i) lower" "lo = hex_digit a" "hex_byte a" by auto
        with lt b \<open>lo = hi\<close> show ?thesis by (auto simp: byte_less)
      qed
    qed
    with ok True show ?thesis by (auto simp: bounds_ok_def)
  qed (use ok in \<open>simp add: bounds_ok_def\<close>)
  assume t: "drop (i + 1) lower < t"
    "\<forall>u. (if lo \<noteq> hi then None else upper) = Some u \<longrightarrow> t < drop (i + 1) u"
  have "drop i lower < hex lo # t" using L t(1) hex_byte_simps(2) by auto
  moreover have "hex lo # t < drop i u" if u: "upper = Some u" for u
  proof -
    obtain b where "drop i u = b # drop (Suc i) u" "hi = hex_digit b" "hex_byte b"
      using U [OF u] by blast
    with le t(2) u lo16 show ?thesis
      by (cases "lo = hi") (auto simp: hex_less_byte hex_byte_simps)
  qed
  ultimately show "drop i lower < hex lo # t \<and> (\<forall>u. upper = Some u \<longrightarrow> hex lo # t < drop i u)" by blast
qed

lemma pin_key_loop_between:
  assumes "pin_key_loop n i lower upper nonce key = Inr r" "bounds_ok i lower upper"
  shows "\<exists>p. r = key @ p @ nonce_hex nonce @ ''8'' \<and> p \<noteq> [] \<and> list_all hex_byte p \<and>
    length r \<le> MAX_PIN_ORDER_KEY_BYTES \<and> drop i lower < p @ nonce_hex nonce @ ''8'' \<and>
    (\<forall>u. upper = Some u \<longrightarrow> p @ nonce_hex nonce @ ''8'' < drop i u)"
  using assms
proof (induction n arbitrary: i upper key)
  case (Suc n)
  define lo where "lo = (case get_digit lower i of None \<Rightarrow> 0 | Some d \<Rightarrow> d)"
  define hi where "hi = (case Option.bind upper (\<lambda>u. get_digit u i) of None \<Rightarrow> 16 | Some d \<Rightarrow> d)"
  note round = pin_round [OF Suc.prems(2) lo_def hi_def]
  show ?case
  proof (cases "lo + 1 < hi")
    case True
    let ?m = "(lo + hi) div 2"
    have r: "r = key @ [hex ?m] @ nonce_hex nonce @ ''8''" "length r \<le> MAX_PIN_ORDER_KEY_BYTES"
      using Suc.prems(1) True by (auto simp: lo_def hi_def Let_def split: if_splits)
    with round(3) [OF True] show ?thesis by (intro exI [of _ "[hex ?m]"]) (auto simp: hex_simps)
  next
    case False
    have "pin_key_loop n (i + 1) lower (if lo \<noteq> hi then None else upper) nonce (key @ [hex lo]) = Inr r"
      using Suc.prems(1) False by (simp add: lo_def hi_def Let_def)
    from Suc.IH [OF this round(4) [OF False]] obtain p where p:
      "r = (key @ [hex lo]) @ p @ nonce_hex nonce @ ''8''" "list_all hex_byte p"
      "length r \<le> MAX_PIN_ORDER_KEY_BYTES" "drop (i + 1) lower < p @ nonce_hex nonce @ ''8''"
      "\<forall>u. (if lo \<noteq> hi then None else upper) = Some u \<longrightarrow> p @ nonce_hex nonce @ ''8'' < drop (i + 1) u"
      by blast
    with round(5) [OF False p(4,5)] show ?thesis
      by (intro exI [of _ "hex lo # p"]) (simp add: hex_simps round(1))
  qed
qed simp

lemma pin_key_loop_returns:
  assumes "bounds_ok i lower upper" "length lower \<le> m" "\<And>u. upper = Some u \<Longrightarrow> length u \<le> m"
    "i \<le> m" "m < i + n" "m + 300 \<le> MAX_PIN_ORDER_KEY_BYTES" "length key = i"
  shows "\<exists>r. pin_key_loop n i lower upper nonce key = Inr r"
  using assms
proof (induction n arbitrary: i upper key)
  case (Suc n)
  define lo where "lo = (case get_digit lower i of None \<Rightarrow> 0 | Some d \<Rightarrow> d)"
  define hi where "hi = (case Option.bind upper (\<lambda>u. get_digit u i) of None \<Rightarrow> 16 | Some d \<Rightarrow> d)"
  note round = pin_round [OF Suc.prems(1) lo_def hi_def]
  show ?case
  proof (cases "lo + 1 < hi")
    case True
    then show ?thesis using Suc.prems(4,6,7)
      by (simp add: Let_def nonce_hex_length flip: lo_def hi_def)
  next
    case False
    have "i < m" using round(6) [OF False] Suc.prems(2,3) by fastforce
    then have "\<exists>r. pin_key_loop n (i + 1) lower (if lo \<noteq> hi then None else upper) nonce (key @ [hex lo]) = Inr r"
      using Suc.prems by (intro Suc.IH round(4) [OF False]) (auto split: if_splits)
    with False show ?thesis by (simp add: lo_def hi_def Let_def)
  qed
qed simp

definition pin_args_ok :: "string option \<Rightarrow> string option \<Rightarrow> string \<Rightarrow> bool" where
  "pin_args_ok lower upper nonce \<longleftrightarrow>
     (\<forall>k. lower = Some k \<longrightarrow> valid_pin_order_key k) \<and> (\<forall>k. upper = Some k \<longrightarrow> valid_pin_order_key k) \<and>
     (\<forall>a b. lower = Some a \<longrightarrow> upper = Some b \<longrightarrow> a < b) \<and> nonce_ok nonce"

lemma pin_order_key_between_eq:
  "pin_order_key_between lower upper nonce =
     (if pin_args_ok lower upper nonce
      then pin_key_loop MAX_PIN_ORDER_KEY_BYTES 0 (case lower of None \<Rightarrow> [] | Some k \<Rightarrow> k) upper nonce []
      else Inl InvalidPinBounds)"
  by (cases lower; cases upper)
    (auto simp: pin_order_key_between_def pin_args_ok_def nonce_ok_def not_le)

lemma pin_args_bounds:
  "pin_args_ok lower upper nonce \<Longrightarrow> bounds_ok 0 (case lower of None \<Rightarrow> [] | Some k \<Rightarrow> k) upper"
  by (cases lower; cases upper)
    (auto simp: pin_args_ok_def bounds_ok_def valid_pin_order_key_def neq_Nil_conv)

lemma pin_order_key_shape:
  assumes "pin_order_key_between lower upper nonce = Inr key"
  shows "pin_args_ok lower upper nonce"
    "\<exists>p. key = p @ nonce_hex nonce @ ''8'' \<and> p \<noteq> [] \<and> list_all hex_byte p \<and>
      length key \<le> MAX_PIN_ORDER_KEY_BYTES \<and> (case lower of None \<Rightarrow> [] | Some k \<Rightarrow> k) < key \<and>
      (\<forall>u. upper = Some u \<longrightarrow> key < u)"
proof -
  show ok: "pin_args_ok lower upper nonce"
    using assms by (auto simp: pin_order_key_between_eq split: if_splits)
  show "\<exists>p. key = p @ nonce_hex nonce @ ''8'' \<and> p \<noteq> [] \<and> list_all hex_byte p \<and>
      length key \<le> MAX_PIN_ORDER_KEY_BYTES \<and> (case lower of None \<Rightarrow> [] | Some k \<Rightarrow> k) < key \<and>
      (\<forall>u. upper = Some u \<longrightarrow> key < u)"
    using pin_key_loop_between [of _ 0 _ upper nonce "[]" key, OF _ pin_args_bounds [OF ok]] assms ok
    by (auto simp: pin_order_key_between_eq)
qed

lemma hex_byte_8: "hex_byte (CHR ''8'')" by code_simp

lemma pin_first:
  assumes "nonce_ok nonce"
  shows "pin_order_key_between None None nonce = Inr (''8'' @ nonce_hex nonce @ ''8'')"
proof -
  have h: "hex 8 = CHR ''8''" by code_simp
  have "pin_key_loop (Suc n) 0 [] None nonce [] = Inr (''8'' @ nonce_hex nonce @ ''8'')" for n
    by (simp add: get_digit_def Let_def nonce_hex_length MAX_PIN_ORDER_KEY_BYTES_def h)
  from this [of 8191] show ?thesis
    using assms by (simp add: pin_order_key_between_eq pin_args_ok_def MAX_PIN_ORDER_KEY_BYTES_def)
qed

section \<open>Projections\<close>

definition sections_ok :: "SidebarSection list \<Rightarrow> bool" where
  "sections_ok ss \<longleftrightarrow> distinct (map sec_id ss) \<and> distinct (concat (map sec_session_ids ss))"

lemma set_retain_ne [simp]: "set (retain_ne i ids) = set ids - {i}" "distinct ids \<Longrightarrow> distinct (retain_ne i ids)"
  by (auto simp: retain_ne_def)

lemma position_Some: "position x xs = Some i \<Longrightarrow> i < length xs \<and> xs ! i = x"
  by (induction xs arbitrary: i) (auto split: if_splits)

lemma position_None: "position x xs = None \<longleftrightarrow> x \<notin> set xs"
  by (induction xs) auto

lemma insert_at_facts:
  "set (insert_at i x xs) = insert x (set xs)" "x \<notin> set xs \<Longrightarrow> distinct xs \<Longrightarrow> distinct (insert_at i x xs)"
  "x \<notin> set xs \<Longrightarrow> retain_ne x (insert_at i x xs) = xs"
proof -
  have s: "set (take i xs) \<union> set (drop i xs) = set xs" by (metis append_take_drop_id set_append)
  then show "set (insert_at i x xs) = insert x (set xs)" by (auto simp: insert_at_def)
  show "x \<notin> set xs \<Longrightarrow> distinct xs \<Longrightarrow> distinct (insert_at i x xs)"
    using s by (auto simp: insert_at_def dest: in_set_takeD in_set_dropD set_take_disj_set_drop_if_distinct [of xs i i])
  assume "x \<notin> set xs"
  then have "filter (\<lambda>v. v \<noteq> x) (take i xs) = take i xs" "filter (\<lambda>v. v \<noteq> x) (drop i xs) = drop i xs"
    by (auto simp: filter_id_conv dest: in_set_takeD in_set_dropD)
  then show "retain_ne x (insert_at i x xs) = xs" by (simp add: retain_ne_def insert_at_def)
qed

lemma retain_ne_idem: "retain_ne i (retain_ne i ids) = retain_ne i ids"
  by (simp add: retain_ne_def)

lemma insert_before_anchor:
  "b \<in> set ids \<Longrightarrow> \<exists>xs ys. insert_at (anchor_index after (Some b) ids) i ids = xs @ i # b # ys"
proof -
  assume "b \<in> set ids"
  then obtain j where j: "position b ids = Some j" by (metis position_None not_None_eq)
  then have "j < length ids" "ids ! j = b" using position_Some by fast+
  then have "drop j ids = b # drop (Suc j) ids" by (metis Cons_nth_drop_Suc)
  with j show ?thesis by (auto simp: anchor_index_def insert_at_def)
qed

lemma update_first_frame:
  "(\<And>s. sec_id (f s) = sec_id s \<and> sec_session_ids (f s) = sec_session_ids s) \<Longrightarrow>
   map sec_id (update_first i f ss) = map sec_id ss \<and>
   map sec_session_ids (update_first i f ss) = map sec_session_ids ss"
  by (induction ss) auto

lemma sections_ok_sub:
  assumes "sections_ok ss"
  shows "sections_ok (filter P ss)" "sections_ok (map (\<lambda>s. s\<lparr>sec_session_ids := retain_ne i (sec_session_ids s)\<rparr>) ss)"
proof -
  have f: "set (concat (map sec_session_ids (filter P ss))) \<subseteq> set (concat (map sec_session_ids ss))"
    for P and ss :: "SidebarSection list" by auto
  show "sections_ok (filter P ss)" using assms unfolding sections_ok_def
    by (induction ss) (use f in fastforce)+
  have "concat (map (\<lambda>s. retain_ne i (sec_session_ids s)) ss) = retain_ne i (concat (map sec_session_ids ss))"
    for ss :: "SidebarSection list"
    by (induction ss) (simp_all add: retain_ne_def)
  then show "sections_ok (map (\<lambda>s. s\<lparr>sec_session_ids := retain_ne i (sec_session_ids s)\<rparr>) ss)"
    using assms set_retain_ne(2) [of "concat (map sec_session_ids ss)" i]
    by (simp add: sections_ok_def comp_def del: distinct_concat_iff)
qed

lemma assign_places_once:
  assumes "sections_ok ss" "i \<notin> set (concat (map sec_session_ids ss))"
  shows "sections_ok (map (\<lambda>s. if target = Some (sec_id s)
     then s\<lparr>sec_session_ids := sec_session_ids s @ [i], sec_collapsed := False\<rparr> else s) ss) \<and>
    set (concat (map sec_session_ids (map (\<lambda>s. if target = Some (sec_id s)
     then s\<lparr>sec_session_ids := sec_session_ids s @ [i], sec_collapsed := False\<rparr> else s) ss))) =
    set (concat (map sec_session_ids ss)) \<union> (if target \<in> Some ` sec_id ` set ss then {i} else {})"
  using assms
proof (induction ss)
  case (Cons s ss)
  let ?f = "\<lambda>s. if target = Some (sec_id s)
     then s\<lparr>sec_session_ids := sec_session_ids s @ [i], sec_collapsed := False\<rparr> else s"
  have ids: "sec_id (?f s) = sec_id s" for s by simp
  then have mids: "map sec_id (map ?f ss) = map sec_id ss" by simp
  have ok: "sections_ok ss" "i \<notin> set (concat (map sec_session_ids ss))"
    using Cons.prems by (auto simp: sections_ok_def)
  note IH = Cons.IH [OF ok]
  have here: "target = Some (sec_id s) \<Longrightarrow> target \<notin> Some ` sec_id ` set ss"
    using Cons.prems(1) by (auto simp: sections_ok_def)
  show ?case using IH Cons.prems here mids unfolding sections_ok_def by auto
qed (simp add: sections_ok_def)

section \<open>Properties\<close>

text \<open>C19: an allocated ordering key is itself a valid key, lies strictly between the two
  bounds in the string order, and pins its operation: two keys made from different clocks are
  different whatever their bounds, so offline writers never collide.\<close>

theorem pin_key_between_and_unique:
  assumes "pin_order_key_between lower upper nonce = Inr key"
  shows "valid_pin_order_key key \<and> (\<forall>k. lower = Some k \<longrightarrow> k < key) \<and> (\<forall>k. upper = Some k \<longrightarrow> key < k) \<and>
    (\<forall>lower' upper' nonce'. pin_order_key_between lower' upper' nonce' = Inr key \<longrightarrow> nonce' = nonce)"
proof -
  obtain p where p: "key = p @ nonce_hex nonce @ ''8''" "list_all hex_byte p"
    "length key \<le> MAX_PIN_ORDER_KEY_BYTES" "(case lower of None \<Rightarrow> [] | Some k \<Rightarrow> k) < key"
    "\<forall>u. upper = Some u \<longrightarrow> key < u"
    using pin_order_key_shape(2) [OF assms] by blast
  have "valid_pin_order_key key"
    using p(1-3) nonce_hex_bytes hex_byte_8 by (simp add: valid_pin_order_key_def)
  moreover have "nonce' = nonce" if other: "pin_order_key_between lower' upper' nonce' = Inr key" for lower' upper' nonce'
  proof -
    obtain q where "key = q @ nonce_hex nonce' @ ''8''" using pin_order_key_shape(2) [OF other] by blast
    with p(1) have "nonce_hex nonce' = nonce_hex nonce"
      by (simp add: append_eq_append_conv nonce_hex_length flip: append_assoc)
    then show ?thesis
      using nonce_hex_inj pin_order_key_shape(1) [OF other] pin_order_key_shape(1) [OF assms]
      by (simp add: pin_args_ok_def)
  qed
  ultimately show ?thesis using p(4,5) by auto
qed

text \<open>Allocation fails only for the two stated reasons. Invalid bounds or clocks are refused
  as such, and for valid ones of at most 7892 digits a key is always returned: the loop stops
  before the end of the longer bound and the key fits the 8192 bytes.\<close>

theorem pin_key_always_allocated:
  assumes "\<forall>k. lower = Some k \<longrightarrow> length k \<le> 7892" "\<forall>k. upper = Some k \<longrightarrow> length k \<le> 7892"
  shows "if pin_args_ok lower upper nonce then \<exists>key. pin_order_key_between lower upper nonce = Inr key
    else pin_order_key_between lower upper nonce = Inl InvalidPinBounds"
proof (cases "pin_args_ok lower upper nonce")
  case True
  have "\<exists>r. pin_key_loop MAX_PIN_ORDER_KEY_BYTES 0 (case lower of None \<Rightarrow> [] | Some k \<Rightarrow> k) upper nonce [] = Inr r"
    using pin_args_bounds [OF True] assms
    by (intro pin_key_loop_returns [where m = 7892]) (auto simp: MAX_PIN_ORDER_KEY_BYTES_def split: option.splits)
  with True show ?thesis by (simp add: pin_order_key_between_eq)
qed (simp add: pin_order_key_between_eq)

theorem pin_key_between_and_unique_witness:
  "valid_pin_order_key (''8'' @ nonce_hex ''x'' @ ''8'')"
proof -
  have "nonce_ok ''x''" by code_simp
  from pin_key_between_and_unique [OF pin_first [OF this]] show ?thesis by blast
qed

theorem pin_key_always_allocated_witness:
  "\<exists>key. pin_order_key_between (Some ''8'') (Some ''81'') ''x'' = Inr key"
proof -
  have "pin_args_ok (Some ''8'') (Some ''81'') ''x''"
    unfolding pin_args_ok_def by (simp add: valid_pin_order_key_def MAX_PIN_ORDER_KEY_BYTES_def) code_simp
  with pin_key_always_allocated [of "Some ''8''" "Some ''81''" "''x''"] show ?thesis by simp
qed

text \<open>Rebasing a pending pin intent. Pinning leaves the id in the list exactly once, a move
  never revives an unpinned id, unpinning removes it; all other ids keep their relative order; a
  surviving right anchor is the id's right neighbour; and distinct lists stay distinct.\<close>

theorem pin_projection_rebases:
  assumes "distinct ids"
  shows "distinct (pin_project c ids) \<and>
    set (pin_project (Pin i after before) ids) = insert i (set ids) \<and>
    set (pin_project (Move i after before) ids) = set ids \<and>
    set (pin_project (Unpin i) ids) = set ids - {i} \<and>
    retain_ne i (pin_project (Pin i after before) ids) = retain_ne i ids \<and>
    retain_ne i (pin_project (Move i after before) ids) = retain_ne i ids \<and>
    (\<forall>b \<in> set ids - {i}. \<exists>xs ys. pin_project (Pin i after (Some b)) ids = xs @ i # b # ys)"
proof -
  let ?r = "\<lambda>a b. insert_at (anchor_index a b (retain_ne i ids)) i (retain_ne i ids)"
  have n: "i \<notin> set (retain_ne i ids)" "distinct (retain_ne i ids)" for i using assms by auto
  have "distinct (pin_project c ids)"
    using assms n insert_at_facts(2) by (cases c) (auto simp: Let_def split: SidebarSectionChange.splits)
  moreover have "retain_ne i (?r a b) = retain_ne i ids" "set (?r a b) = insert i (set ids)" for a b
    using n insert_at_facts by auto
  moreover have "\<exists>xs ys. ?r after (Some b) = xs @ i # b # ys" if "b \<in> set ids - {i}" for b
    by (rule insert_before_anchor) (use that in simp)
  ultimately show ?thesis by (auto simp: Let_def)
qed

theorem pin_projection_rebases_witness:
  "set (pin_project (Move ''gone'' None None) [''remote'']) = {''remote''}"
  using pin_projection_rebases [of "[''remote'']" "Unpin ''gone''" "''gone''" None None] by simp

text \<open>The projections keep every session in at most one section: from sections with distinct
  ids and disjoint members, any pin or section intent leads to such sections again, and an
  assignment leaves the session in its target section only.\<close>

theorem section_intents_keep_exclusive:
  assumes "sections_ok ss"
  shows "sections_ok (project_sections c ss) \<and>
    (\<forall>s \<in> set (section_project (SecAssign i target) ss).
       i \<in> set (sec_session_ids s) \<longleftrightarrow> target = Some (sec_id s))"
proof -
  let ?g = "\<lambda>i (s :: SidebarSection). s\<lparr>sec_session_ids := retain_ne i (sec_session_ids s)\<rparr>"
  have as: "section_project (SecAssign i t) ss =
      map (\<lambda>s. if t = Some (sec_id s)
        then s\<lparr>sec_session_ids := sec_session_ids s @ [i], sec_collapsed := False\<rparr> else s) (map (?g i) ss)" for i t
    by (simp add: comp_def Let_def)
  have g: "sections_ok (map (?g i) ss)" "i \<notin> set (concat (map sec_session_ids (map (?g i) ss)))" for i
    using sections_ok_sub(2) [OF assms] by auto
  have "sections_ok (section_project ch ss)" for ch
  proof (cases ch)
    case (SecAssign j t)
    show ?thesis unfolding SecAssign as by (rule assign_places_once [OF g, THEN conjunct1])
  next
    case (SecDelete j)
    then show ?thesis using sections_ok_sub(1) [OF assms] by simp
  next
    case (SecRename j n)
    then show ?thesis using assms update_first_frame [of "\<lambda>s. s\<lparr>sec_name := n\<rparr>" j ss]
      by (simp add: sections_ok_def)
  next
    case (SecCollapse j n)
    then show ?thesis using assms update_first_frame [of "\<lambda>s. s\<lparr>sec_collapsed := n\<rparr>" j ss]
      by (simp add: sections_ok_def)
  qed (use assms in \<open>auto simp: sections_ok_def\<close>)
  then have "sections_ok (project_sections c ss)" using g by (cases c) (simp_all add: assms)
  moreover have "i \<in> set (sec_session_ids s) \<longleftrightarrow> target = Some (sec_id s)"
    if mem: "s \<in> set (section_project (SecAssign i target) ss)" for s
  proof -
    from mem obtain s1 where s1: "s1 \<in> ?g i ` set ss"
      and s: "s = (if target = Some (sec_id s1)
        then s1\<lparr>sec_session_ids := sec_session_ids s1 @ [i], sec_collapsed := False\<rparr> else s1)"
      unfolding as set_map by blast
    from s1 have "i \<notin> set (sec_session_ids s1)" by auto
    with s show ?thesis by simp
  qed
  ultimately show ?thesis by blast
qed

theorem section_intents_keep_exclusive_witness:
  "sections_ok (project_sections (Section (SecAssign ''s'' (Some ''b'')))
     [\<lparr>sec_id = ''a'', sec_name = ''A'', sec_session_ids = [''s''], sec_collapsed = False\<rparr>,
      \<lparr>sec_id = ''b'', sec_name = ''B'', sec_session_ids = [], sec_collapsed = True\<rparr>])"
  using section_intents_keep_exclusive
    [of "[\<lparr>sec_id = ''a'', sec_name = ''A'', sec_session_ids = [''s''], sec_collapsed = False\<rparr>,
      \<lparr>sec_id = ''b'', sec_name = ''B'', sec_session_ids = [], sec_collapsed = True\<rparr>]"]
  by (simp add: sections_ok_def)

end
