(* ===== verification/Sidebar.thy ===== *)
theory Sidebar
  imports Registry_Api Pin_Order "HOL-Library.Option_ord" "HOL-Library.Product_Lexorder"
begin

text \<open>
  The sidebar of the registry (\<^verbatim>\<open>src/crates/doc/src/registry/sidebar_sections.rs\<close> and
  \<^verbatim>\<open>sidebar_pins.rs\<close>, and the two operations of \<^verbatim>\<open>registry.rs\<close> on preferences): sections, pins and the
  single placement register of a session, read from the overlay and changed by intents.

  An operation returns the error or its value together with the state it leaves, since several
  errors are raised after the replica changed. The lemmas show that the placement of a session is a
  function, so no session is in two sections or in a section and pinned, that the listed pins are
  sorted and valid, and that every intent is a run of the replica's steps.
\<close>

section \<open>Reading\<close>

definition SECTIONS :: string where "SECTIONS = ''sidebarSections''"
definition LOCATIONS :: string where "LOCATIONS = ''sidebarLocations''"

definition observe_sidebar_row :: "string \<Rightarrow> string \<Rightarrow> RegistryDoc \<Rightarrow> RegistryDoc" where
  "observe_sidebar_row kind ident d =
     (case Option.bind (overlay_row d kind ident) max_clock of
        None \<Rightarrow> d
      | Some c \<Rightarrow> observe_doc c d)"

definition location_wins :: "string option \<Rightarrow> string option \<Rightarrow> bool" where
  "location_wins location_clock pin_clock \<longleftrightarrow> location_clock \<noteq> None \<and> location_clock \<ge> pin_clock"

definition sidebar_location :: "RegistryDoc \<Rightarrow> string \<Rightarrow> RegistryRow option \<Rightarrow> string" where
  "sidebar_location d ident pin =
     (let location = overlay_row d LOCATIONS ident;
          location_clock = Option.bind location (\<lambda>r. map_of (row_clocks r) ''location'');
          pin_clock = Option.bind pin (\<lambda>r. map_of (row_clocks r) ''pinned'')
      in if location_wins location_clock pin_clock then
           (case Option.bind location (\<lambda>r. Option.bind (map_of (row_fields r) ''location'') as_str) of
              None \<Rightarrow> [] | Some l \<Rightarrow> l)
         else if Option.bind (Option.bind pin (\<lambda>r. map_of (row_fields r) ''pinned'')) as_bool = Some True
         then ''pinned'' else [])"

definition sidebar_location_is_pinned :: "RegistryDoc \<Rightarrow> string \<Rightarrow> RegistryRow \<Rightarrow> bool" where
  "sidebar_location_is_pinned d ident pin \<longleftrightarrow> sidebar_location d ident (Some pin) = ''pinned''"

definition not_deleted :: "RegistryRow \<Rightarrow> bool" where
  "not_deleted r \<longleftrightarrow> Option.bind (map_of (row_fields r) ''deleted'') as_bool \<noteq> Some True"

definition created_key :: "RegistryRow \<Rightarrow> string option \<times> string" where
  "created_key r = (Option.bind (map_of (row_fields r) ''createdAt'') as_str, row_id r)"

definition section_of_row :: "RegistryDoc \<Rightarrow> RegistryRow list \<Rightarrow> RegistryRow \<Rightarrow> SidebarSection option" where
  "section_of_row d locations row =
     (let session_ids = sort (map row_id (filter (\<lambda>r.
            sidebar_location d (row_id r) (overlay_row d KIND_SIDEBAR_PINS (row_id r)) = row_id row) locations))
      in case Option.bind (map_of (row_fields row) ''name'') as_str of
           None \<Rightarrow> None
         | Some name \<Rightarrow>
             Some \<lparr>sec_id = row_id row, sec_name = name, sec_session_ids = session_ids,
               sec_collapsed = (case Option.bind (map_of (row_fields row) ''collapsed'') as_bool of
                                  None \<Rightarrow> False | Some b \<Rightarrow> b)\<rparr>)"

definition sidebar_sections :: "RegistryDoc \<Rightarrow> SidebarSection list" where
  "sidebar_sections d =
     List.map_filter (section_of_row d (overlay_rows d LOCATIONS))
       (sort_key created_key (filter not_deleted (overlay_rows d SECTIONS)))"

definition live_sidebar_section :: "RegistryDoc \<Rightarrow> string \<Rightarrow> bool" where
  "live_sidebar_section d ident = (case overlay_row d SECTIONS ident of None \<Rightarrow> False | Some r \<Rightarrow> not_deleted r)"

definition sidebar_pins_initialized :: "RegistryDoc \<Rightarrow> bool" where
  "sidebar_pins_initialized d \<longleftrightarrow> overlay_row d KIND_PREFERENCES SIDEBAR_PINS_STATE_ID \<noteq> None"

definition pin_entry :: "RegistryDoc \<Rightarrow> RegistryRow \<Rightarrow> (string \<times> string) option" where
  "pin_entry d row =
     (if \<not> sidebar_location_is_pinned d (row_id row) row then None
      else (case Option.bind (map_of (row_fields row) ''orderKey'') as_str of
          None \<Rightarrow> None
        | Some key \<Rightarrow> if valid_pin_order_key key then Some (row_id row, key) else None))"

definition ordered_sidebar_pins :: "RegistryDoc \<Rightarrow> (string \<times> string) list" where
  "ordered_sidebar_pins d =
     sort_key (\<lambda>(ident, key). (key, ident))
       (List.map_filter (pin_entry d) (overlay_rows d KIND_SIDEBAR_PINS))"

definition sidebar_preferences :: "RegistryDoc \<Rightarrow> SidebarPreferences option" where
  "sidebar_preferences d =
     (if sidebar_pins_initialized d
      then Some \<lparr>pinned_session_ids = map fst (ordered_sidebar_pins d), pref_sections = sidebar_sections d\<rparr>
      else None)"

section \<open>Changing\<close>

definition write_sidebar_location :: "(nat \<Rightarrow> int) \<Rightarrow> string \<Rightarrow> string \<Rightarrow> RegistryDoc \<Rightarrow> RegistryDoc" where
  "write_sidebar_location now ident location d =
     registry_write now LOCATIONS ident OpUpsert (fields [(''location'', JStr location)])
       (observe_sidebar_row KIND_SIDEBAR_PINS ident (observe_sidebar_row LOCATIONS ident d))"

definition initialize_sidebar_pins :: "(nat \<Rightarrow> int) \<Rightarrow> RegistryDoc \<Rightarrow> RegistryDoc" where
  "initialize_sidebar_pins now d =
     (if \<not> sidebar_pins_initialized d
      then registry_write now KIND_PREFERENCES SIDEBAR_PINS_STATE_ID OpUpsert
             (fields [(''initialized'', JBool True)]) d
      else d)"

definition id_byte :: "char \<Rightarrow> bool" where
  "id_byte b \<longleftrightarrow> (CHR ''0'' \<le> b \<and> b \<le> CHR ''9'') \<or> (CHR ''A'' \<le> b \<and> b \<le> CHR ''Z'') \<or>
     (CHR ''a'' \<le> b \<and> b \<le> CHR ''z'') \<or> b \<in> set ''_.:@/-''"

definition valid_id :: "string \<Rightarrow> bool" where
  "valid_id s \<longleftrightarrow> s \<noteq> [] \<and> length s \<le> 256 \<and> list_all id_byte s"

definition valid_section_id :: "string \<Rightarrow> bool" where
  "valid_section_id s \<longleftrightarrow> valid_id s \<and> s \<noteq> ''pinned''"

text \<open>The number of characters of a UTF-8 string: its bytes that do not continue one.\<close>

definition chars_count :: "string \<Rightarrow> nat" where
  "chars_count s = length (filter (\<lambda>b. (of_char b :: nat) div 64 \<noteq> 2) s)"

definition valid_name :: "string \<Rightarrow> bool" where
  "valid_name s \<longleftrightarrow> trim s \<noteq> [] \<and> chars_count s \<le> 120"

fun section_change_error :: "SidebarSectionChange \<Rightarrow> string option" where
  "section_change_error (SecCreate i name) =
     (if \<not> valid_section_id i \<or> \<not> valid_name name then Some ''Invalid section name or ID'' else None)"
| "section_change_error (SecRename i name) =
     (if \<not> valid_section_id i \<or> \<not> valid_name name then Some ''Invalid section name or ID'' else None)"
| "section_change_error (SecCollapse i c) =
     (if \<not> valid_section_id i then Some ''Invalid section ID'' else None)"
| "section_change_error (SecDelete i) =
     (if \<not> valid_section_id i then Some ''Invalid section ID'' else None)"
| "section_change_error (SecAssign sid target) =
     (if \<not> valid_id sid \<or> (case target of None \<Rightarrow> False | Some i \<Rightarrow> \<not> valid_section_id i)
      then Some ''Invalid section membership'' else None)"
| "section_change_error (SecImport ss) =
     (if list_ex (\<lambda>s. \<not> valid_section_id (sec_id s) \<or> \<not> valid_name (sec_name s) \<or>
           list_ex (\<lambda>i. \<not> valid_id i) (sec_session_ids s)) ss
      then Some ''Invalid section import'' else None)"

definition write_section :: "(nat \<Rightarrow> int) \<Rightarrow> string \<Rightarrow> (string \<times> json) list \<Rightarrow> RegistryDoc \<Rightarrow> RegistryDoc" where
  "write_section now i entries d =
     registry_write now SECTIONS i OpUpsert (fields entries) (observe_sidebar_row SECTIONS i d)"

text \<open>The arms of the second match that do not call the function again, after the
  initialization.\<close>

fun section_arm :: "(nat \<Rightarrow> int) \<Rightarrow> SidebarSectionChange \<Rightarrow> RegistryDoc \<Rightarrow> RegistryDoc" where
  "section_arm now (SecCreate i name) d =
     (if overlay_row d SECTIONS i = None then
        (case next_hlc now d of (created, d1) \<Rightarrow>
           registry_write now SECTIONS i OpUpsert
             (fields [(''name'', JStr name), (''collapsed'', JBool False), (''deleted'', JBool False),
                      (''createdAt'', JStr created)]) d1)
      else d)"
| "section_arm now (SecRename i name) d =
     (if live_sidebar_section d i then write_section now i [(''name'', JStr name)] d else d)"
| "section_arm now (SecCollapse i c) d =
     (if live_sidebar_section d i then write_section now i [(''collapsed'', JBool c)] d else d)"
| "section_arm now (SecDelete i) d = write_section now i [(''deleted'', JBool True)] d"
| "section_arm now (SecAssign _ _) d = d"
| "section_arm now (SecImport _) d = d"

type_synonym 'a outcome = "(DocError + 'a) \<times> RegistryDoc"

text \<open>The calls the function makes to itself are of the first four shapes only.\<close>

definition change_section_simple :: "(nat \<Rightarrow> int) \<Rightarrow> SidebarSectionChange \<Rightarrow> RegistryDoc \<Rightarrow> unit outcome" where
  "change_section_simple now change d =
     (case section_change_error change of
        Some e \<Rightarrow> (Inl (DocSchema e), d)
      | None \<Rightarrow> (Inr (), section_arm now change (initialize_sidebar_pins now d)))"

definition assign_section :: "(nat \<Rightarrow> int) \<Rightarrow> string \<Rightarrow> string option \<Rightarrow> RegistryDoc \<Rightarrow> unit outcome" where
  "assign_section now sid target d =
     (if (case target of None \<Rightarrow> False | Some i \<Rightarrow> \<not> live_sidebar_section d i)
      then (Inl (DocSchema ''Section no longer exists''), d)
      else if overlay_row d KIND_CHATS sid = None
      then (Inl (DocSchema ''Session no longer exists''), d)
      else
        let d1 = registry_write now KIND_SIDEBAR_PINS sid OpUpsert (fields [(''pinned'', JBool False)])
                   (observe_sidebar_row KIND_SIDEBAR_PINS sid d);
            d2 = write_sidebar_location now sid (case target of None \<Rightarrow> [] | Some i \<Rightarrow> i) d1
        in case target of
             None \<Rightarrow> (Inr (), d2)
           | Some i \<Rightarrow> change_section_simple now (SecCollapse i False) d2)"

definition import_members :: "(nat \<Rightarrow> int) \<Rightarrow> SidebarSection \<Rightarrow> RegistryDoc \<Rightarrow> RegistryDoc" where
  "import_members now sec d0 =
     fold (\<lambda>i d.
       if overlay_row d LOCATIONS i = None \<and> i \<notin> fst ` set (ordered_sidebar_pins d) \<and>
          overlay_row d KIND_CHATS i \<noteq> None
       then write_sidebar_location now i (sec_id sec) d else d) (sec_session_ids sec) d0"

fun import_sections :: "(nat \<Rightarrow> int) \<Rightarrow> SidebarSection list \<Rightarrow> RegistryDoc \<Rightarrow> unit outcome" where
  "import_sections now [] d = (Inr (), d)"
| "import_sections now (sec # ss) d =
     (if overlay_row d SECTIONS (sec_id sec) \<noteq> None then import_sections now ss d
      else case change_section_simple now (SecCreate (sec_id sec) (sec_name sec)) d of
          (Inl e, d1) \<Rightarrow> (Inl e, d1)
        | (Inr _, d1) \<Rightarrow>
            (case change_section_simple now (SecCollapse (sec_id sec) (sec_collapsed sec)) (import_members now sec d1) of
               (Inl e, d2) \<Rightarrow> (Inl e, d2)
             | (Inr _, d2) \<Rightarrow> import_sections now ss d2))"

definition change_sidebar_section :: "(nat \<Rightarrow> int) \<Rightarrow> SidebarSectionChange \<Rightarrow> RegistryDoc \<Rightarrow> unit outcome" where
  "change_sidebar_section now change d =
     (case section_change_error change of
        Some e \<Rightarrow> (Inl (DocSchema e), d)
      | None \<Rightarrow>
          let d1 = initialize_sidebar_pins now d in
          (case change of
             SecAssign sid target \<Rightarrow> assign_section now sid target d1
           | SecImport ss \<Rightarrow> import_sections now ss d1
           | _ \<Rightarrow> (Inr (), section_arm now change d1)))"

fun is_pin :: "SidebarPinChange \<Rightarrow> bool" where
  "is_pin (Pin _ _ _) = True"
| "is_pin _ = False"

definition key_for :: "(string \<times> string) list \<Rightarrow> string \<Rightarrow> string option" where
  "key_for pins i = map_option snd (find (\<lambda>(pin, _). pin = i) pins)"

definition nth_opt :: "'a list \<Rightarrow> nat \<Rightarrow> 'a option" where
  "nth_opt xs i = (if i < length xs then Some (xs ! i) else None)"

text \<open>The part of \<^verbatim>\<open>change_sidebar_pin\<close> that allocates the key of a pinned or moved session.\<close>

definition place_pin :: "(nat \<Rightarrow> int) \<Rightarrow> SidebarPinChange \<Rightarrow> string list \<Rightarrow> RegistryDoc \<Rightarrow> unit outcome" where
  "place_pin now change current d =
     (let i = session_id change;
          pins = ordered_sidebar_pins d;
          next = pin_project change current;
          index = the (position i next);
          lower = (if index = 0 then None else Option.bind (nth_opt next (index - 1)) (key_for pins));
          upper = Option.bind (nth_opt next (index + 1)) (key_for pins)
      in case next_hlc now d of (hlc, d1) \<Rightarrow>
           (case pin_order_key_between lower upper hlc of
              Inl e \<Rightarrow> (Inl (DocSchema (pin_error_text e)), d1)
            | Inr key \<Rightarrow>
                let s = fields [(''orderKey'', JStr key)];
                    s = (if is_pin change then bt_insert ''pinned'' (JBool True) s else s);
                    d2 = (if is_pin change then write_sidebar_location now i ''pinned'' d1 else d1)
                in (Inr (), enqueue_ops now
                     [\<lparr>op_kind = KIND_SIDEBAR_PINS, op_id = i, op_op = OpUpsert, op_set = Some s,
                       op_hlc = hlc, op_clocks = None\<rparr>] d2)))"

definition change_sidebar_pin :: "(nat \<Rightarrow> int) \<Rightarrow> SidebarPinChange \<Rightarrow> RegistryDoc \<Rightarrow> unit outcome" where
  "change_sidebar_pin now change d =
     (case change of
        Section sc \<Rightarrow> change_sidebar_section now sc d
      | _ \<Rightarrow>
          let i = session_id change;
              current = (case sidebar_preferences d of None \<Rightarrow> [] | Some p \<Rightarrow> pinned_session_ids p)
          in if i = [] \<or> length i > 256 \<or> \<not> list_all id_byte i
             then (Inl (DocSchema ''Invalid pinned session ID''), d)
             else if is_pin change \<and> i \<notin> set current \<and> length current \<ge> MAX_SIDEBAR_PINS
             then (Inl (DocSchema ''You can pin up to 200 sessions''), d)
             else if is_pin change \<and> overlay_row d KIND_CHATS i = None
             then (Inl (DocSchema ''Session no longer exists''), d)
             else
               let d1 = initialize_sidebar_pins now d;
                   d2 = observe_sidebar_row LOCATIONS i d1;
                   d3 = observe_sidebar_row KIND_SIDEBAR_PINS i d2
               in case change of
                    Unpin _ \<Rightarrow>
                      let d4 = (if i \<in> set current then write_sidebar_location now i [] d3 else d3)
                      in (Inr (), registry_write now KIND_SIDEBAR_PINS i OpUpsert
                                    (fields [(''pinned'', JBool False)]) d4)
                  | Move _ _ _ \<Rightarrow> if i \<notin> set current then (Inr (), d3) else place_pin now change current d3
                  | _ \<Rightarrow> place_pin now change current d3)"

fun unpin_all :: "(nat \<Rightarrow> int) \<Rightarrow> string list \<Rightarrow> RegistryDoc \<Rightarrow> unit outcome" where
  "unpin_all now [] d = (Inr (), d)"
| "unpin_all now (i # is) d =
     (case change_sidebar_pin now (Unpin i) d of
        (Inl e, d1) \<Rightarrow> (Inl e, d1)
      | (Inr _, d1) \<Rightarrow> unpin_all now is d1)"

definition reconcile_sidebar_pins :: "Serde \<Rightarrow> (nat \<Rightarrow> int) \<Rightarrow> bool \<Rightarrow> RegistryDoc \<Rightarrow> bool outcome" where
  "reconcile_sidebar_pins s now authoritative_state d =
     (if \<not> authoritative_state then (Inr False, d)
      else
        let initialized = sidebar_pins_initialized d;
            d1 = initialize_sidebar_pins now d;
            known = chat_id ` set (read_chats s d1);
            removed = filter (\<lambda>i. i \<notin> known) (map fst (ordered_sidebar_pins d1))
        in case unpin_all now removed d1 of
             (Inl e, d2) \<Rightarrow> (Inl e, d2)
           | (Inr _, d2) \<Rightarrow> (Inr (\<not> initialized \<or> removed \<noteq> []), d2))"

section \<open>Placement is a function\<close>

text \<open>Where a session is, as the sidebar shows it.\<close>

definition placement :: "RegistryDoc \<Rightarrow> string \<Rightarrow> string" where
  "placement d i = sidebar_location d i (overlay_row d KIND_SIDEBAR_PINS i)"

lemma section_of_row_Some:
  assumes "section_of_row d locs row = Some s"
  shows "sec_id s = row_id row" "set (sec_session_ids s) = {i \<in> row_id ` set locs. placement d i = row_id row}"
    "distinct (map row_id locs) \<Longrightarrow> distinct (sec_session_ids s)"
proof -
  have *: "sec_id s = row_id row"
    "sec_session_ids s = sort (map row_id (filter (\<lambda>r. placement d (row_id r) = row_id row) locs))"
    using assms by (auto simp: section_of_row_def placement_def Let_def split: option.splits)
  show "sec_id s = row_id row" by (rule *)
  show "set (sec_session_ids s) = {i \<in> row_id ` set locs. placement d i = row_id row}" unfolding * by auto
  show "distinct (map row_id locs) \<Longrightarrow> distinct (sec_session_ids s)"
    unfolding *(2) by (simp add: distinct_map_filter)
qed

lemma sidebar_sections_rows:
  assumes "auth_ok (authoritative d)"
  defines "rows \<equiv> sort_key created_key (filter not_deleted (overlay_rows d SECTIONS))"
  shows "distinct (map row_id rows)"
    "set (sidebar_sections d) = {s. \<exists>row \<in> set rows. section_of_row d (overlay_rows d LOCATIONS) row = Some s}"
proof -
  have "distinct (map row_id (filter not_deleted (overlay_rows d SECTIONS)))"
    using overlay_rows_facts [OF assms(1), of SECTIONS] by (simp add: distinct_map_filter)
  then show "distinct (map row_id rows)" unfolding rows_def
    by (simp add: distinct_map)
  show "set (sidebar_sections d) = {s. \<exists>row \<in> set rows. section_of_row d (overlay_rows d LOCATIONS) row = Some s}"
    by (simp add: sidebar_sections_def rows_def set_map_filter)
qed

lemma distinct_concat_map_filter:
  assumes "distinct (map key xs)"
    and "\<And>x s. x \<in> set xs \<Longrightarrow> f x = Some s \<Longrightarrow> distinct (members s) \<and> (\<forall>i \<in> set (members s). owner i = key x) \<and> name s = key x"
  shows "distinct (map name (List.map_filter f xs)) \<and> distinct (concat (map members (List.map_filter f xs))) \<and>
    (\<forall>i \<in> set (concat (map members (List.map_filter f xs))). owner i \<in> key ` set xs) \<and>
    name ` set (List.map_filter f xs) \<subseteq> key ` set xs"
  using assms
proof (induction xs)
  case (Cons x xs)
  have IH: "distinct (map name (List.map_filter f xs)) \<and> distinct (concat (map members (List.map_filter f xs))) \<and>
    (\<forall>i \<in> set (concat (map members (List.map_filter f xs))). owner i \<in> key ` set xs) \<and>
    name ` set (List.map_filter f xs) \<subseteq> key ` set xs"
  proof (rule Cons.IH)
    show "distinct (map key xs)" using Cons.prems(1) by simp
    show "distinct (members s) \<and> (\<forall>i \<in> set (members s). owner i = key y) \<and> name s = key y"
      if "y \<in> set xs" "f y = Some s" for y s
      using Cons.prems(2) [of y s] that by simp
  qed
  show ?case
  proof (cases "f x")
    case None
    with IH show ?thesis by (auto simp: List.map_filter_simps)
  next
    case (Some s)
    then have s: "distinct (members s)" "\<And>i. i \<in> set (members s) \<Longrightarrow> owner i = key x" "name s = key x"
      using Cons.prems(2) [of x s] by auto
    have "key x \<notin> key ` set xs" using Cons.prems(1) by auto
    with IH s Some show ?thesis by (fastforce simp: List.map_filter_simps)
  qed
qed (simp add: List.map_filter_simps)

lemma sidebar_sections_ok:
  assumes "auth_ok (authoritative d)"
  shows "sections_ok (sidebar_sections d)"
proof -
  let ?rows = "sort_key created_key (filter not_deleted (overlay_rows d SECTIONS))"
  have d: "distinct (map row_id (overlay_rows d LOCATIONS))"
    using overlay_rows_facts [OF assms] by blast
  show ?thesis unfolding sections_ok_def sidebar_sections_def
    using distinct_concat_map_filter [OF sidebar_sections_rows(1) [OF assms],
        of "section_of_row d (overlay_rows d LOCATIONS)" sec_session_ids "placement d" sec_id]
      section_of_row_Some(1,2) section_of_row_Some(3) [OF _ d]
    by auto
qed

lemma pin_entry_Some:
  "pin_entry d row = Some (i, key) \<Longrightarrow>
   i = row_id row \<and> valid_pin_order_key key \<and> sidebar_location d i (Some row) = ''pinned''"
  by (auto simp: pin_entry_def sidebar_location_is_pinned_def split: if_splits option.splits)

lemma ordered_pins_set:
  assumes "auth_ok (authoritative d)" "(i, key) \<in> set (ordered_sidebar_pins d)"
  shows "placement d i = ''pinned''" "valid_pin_order_key key"
proof -
  obtain row where row: "row \<in> set (overlay_rows d KIND_SIDEBAR_PINS)" "pin_entry d row = Some (i, key)"
    using assms(2) by (auto simp: ordered_sidebar_pins_def set_map_filter)
  then have "overlay_row d KIND_SIDEBAR_PINS (row_id row) = Some row"
    using overlay_rows_facts [OF assms(1)] by blast
  with pin_entry_Some [OF row(2)] show "placement d i = ''pinned''" "valid_pin_order_key key"
    by (auto simp: placement_def)
qed

lemma ordered_pins_distinct:
  assumes "auth_ok (authoritative d)"
  shows "distinct (map fst (ordered_sidebar_pins d))"
proof -
  have "distinct (map fst (List.map_filter (pin_entry d) rows)) \<and>
      fst ` set (List.map_filter (pin_entry d) rows) \<subseteq> row_id ` set rows" if "distinct (map row_id rows)" for rows
    using that
  proof (induction rows)
    case (Cons row rows)
    then show ?case
      by (cases "pin_entry d row") (auto simp: List.map_filter_simps dest!: pin_entry_Some)
  qed (simp add: List.map_filter_simps)
  then have "distinct (map fst (List.map_filter (pin_entry d) (overlay_rows d KIND_SIDEBAR_PINS)))"
    using overlay_rows_facts [OF assms] by blast
  then show ?thesis unfolding ordered_sidebar_pins_def
    by (simp add: distinct_map)
qed

section \<open>Writes after an observation\<close>

definition clock_le :: "HlcClock \<Rightarrow> HlcClock \<Rightarrow> bool" where
  "clock_le a b \<longleftrightarrow> last_ms a < last_ms b \<or> last_ms a = last_ms b \<and> counter a \<le> counter b"

text \<open>A clock string as the room admits it: 13 and 6 digits and a device.\<close>

definition wire_clock :: "string \<Rightarrow> bool" where
  "wire_clock s \<longleftrightarrow> (\<exists>ms cnt dev. s = encode_hlc ms cnt dev \<and> ms_ok ms \<and> cnt \<le> 999999)"

definition below :: "string \<Rightarrow> HlcClock \<Rightarrow> bool" where
  "below s c \<longleftrightarrow> (\<exists>ms cnt dev. s = encode_hlc ms cnt dev \<and> ms_ok ms \<and> cnt \<le> 999999 \<and>
     clock_le \<lparr>last_ms = ms, counter = cnt\<rparr> c)"

lemma clock_le_trans: "clock_le a b \<Longrightarrow> clock_le b c \<Longrightarrow> clock_le a c"
  by (auto simp: clock_le_def)

lemma clock_le_observe: "clock_le c (observe_clock s c)"
  by (auto simp: clock_le_def observe_clock_def split: option.splits)

lemma below_mono: "below s c \<Longrightarrow> clock_le c c' \<Longrightarrow> below s c'"
  unfolding below_def using clock_le_trans by blast

lemma observe_below:
  assumes "wire_clock s" "clock_ok c"
  shows "below s (observe_clock s c)" "clock_ok (observe_clock s c)"
proof -
  obtain ms cnt dev where s: "s = encode_hlc ms cnt dev" "ms_ok ms" "cnt \<le> 999999"
    using assms(1) by (auto simp: wire_clock_def)
  note o = observe_clock_ok [OF assms(2) s(2,3), of dev]
  show "clock_ok (observe_clock s c)" using o(1) s(1) by simp
  have "clock_le \<lparr>last_ms = ms, counter = cnt\<rparr> (observe_clock s c)"
    using o(2) s(1) by (auto simp: clock_le_def)
  with s show "below s (observe_clock s c)" unfolding below_def by blast
qed

lemma below_beaten:
  assumes "below s (clock d)" "clock_ok (clock d)" "next_hlc now d = (h, d1)" "ms_ok (last_ms (clock d1))"
  shows "s < h"
proof -
  obtain ms cnt dev where s: "s = encode_hlc ms cnt dev" "ms_ok ms" "cnt \<le> 999999"
    "clock_le \<lparr>last_ms = ms, counter = cnt\<rparr> (clock d)"
    using assms(1) by (auto simp: below_def)
  have n: "hlc_next (clock d) (now (wall_reads d)) (device_id d) = (h, clock d1)"
    using assms(3) by (auto simp: next_hlc_def split: prod.splits)
  have "encode_hlc ms cnt dev \<le> encode_hlc (last_ms (clock d)) (counter (clock d)) dev"
    using s(2-4) assms(2) encode_hlc_less_iff [of "last_ms (clock d)" ms "counter (clock d)" cnt dev dev]
    unfolding clock_ok_def clock_le_def by (auto simp flip: not_less)
  also have "\<dots> < h" by (rule hlc_next_newer(1) [OF assms(2) n assms(4)])
  finally show ?thesis using s(1) by simp
qed

definition row_wire :: "RegistryRow option \<Rightarrow> bool" where
  "row_wire row \<longleftrightarrow> (\<forall>r c. row = Some r \<longrightarrow> max_clock r = Some c \<longrightarrow> wire_clock c)"

definition row_below :: "RegistryRow option \<Rightarrow> HlcClock \<Rightarrow> bool" where
  "row_below row ck \<longleftrightarrow> (\<forall>r c. row = Some r \<longrightarrow> max_clock r = Some c \<longrightarrow> below c ck)"

lemma observe_frame:
  "overlay_row (observe_sidebar_row k i d) kind ident = overlay_row d kind ident"
  "authoritative (observe_sidebar_row k i d) = authoritative d"
  "pending_ops (observe_sidebar_row k i d) = pending_ops d"
  by (auto simp: observe_sidebar_row_def observe_doc_def overlay_row_def pending_ops_def split: option.splits)

lemma observe_row:
  assumes "clock_ok (clock d)" "row_wire (overlay_row d k i)"
  shows "clock_ok (clock (observe_sidebar_row k i d))" "row_below (overlay_row d k i) (clock (observe_sidebar_row k i d))"
    "clock_le (clock d) (clock (observe_sidebar_row k i d))"
proof -
  have "clock_le (clock d) (clock d)" by (simp add: clock_le_def)
  then show "clock_le (clock d) (clock (observe_sidebar_row k i d))"
    using clock_le_observe by (auto simp: observe_sidebar_row_def observe_doc_def split: option.splits)
  show "clock_ok (clock (observe_sidebar_row k i d))"
    "row_below (overlay_row d k i) (clock (observe_sidebar_row k i d))"
    using assms observe_below
    by (auto simp: observe_sidebar_row_def observe_doc_def row_wire_def row_below_def
        split: option.splits Option.bind_splits)
qed

lemma row_below_older:
  assumes "row_below (Some r) (clock d)" "clock_ok (clock d)" "next_hlc now d = (h, d1)" "ms_ok (last_ms (clock d1))"
  shows "older_than h r"
  using assms below_beaten [OF _ assms(2-4)] by (cases "max_clock r") (auto simp: row_below_def older_than_def)

section \<open>Properties\<close>

text \<open>No session is ever shown twice. For any replica, whatever concurrent moves were merged
  into it, the sections have distinct ids and pairwise disjoint members, every member is where its
  placement register says, a pinned session is in no section, and no session is pinned twice. The
  hypothesis on the id is what the validation of section ids enforces.\<close>

theorem sidebar_placement_exclusive:
  assumes "auth_ok (authoritative d)" "overlay_row d SECTIONS ''pinned'' = None"
  shows "sections_ok (sidebar_sections d) \<and> distinct (map fst (ordered_sidebar_pins d)) \<and>
    (\<forall>s \<in> set (sidebar_sections d). \<forall>i \<in> set (sec_session_ids s).
       placement d i = sec_id s \<and> i \<notin> fst ` set (ordered_sidebar_pins d))"
proof -
  have "placement d i = sec_id s \<and> i \<notin> fst ` set (ordered_sidebar_pins d)"
    if s: "s \<in> set (sidebar_sections d)" "i \<in> set (sec_session_ids s)" for s i
  proof -
    obtain row where row: "row \<in> set (overlay_rows d SECTIONS)"
      "section_of_row d (overlay_rows d LOCATIONS) row = Some s"
      using s(1) sidebar_sections_rows(2) [OF assms(1)] by auto
    have "overlay_row d SECTIONS (row_id row) = Some row"
      using overlay_rows_facts [OF assms(1)] row(1) by blast
    then have "row_id row \<noteq> ''pinned''" using assms(2) by auto
    with section_of_row_Some(1,2) [OF row(2)] s(2) ordered_pins_set(1) [OF assms(1)] show ?thesis by auto
  qed
  then show ?thesis using sidebar_sections_ok [OF assms(1)] ordered_pins_distinct [OF assms(1)] by blast
qed

theorem sidebar_placement_exclusive_witness: "sections_ok (sidebar_sections demo_loaded)"
proof -
  have "auth_ok (authoritative demo_loaded)"
    by (auto simp: demo_loaded_def auth_ok_def nested_ok_def hm_ok_def keyed_def auth_lookup_def
        auth_get_def row_key_def demo_row_def split: if_splits)
  moreover have "overlay_row demo_loaded SECTIONS ''pinned'' = None"
    by (simp add: overlay_row_def demo_loaded_def registry_new_def pending_ops_def auth_get_def SECTIONS_def)
  ultimately show ?thesis using sidebar_placement_exclusive by blast
qed

text \<open>A move takes effect on the device that makes it, even against clocks written by a
  device whose wall clock runs ahead: after the placement of a session was written, the sidebar
  places the session there, and no other row of the overlay changed. The hypotheses are that the
  clocks on the two rows of the session have the admitted shape, that the placement row is not a
  tombstone (none is ever deleted), and that the next clock has 13 digits.\<close>

theorem placement_write_wins:
  assumes "doc_ok d" "row_wire (overlay_row d LOCATIONS i)" "row_wire (overlay_row d KIND_SIDEBAR_PINS i)"
    and "overlay_row d LOCATIONS i = Some r" "live_ok r"
    and "ms_ok (last_ms (clock (snd (next_hlc now
      (observe_sidebar_row KIND_SIDEBAR_PINS i (observe_sidebar_row LOCATIONS i d))))))"
  shows "placement (write_sidebar_location now i loc d) i = loc \<and>
    (\<forall>kind ident. (kind, ident) \<noteq> (LOCATIONS, i) \<longrightarrow>
      overlay_row (write_sidebar_location now i loc d) kind ident = overlay_row d kind ident)"
proof -
  define d1 where "d1 = observe_sidebar_row LOCATIONS i d"
  define d2 where "d2 = observe_sidebar_row KIND_SIDEBAR_PINS i d1"
  obtain h d3 where n: "next_hlc now d2 = (h, d3)" by force
  have ms: "ms_ok (last_ms (clock d3))" using assms(6) n by (simp add: d1_def d2_def)
  have ck: "clock_ok (clock d)" using assms(1) by (simp add: doc_ok_def)
  have pin1: "row_wire (overlay_row d1 KIND_SIDEBAR_PINS i)" using assms(3) by (simp add: d1_def observe_frame)
  note o1 = observe_row [OF ck assms(2), folded d1_def]
  note o2 = observe_row [OF o1(1) pin1, folded d2_def]
  have ov: "overlay_row d2 kind ident = overlay_row d kind ident" for kind ident
    by (simp add: d1_def d2_def observe_frame)
  have "row_below (Some r) (clock d2)"
    using o1(2) o2(3) below_mono assms(4) unfolding row_below_def by fastforce
  then have old: "older_than h r" by (rule row_below_older [OF _ o2(1) n ms])
  let ?w = "registry_write now LOCATIONS i OpUpsert (fields [(''location'', JStr loc)]) d2"
  have w: "write_sidebar_location now i loc d = ?w" by (simp add: write_sidebar_location_def d1_def d2_def)
  have r2: "overlay_row d2 LOCATIONS i = Some r" using assms(4) ov by simp
  obtain r' where r': "overlay_row ?w LOCATIONS i = Some r'"
    and reg: "field_reg r' ''location'' = lww (Some (h, Some (JStr loc))) (field_reg r ''location'')"
    and other: "\<forall>kind ident. (kind, ident) \<noteq> (LOCATIONS, i) \<longrightarrow> overlay_row ?w kind ident = overlay_row d2 kind ident"
    using overlay_write [OF r2 assms(5) _ fields_ok n, of OpUpsert "[(''location'', JStr loc)]"]
    by (auto simp: dict_simps)
  have "hlc_newer h (map_option fst (field_reg r ''location''))"
    using older_than_field [OF old, of "''location''"]
    by (cases "map_of (row_clocks r) ''location''") (simp_all add: field_reg_def)
  then have "field_reg r' ''location'' = Some (h, Some (JStr loc))" using reg by (simp add: lww_def)
  then have loc: "map_of (row_clocks r') ''location'' = Some h" "map_of (row_fields r') ''location'' = Some (JStr loc)"
    by (auto simp: field_reg_def)
  have ne: "(KIND_SIDEBAR_PINS, i) \<noteq> (LOCATIONS, i)" by (simp add: KIND_SIDEBAR_PINS_def LOCATIONS_def)
  then have pin: "overlay_row ?w KIND_SIDEBAR_PINS i = overlay_row d1 KIND_SIDEBAR_PINS i"
    using other ov by (simp add: d1_def observe_frame)
  have "location_wins (Some h) (Option.bind (overlay_row d1 KIND_SIDEBAR_PINS i) (\<lambda>r. map_of (row_clocks r) ''pinned''))"
  proof (cases "overlay_row d1 KIND_SIDEBAR_PINS i")
    case (Some p)
    then have "older_than h p" using o2(2) row_below_older [OF _ o2(1) n ms] by simp
    from older_than_field [OF this, of "''pinned''"] Some show ?thesis
      by (cases "map_of (row_clocks p) ''pinned''") (simp_all add: location_wins_def less_imp_le)
  qed (simp add: location_wins_def)
  then have "placement ?w i = loc"
    by (simp add: placement_def pin sidebar_location_def r' loc)
  with other ov w show ?thesis by simp
qed

definition demo_loc_row :: RegistryRow where
  "demo_loc_row = \<lparr>row_kind = LOCATIONS, row_id = ''s'', row_seq = 0, row_deleted = False,
     row_del_hlc = None, row_fields = [(''location'', JStr ''a'')],
     row_clocks = [(''location'', encode_hlc 1800000000000 7 ''phone'')]\<rparr>"

definition demo_side :: RegistryDoc where
  "demo_side = (registry_new ''laptop'')\<lparr>authoritative := [(LOCATIONS, [(''s'', demo_loc_row)])]\<rparr>"

theorem placement_write_wins_witness:
  "placement (write_sidebar_location demo_now ''s'' ''b'' demo_side) ''s'' = ''b''"
proof -
  let ?d1 = "observe_sidebar_row LOCATIONS ''s'' demo_side"
  have ok: "doc_ok demo_side"
    by (auto simp: doc_ok_def demo_side_def registry_new_def HlcClock_default_def clock_ok_def ms_ok_def
        auth_ok_def nested_ok_def hm_ok_def keyed_def auth_lookup_def auth_get_def row_key_def
        demo_loc_row_def split: if_splits)
  have l: "overlay_row demo_side LOCATIONS ''s'' = Some demo_loc_row" "live_ok demo_loc_row"
    and p: "overlay_row demo_side KIND_SIDEBAR_PINS ''s'' = None"
    by (simp_all add: overlay_row_def demo_side_def registry_new_def pending_ops_def auth_get_def
        demo_loc_row_def live_ok_def row_ok_def LOCATIONS_def KIND_SIDEBAR_PINS_def)
  have m: "max_clock demo_loc_row = Some (encode_hlc 1800000000000 7 ''phone'')"
    by (simp add: max_clock_def demo_loc_row_def)
  have "wire_clock (encode_hlc 1800000000000 7 ''phone'')"
    unfolding wire_clock_def
    by (rule exI [of _ 1800000000000], rule exI [of _ 7], rule exI [of _ "''phone''"]) (simp add: ms_ok_def)
  then have w: "row_wire (overlay_row demo_side LOCATIONS ''s'')" "row_wire (overlay_row demo_side KIND_SIDEBAR_PINS ''s'')"
    by (simp_all add: row_wire_def l(1) p m)
  have "parse_hlc (encode_hlc 1800000000000 7 ''phone'') = Some (1800000000000, 7)"
    by (rule parse_encode_hlc) (simp_all add: ms_ok_def)
  moreover have "clock demo_side = HlcClock_default" by (simp add: demo_side_def registry_new_def)
  ultimately have c: "clock ?d1 = \<lparr>last_ms = 1800000000000, counter = 7\<rparr>"
    by (simp add: observe_sidebar_row_def l(1) m observe_doc_def observe_clock_def HlcClock_default_def)
  have "observe_sidebar_row KIND_SIDEBAR_PINS ''s'' ?d1 = ?d1"
    using p by (simp add: observe_sidebar_row_def [of KIND_SIDEBAR_PINS] observe_frame)
  then have "ms_ok (last_ms (clock (snd (next_hlc demo_now
      (observe_sidebar_row KIND_SIDEBAR_PINS ''s'' ?d1)))))"
    by (simp add: next_hlc_def hlc_next_def hlc_tick_def c demo_now_def ms_ok_def)
  with placement_write_wins [OF ok w l] show ?thesis by blast
qed

text \<open>The pinned list is sorted by ordering key and then by id, holds valid keys only, and every
  listed session is placed at the pins.\<close>

theorem pins_listed_in_order:
  assumes "auth_ok (authoritative d)"
  shows "sorted (map (\<lambda>(i, key). (key, i)) (ordered_sidebar_pins d)) \<and>
    (\<forall>(i, key) \<in> set (ordered_sidebar_pins d). valid_pin_order_key key \<and> placement d i = ''pinned'')"
proof -
  have "sorted (map (\<lambda>(i, key). (key, i)) (ordered_sidebar_pins d))"
    unfolding ordered_sidebar_pins_def by (rule sorted_sort_key)
  with ordered_pins_set [OF assms] show ?thesis by blast
qed

theorem pins_listed_in_order_witness:
  "sorted (map (\<lambda>(i, key). (key, i)) (ordered_sidebar_pins demo_side))"
proof -
  have "auth_ok (authoritative demo_side)"
    by (auto simp: demo_side_def auth_ok_def nested_ok_def hm_ok_def keyed_def auth_lookup_def
        auth_get_def row_key_def demo_loc_row_def split: if_splits)
  then show ?thesis using pins_listed_in_order by blast
qed

end
