(* ===== verification/Agent.thy ===== *)
theory Agent
  imports Entities
begin

text \<open>
  The normalized agent protocol (\<^verbatim>\<open>src/crates/proto/src/agent.rs\<close>): run requests, decoded tool calls,
  the streaming events every harness emits, and the gate that recognises the spawn of a subagent and
  the model it was given.
\<close>

section \<open>Requests\<close>

record WorktreeSpec =
  wt_repo_path :: string
  wt_base :: string
  wt_space_id :: "string option"

record RunRequest =
  rr_prompt :: string
  rr_harness :: "HarnessId option"
  rr_model :: "string option"
  rr_reasoning :: "ReasoningLevel option"
  rr_model_options :: "json btmap"
  rr_cwd :: string
  rr_sandbox :: SandboxLevel
  rr_auto_approve :: bool
  rr_resume :: "string option"
  rr_attachments :: "string list"
  rr_worktree :: "WorktreeSpec option"

record UserInputQuestion =
  q_id :: string
  q_header :: string
  q_question :: string
  q_options :: "string list"
  q_multi_select :: bool

record UserInputAnswer =
  ans_question_id :: string
  ans_labels :: "string list"

section \<open>Tool calls\<close>

definition LIVE_PLAN_TOOL_ID :: string where
  "LIVE_PLAN_TOOL_ID = ''acp-plan''"

record TodoItem =
  todo_text :: string
  todo_done :: bool

datatype ToolCall =
    Exec string
  | ReadFile string
  | WriteFile string "string option"
  | EditFile string "string option" "string option"
  | ApplyPatch "string option"
  | Search string "string option"
  | Glob string
  | WebFetch string "string option"
  | WebSearch string
  | Todo "TodoItem list"
  | Mcp string string "json option"
  | Unknown string "json option"

definition spawn_name :: "string \<Rightarrow> bool" where
  "spawn_name name \<longleftrightarrow> name = ''Agent'' \<or> prefix ''Agent: '' name"

fun is_subagent_spawn :: "ToolCall \<Rightarrow> bool" where
  "is_subagent_spawn (Unknown name _) = spawn_name name"
| "is_subagent_spawn (Mcp _ tool _) = spawn_name tool"
| "is_subagent_spawn _ = False"

definition SUBAGENT_MODEL_KEYS :: "string list" where
  "SUBAGENT_MODEL_KEYS = [''model'', ''modelId'', ''model_id'', ''subagent_model'']"

definition SUBAGENT_INPUT_KEEP :: "string list" where
  "SUBAGENT_INPUT_KEEP = [''model'', ''modelId'', ''model_id'', ''subagent_model'', ''subagent_type'']"

fun find_map :: "('a \<Rightarrow> 'b option) \<Rightarrow> 'a list \<Rightarrow> 'b option" where
  "find_map f [] = None"
| "find_map f (x # xs) = (case f x of None \<Rightarrow> find_map f xs | Some y \<Rightarrow> Some y)"

fun spawn_input :: "ToolCall \<Rightarrow> json option" where
  "spawn_input (Unknown _ input) = input"
| "spawn_input (Mcp _ _ input) = input"
| "spawn_input _ = None"

definition subagent_model :: "ToolCall \<Rightarrow> string option" where
  "subagent_model call =
     (if \<not> is_subagent_spawn call then None
      else (case spawn_input call of
          None \<Rightarrow> None
        | Some input \<Rightarrow>
            (case map_option trim (find_map (\<lambda>key. Option.bind (json_get input key) as_str) SUBAGENT_MODEL_KEYS) of
               None \<Rightarrow> None
             | Some model \<Rightarrow> if model \<noteq> [] then Some model else None)))"

section \<open>Events\<close>

record SlashCommand =
  slash_name :: string
  slash_description :: string
  slash_input_hint :: "string option"

record ToolDiff =
  td_path :: string
  td_old_text :: "string option"
  td_new_text :: string

record ToolDiffStat =
  tds_path :: string
  tds_additions :: u64
  tds_deletions :: u64

datatype DoneStatus = DoneCompleted | DoneInterrupted | DoneErrored

datatype AgentEvent =
    EvSessionStarted HarnessId string "string list" string string string
  | EvTurnStarted HarnessId string
  | EvTextDelta string
  | EvGeneratedImage string string string string
  | EvInlineImage string string string
  | EvReasoningDelta string
  | EvAssistantMessageCompleted string
  | EvToolCall string ToolCall
  | EvToolResult string bool "string option" "ToolDiff option"
  | EvToolDiffStats string "ToolDiffStat list"
  | EvContextUsage "u64 option" "u64 option"
  | EvContextUsageSnapshot "u64 option" "u64 option"
  | EvUsage u64 u64
  | EvPrimeEvent json
  | EvGoalUpdate HarnessId "json option"
  | EvAvailableCommands "SlashCommand list"
  | EvError string
  | EvInputRequested string "UserInputQuestion list"
  | EvInputResolved string
  | EvSteered "string option" "string option"
  | EvDone DoneStatus "string option" "string option" "string option"
  | EvUserMessage string
  | EvSubagent string AgentEvent

end
