(* ===== verification/Commands.thy ===== *)
theory Commands
  imports Agent
begin

text \<open>
  The durable command ledger (\<^verbatim>\<open>src/crates/doc/src/commands.rs\<close>): command entries, their expiry, the
  rule for cancelling and the pure evaluation of a pending command by the host.

  The evaluation context carries two predicates, the membership in the processed ledger and the test
  whether a turn is over; they are functions of the record.
\<close>

section \<open>Entries\<close>

definition COMMAND_DEFAULT_TTL_MS :: int where
  "COMMAND_DEFAULT_TTL_MS = 24 * 60 * 60 * 1000"

datatype SessionCommandKind = KindRun | KindSteer | KindInterrupt | KindRespondInput

datatype SessionCommandStatus = StPending | StApplied | StRejected | StExpired | StSuperseded | StCancelled

datatype SessionCommandPayload =
    CmdRun RunRequest string
  | CmdSteer string "string option"
  | CmdInterrupt
  | CmdRespondInput string "UserInputAnswer list"

fun payload_kind :: "SessionCommandPayload \<Rightarrow> SessionCommandKind" where
  "payload_kind (CmdRun _ _) = KindRun"
| "payload_kind (CmdSteer _ _) = KindSteer"
| "payload_kind CmdInterrupt = KindInterrupt"
| "payload_kind (CmdRespondInput _ _) = KindRespondInput"

record CommandBasedOn =
  bo_turn_id :: "string option"
  bo_frontier :: "string option"

record SessionCommandEntry =
  cmd_id :: string
  cmd_payload :: SessionCommandPayload
  cmd_issued_by :: string
  cmd_issued_at :: int
  cmd_based_on :: "CommandBasedOn option"
  cmd_expires_at :: "int option"
  cmd_status :: SessionCommandStatus
  cmd_resolution :: "string option"

definition entry_kind :: "SessionCommandEntry \<Rightarrow> SessionCommandKind" where
  "entry_kind e = payload_kind (cmd_payload e)"

definition effective_expiry :: "SessionCommandEntry \<Rightarrow> int" where
  "effective_expiry e =
     (case cmd_expires_at e of
        Some t \<Rightarrow> t
      | None \<Rightarrow> i64_wrap (cmd_issued_at e + COMMAND_DEFAULT_TTL_MS))"

definition can_composer_cancel :: "SessionCommandEntry \<Rightarrow> string \<Rightarrow> bool" where
  "can_composer_cancel e dev \<longleftrightarrow> cmd_status e = StPending \<and> cmd_issued_by e = dev"

section \<open>Evaluation\<close>

datatype CommandDisposition = Skip | Expired | Superseded | Execute

record EvaluationContext =
  is_processed :: "string \<Rightarrow> bool"
  ctx_now_ms :: int
  ctx_entries :: "SessionCommandEntry list"
  current_turn_id :: "string option"
  turn_is_past :: "string \<Rightarrow> bool"

definition newer_interrupt :: "SessionCommandEntry \<Rightarrow> SessionCommandEntry \<Rightarrow> bool" where
  "newer_interrupt e other \<longleftrightarrow> cmd_id other \<noteq> cmd_id e \<and> entry_kind other = entry_kind e \<and>
     cmd_status other = StPending \<and> cmd_issued_at other > cmd_issued_at e"

definition moot_interrupt :: "EvaluationContext \<Rightarrow> SessionCommandEntry \<Rightarrow> bool" where
  "moot_interrupt cx e \<longleftrightarrow>
     (case cmd_based_on e of
        None \<Rightarrow> False
      | Some b \<Rightarrow>
          (case bo_turn_id b of
             None \<Rightarrow> False
           | Some turn \<Rightarrow> current_turn_id cx \<noteq> Some turn \<and> turn_is_past cx turn))"

definition evaluate_command :: "EvaluationContext \<Rightarrow> SessionCommandEntry \<Rightarrow> CommandDisposition" where
  "evaluate_command cx e =
     (if is_processed cx (cmd_id e) then Skip
      else if ctx_now_ms cx \<ge> effective_expiry e then Expired
      else if entry_kind e = KindInterrupt \<and> list_ex (newer_interrupt e) (ctx_entries cx) then Superseded
      else if entry_kind e = KindInterrupt \<and> moot_interrupt cx e then Superseded
      else Execute)"

section \<open>Properties\<close>

text \<open>A user prompt is never lost to another one. Every unprocessed, unexpired run, steer or
  answer is executed whatever else is in the ledger: only interrupts are superseded, and only by a
  newer pending interrupt of another entry or when their turn is over.\<close>

theorem prompts_never_superseded:
  "evaluate_command cx e = Superseded \<longleftrightarrow>
     entry_kind e = KindInterrupt \<and> \<not> is_processed cx (cmd_id e) \<and> ctx_now_ms cx < effective_expiry e \<and>
     ((\<exists>other \<in> set (ctx_entries cx). newer_interrupt e other) \<or> moot_interrupt cx e)"
  by (auto simp: evaluate_command_def list_ex_iff)

end
