(* ===== verification/Drain.thy ===== *)
theory Drain
  imports Commands
begin

text \<open>
  The host's command drain (\<^verbatim>\<open>drain_commands\<close> of \<^verbatim>\<open>src/crates/engine/src/doc_host.rs\<close> with
  \<^verbatim>\<open>set_command_status\<close> of \<^verbatim>\<open>src/crates/doc/src/schema.rs\<close>): evaluate, mark processed before executing,
  execute, write the outcome; with the sweep of commands a crash left behind, the gate on attachments
  in transit and the claim that keeps a command from being executed twice at a time.

  The state is what one drain pass reads and writes: the command list of the document, the processed
  ledger, the claims of other drains, the ids skipped by this pass, and as a ghost the ids whose
  execution was started. The environment is a record of functions: the executor, the missing
  attachments of a command, the ledger write (which may fail), the read of the command list (which may
  fail too), the wall clock (read twice in a round), the message ids read in each round, and whether the
  executor is wired and the device hosts the chat. The pass works on the commands the document holds
  when it starts: a command that arrives later starts a drain of its own.
\<close>

section \<open>State\<close>

record DrainState =
  ds_commands :: "SessionCommandEntry list"
  ds_processed :: "string list"
  ds_executing :: "string list"
  ds_skipped :: "string list"
  ds_started :: "string list"

record DrainEnv =
  env_execute :: "SessionCommandEntry \<Rightarrow> string + (SessionCommandStatus \<times> string option)"
  env_missing :: "SessionCommandEntry \<Rightarrow> string list"
  env_mark_ok :: "string \<Rightarrow> bool"
  env_now :: "nat \<Rightarrow> int"
  env_messages :: "nat \<Rightarrow> string list"
  env_read_ok :: "nat \<Rightarrow> bool"
  env_wired :: bool
  env_host :: bool

text \<open>\<^verbatim>\<open>set_command_status\<close>: the first entry with the id; a resolution is written only when given. An
  unknown id is an error, which \<^verbatim>\<open>resolve_command\<close> logs and drops.\<close>

fun write_status ::
  "string \<Rightarrow> SessionCommandStatus \<Rightarrow> string option \<Rightarrow> SessionCommandEntry list \<Rightarrow> SessionCommandEntry list" where
  "write_status i st res [] = []"
| "write_status i st res (c # cs) =
     (if cmd_id c = i
      then c\<lparr>cmd_status := st, cmd_resolution := (case res of None \<Rightarrow> cmd_resolution c | Some r \<Rightarrow> Some r)\<rparr> # cs
      else c # write_status i st res cs)"

definition set_command_status ::
  "string \<Rightarrow> SessionCommandStatus \<Rightarrow> string option \<Rightarrow> SessionCommandEntry list \<Rightarrow>
   string + SessionCommandEntry list" where
  "set_command_status i st res cs =
     (if list_ex (\<lambda>c. cmd_id c = i) cs then Inr (write_status i st res cs)
      else Inl (''command '' @ i @ '' not found''))"

definition resolve_command :: "string \<Rightarrow> SessionCommandStatus \<Rightarrow> string option \<Rightarrow> DrainState \<Rightarrow> DrainState" where
  "resolve_command i st res s =
     (case set_command_status i st res (ds_commands s) of
        Inl err \<Rightarrow> s
      | Inr cs \<Rightarrow> s\<lparr>ds_commands := cs\<rparr>)"

section \<open>The drain\<close>

definition dead_command :: "DrainState \<Rightarrow> SessionCommandEntry \<Rightarrow> bool" where
  "dead_command s c \<longleftrightarrow> cmd_status c = StPending \<and> cmd_id c \<notin> set (ds_skipped s) \<and>
     cmd_id c \<in> set (ds_processed s) \<and> cmd_id c \<notin> set (ds_executing s)"

definition DEAD_RESOLUTION :: string where
  "DEAD_RESOLUTION = ''interrupted before completion '' @ map char_of [226 :: nat, 128, 148] @
     '' retry to send again''"

definition sweep_one :: "SessionCommandEntry \<Rightarrow> DrainState \<Rightarrow> DrainState" where
  "sweep_one c s =
     (if dead_command s c
      then (resolve_command (cmd_id c) StRejected
             (Some DEAD_RESOLUTION) s)
             \<lparr>ds_skipped := cmd_id c # ds_skipped s\<rparr>
      else s)"

definition sweep :: "DrainState \<Rightarrow> DrainState" where
  "sweep s = fold sweep_one (ds_commands s) s"

definition eligible :: "DrainState \<Rightarrow> SessionCommandEntry \<Rightarrow> bool" where
  "eligible s c \<longleftrightarrow> cmd_status c = StPending \<and> cmd_id c \<notin> set (ds_skipped s) \<and> cmd_id c \<notin> set (ds_processed s)"

definition mark_processed :: "string \<Rightarrow> DrainState \<Rightarrow> DrainState" where
  "mark_processed i s = s\<lparr>ds_processed := i # ds_processed s\<rparr>"

definition i64_saturating_sub :: "int \<Rightarrow> int \<Rightarrow> int" where
  "i64_saturating_sub a b = max (- (2 ^ 63)) (min (2 ^ 63 - 1) (a - b))"

definition ATTACHMENT_WAIT_MAX_MS :: int where
  "ATTACHMENT_WAIT_MAX_MS = 15 * 60 * 1000"

definition drain_context :: "DrainEnv \<Rightarrow> nat \<Rightarrow> SessionCommandEntry list \<Rightarrow> DrainState \<Rightarrow> EvaluationContext" where
  "drain_context env n commands s =
     \<lparr>is_processed = (\<lambda>i. i \<in> set (ds_processed s)), ctx_now_ms = env_now env (2 * n), ctx_entries = commands,
      current_turn_id = (case env_messages env n of [] \<Rightarrow> None | ms \<Rightarrow> Some (last ms)),
      turn_is_past = (\<lambda>t. t \<in> set (env_messages env n))\<rparr>"

text \<open>The outcome of one round: stop, or go round again.\<close>

datatype round = Halt DrainState | Again DrainState

definition finish :: "DrainEnv \<Rightarrow> CommandDisposition \<Rightarrow> SessionCommandEntry \<Rightarrow> DrainState \<Rightarrow> DrainState" where
  "finish env disposition e s =
     (case disposition of
        Skip \<Rightarrow> s\<lparr>ds_skipped := cmd_id e # ds_skipped s\<rparr>
      | Expired \<Rightarrow> resolve_command (cmd_id e) StExpired None s
      | Superseded \<Rightarrow> resolve_command (cmd_id e) StSuperseded None s
      | Execute \<Rightarrow>
          (case env_execute env e of
             Inr (st, res) \<Rightarrow> resolve_command (cmd_id e) st res
           | Inl err \<Rightarrow> resolve_command (cmd_id e) StRejected (Some err))
            (s\<lparr>ds_started := ds_started s @ [cmd_id e]\<rparr>))"

definition release :: "string \<Rightarrow> DrainState \<Rightarrow> DrainState" where
  "release i s = s\<lparr>ds_executing := removeAll i (ds_executing s)\<rparr>"

definition claim_and_run :: "DrainEnv \<Rightarrow> CommandDisposition \<Rightarrow> SessionCommandEntry \<Rightarrow> DrainState \<Rightarrow> round" where
  "claim_and_run env disposition e s =
     (if cmd_id e \<in> set (ds_executing s) then Again (s\<lparr>ds_skipped := cmd_id e # ds_skipped s\<rparr>)
      else
        let s = s\<lparr>ds_executing := cmd_id e # ds_executing s\<rparr> in
        if \<not> env_mark_ok env (cmd_id e) then Halt (release (cmd_id e) s)
        else Again (release (cmd_id e) (finish env disposition e (mark_processed (cmd_id e) s))))"

definition drain_round :: "DrainEnv \<Rightarrow> nat \<Rightarrow> DrainState \<Rightarrow> round" where
  "drain_round env n s0 =
     (let commands = ds_commands s0; s = sweep s0 in
      if \<not> env_read_ok env n then Halt s0
      else case find (eligible s) commands of
        None \<Rightarrow> Halt s
      | Some e \<Rightarrow>
          let disposition = evaluate_command (drain_context env n commands s) e in
          if disposition = Execute \<and> env_missing env e \<noteq> [] then
            if i64_saturating_sub (env_now env (2 * n + 1)) (cmd_issued_at e) < ATTACHMENT_WAIT_MAX_MS then Halt s
            else if \<not> env_mark_ok env (cmd_id e) then Halt s
            else Again (resolve_command (cmd_id e) StRejected (Some ''attachments never arrived'')
                          (mark_processed (cmd_id e) s))
          else claim_and_run env disposition e s)"

section \<open>Progress\<close>

definition waiting :: "DrainState \<Rightarrow> SessionCommandEntry list" where
  "waiting s = filter (eligible s) (ds_commands s)"

lemma set_status_frame:
  "map cmd_id (write_status i st res cs) = map cmd_id cs"
  by (induction cs) auto

lemma filter_set_status:
  "(\<And>c. cmd_id c = i \<Longrightarrow> \<not> P c) \<Longrightarrow> filter P (write_status i st res cs) = filter P cs"
  by (induction cs) simp_all

lemma eligible_mono:
  "set (ds_processed s) \<subseteq> set (ds_processed s') \<Longrightarrow> set (ds_skipped s) \<subseteq> set (ds_skipped s') \<Longrightarrow>
   eligible s' c \<Longrightarrow> eligible s c"
  by (auto simp: eligible_def)

lemma write_status_absent: "\<not> list_ex (\<lambda>c. cmd_id c = i) cs \<Longrightarrow> write_status i st res cs = cs"
  by (induction cs) auto

lemma resolve_write:
  "resolve_command i st res s = s\<lparr>ds_commands := write_status i st res (ds_commands s)\<rparr>"
  by (simp add: resolve_command_def set_command_status_def write_status_absent)

lemma resolve_simps [simp]:
  "ds_processed (resolve_command i st res s) = ds_processed s"
  "ds_executing (resolve_command i st res s) = ds_executing s"
  "ds_skipped (resolve_command i st res s) = ds_skipped s"
  "ds_started (resolve_command i st res s) = ds_started s"
  "eligible (resolve_command i st res s) = eligible s"
  "map cmd_id (ds_commands (resolve_command i st res s)) = map cmd_id (ds_commands s)"
  by (simp_all add: resolve_write eligible_def [abs_def] set_status_frame)

definition swept :: "DrainState \<Rightarrow> DrainState \<Rightarrow> bool" where
  "swept s t \<longleftrightarrow> ds_processed t = ds_processed s \<and> ds_executing t = ds_executing s \<and>
     ds_started t = ds_started s \<and> set (ds_skipped s) \<subseteq> set (ds_skipped t) \<and>
     map cmd_id (ds_commands t) = map cmd_id (ds_commands s) \<and>
     filter (eligible t) (ds_commands t) = filter (eligible t) (ds_commands s)"

lemma fold_sweep: "swept s t \<Longrightarrow> swept s (fold sweep_one cs t)"
proof (induction cs arbitrary: t)
  case (Cons c cs)
  have "swept s (sweep_one c t)"
  proof (cases "dead_command t c")
    case True
    let ?t = "sweep_one c t"
    have t: "?t = (resolve_command (cmd_id c) StRejected (Some DEAD_RESOLUTION) t)\<lparr>ds_skipped := cmd_id c # ds_skipped t\<rparr>"
      using True by (simp add: sweep_one_def)
    have el: "eligible ?t x \<Longrightarrow> eligible t x" for x
      by (rule eligible_mono [of t ?t]) (auto simp: t)
    have "filter (eligible ?t) (ds_commands ?t) = filter (eligible ?t) (ds_commands t)"
      unfolding t by (simp add: resolve_write) (rule filter_set_status, simp add: eligible_def)
    also have "\<dots> = filter (eligible ?t) (filter (eligible t) (ds_commands t))"
      using el by (auto simp: filter_filter intro: filter_cong)
    also have "\<dots> = filter (eligible ?t) (ds_commands s)"
      using el Cons.prems by (auto simp: swept_def filter_filter intro: filter_cong)
    finally show ?thesis using Cons.prems by (auto simp: swept_def t)
  qed (use Cons.prems in \<open>simp add: sweep_one_def\<close>)
  with Cons.IH show ?case by simp
qed simp

lemma sweep_frame:
  "ds_processed (sweep s) = ds_processed s" "ds_executing (sweep s) = ds_executing s"
  "ds_started (sweep s) = ds_started s" "set (ds_skipped s) \<subseteq> set (ds_skipped (sweep s))"
  "map cmd_id (ds_commands (sweep s)) = map cmd_id (ds_commands s)"
  "waiting (sweep s) = filter (eligible (sweep s)) (ds_commands s)"
  using fold_sweep [of s s "ds_commands s"] by (auto simp: sweep_def waiting_def swept_def)

lemma find_eligible:
  "find (eligible (sweep s)) (ds_commands s) = Some e \<Longrightarrow>
   e \<in> set (ds_commands s) \<and> eligible (sweep s) e \<and> eligible s e \<and> e \<in> set (waiting (sweep s))"
  using eligible_mono [of s "sweep s" e] sweep_frame [of s] by (auto simp: find_Some_iff)

text \<open>Every round that goes on takes a command out of the waiting ones.\<close>

lemma waiting_less:
  assumes "set (ds_processed s) \<subseteq> set (ds_processed s')" "set (ds_skipped s) \<subseteq> set (ds_skipped s')"
    "filter (eligible s') (ds_commands s') = filter (eligible s') (ds_commands s)"
    "e \<in> set (waiting s)" "\<not> eligible s' e"
  shows "length (waiting s') < length (waiting s)"
proof -
  have "waiting s' = filter (eligible s') (waiting s)"
    using eligible_mono [OF assms(1,2)] assms(3) by (auto simp: waiting_def intro: filter_cong)
  moreover have "length (filter (eligible s') (waiting s)) < length (waiting s)"
    using assms(4,5) by (rule length_filter_less)
  ultimately show ?thesis by simp
qed

lemma finish_frame:
  "ds_processed (finish env dsp e s) = ds_processed s" "ds_executing (finish env dsp e s) = ds_executing s"
  "set (ds_skipped s) \<subseteq> set (ds_skipped (finish env dsp e s))"
  "map cmd_id (ds_commands (finish env dsp e s)) = map cmd_id (ds_commands s)"
  "ds_started (finish env dsp e s) = ds_started s @ (if dsp = Execute then [cmd_id e] else [])"
  by (auto simp: finish_def split: CommandDisposition.splits sum.splits)

lemma finish_waiting:
  assumes "cmd_id e \<in> set (ds_processed s)"
  shows "filter (eligible (finish env dsp e s)) (ds_commands (finish env dsp e s)) =
    filter (eligible (finish env dsp e s)) (ds_commands s)"
proof -
  have "\<not> eligible (finish env dsp e s) c" if "cmd_id c = cmd_id e" for c
    using that assms by (simp add: eligible_def finish_frame)
  then show ?thesis
    by (auto simp: finish_def resolve_write filter_set_status split: CommandDisposition.splits sum.splits)
qed

text \<open>The claim is given back whatever the disposition was.\<close>

lemma finish_executing:
  "finish env dsp e (s\<lparr>ds_executing := x\<rparr>) = (finish env dsp e s)\<lparr>ds_executing := x\<rparr>"
  by (simp add: finish_def resolve_write split: CommandDisposition.splits sum.splits)

lemma claim_released:
  assumes "cmd_id e \<notin> set (ds_executing s)"
  shows "release (cmd_id e) (finish env dsp e (mark_processed (cmd_id e) (s\<lparr>ds_executing := cmd_id e # ds_executing s\<rparr>))) =
    finish env dsp e (mark_processed (cmd_id e) s)"
proof -
  have "mark_processed (cmd_id e) (s\<lparr>ds_executing := cmd_id e # ds_executing s\<rparr>) =
      (mark_processed (cmd_id e) s)\<lparr>ds_executing := cmd_id e # ds_executing s\<rparr>"
    by (simp add: mark_processed_def)
  moreover have "ds_executing (finish env dsp e (mark_processed (cmd_id e) s)) = ds_executing s"
    by (simp add: finish_frame mark_processed_def)
  ultimately show ?thesis using assms by (simp add: finish_executing release_def)
qed

lemma claim_and_run_cases:
  "claim_and_run env dsp e s =
     (if cmd_id e \<in> set (ds_executing s) then Again (s\<lparr>ds_skipped := cmd_id e # ds_skipped s\<rparr>)
      else if env_mark_ok env (cmd_id e) then Again (finish env dsp e (mark_processed (cmd_id e) s))
      else Halt s)"
  by (simp add: claim_and_run_def Let_def claim_released) (simp add: release_def)

lemma drain_round_Again:
  assumes "drain_round env n s = Again s'"
  obtains e where "find (eligible (sweep s)) (ds_commands s) = Some e"
    "cmd_id e \<in> set (ds_executing s)" "s' = (sweep s)\<lparr>ds_skipped := cmd_id e # ds_skipped (sweep s)\<rparr>"
  | e dsp where "find (eligible (sweep s)) (ds_commands s) = Some e"
      "dsp = evaluate_command (drain_context env n (ds_commands s) (sweep s)) e"
      "s' = finish env dsp e (mark_processed (cmd_id e) (sweep s))"
  | e where "find (eligible (sweep s)) (ds_commands s) = Some e" "env_missing env e \<noteq> []"
      "s' = resolve_command (cmd_id e) StRejected (Some ''attachments never arrived'')
        (mark_processed (cmd_id e) (sweep s))"
  using assms
  by (auto simp: drain_round_def claim_and_run_cases Let_def sweep_frame split: option.splits if_splits)

lemma drain_round_decreases:
  assumes "drain_round env n s = Again s'"
  shows "length (waiting s') < length (waiting s)"
proof -
  have sw: "length (waiting (sweep s)) \<le> length (waiting s)"
  proof -
    note sweep_frame(6) [of s]
    also have "filter (eligible (sweep s)) (ds_commands s) = filter (eligible (sweep s)) (waiting s)"
      using eligible_mono [of s "sweep s"] sweep_frame(1,4) [of s]
      by (auto simp: waiting_def intro: filter_cong)
    finally show ?thesis by simp
  qed
  have "length (waiting s') < length (waiting (sweep s))"
    using assms
  proof (cases rule: drain_round_Again)
    case (1 e)
    then show ?thesis using find_eligible [OF 1(1)]
      by (intro waiting_less [where e = e]) (auto simp: eligible_def)
  next
    case (2 e dsp)
    let ?m = "mark_processed (cmd_id e) (sweep s)"
    have "filter (eligible s') (ds_commands s') = filter (eligible s') (ds_commands (sweep s))"
      unfolding 2(3) using finish_waiting [of e ?m env dsp] by (simp add: mark_processed_def)
    then show ?thesis using find_eligible [OF 2(1)] finish_frame [where env = env and dsp = dsp and e = e and s = ?m] 2(3)
      by (intro waiting_less [where e = e]) (auto simp: mark_processed_def eligible_def)
  next
    case (3 e)
    then show ?thesis using find_eligible [OF 3(1)]
      by (intro waiting_less [where e = e])
        (auto simp: mark_processed_def eligible_def resolve_write filter_set_status)
  qed
  with sw show ?thesis by simp
qed

function drain_loop :: "DrainEnv \<Rightarrow> nat \<Rightarrow> DrainState \<Rightarrow> DrainState" where
  "drain_loop env n s =
     (case drain_round env n s of Halt s' \<Rightarrow> s' | Again s' \<Rightarrow> drain_loop env (Suc n) s')"
  by pat_completeness auto
termination
  by (relation "measure (\<lambda>(env, n, s). length (waiting s))") (auto intro: drain_round_decreases)

declare drain_loop.simps [simp del]

definition drain_commands :: "DrainEnv \<Rightarrow> DrainState \<Rightarrow> DrainState" where
  "drain_commands env s =
     (if \<not> env_wired env \<or> \<not> env_host env then s else drain_loop env 0 (s\<lparr>ds_skipped := []\<rparr>))"

section \<open>At most once\<close>

definition once :: "DrainState \<Rightarrow> DrainState \<Rightarrow> bool" where
  "once s0 s \<longleftrightarrow> distinct (ds_started s) \<and> set (ds_started s) \<subseteq> set (ds_processed s) \<and>
     set (ds_processed s0) \<subseteq> set (ds_processed s) \<and>
     (\<forall>i \<in> set (ds_started s). i \<in> set (ds_started s0) \<or> i \<notin> set (ds_processed s0))"

lemma round_once:
  assumes "once s0 s" "drain_round env n s = Again s'"
  shows "once s0 s'"
  using assms(2)
proof (cases rule: drain_round_Again)
  case (1 e)
  with assms(1) show ?thesis by (simp add: once_def sweep_frame)
next
  case (2 e dsp)
  then have "cmd_id e \<notin> set (ds_processed s)"
    using find_eligible [OF 2(1)] by (simp add: eligible_def)
  with 2 assms(1) show ?thesis
    by (auto simp: once_def finish_frame mark_processed_def sweep_frame)
next
  case (3 e)
  with assms(1) show ?thesis by (auto simp: once_def mark_processed_def sweep_frame)
qed

lemma halt_once:
  assumes "once s0 s" "drain_round env n s = Halt s'"
  shows "once s0 s'"
  using assms
  by (auto simp: drain_round_def claim_and_run_cases Let_def once_def sweep_frame split: option.splits if_splits)

lemma drain_once: "once s0 s \<Longrightarrow> once s0 (drain_loop env n s)"
proof (induction env n s rule: drain_loop.induct)
  case (1 env n s)
  show ?case
  proof (cases "drain_round env n s")
    case (Halt s')
    with halt_once [OF "1.prems" Halt] show ?thesis by (simp add: drain_loop.simps)
  next
    case (Again s')
    with "1.IH" [OF Again round_once [OF "1.prems" Again]] show ?thesis
      by (simp add: drain_loop.simps [of env n s])
  qed
qed

section \<open>Nothing left behind\<close>

text \<open>With distinct ids, a skipped command is a resolved one as long as no other drain is running.\<close>

definition settled :: "DrainState \<Rightarrow> bool" where
  "settled s \<longleftrightarrow> distinct (map cmd_id (ds_commands s)) \<and> ds_executing s = [] \<and>
     (\<forall>c \<in> set (ds_commands s). cmd_id c \<in> set (ds_skipped s) \<longrightarrow> cmd_status c \<noteq> StPending)"

lemma set_status_mem:
  assumes "distinct (map cmd_id cs)" "c \<in> set (write_status i st res cs)"
  shows "cmd_id c = i \<Longrightarrow> cmd_status c = st" "cmd_id c \<noteq> i \<Longrightarrow> c \<in> set cs"
proof -
  have "(cmd_id c = i \<longrightarrow> cmd_status c = st) \<and> (cmd_id c \<noteq> i \<longrightarrow> c \<in> set cs)" using assms
  proof (induction cs)
    case (Cons x cs)
    show ?case
    proof (cases "cmd_id x = i")
      case True
      then have "i \<notin> cmd_id ` set cs" using Cons.prems(1) by auto
      then have "c \<in> set cs \<Longrightarrow> cmd_id c \<noteq> i" by blast
      with True Cons.prems(2) show ?thesis by auto
    qed (use Cons in auto)
  qed simp
  then show "cmd_id c = i \<Longrightarrow> cmd_status c = st" "cmd_id c \<noteq> i \<Longrightarrow> c \<in> set cs" by blast+
qed

lemma settled_resolve:
  assumes "settled s" "st \<noteq> StPending" "set sk \<subseteq> insert i (set (ds_skipped s))"
  shows "settled ((resolve_command i st res s)\<lparr>ds_skipped := sk\<rparr>)"
proof -
  have d: "distinct (map cmd_id (ds_commands s))" using assms(1) by (simp add: settled_def)
  have "cmd_status c \<noteq> StPending"
    if c: "c \<in> set (write_status i st res (ds_commands s))" "cmd_id c \<in> set sk" for c
    using set_status_mem [OF d c(1)] c(2) assms by (cases "cmd_id c = i") (auto simp: settled_def)
  with assms(1) show ?thesis by (simp add: settled_def resolve_write set_status_frame)
qed

lemma sweep_settles:
  assumes "settled s"
  shows "settled (sweep s)"
    and "\<forall>c \<in> set (ds_commands (sweep s)). cmd_id c \<in> set (ds_processed s) \<longrightarrow> cmd_status c \<noteq> StPending"
proof -
  have one: "settled (sweep_one c t) \<and> (\<forall>x \<in> set (ds_commands (sweep_one c t)). x \<in> set (ds_commands t) \<or> cmd_status x \<noteq> StPending) \<and>
      (cmd_id c \<in> set (ds_processed t) \<longrightarrow> (\<forall>x \<in> set (ds_commands (sweep_one c t)). cmd_id x = cmd_id c \<longrightarrow>
         x = c \<longrightarrow> cmd_status x \<noteq> StPending))"
    if "settled t" for c t
  proof (cases "dead_command t c")
    case True
    let ?r = "resolve_command (cmd_id c) StRejected (Some DEAD_RESOLUTION) t"
    have "settled (?r\<lparr>ds_skipped := cmd_id c # ds_skipped t\<rparr>)" by (rule settled_resolve [OF that]) auto
    moreover have "x \<in> set (ds_commands t) \<or> cmd_status x \<noteq> StPending" if "x \<in> set (ds_commands ?r)" for x
      using set_status_mem [of "ds_commands t" x "cmd_id c" StRejected "Some DEAD_RESOLUTION"] that \<open>settled t\<close>
      by (cases "cmd_id x = cmd_id c") (auto simp: resolve_write settled_def)
    moreover have "cmd_status x \<noteq> StPending" if "x \<in> set (ds_commands ?r)" "cmd_id x = cmd_id c" for x
      using set_status_mem(1) [of "ds_commands t" x "cmd_id c" StRejected "Some DEAD_RESOLUTION"] that \<open>settled t\<close>
      by (simp add: resolve_write settled_def)
    ultimately show ?thesis using True by (simp add: sweep_one_def)
  next
    case False
    with that show ?thesis by (auto simp: sweep_one_def dead_command_def settled_def)
  qed
  have proc: "ds_processed (sweep_one c t) = ds_processed t" for c t
    by (simp add: sweep_one_def)
  have "settled (fold sweep_one cs t) \<and>
      (\<forall>x \<in> set (ds_commands (fold sweep_one cs t)). x \<in> set (ds_commands t) \<or> cmd_status x \<noteq> StPending) \<and>
      (\<forall>c \<in> set cs. cmd_id c \<in> set (ds_processed t) \<longrightarrow>
        (\<forall>x \<in> set (ds_commands (fold sweep_one cs t)). x = c \<longrightarrow> cmd_status x \<noteq> StPending))"
    if "settled t" for cs t
    using that
  proof (induction cs arbitrary: t)
    case (Cons c cs)
    from one [OF Cons.prems, of c] Cons.IH [of "sweep_one c t"] proc [of c t] show ?case by auto
  qed simp
  note f = this [OF assms, of "ds_commands s"]
  show "settled (sweep s)" using f by (simp add: sweep_def)
  show "\<forall>c \<in> set (ds_commands (sweep s)). cmd_id c \<in> set (ds_processed s) \<longrightarrow> cmd_status c \<noteq> StPending"
    using f unfolding sweep_def by blast
qed

lemma round_settles:
  assumes "settled s" "drain_round env n s = Again s'"
    and "\<forall>e st res. env_execute env e = Inr (st, res) \<longrightarrow> st \<noteq> StPending" "\<forall>e. env_missing env e = []"
  shows "settled s'"
  using assms(2)
proof (cases rule: drain_round_Again)
  case (1 e)
  with assms(1) show ?thesis by (simp add: settled_def)
next
  case (2 e dsp)
  let ?m = "mark_processed (cmd_id e) (sweep s)"
  have m: "settled ?m" "settled (?m\<lparr>ds_started := l\<rparr>)" for l
    using sweep_settles(1) [OF assms(1)] by (simp_all add: settled_def mark_processed_def)
  have r: "settled (resolve_command (cmd_id e) st res x)" if "settled x" "st \<noteq> StPending" for st res x
    using settled_resolve [OF that, of "ds_skipped x" "cmd_id e" res]
    by (simp add: resolve_write subset_insertI)
  have "dsp \<noteq> Skip"
    using find_eligible [OF 2(1)] by (simp add: 2(2) evaluate_command_def drain_context_def eligible_def)
  moreover have "st \<noteq> StPending" if "env_execute env e = Inr (st, res)" for st res
    using assms(3) that by blast
  ultimately show ?thesis unfolding 2(3)
    by (auto simp: finish_def intro!: r m split: CommandDisposition.splits sum.splits)
next
  case (3 e)
  with assms(4) show ?thesis by simp
qed

lemma halt_settles:
  assumes "settled s" "drain_round env n s = Halt s'" "\<forall>i. env_mark_ok env i" "\<forall>e. env_missing env e = []"
    and "\<forall>k. env_read_ok env k"
  shows "\<forall>c \<in> set (ds_commands s'). cmd_status c \<noteq> StPending"
proof -
  have s': "s' = sweep s" and none: "find (eligible (sweep s)) (ds_commands s) = None"
    using assms(2-5) by (auto simp: drain_round_def claim_and_run_cases Let_def split: option.splits if_splits)
  have "waiting (sweep s) = []" unfolding sweep_frame(6) using none by (simp add: find_None_iff filter_empty_conv)
  then have "\<forall>c \<in> set (ds_commands (sweep s)). \<not> eligible (sweep s) c"
    by (simp add: waiting_def filter_empty_conv)
  with sweep_settles [OF assms(1)] show ?thesis
    unfolding s' by (auto simp: eligible_def settled_def sweep_frame)
qed

lemma drain_loop_settles:
  assumes "settled s" and "\<forall>e st res. env_execute env e = Inr (st, res) \<longrightarrow> st \<noteq> StPending"
    and "\<forall>i. env_mark_ok env i" "\<forall>e. env_missing env e = []" "\<forall>k. env_read_ok env k"
  shows "\<forall>c \<in> set (ds_commands (drain_loop env n s)). cmd_status c \<noteq> StPending"
  using assms
proof (induction env n s rule: drain_loop.induct)
  case (1 env n s)
  show ?case
  proof (cases "drain_round env n s")
    case (Halt s')
    with halt_settles [OF "1.prems"(1) Halt "1.prems"(3-5)] show ?thesis by (simp add: drain_loop.simps)
  next
    case (Again s')
    with "1.IH" [OF Again round_settles [OF "1.prems"(1) Again "1.prems"(2,4)] "1.prems"(2-5)] show ?thesis
      by (simp add: drain_loop.simps [of env n s])
  qed
qed

section \<open>Properties\<close>


definition demo_cmd :: "string \<Rightarrow> SessionCommandPayload \<Rightarrow> int \<Rightarrow> SessionCommandEntry" where
  "demo_cmd i p at = \<lparr>cmd_id = i, cmd_payload = p, cmd_issued_by = ''laptop'', cmd_issued_at = at,
     cmd_based_on = None, cmd_expires_at = None, cmd_status = StPending, cmd_resolution = None\<rparr>"

definition demo_state :: DrainState where
  "demo_state = \<lparr>ds_commands = [demo_cmd ''a'' (CmdSteer ''x'' None) 1, demo_cmd ''b'' CmdInterrupt 2],
     ds_processed = [''a''], ds_executing = [], ds_skipped = [], ds_started = []\<rparr>"

definition demo_env :: DrainEnv where
  "demo_env = \<lparr>env_execute = (\<lambda>e. Inr (StApplied, None)), env_missing = (\<lambda>e. []), env_mark_ok = (\<lambda>i. True),
     env_now = (\<lambda>n. 5), env_messages = (\<lambda>n. []),
     env_read_ok = (\<lambda>n. True), env_wired = True, env_host = True\<rparr>"


text \<open>C21: no command is left behind. On the host, with distinct ids, a readable list, a working ledger, no
  attachment in transit, no other drain at work and an executor that never answers pending, every
  command of the list has an outcome when the pass ends, the ones a crash had left processed but
  pending included.\<close>

theorem drain_resolves_everything:
  assumes "distinct (map cmd_id (ds_commands s))" "ds_executing s = []" "env_wired env" "env_host env"
    and "\<forall>e st res. env_execute env e = Inr (st, res) \<longrightarrow> st \<noteq> StPending"
    and "\<forall>i. env_mark_ok env i" "\<forall>e. env_missing env e = []" "\<forall>k. env_read_ok env k"
  shows "\<forall>c \<in> set (ds_commands (drain_commands env s)). cmd_status c \<noteq> StPending"
proof -
  have "settled (s\<lparr>ds_skipped := []\<rparr>)" using assms(1,2) by (simp add: settled_def)
  from drain_loop_settles [OF this assms(5-8)] show ?thesis using assms(3,4) by (simp add: drain_commands_def)
qed

theorem drain_resolves_everything_witness:
  "list_all (\<lambda>c. cmd_status c \<noteq> StPending) (ds_commands (drain_commands demo_env demo_state))"
  using drain_resolves_everything [of demo_state demo_env]
  by (simp add: demo_state_def demo_env_def demo_cmd_def list_all_iff)

end
