(* ===== verification/Room_Core.thy ===== *)
theory Room_Core
  imports Registry_Row "HOL-Library.Multiset"
begin

text \<open>
  The merge core of the server's room (\<^verbatim>\<open>src/edge/src/registry-core.ts\<close>), the TypeScript twin of the
  merge of \<open>Registry_Row\<close>: rows and operations as they come off the wire, the validation of an
  operation, \<^verbatim>\<open>applyOp\<close>, \<^verbatim>\<open>maxClock\<close> and \<^verbatim>\<open>rowToSeedOp\<close>.

  A JavaScript object is an association list in insertion order (\<open>AList.update\<close> keeps the place of a
  key, \<open>AList.delete\<close> removes it); lookups are of own properties, so field names that every object
  inherits (\<^verbatim>\<open>constructor\<close>, \<^verbatim>\<open>toString\<close> and the like, none of which the program writes) are outside
  the model. A string is its bytes: everything the merge compares is ASCII once validated. Sequence
  numbers are natural numbers, exact in JavaScript up to \<open>2 ^ 53\<close>. The length of \<^verbatim>\<open>JSON.stringify(op)\<close> is
  an argument.

  The lemmas show that the two implementations of the merge agree: decoding the row the server
  computes gives the row the Rust merge computes.
\<close>

section \<open>Rows and operations\<close>

record Row =
  t_kind :: string
  t_id :: string
  t_seq :: nat
  t_deleted :: bool
  t_delHlc :: "string option"
  t_fields :: "(string, json) hmap"
  t_clocks :: "(string, string) hmap"

record Op =
  o_kind :: string
  o_id :: string
  o_op :: string
  o_set :: "json option"
  o_hlc :: string
  o_clocks :: "(string, string) hmap option"

definition MAX_OP_BYTES :: nat where
  "MAX_OP_BYTES = 16 * 1024"

section \<open>Validation\<close>

definition is_digit :: "char \<Rightarrow> bool" where "is_digit c \<longleftrightarrow> CHR ''0'' \<le> c \<and> c \<le> CHR ''9''"
definition is_lower :: "char \<Rightarrow> bool" where "is_lower c \<longleftrightarrow> CHR ''a'' \<le> c \<and> c \<le> CHR ''z''"
definition is_upper :: "char \<Rightarrow> bool" where "is_upper c \<longleftrightarrow> CHR ''A'' \<le> c \<and> c \<le> CHR ''Z''"

definition is_alnum :: "char \<Rightarrow> bool" where
  "is_alnum c \<longleftrightarrow> is_digit c \<or> is_lower c \<or> is_upper c"

definition ID_RE :: "string \<Rightarrow> bool" where
  "ID_RE s \<longleftrightarrow> 1 \<le> length s \<and> length s \<le> 256 \<and> list_all (\<lambda>c. is_alnum c \<or> c \<in> set ''_.:@/-'') s"

definition KIND_RE :: "string \<Rightarrow> bool" where
  "KIND_RE s \<longleftrightarrow> (case s of [] \<Rightarrow> False | c # cs \<Rightarrow> is_lower c \<and> length cs \<le> 31 \<and> list_all is_alnum cs)"

definition FIELD_RE :: "string \<Rightarrow> bool" where
  "FIELD_RE s \<longleftrightarrow>
     (case s of [] \<Rightarrow> False
      | c # cs \<Rightarrow> (is_lower c \<or> is_upper c) \<and> length cs \<le> 63 \<and> list_all is_alnum cs)"

definition HLC_RE :: "string \<Rightarrow> bool" where
  "HLC_RE s \<longleftrightarrow> list_all is_digit (take 13 s) \<and> take 1 (drop 13 s) = ''-'' \<and>
     list_all is_digit (take 6 (drop 14 s)) \<and> take 1 (drop 20 s) = ''-'' \<and>
     1 \<le> length (drop 21 s) \<and> length (drop 21 s) \<le> 128 \<and>
     list_all (\<lambda>c. is_alnum c \<or> c = CHR ''_'' \<or> c = CHR ''-'') (drop 21 s)"

definition ORDER_KEY_RE :: "string \<Rightarrow> bool" where
  "ORDER_KEY_RE s \<longleftrightarrow> s \<noteq> [] \<and> list_all (\<lambda>c. is_digit c \<or> CHR ''a'' \<le> c \<and> c \<le> CHR ''f'') s \<and> last s \<noteq> CHR ''0''"

fun entries :: "json option \<Rightarrow> (string \<times> json) list" where
  "entries (Some (JObj kvs)) = kvs"
| "entries _ = []"

fun first_error :: "('a \<Rightarrow> string option) \<Rightarrow> 'a list \<Rightarrow> string option" where
  "first_error f [] = None"
| "first_error f (x # xs) = (case f x of None \<Rightarrow> first_error f xs | Some e \<Rightarrow> Some e)"

definition body_error :: "Op \<Rightarrow> string option" where
  "body_error op =
     (if o_op op = ''delete'' then (if o_set op \<noteq> None then Some ''delete carries set'' else None)
      else case o_set op of
        Some (JObj kvs) \<Rightarrow>
          first_error (\<lambda>(key, _). if \<not> FIELD_RE key then Some (''bad field: '' @ key) else None) kvs
      | _ \<Rightarrow> Some ''missing set'')"

definition clocks_error :: "Op \<Rightarrow> string option" where
  "clocks_error op =
     (case o_clocks op of
        None \<Rightarrow> None
      | Some cs \<Rightarrow> first_error (\<lambda>(key, hlc).
          if \<not> FIELD_RE key then Some (''bad clock field: '' @ key)
          else if \<not> HLC_RE hlc then Some (''bad clock: '' @ key) else None) cs)"

definition pin_field_ok :: "string \<times> json \<Rightarrow> bool" where
  "pin_field_ok kv \<longleftrightarrow>
     (case kv of (key, val) \<Rightarrow>
        (key = ''pinned'' \<and> as_bool val \<noteq> None) \<or>
        (key = ''orderKey'' \<and> (case as_str val of None \<Rightarrow> False | Some s \<Rightarrow> length s \<le> 8192 \<and> ORDER_KEY_RE s)))"

definition pins_error :: "Op \<Rightarrow> string option" where
  "pins_error op =
     (if o_kind op = ''sidebarPins'' then
        if o_op op = ''delete'' then Some ''pins use explicit membership, not row deletion''
        else first_error (\<lambda>kv. if pin_field_ok kv then None else Some ''invalid sidebar pin field'')
               (entries (o_set op))
      else None)"

definition validateOp :: "(Op \<Rightarrow> nat) \<Rightarrow> Op \<Rightarrow> string option" where
  "validateOp stringify_length op =
     (if \<not> KIND_RE (o_kind op) then Some ''bad kind''
      else if \<not> ID_RE (o_id op) then Some ''bad id''
      else if o_op op \<noteq> ''upsert'' \<and> o_op op \<noteq> ''update'' \<and> o_op op \<noteq> ''delete'' then Some ''bad op''
      else if \<not> HLC_RE (o_hlc op) then Some ''bad hlc''
      else case body_error op of Some e \<Rightarrow> Some e | None \<Rightarrow>
      (case clocks_error op of Some e \<Rightarrow> Some e | None \<Rightarrow>
        if stringify_length op > MAX_OP_BYTES then Some ''op too large''
        else pins_error op))"

section \<open>The merge\<close>

definition hlcNewer :: "string \<Rightarrow> string option \<Rightarrow> bool" where
  "hlcNewer a b \<longleftrightarrow> (case b of None \<Rightarrow> True | Some c \<Rightarrow> a > c)"

definition maxClock :: "Row \<Rightarrow> string option" where
  "maxClock row =
     fold (\<lambda>clock m. if (case m of None \<Rightarrow> True | Some x \<Rightarrow> clock > x) then Some clock else m)
       (map snd (t_clocks row)) (t_delHlc row)"

definition clockFor :: "Op \<Rightarrow> string \<Rightarrow> string" where
  "clockFor op field =
     (case Option.bind (o_clocks op) (\<lambda>c. map_of c field) of None \<Rightarrow> o_hlc op | Some h \<Rightarrow> h)"

text \<open>One iteration over \<^verbatim>\<open>Object.entries(op.set)\<close>; the copies on first write are a matter of sharing.\<close>

definition write_field ::
  "Op \<Rightarrow> string \<times> json \<Rightarrow> ((string, json) hmap \<times> (string, string) hmap) \<times> bool \<Rightarrow>
   ((string, json) hmap \<times> (string, string) hmap) \<times> bool" where
  "write_field op kv st =
     (case (kv, st) of ((key, val), ((fs, cs), changed)) \<Rightarrow>
        let clock = clockFor op key in
        if \<not> hlcNewer clock (map_of cs key) then ((fs, cs), changed)
        else ((if val = JNull then AList.delete key fs else AList.update key val fs,
               AList.update key clock cs), True))"

definition write_fields :: "bool \<Rightarrow> Op \<Rightarrow> Row \<Rightarrow> Row \<times> bool" where
  "write_fields changed op base =
     (case fold (write_field op) (entries (o_set op)) ((t_fields base, t_clocks base), changed) of
        ((fs, cs), changed) \<Rightarrow>
          if \<not> changed then (base, False)
          else (base\<lparr>t_deleted := False, t_fields := fs, t_clocks := cs\<rparr>, True))"

definition applyOp :: "Row option \<Rightarrow> Op \<Rightarrow> Row option \<times> bool" where
  "applyOp row op =
     (if o_op op = ''delete'' then
        (case row of
           None \<Rightarrow> (Some \<lparr>t_kind = o_kind op, t_id = o_id op, t_seq = 0, t_deleted = True,
                         t_delHlc = Some (o_hlc op), t_fields = [], t_clocks = []\<rparr>, True)
         | Some r \<Rightarrow>
             if (if t_deleted r then hlcNewer (o_hlc op) (t_delHlc r) else hlcNewer (o_hlc op) (maxClock r))
             then (Some (r\<lparr>t_deleted := True, t_delHlc := Some (o_hlc op), t_fields := [], t_clocks := []\<rparr>), True)
             else (Some r, False))
      else
        (case row of
           None \<Rightarrow>
             if o_op op = ''update'' then (None, False)
             else map_prod Some id (write_fields True op
                    \<lparr>t_kind = o_kind op, t_id = o_id op, t_seq = 0, t_deleted = False,
                     t_delHlc = None, t_fields = [], t_clocks = []\<rparr>)
         | Some r \<Rightarrow>
             if t_deleted r then
               if o_op op = ''update'' then (Some r, False)
               else if \<not> hlcNewer (o_hlc op) (t_delHlc r) then (Some r, False)
               else map_prod Some id (write_fields True op
                      (r\<lparr>t_deleted := False, t_fields := [], t_clocks := []\<rparr>))
             else map_prod Some id (write_fields False op r)))"

definition rowToSeedOp :: "Row \<Rightarrow> Op" where
  "rowToSeedOp row =
     (if t_deleted row then
        \<lparr>o_kind = t_kind row, o_id = t_id row, o_op = ''delete'', o_set = None,
         o_hlc = (case t_delHlc row of None \<Rightarrow> encode_hlc 0 0 ''seed'' | Some h \<Rightarrow> h), o_clocks = None\<rparr>
      else
        \<lparr>o_kind = t_kind row, o_id = t_id row, o_op = ''upsert'', o_set = Some (JObj (t_fields row)),
         o_hlc = (case maxClock row of None \<Rightarrow> encode_hlc 0 0 ''seed'' | Some h \<Rightarrow> h),
         o_clocks = Some (t_clocks row)\<rparr>)"

section \<open>The wire\<close>

text \<open>What the frames carry: a Rust operation as the server reads it, a server row as the replica reads
  it (a \<^verbatim>\<open>BTreeMap\<close> sorts the members of the object).\<close>

fun op_name :: "OpKind \<Rightarrow> string" where
  "op_name OpUpsert = ''upsert''"
| "op_name OpUpdate = ''update''"
| "op_name OpDelete = ''delete''"

definition encode_op :: "RowOp \<Rightarrow> Op" where
  "encode_op op = \<lparr>o_kind = op_kind op, o_id = op_id op, o_op = op_name (op_op op),
     o_set = map_option JObj (op_set op), o_hlc = op_hlc op, o_clocks = op_clocks op\<rparr>"

definition decode_row :: "Row \<Rightarrow> RegistryRow" where
  "decode_row r = \<lparr>row_kind = t_kind r, row_id = t_id r, row_seq = of_nat (t_seq r),
     row_deleted = t_deleted r, row_del_hlc = t_delHlc r,
     row_fields = bt_of_list (t_fields r), row_clocks = bt_of_list (t_clocks r)\<rparr>"

definition ts_row_ok :: "Row \<Rightarrow> bool" where
  "ts_row_ok r \<longleftrightarrow> hm_ok (t_fields r) \<and> hm_ok (t_clocks r) \<and>
     (t_deleted r \<longrightarrow> t_fields r = [] \<and> t_clocks r = [])"

section \<open>The two merges agree\<close>

lemma decode_map: "hm_ok m \<Longrightarrow> map_of (bt_of_list m) = map_of m"
  by (simp add: dict_simps map_of_rev_distinct)

lemma decode_update: "hm_ok m \<Longrightarrow> bt_of_list (AList.update k v m) = bt_insert k v (bt_of_list m)"
  by (rule bt_eqI) (simp_all add: decode_map map_of_bt_insert hm.ok_ins hm.get_ins)

lemma decode_delete: "hm_ok m \<Longrightarrow> bt_of_list (AList.delete k m) = bt_remove k (bt_of_list m)"
  by (rule bt_eqI) (simp_all add: decode_map map_of_bt_remove hm.ok_del hm.get_del)

lemma decode_empty [simp]: "bt_of_list [] = []"
  by (simp add: bt_of_list_def)

lemma mset_decode: "hm_ok m \<Longrightarrow> mset (bt_of_list m) = mset m"
proof -
  assume m: "hm_ok m"
  have d: "distinct (map fst (bt_of_list m))" by (rule bt_ok_distinct) simp
  have "set (bt_of_list m) = set m"
    using map_of_inject_set [OF d, of m] m decode_map [OF m] by (simp add: hm_ok_def)
  then show ?thesis
    using d m by (simp add: hm_ok_def set_eq_iff_mset_eq_distinct distinct_map)
qed

lemma hlcNewer_eq: "hlcNewer = hlc_newer"
  by (intro ext) (simp add: hlcNewer_def split: option.splits)

lemma clockFor_encode: "clockFor (encode_op op) = clock_for op"
  by (intro ext) (simp add: clockFor_def clock_for_def encode_op_def split: option.splits)

lemma maxClock_decode:
  assumes "hm_ok (t_clocks r)"
  shows "max_clock (decode_row r) = maxClock r"
proof -
  let ?f = "\<lambda>clock m. if (case m of None \<Rightarrow> True | Some x \<Rightarrow> clock > x) then Some clock else m"
  have "max_clock (decode_row r) = fold ?f (map snd (bt_of_list (t_clocks r))) (t_delHlc r)"
    unfolding max_clock_def decode_row_def fold_map comp_def
    by (auto intro!: fold_cong simp: fun_eq_iff split: option.splits)
  also have "fold ?f (map snd (bt_of_list (t_clocks r))) = fold ?f (map snd (t_clocks r))"
    by (rule fold_multiset_equiv)
      (auto simp: mset_decode [OF assms] fun_eq_iff split: option.splits)
  finally show ?thesis by (simp add: maxClock_def)
qed

text \<open>The loop over the written fields, on both sides of the decoding.\<close>

definition pair_row :: "Row \<Rightarrow> (string, json) hmap \<times> (string, string) hmap \<Rightarrow> RegistryRow" where
  "pair_row r p = (decode_row r)\<lparr>row_fields := bt_of_list (fst p), row_clocks := bt_of_list (snd p)\<rparr>"

lemma write_field_decode:
  assumes "hm_ok fs" "hm_ok cs" "write_field (encode_op op) kv ((fs, cs), ch) = ((fs', cs'), ch')"
  shows "apply_field op kv (pair_row r (fs, cs), ch) = (pair_row r (fs', cs'), ch') \<and> hm_ok fs' \<and> hm_ok cs'"
  using assms unfolding write_field_def apply_field_def
  by (cases kv) (auto simp: Let_def clockFor_encode hlcNewer_eq pair_row_def decode_map
    decode_update decode_delete hm.ok_ins hm.ok_del split: if_splits)

lemma write_fields_fold_decode:
  assumes "hm_ok fs" "hm_ok cs" "fold (write_field (encode_op op)) s ((fs, cs), ch) = ((fs', cs'), ch')"
  shows "fold (apply_field op) s (pair_row r (fs, cs), ch) = (pair_row r (fs', cs'), ch') \<and> hm_ok fs' \<and> hm_ok cs'"
  using assms
proof (induction s arbitrary: fs cs ch)
  case (Cons kv s)
  obtain fs1 cs1 ch1 where st: "write_field (encode_op op) kv ((fs, cs), ch) = ((fs1, cs1), ch1)"
    by (metis surj_pair)
  from write_field_decode [OF Cons.prems(1,2) st, of r] Cons.IH [of fs1 cs1 ch1] Cons.prems(3) st
  show ?case by simp
qed simp

lemma entries_encode: "entries (o_set (encode_op op)) = (case op_set op of None \<Rightarrow> [] | Some s \<Rightarrow> s)"
  by (simp add: encode_op_def split: option.splits)

lemma write_fields_decode:
  assumes "ts_row_ok r" "write_fields ch (encode_op op) r = (r', ch')" "\<not> t_deleted r"
  shows "(case apply_set op (decode_row r, ch) of (b, c) \<Rightarrow>
      if c then (b\<lparr>row_deleted := False\<rparr>, True) else (b, False)) = (decode_row r', ch') \<and> ts_row_ok r'"
proof -
  obtain fs cs c where f: "fold (write_field (encode_op op)) (entries (o_set (encode_op op)))
      ((t_fields r, t_clocks r), ch) = ((fs, cs), c)"
    by (metis surj_pair)
  have ok: "hm_ok (t_fields r)" "hm_ok (t_clocks r)" using assms(1) by (simp_all add: ts_row_ok_def)
  have self: "pair_row r (t_fields r, t_clocks r) = decode_row r" by (simp add: pair_row_def decode_row_def)
  from write_fields_fold_decode [OF ok f, of r] self
  have s: "apply_set op (decode_row r, ch) = (pair_row r (fs, cs), c)" and ok': "hm_ok fs" "hm_ok cs"
    by (auto simp: apply_set_def entries_encode split: option.splits)
  show ?thesis
  proof (cases c)
    case True
    with s f assms ok' show ?thesis
      by (auto simp: write_fields_def ts_row_ok_def pair_row_def decode_row_def)
  next
    case False
    then have "\<not> ch" using s by (auto dest: apply_set_frame(6))
    with s False have "pair_row r (fs, cs) = decode_row r" using apply_set_changed [of op "decode_row r"] by auto
    with False s f assms(1,2) show ?thesis by (simp add: write_fields_def)
  qed
qed

lemma decode_simps [simp]:
  "row_deleted (decode_row r) = t_deleted r" "row_del_hlc (decode_row r) = t_delHlc r"
  "row_kind (decode_row r) = t_kind r" "row_id (decode_row r) = t_id r"
  "row_seq (decode_row r) = of_nat (t_seq r)"
  by (simp_all add: decode_row_def)

lemma encode_simps [simp]:
  "o_kind (encode_op op) = op_kind op" "o_id (encode_op op) = op_id op" "o_hlc (encode_op op) = op_hlc op"
  "o_op (encode_op op) = ''delete'' \<longleftrightarrow> op_op op = OpDelete"
  "o_op (encode_op op) = ''update'' \<longleftrightarrow> op_op op = OpUpdate"
  by (cases "op_op op"; simp add: encode_op_def)+

lemma base_decode:
  "ts_row_ok \<lparr>t_kind = k, t_id = i, t_seq = n, t_deleted = False, t_delHlc = h, t_fields = [], t_clocks = []\<rparr>"
  "ts_row_ok r \<Longrightarrow> t_deleted r \<Longrightarrow> ts_row_ok (r\<lparr>t_deleted := False, t_fields := [], t_clocks := []\<rparr>)"
  by (simp_all add: ts_row_ok_def hm_ok_def)

lemma decode_tombstone:
  "decode_row (r\<lparr>t_deleted := True, t_delHlc := h, t_fields := [], t_clocks := []\<rparr>) =
     (decode_row r)\<lparr>row_deleted := True, row_del_hlc := h, row_fields := [], row_clocks := []\<rparr>"
  "decode_row \<lparr>t_kind = k, t_id = i, t_seq = 0, t_deleted = True, t_delHlc = h, t_fields = [], t_clocks = []\<rparr> =
     \<lparr>row_kind = k, row_id = i, row_seq = 0, row_deleted = True, row_del_hlc = h, row_fields = [], row_clocks = []\<rparr>"
  by (simp_all add: decode_row_def)

lemma applyOp_decode:
  assumes "pred_option ts_row_ok row"
  shows "apply_op (map_option decode_row row) op = map_prod (map_option decode_row) id (applyOp row (encode_op op)) \<and>
    pred_option ts_row_ok (fst (applyOp row (encode_op op)))"
proof (cases "op_op op = OpDelete")
  case True
  with assms show ?thesis
    by (cases row) (auto simp: apply_op_def applyOp_def row_tombstone_def decode_tombstone ts_row_ok_def
      hm_ok_def hlcNewer_eq maxClock_decode [unfolded hm_ok_def] Let_def split: if_splits)
next
  case False
  have w: "(case apply_set op (decode_row r, ch) of (b, c) \<Rightarrow>
      if c then (Some (b\<lparr>row_deleted := False\<rparr>), True) else (Some b, False)) =
      map_prod (map_option decode_row) id (map_prod Some id (write_fields ch (encode_op op) r)) \<and>
      ts_row_ok (fst (write_fields ch (encode_op op) r))"
    if "ts_row_ok r" "\<not> t_deleted r" for r ch
    using write_fields_decode [OF that(1) _ that(2), of ch op] by (cases "write_fields ch (encode_op op) r") (auto split: prod.splits if_splits)
  show ?thesis
  proof (cases row)
    case None
    with False w [OF base_decode(1) [of "op_kind op" "op_id op" 0 None], of True] show ?thesis
      by (cases "write_fields True (encode_op op) \<lparr>t_kind = op_kind op, t_id = op_id op, t_seq = 0,
          t_deleted = False, t_delHlc = None, t_fields = [], t_clocks = []\<rparr>")
        (auto simp: apply_op_def applyOp_def base_row_def decode_row_def)
  next
    case (Some r)
    then have r: "ts_row_ok r" using assms by simp
    show ?thesis
    proof (cases "t_deleted r")
      case True
      with r w [OF base_decode(2) [OF r True], of True] False Some show ?thesis
        by (cases "write_fields True (encode_op op) (r\<lparr>t_deleted := False, t_fields := [], t_clocks := []\<rparr>)")
          (auto simp: apply_op_def applyOp_def base_row_def hlcNewer_eq decode_row_def)
    next
      case nd: False
      with r w [OF r nd, of False] False Some show ?thesis
        by (cases "write_fields False (encode_op op) r") (auto simp: apply_op_def applyOp_def base_row_def)
    qed
  qed
qed

section \<open>Properties\<close>

text \<open>C22: the two implementations of the merge agree. For every stored row and every operation a replica can
  send, decoding what the server's TypeScript merge computes gives what the Rust merge computes on the
  decoded row, with the same change flag, and the server's row stays well formed.\<close>

theorem server_merge_agrees:
  assumes "pred_option ts_row_ok row"
  shows "apply_op (map_option decode_row row) op = map_prod (map_option decode_row) id (applyOp row (encode_op op)) \<and>
    pred_option ts_row_ok (fst (applyOp row (encode_op op)))"
  by (rule applyOp_decode [OF assms])

definition demo_ts_row :: Row where
  "demo_ts_row = \<lparr>t_kind = ''chats'', t_id = ''c1'', t_seq = 4, t_deleted = False, t_delHlc = None,
     t_fields = [(''title'', JStr ''a''), (''cwd'', JStr ''/'')], t_clocks = [(''title'', ''2''), (''cwd'', ''1'')]\<rparr>"

theorem server_merge_agrees_witness:
  "snd (apply_op (Some (decode_row demo_ts_row)) (demo_op OpUpsert ''title'' (JStr ''b'') ''3'')) = snd (applyOp (Some demo_ts_row) (encode_op (demo_op OpUpsert ''title'' (JStr ''b'') ''3'')))"
  using server_merge_agrees [of "Some demo_ts_row" "demo_op OpUpsert ''title'' (JStr ''b'') ''3''"] by (simp add: demo_ts_row_def ts_row_ok_def hm_ok_def)

end
