(* ===== verification/Registry_Room.thy ===== *)
theory Registry_Room
  imports Room_Core
begin

text \<open>
  The server's room (\<^verbatim>\<open>src/edge/src/registry-room.ts\<close>): the table of rows of record, the sequence
  counter, the sockets and their frames, the plain-HTTPS routes, the operator reset and the daily
  alarm that purges old tombstones and writes the backup.

  The two SQL tables are a map from (kind, id) to the row and the typed fields of the record; what
  an event sends is returned as a list of actions. \<^verbatim>\<open>Date.now()\<close> is the argument \<open>now\<close>; the parsed frame is a
  value of \<open>InFrame\<close>, with \<open>None\<close> where a member is missing or of another type. The statistics route
  only reads and is left out.

  The lemmas show what the room guarantees to a replica: rows under their keys, sequence numbers
  bounded by the counter, a batch that changes anything stamps exactly the rows it changed with
  the next number and sends them to every ready socket.
\<close>

section \<open>State and frames\<close>

definition DAY_MS :: int where "DAY_MS = 24 * 60 * 60 * 1000"
definition TOMBSTONE_RETAIN_MS :: int where "TOMBSTONE_RETAIN_MS = 30 * DAY_MS"
definition MAX_BATCH_OPS :: nat where "MAX_BATCH_OPS = 500"
definition MAX_FRAME_BYTES :: nat where "MAX_FRAME_BYTES = 1000000"

record SocketState =
  sk_device :: string
  sk_ready :: bool

record PushOutcome =
  po_ok :: nat
  po_rejected :: nat
  po_lastOkAt :: int

record Room =
  rm_rows :: "(string \<times> string, Row) hmap"
  rm_seq :: nat
  rm_gcFloor :: nat
  rm_pushOutcomes :: "(string, PushOutcome) hmap"
  rm_backupDirty :: bool
  rm_backupSeq :: nat
  rm_lastGcAt :: int
  rm_alarm :: "int option"
  rm_presence :: "(string, int) hmap"
  rm_sockets :: "(nat, SocketState) hmap"

datatype InFrame =
    InHello "nat option" "string option"
  | InPush "string option" "Op list option"
  | InPresence "int option"
  | InProbe
  | InUnknown string

datatype OutFrame =
    OutState nat bool nat "Row list" "(string, int) hmap"
  | OutRows nat "Row list"
  | OutAck string nat nat
  | OutPresence string int
  | OutProbeOk nat
  | OutError string string

datatype Action = Send nat OutFrame | Close nat nat string | Backup nat int "Row list"

section \<open>Row storage\<close>

definition ts_key :: "Row \<Rightarrow> string \<times> string" where
  "ts_key r = (t_kind r, t_id r)"

text \<open>The column \<^verbatim>\<open>del_hlc\<close> is read back as absent when it is null or empty.\<close>

definition read_raw :: "Row \<Rightarrow> Row" where
  "read_raw r = r\<lparr>t_delHlc := (if t_delHlc r = Some [] then None else t_delHlc r)\<rparr>"

definition loadRow :: "string \<Rightarrow> string \<Rightarrow> Room \<Rightarrow> Row option" where
  "loadRow kind ident rm = map_option read_raw (map_of (rm_rows rm) (kind, ident))"

definition saveRow :: "Row \<Rightarrow> Room \<Rightarrow> Room" where
  "saveRow r rm = rm\<lparr>rm_rows := AList.update (ts_key r) r (rm_rows rm)\<rparr>"

definition rowsSince :: "nat \<Rightarrow> Room \<Rightarrow> Row list" where
  "rowsSince cursor rm = map read_raw (sort_key t_seq (filter (\<lambda>r. t_seq r > cursor) (map snd (rm_rows rm))))"

section \<open>Pushes\<close>

definition recordPush :: "int \<Rightarrow> string \<Rightarrow> bool \<Rightarrow> Room \<Rightarrow> Room" where
  "recordPush now device ok rm =
     (let key = (if device = [] then ''(unknown)'' else device);
          entry = (case map_of (rm_pushOutcomes rm) key of
                     None \<Rightarrow> \<lparr>po_ok = 0, po_rejected = 0, po_lastOkAt = 0\<rparr> | Some e \<Rightarrow> e);
          entry = (if ok then entry\<lparr>po_ok := po_ok entry + 1, po_lastOkAt := now\<rparr>
                   else entry\<lparr>po_rejected := po_rejected entry + 1\<rparr>)
      in rm\<lparr>rm_pushOutcomes := AList.update key entry (rm_pushOutcomes rm)\<rparr>)"

definition markBackupDirty :: "int \<Rightarrow> Room \<Rightarrow> Room" where
  "markBackupDirty now rm =
     rm\<lparr>rm_backupDirty := True,
        rm_alarm := (case rm_alarm rm of None \<Rightarrow> Some (now + DAY_MS) | a \<Rightarrow> a)\<rparr>"

definition ready_sockets :: "Room \<Rightarrow> nat list" where
  "ready_sockets rm = map fst (filter (\<lambda>(_, st). sk_ready st) (rm_sockets rm))"

text \<open>One operation of a batch: the rows touched so far, in the order of the first touch, and how many
  operations changed something.\<close>

definition touch_key :: "string \<Rightarrow> string \<Rightarrow> string" where
  "touch_key kind ident = kind @ '' '' @ ident"

definition push_op :: "Room \<Rightarrow> nat \<Rightarrow> Op \<Rightarrow> (string, Row) hmap \<times> nat \<Rightarrow> (string, Row) hmap \<times> nat" where
  "push_op rm nextSeq op st =
     (case st of (touched, applied) \<Rightarrow>
        let key = touch_key (o_kind op) (o_id op);
            before = (case map_of touched key of Some r \<Rightarrow> Some r | None \<Rightarrow> loadRow (o_kind op) (o_id op) rm)
        in (case applyOp before op of
              (Some r, True) \<Rightarrow> (AList.update key (r\<lparr>t_seq := nextSeq\<rparr>) touched, applied + 1)
            | _ \<Rightarrow> (touched, applied)))"

datatype PushResult = PushErr string string | PushOk string nat nat

definition applyPushBatch ::
  "(Op \<Rightarrow> nat) \<Rightarrow> int \<Rightarrow> string \<Rightarrow> string option \<Rightarrow> Op list option \<Rightarrow> Room \<Rightarrow> PushResult \<times> Room \<times> Action list" where
  "applyPushBatch len now device fbatch fops rm =
     (let batch = (case fbatch of None \<Rightarrow> [] | Some b \<Rightarrow> b) in
      case fops of
        None \<Rightarrow> (PushErr ''bad_push'' ''malformed push'', recordPush now device False rm, [])
      | Some ops \<Rightarrow>
          if batch = [] then (PushErr ''bad_push'' ''malformed push'', recordPush now device False rm, [])
          else if ops = [] \<or> length ops > MAX_BATCH_OPS then
            (PushErr ''bad_push'' (''batch of '' @ dec (length ops) @ '' ops''), recordPush now device False rm, [])
          else case find (\<lambda>op. validateOp len op \<noteq> None) ops of
            Some op \<Rightarrow>
              (PushErr ''invalid_op'' (o_kind op @ ''/'' @ o_id op @ '': '' @ the (validateOp len op)),
               recordPush now device False rm, [])
          | None \<Rightarrow>
              let nextSeq = rm_seq rm + 1;
                  (touched, applied) = fold (push_op rm nextSeq) ops ([], 0);
                  rows = map snd touched;
                  rm1 = (if applied > 0
                         then markBackupDirty now ((fold saveRow rows rm)\<lparr>rm_seq := nextSeq\<rparr>) else rm);
                  rm2 = recordPush now device True rm1;
                  seq = (if applied > 0 then nextSeq else rm_seq rm2)
              in (PushOk batch seq applied, rm2,
                  if applied > 0 then map (\<lambda>ws. Send ws (OutRows seq rows)) (ready_sockets rm2) else []))"

section \<open>Sockets\<close>

definition socket_state :: "nat \<Rightarrow> Room \<Rightarrow> SocketState" where
  "socket_state ws rm =
     (case map_of (rm_sockets rm) ws of None \<Rightarrow> \<lparr>sk_device = [], sk_ready = False\<rparr> | Some st \<Rightarrow> st)"

definition hello_full :: "nat option \<Rightarrow> Room \<Rightarrow> bool" where
  "hello_full cursor rm \<longleftrightarrow>
     (case cursor of None \<Rightarrow> True | Some c \<Rightarrow> c < rm_gcFloor rm \<or> c > rm_seq rm)"

definition delta_rows :: "nat option \<Rightarrow> Room \<Rightarrow> Row list" where
  "delta_rows cursor rm =
     (if hello_full cursor rm then rowsSince 0 rm else rowsSince (the cursor) rm)"

definition handleHello :: "nat \<Rightarrow> nat option \<Rightarrow> string option \<Rightarrow> Room \<Rightarrow> Room \<times> Action list" where
  "handleHello ws cursor fdevice rm =
     (let st = socket_state ws rm;
          device = (case fdevice of None \<Rightarrow> sk_device st | Some d \<Rightarrow> if d = [] then sk_device st else d);
          rm1 = rm\<lparr>rm_sockets := AList.update ws \<lparr>sk_device = device, sk_ready = True\<rparr> (rm_sockets rm)\<rparr>
      in (rm1, [Send ws (OutState (rm_seq rm1) (hello_full cursor rm1) (rm_gcFloor rm1)
                  (delta_rows cursor rm1) (rm_presence rm1))]))"

definition handlePush ::
  "(Op \<Rightarrow> nat) \<Rightarrow> int \<Rightarrow> nat \<Rightarrow> string option \<Rightarrow> Op list option \<Rightarrow> Room \<Rightarrow> Room \<times> Action list" where
  "handlePush len now ws fbatch fops rm =
     (let st = socket_state ws rm in
      if \<not> sk_ready st then
        (recordPush now (sk_device st) False rm,
         [Send ws (OutError ''bad_push'' ''hello first / malformed push'')])
      else case applyPushBatch len now (sk_device st) fbatch fops rm of
        (PushErr code message, rm', acts) \<Rightarrow> (rm', acts @ [Send ws (OutError code message)])
      | (PushOk batch seq applied, rm', acts) \<Rightarrow> (rm', acts @ [Send ws (OutAck batch seq applied)]))"

definition handlePresence :: "int \<Rightarrow> nat \<Rightarrow> int option \<Rightarrow> Room \<Rightarrow> Room \<times> Action list" where
  "handlePresence now ws fat rm =
     (let st = socket_state ws rm in
      if \<not> sk_ready st \<or> sk_device st = [] then (rm, [])
      else
        let at = (case fat of None \<Rightarrow> now | Some a \<Rightarrow> a);
            rm1 = rm\<lparr>rm_presence := AList.update (sk_device st) at (rm_presence rm)\<rparr>
        in (rm1, map (\<lambda>w. Send w (OutPresence (sk_device st) at)) (filter (\<lambda>w. w \<noteq> ws) (ready_sockets rm1))))"

text \<open>A message is binary, or a text of some length that parses to a frame or not.\<close>

datatype Message = BinaryMessage | TextMessage nat "InFrame option"

definition webSocketMessage :: "(Op \<Rightarrow> nat) \<Rightarrow> int \<Rightarrow> nat \<Rightarrow> Message \<Rightarrow> Room \<Rightarrow> Room \<times> Action list" where
  "webSocketMessage len now ws message rm =
     (case message of
        BinaryMessage \<Rightarrow> (rm, [Close ws 1003 ''text frames only''])
      | TextMessage n parsed \<Rightarrow>
          if n > MAX_FRAME_BYTES then (rm, [Close ws 1009 ''frame too large''])
          else case parsed of
            None \<Rightarrow> (rm, [Close ws 1002 ''bad json''])
          | Some (InHello cursor device) \<Rightarrow> handleHello ws cursor device rm
          | Some (InPush batch ops) \<Rightarrow> handlePush len now ws batch ops rm
          | Some (InPresence at) \<Rightarrow> handlePresence now ws at rm
          | Some InProbe \<Rightarrow> (rm, [Send ws (OutProbeOk (rm_seq rm))])
          | Some (InUnknown t) \<Rightarrow> (rm, [Send ws (OutError ''bad_frame'' (''unknown frame: '' @ t))]))"

definition accept_ws :: "nat \<Rightarrow> string \<Rightarrow> Room \<Rightarrow> Room" where
  "accept_ws ws device rm =
     rm\<lparr>rm_sockets := AList.update ws \<lparr>sk_device = device, sk_ready = False\<rparr> (rm_sockets rm)\<rparr>"

section \<open>Routes and the alarm\<close>

definition http_rows :: "int \<Rightarrow> nat option \<Rightarrow> string \<Rightarrow> bool \<Rightarrow> Room \<Rightarrow> OutFrame \<times> Room \<times> Action list" where
  "http_rows now cursor device beat rm =
     (let (rm1, acts) =
            (if device \<noteq> [] \<and> beat
             then (rm\<lparr>rm_presence := AList.update device now (rm_presence rm)\<rparr>,
                   map (\<lambda>w. Send w (OutPresence device now)) (ready_sockets rm))
             else (rm, []))
      in (OutState (rm_seq rm1) (hello_full cursor rm1) (rm_gcFloor rm1) (delta_rows cursor rm1) (rm_presence rm1),
          rm1, acts))"

definition http_push ::
  "(Op \<Rightarrow> nat) \<Rightarrow> int \<Rightarrow> string \<Rightarrow> nat \<Rightarrow> (string option \<times> Op list option) option \<Rightarrow> Room \<Rightarrow> PushResult \<times> Room \<times> Action list" where
  "http_push len now device content_length body rm =
     (if content_length > 2 * 1024 * 1024 then (PushErr ''too_large'' [], rm, [])
      else case body of
        None \<Rightarrow> (PushErr ''bad_push'' ''malformed body'', rm, [])
      | Some (fbatch, fops) \<Rightarrow> applyPushBatch len now device fbatch fops rm)"

definition http_reset :: "Room \<Rightarrow> Room \<times> Action list" where
  "http_reset rm =
     (rm\<lparr>rm_rows := [], rm_seq := 0, rm_gcFloor := 0, rm_pushOutcomes := [], rm_backupDirty := False,
         rm_backupSeq := 0, rm_lastGcAt := 0\<rparr>,
      map (\<lambda>(ws, _). Close ws 4410 ''registry reset'') (rm_sockets rm))"

definition purged :: "string \<Rightarrow> Row \<Rightarrow> bool" where
  "purged horizonHlc r \<longleftrightarrow> t_deleted r \<and> (case t_delHlc r of None \<Rightarrow> False | Some h \<Rightarrow> h < horizonHlc)"

text \<open>\<^verbatim>\<open>String(n).padStart(13, "0")\<close> puts the padding before the sign.\<close>

definition js_num :: "int \<Rightarrow> string" where
  "js_num n = (if n < 0 then CHR ''-'' # dec (nat (- n)) else dec (nat n))"

definition horizon_hlc :: "int \<Rightarrow> string" where
  "horizon_hlc now = zpad 13 (js_num (now - TOMBSTONE_RETAIN_MS)) @ ''-''"

definition gc :: "int \<Rightarrow> Room \<Rightarrow> Room" where
  "gc now rm =
     (let h = horizon_hlc now;
          purgedMaxSeq = fold (\<lambda>(_, r) m. max m (t_seq r)) (filter (\<lambda>(_, r). purged h r) (rm_rows rm)) 0
      in if purgedMaxSeq > 0
         then rm\<lparr>rm_rows := filter (\<lambda>(_, r). \<not> purged h r) (rm_rows rm),
                 rm_gcFloor := max (rm_gcFloor rm) purgedMaxSeq, rm_lastGcAt := now\<rparr>
         else rm)"

text \<open>The alarm up to the write of the backup, which is awaited: the sequence number and the rows to
  write, if the backup is due. \<open>alarm_done\<close> is what runs when the write has finished; other events
  may come between.\<close>

definition alarm_start :: "int \<Rightarrow> Room \<Rightarrow> Room \<times> (nat \<times> Row list) option" where
  "alarm_start now rm =
     (if \<not> rm_backupDirty rm then (rm\<lparr>rm_alarm := None\<rparr>, None)
      else
        let rm1 = gc now (rm\<lparr>rm_alarm := None\<rparr>) in
        if rm_seq rm1 > rm_backupSeq rm1 then (rm1, Some (rm_seq rm1, rowsSince 0 rm1))
        else (rm1\<lparr>rm_backupDirty := False\<rparr>, None))"

definition alarm_done :: "nat \<Rightarrow> Room \<Rightarrow> Room" where
  "alarm_done seq rm = rm\<lparr>rm_backupSeq := seq, rm_backupDirty := False\<rparr>"

section \<open>The invariant\<close>

text \<open>Rows sit under their keys, each with a number the counter has reached; a purged row leaves its
  number below the floor.\<close>

definition stored_ok :: "string \<times> string \<Rightarrow> Row \<Rightarrow> bool" where
  "stored_ok k r \<longleftrightarrow> ts_key r = k \<and> ts_row_ok r \<and> t_delHlc r \<noteq> Some []"

definition room_ok :: "Room \<Rightarrow> bool" where
  "room_ok rm \<longleftrightarrow> hm_ok (rm_rows rm) \<and> hm_ok (rm_sockets rm) \<and> rm_gcFloor rm \<le> rm_seq rm \<and>
     (\<forall>k r. map_of (rm_rows rm) k = Some r \<longrightarrow> stored_ok k r \<and> 0 < t_seq r \<and> t_seq r \<le> rm_seq rm)"

section \<open>The merge on stored rows\<close>

lemma write_field_ok:
  assumes "hm_ok fs" "hm_ok cs" "write_field op kv ((fs, cs), ch) = ((fs', cs'), ch')"
  shows "hm_ok fs' \<and> hm_ok cs'"
  using assms by (cases kv) (auto simp: write_field_def Let_def hm.ok_ins hm.ok_del split: if_splits)

lemma write_fold_ok:
  "hm_ok fs \<Longrightarrow> hm_ok cs \<Longrightarrow> fold (write_field op) s ((fs, cs), ch) = ((fs', cs'), ch') \<Longrightarrow> hm_ok fs' \<and> hm_ok cs'"
proof (induction s arbitrary: fs cs ch)
  case (Cons kv s)
  obtain fs1 cs1 ch1 where st: "write_field op kv ((fs, cs), ch) = ((fs1, cs1), ch1)" by (metis surj_pair)
  from write_field_ok [OF Cons.prems(1,2) st] Cons.IH [of fs1 cs1 ch1] Cons.prems(3) st show ?case by simp
qed simp

lemma write_fields_frame:
  assumes "write_fields ch op b = (r, c)"
  shows "ts_key r = ts_key b" "t_delHlc r = t_delHlc b" "ts_row_ok b \<Longrightarrow> \<not> t_deleted b \<Longrightarrow> ts_row_ok r"
proof -
  obtain fs cs c' where f: "fold (write_field op) (entries (o_set op)) ((t_fields b, t_clocks b), ch) = ((fs, cs), c')"
    by (metis surj_pair)
  with assms show "ts_key r = ts_key b" "t_delHlc r = t_delHlc b"
    by (auto simp: write_fields_def ts_key_def split: if_splits)
  show "ts_row_ok r" if "ts_row_ok b" "\<not> t_deleted b"
    using f assms that write_fold_ok [of "t_fields b" "t_clocks b" op _ ch fs cs c']
    by (auto simp: write_fields_def ts_row_ok_def split: if_splits)
qed

lemma applyOp_stored:
  assumes "pred_option (stored_ok (o_kind op, o_id op)) row" "o_hlc op \<noteq> []" "applyOp row op = (Some r, c)"
  shows "stored_ok (o_kind op, o_id op) r"
proof -
  have w: "stored_ok k r" if "write_fields ch op b = (r, c)" "stored_ok k b" "\<not> t_deleted b" for ch b k
    using write_fields_frame [OF that(1)] that(2,3) by (simp add: stored_ok_def)
  let ?e = "\<lparr>t_kind = o_kind op, t_id = o_id op, t_seq = 0, t_deleted = False, t_delHlc = None, t_fields = [], t_clocks = []\<rparr>"
  have e: "stored_ok (o_kind op, o_id op) ?e"
    by (simp add: stored_ok_def ts_key_def ts_row_ok_def hm_ok_def)
  show ?thesis
  proof (cases row)
    case None
    with assms e w [of True ?e] show ?thesis
      by (auto simp: applyOp_def map_prod_def stored_ok_def ts_key_def ts_row_ok_def hm_ok_def split: if_splits prod.splits)
  next
    case (Some b)
    have b: "stored_ok (o_kind op, o_id op) b" using assms(1) Some by simp
    then have "stored_ok (o_kind op, o_id op) (b\<lparr>t_deleted := False, t_fields := [], t_clocks := []\<rparr>)"
      by (simp add: stored_ok_def ts_key_def ts_row_ok_def hm_ok_def)
    with Some b assms(2,3) w [of True "b\<lparr>t_deleted := False, t_fields := [], t_clocks := []\<rparr>"] w [of False b]
    show ?thesis
      by (auto simp: applyOp_def map_prod_def stored_ok_def ts_key_def ts_row_ok_def hm_ok_def split: if_splits prod.splits)
  qed
qed

section \<open>Keys of touched rows\<close>

lemma KIND_RE_no_space: "KIND_RE s \<Longrightarrow> CHR '' '' \<notin> set s"
proof -
  have "\<not> is_alnum (CHR '' '')" "\<not> is_lower (CHR '' '')"
    by (simp_all add: is_alnum_def is_digit_def is_lower_def is_upper_def less_eq_char_def)
  then show "KIND_RE s \<Longrightarrow> CHR '' '' \<notin> set s"
    by (auto simp: KIND_RE_def list_all_iff split: list.splits)
qed

lemma touch_key_inj:
  assumes "KIND_RE k" "KIND_RE k'"
  shows "touch_key k i = touch_key k' i' \<longleftrightarrow> k = k' \<and> i = i'"
proof
  assume eq: "touch_key k i = touch_key k' i'"
  have t: "takeWhile (\<lambda>c. c \<noteq> CHR '' '') (touch_key x y) = x" if "KIND_RE x" for x y
    using KIND_RE_no_space [OF that] by (simp add: touch_key_def takeWhile_append)
  have "k = k'" using t [OF assms(1), of i] t [OF assms(2), of i'] eq by simp
  with eq show "k = k' \<and> i = i'" by (simp add: touch_key_def)
qed simp

lemma valid_op:
  assumes "validateOp len op = None"
  shows "KIND_RE (o_kind op)" "o_hlc op \<noteq> []"
proof -
  have "KIND_RE (o_kind op)" "HLC_RE (o_hlc op)"
    using assms by (auto simp: validateOp_def split: if_splits)
  then show "KIND_RE (o_kind op)" "o_hlc op \<noteq> []" by (auto simp: HLC_RE_def)
qed

section \<open>What a batch does\<close>

lemma room_row:
  assumes "room_ok rm" "map_of (rm_rows rm) k = Some r"
  shows "stored_ok k r" "0 < t_seq r" "t_seq r \<le> rm_seq rm"
  using assms unfolding room_ok_def by blast+

lemma read_raw_stored [simp]: "stored_ok k r \<Longrightarrow> read_raw r = r"
  by (simp add: stored_ok_def read_raw_def)

lemma loadRow_stored: "room_ok rm \<Longrightarrow> loadRow kind ident rm = map_of (rm_rows rm) (kind, ident)"
  using room_row(1) by (cases "map_of (rm_rows rm) (kind, ident)") (fastforce simp: loadRow_def)+

definition touched_ok :: "nat \<Rightarrow> (string, Row) hmap \<Rightarrow> bool" where
  "touched_ok n t \<longleftrightarrow> hm_ok t \<and>
     (\<forall>key r. map_of t key = Some r \<longrightarrow> key = touch_key (t_kind r) (t_id r) \<and> KIND_RE (t_kind r) \<and> stored_ok (ts_key r) r \<and> t_seq r = n)"

lemma push_op_touched:
  assumes "room_ok rm" "validateOp len op = None" "touched_ok n t" "(m = 0) = (t = [])"
    and "push_op rm n op (t, m) = (t', m')"
  shows "touched_ok n t' \<and> (m' = 0) = (t' = [])"
proof -
  let ?k = "touch_key (o_kind op) (o_id op)"
  let ?b = "case map_of t ?k of Some r \<Rightarrow> Some r | None \<Rightarrow> loadRow (o_kind op) (o_id op) rm"
  have b: "pred_option (stored_ok (o_kind op, o_id op)) ?b"
  proof (cases "map_of t ?k")
    case None
    with room_row(1) [OF assms(1), of "(o_kind op, o_id op)"] show ?thesis
      by (cases "map_of (rm_rows rm) (o_kind op, o_id op)") (auto simp: loadRow_stored [OF assms(1)])
  next
    case (Some r)
    then have r: "?k = touch_key (t_kind r) (t_id r)" "KIND_RE (t_kind r)" "stored_ok (ts_key r) r"
      using assms(3) by (auto simp: touched_ok_def)
    then have "ts_key r = (o_kind op, o_id op)"
      using touch_key_inj [OF valid_op(1) [OF assms(2)] r(2)] by (simp add: ts_key_def)
    with Some r(3) show ?thesis by simp
  qed
  show ?thesis
  proof (cases "\<exists>r. applyOp ?b op = (Some r, True)")
    case True
    then obtain r where r: "applyOp ?b op = (Some r, True)" by blast
    note s = applyOp_stored [OF b valid_op(2) [OF assms(2)] r]
    then have k: "t_kind r = o_kind op" "t_id r = o_id op" by (auto simp: stored_ok_def ts_key_def)
    have u: "t' = AList.update ?k (r\<lparr>t_seq := n\<rparr>) t" "m' = m + 1"
      using assms(5) r by (auto simp: push_op_def Let_def)
    have "stored_ok (ts_key (r\<lparr>t_seq := n\<rparr>)) (r\<lparr>t_seq := n\<rparr>)"
      using s by (simp add: stored_ok_def ts_key_def ts_row_ok_def)
    then show ?thesis
      using assms(3) k valid_op(1) [OF assms(2)] hm.get_ins [of t ?k "r\<lparr>t_seq := n\<rparr>"] hm.ok_ins [of t]
      by (auto simp: touched_ok_def u AList.update_nonempty split: if_splits)
  next
    case False
    then have "t' = t \<and> m' = m"
      using assms(5) by (auto simp: push_op_def Let_def split: prod.splits option.splits bool.splits)
    with assms(3,4) show ?thesis by simp
  qed
qed

lemma push_fold_touched:
  assumes "room_ok rm" "list_all (\<lambda>op. validateOp len op = None) ops" "touched_ok n t" "(m = 0) = (t = [])"
    and "fold (push_op rm n) ops (t, m) = (t', m')"
  shows "touched_ok n t' \<and> (m' = 0) = (t' = [])"
  using assms(2-)
proof (induction ops arbitrary: t m)
  case (Cons op ops)
  obtain t1 m1 where st: "push_op rm n op (t, m) = (t1, m1)" by force
  from Cons.prems have v: "validateOp len op = None" by simp
  from push_op_touched [OF assms(1) v Cons.prems(2,3) st] Cons.IH [of t1 m1] Cons.prems(1,4) st show ?case by simp
qed simp

lemma touched_rows:
  assumes "touched_ok n t"
  shows "distinct (map ts_key (map snd t))" "r \<in> set (map snd t) \<Longrightarrow> stored_ok (ts_key r) r \<and> t_seq r = n"
proof -
  have e: "x = touch_key (t_kind r) (t_id r) \<and> KIND_RE (t_kind r) \<and> stored_ok (ts_key r) r \<and> t_seq r = n" if "(x, r) \<in> set t" for x r
    using assms that by (auto simp: touched_ok_def hm_ok_def)
  then show "r \<in> set (map snd t) \<Longrightarrow> stored_ok (ts_key r) r \<and> t_seq r = n" by auto
  have "inj_on (\<lambda>(x, r). ts_key r) (set t)"
  proof (rule inj_onI, clarify)
    fix x r y q assume m: "(x, r) \<in> set t" "(y, q) \<in> set t" "ts_key r = ts_key q"
    then have "x = y" using e [OF m(1)] e [OF m(2)] by (simp add: ts_key_def)
    with m(1,2) assms show "x = y \<and> r = q" by (auto simp: touched_ok_def hm_ok_def dest: eq_key_imp_eq_value)
  qed
  moreover have "distinct t" using assms by (auto simp: touched_ok_def hm_ok_def distinct_map)
  ultimately show "distinct (map ts_key (map snd t))" by (simp add: distinct_map comp_inj_on_iff split_def comp_def)
qed

definition keyed_rows :: "Row list \<Rightarrow> string \<times> string \<Rightarrow> Row option" where
  "keyed_rows rows = map_of (map (\<lambda>r. (ts_key r, r)) rows)"

lemma saveRow_fold:
  "fold saveRow rows rm = rm\<lparr>rm_rows := fold (\<lambda>r. AList.update (ts_key r) (id r)) rows (rm_rows rm)\<rparr>"
  by (induction rows arbitrary: rm) (simp_all add: saveRow_def)

lemma keyed_rows_SomeD: "keyed_rows rows k = Some r \<Longrightarrow> r \<in> set rows \<and> ts_key r = k"
  by (auto simp: keyed_rows_def dest!: map_of_SomeD)

lemma keyed_rows_distinct:
  "distinct (map ts_key rows) \<Longrightarrow> keyed_rows rows k = Some r \<longleftrightarrow> r \<in> set rows \<and> ts_key r = k"
  by (auto simp: keyed_rows_def map_of_eq_Some_iff comp_def)

lemma saved_rows:
  assumes "distinct (map ts_key rows)" "hm_ok (rm_rows rm)"
  shows "map_of (rm_rows (fold saveRow rows rm)) = map_of (rm_rows rm) ++ keyed_rows rows"
    "hm_ok (rm_rows (fold saveRow rows rm))"
proof -
  have "map_of (rev (map (\<lambda>x. (ts_key x, id x)) rows)) = keyed_rows rows"
    using assms(1) map_of_rev_distinct [of "map (\<lambda>r. (ts_key r, r)) rows"] by (simp add: keyed_rows_def hm_ok_def comp_def)
  then show "map_of (rm_rows (fold saveRow rows rm)) = map_of (rm_rows rm) ++ keyed_rows rows"
    "hm_ok (rm_rows (fold saveRow rows rm))"
    using hm.get_fold_ins [OF assms(2), of ts_key id rows] hm.ok_fold_ins [OF assms(2), of ts_key id rows]
    by (simp_all add: saveRow_fold)
qed

text \<open>How a room event may change the rows: a row stays, is purged, or is rewritten with a number above
  every number handed out before.\<close>

definition evolves :: "Room \<Rightarrow> Room \<Rightarrow> bool" where
  "evolves rm rm' \<longleftrightarrow> rm_seq rm \<le> rm_seq rm' \<and>
     (\<forall>k r. map_of (rm_rows rm') k = Some r \<longrightarrow> t_seq r \<le> rm_seq rm \<longrightarrow> map_of (rm_rows rm) k = Some r)"

lemma evolves_refl: "rm_rows rm' = rm_rows rm \<Longrightarrow> rm_seq rm' = rm_seq rm \<Longrightarrow> evolves rm rm'"
  by (simp add: evolves_def)

text \<open>The rows of a broadcast: exactly the rows of the room that carry the number.\<close>

definition broadcast_of :: "Room \<Rightarrow> nat \<Rightarrow> Row list \<Rightarrow> bool" where
  "broadcast_of rm n rows \<longleftrightarrow> distinct (map ts_key rows) \<and>
     (\<forall>k r. map_of (rm_rows rm) k = Some r \<and> t_seq r = n \<longleftrightarrow> keyed_rows rows k = Some r)"

lemma room_fields [simp]:
  "rm_rows (recordPush now dev ok rm) = rm_rows rm" "rm_seq (recordPush now dev ok rm) = rm_seq rm"
  "rm_gcFloor (recordPush now dev ok rm) = rm_gcFloor rm" "rm_sockets (recordPush now dev ok rm) = rm_sockets rm"
  "rm_rows (markBackupDirty now rm) = rm_rows rm" "rm_seq (markBackupDirty now rm) = rm_seq rm"
  "rm_gcFloor (markBackupDirty now rm) = rm_gcFloor rm" "rm_sockets (markBackupDirty now rm) = rm_sockets rm"
  "rm_seq (fold saveRow rows rm) = rm_seq rm" "rm_gcFloor (fold saveRow rows rm) = rm_gcFloor rm"
  "rm_sockets (fold saveRow rows rm) = rm_sockets rm"
  by (simp_all add: recordPush_def markBackupDirty_def saveRow_fold Let_def)

lemma room_ok_cong:
  "rm_rows rm' = rm_rows rm \<Longrightarrow> rm_seq rm' = rm_seq rm \<Longrightarrow> rm_gcFloor rm' = rm_gcFloor rm \<Longrightarrow>
   hm_ok (rm_sockets rm') = hm_ok (rm_sockets rm) \<Longrightarrow> room_ok rm' = room_ok rm"
  by (simp add: room_ok_def)

lemma batch_effect:
  assumes "room_ok rm" "applyPushBatch len now dev fb fo rm = (res, rm', acts)"
  shows "room_ok rm' \<and> evolves rm rm' \<and> rm_sockets rm' = rm_sockets rm \<and> rm_gcFloor rm' = rm_gcFloor rm \<and>
    (rm_seq rm' = rm_seq rm \<and> rm_rows rm' = rm_rows rm \<and> acts = [] \<or>
     (\<exists>rows. rm_seq rm' = rm_seq rm + 1 \<and> broadcast_of rm' (rm_seq rm') rows \<and>
        acts = map (\<lambda>ws. Send ws (OutRows (rm_seq rm') rows)) (ready_sockets rm)))"
proof (cases "rm_seq rm' = rm_seq rm \<and> rm_rows rm' = rm_rows rm \<and> acts = []")
  case True
  moreover have "rm_sockets rm' = rm_sockets rm \<and> rm_gcFloor rm' = rm_gcFloor rm"
    using assms(2) by (auto simp: applyPushBatch_def Let_def split: option.splits if_splits prod.splits)
  ultimately show ?thesis using assms(1) room_ok_cong [of rm' rm] evolves_refl [of rm' rm] by simp
next
  case False
  let ?n = "rm_seq rm + 1"
  obtain ops t m where ops: "list_all (\<lambda>op. validateOp len op = None) ops"
    and f: "fold (push_op rm ?n) ops ([], 0) = (t, m)" "m > 0"
    and rm': "rm' = recordPush now dev True (markBackupDirty now ((fold saveRow (map snd t) rm)\<lparr>rm_seq := ?n\<rparr>))"
    and acts: "acts = map (\<lambda>ws. Send ws (OutRows ?n (map snd t))) (ready_sockets rm')"
    using assms(2) False
    by (auto simp: applyPushBatch_def Let_def find_None_iff list_all_iff split: option.splits if_splits prod.splits)
  have t: "touched_ok ?n t"
    using push_fold_touched [OF assms(1) ops _ _ f(1)] by (simp add: touched_ok_def hm_ok_def)
  note tr = touched_rows [OF t]
  let ?rows = "map snd t"
  have rows: "map_of (rm_rows rm') = map_of (rm_rows rm) ++ keyed_rows ?rows" "hm_ok (rm_rows rm')"
    using saved_rows [OF tr(1)] assms(1) by (simp_all add: rm' room_ok_def)
  have seq: "rm_seq rm' = ?n" "rm_gcFloor rm' = rm_gcFloor rm" "rm_sockets rm' = rm_sockets rm" by (simp_all add: rm')
  have new: "stored_ok k r \<and> t_seq r = ?n" if "keyed_rows ?rows k = Some r" for k r
    using tr(2) [of r] keyed_rows_SomeD [OF that] by auto
  have old: "stored_ok k r \<and> 0 < t_seq r \<and> t_seq r \<le> rm_seq rm" if "map_of (rm_rows rm) k = Some r" for k r
    using room_row [OF assms(1) that] by simp
  have "room_ok rm'"
    unfolding room_ok_def seq rows(1)
    using rows(2) assms(1) new old by (fastforce simp: room_ok_def map_add_Some_iff)
  moreover have "evolves rm rm'"
    unfolding evolves_def seq rows(1) using new by (fastforce simp: map_add_Some_iff)
  moreover have "broadcast_of rm' ?n ?rows"
    unfolding broadcast_of_def rows(1) using tr(1) new old by (fastforce simp: map_add_Some_iff)
  ultimately show ?thesis using seq acts by (auto simp: ready_sockets_def)
qed

section \<open>What the other events do\<close>

lemma gc_effect:
  assumes "room_ok rm"
  shows "room_ok (gc now rm) \<and> evolves rm (gc now rm)"
proof -
  let ?h = "horizon_hlc now"
  let ?p = "filter (\<lambda>(_, r). purged ?h r) (rm_rows rm)"
  have "fold (\<lambda>(_, r) m. max m (t_seq r)) ps m \<le> rm_seq rm"
    if "set ps \<subseteq> set (rm_rows rm)" "m \<le> rm_seq rm" for ps m
    using that
  proof (induction ps arbitrary: m)
    case (Cons p ps)
    obtain k r where p: "p = (k, r)" by (rule prod.exhaust)
    with Cons.prems(1) have "map_of (rm_rows rm) k = Some r"
      using assms by (simp add: room_ok_def hm_ok_def)
    from room_row(3) [OF assms this] Cons p show ?case by simp
  qed simp
  from this [of ?p 0] have m: "fold (\<lambda>(_, r) m. max m (t_seq r)) ?p 0 \<le> rm_seq rm" by auto
  have d: "hm_ok (filter Q (rm_rows rm))" for Q
    using assms by (simp add: room_ok_def hm_ok_def distinct_map_filter)
  have l: "map_of (filter Q (rm_rows rm)) k = Some r \<Longrightarrow> map_of (rm_rows rm) k = Some r" for Q k r
    using assms d [of Q] by (auto simp: room_ok_def hm_ok_def)
  show ?thesis
  proof (cases "fold (\<lambda>(_, r) m. max m (t_seq r)) ?p 0 > 0")
    case True
    let ?rows = "filter (\<lambda>(_, r). \<not> purged ?h r) (rm_rows rm)"
    have g: "rm_rows (gc now rm) = ?rows" "rm_seq (gc now rm) = rm_seq rm" "rm_sockets (gc now rm) = rm_sockets rm"
      "rm_gcFloor (gc now rm) \<le> rm_seq rm"
      using True m assms by (simp_all add: gc_def Let_def room_ok_def)
    show ?thesis
      unfolding room_ok_def evolves_def g(1-3)
      using g(4) d l room_row [OF assms l] assms unfolding room_ok_def by blast
  next
    case False
    with assms show ?thesis by (simp add: gc_def Let_def evolves_def)
  qed
qed

lemma alarm_effect:
  assumes "room_ok rm" "alarm_start now rm = (rm', b)"
  shows "room_ok rm' \<and> evolves rm rm'"
proof -
  let ?r = "rm\<lparr>rm_alarm := None\<rparr>"
  have r: "room_ok ?r" "evolves rm ?r" using assms(1) by (simp_all add: room_ok_def evolves_def)
  have g: "room_ok (gc now ?r)" "evolves rm (gc now ?r)"
    using gc_effect [OF r(1), of now] by (simp_all add: evolves_def)
  have "room_ok (x\<lparr>rm_backupDirty := False\<rparr>) = room_ok x" "evolves rm (x\<lparr>rm_backupDirty := False\<rparr>) = evolves rm x" for x
    by (simp_all add: room_ok_def evolves_def)
  with assms(2) r g show ?thesis by (auto simp: alarm_start_def Let_def split: if_splits)
qed

section \<open>What a frame covers\<close>

text \<open>A frame that speaks for the numbers above \<open>lo\<close> up to \<open>hi\<close> (a full one for all up to \<open>hi\<close>): as far as the
  room's rows have numbers up to \<open>hi\<close>, it holds exactly those it speaks for, as they are.\<close>

definition covers :: "Room \<Rightarrow> nat \<Rightarrow> nat \<Rightarrow> bool \<Rightarrow> Row list \<Rightarrow> bool" where
  "covers rm lo hi full rows \<longleftrightarrow> hi \<le> rm_seq rm \<and> distinct (map ts_key rows) \<and>
     (\<forall>k r. map_of (rm_rows rm) k = Some r \<longrightarrow> t_seq r \<le> hi \<longrightarrow>
        keyed_rows rows k = (if full \<or> lo < t_seq r then Some r else None))"

lemma covers_evolves: "covers rm lo hi full rows \<Longrightarrow> evolves rm rm' \<Longrightarrow> covers rm' lo hi full rows"
  unfolding covers_def evolves_def by (meson order_trans)

lemma covers_broadcast:
  assumes "broadcast_of rm (rm_seq rm) rows" "rm_seq rm = Suc n"
  shows "covers rm n (Suc n) False rows"
proof -
  have "keyed_rows rows k = (if n < t_seq r then Some r else None)"
    if r: "map_of (rm_rows rm) k = Some r" "t_seq r \<le> Suc n" for k r
  proof (cases "n < t_seq r")
    case True
    then show ?thesis using assms r unfolding broadcast_of_def by (metis le_antisym Suc_leI)
  next
    case False
    have "keyed_rows rows k \<noteq> Some r'" for r'
      using assms r False unfolding broadcast_of_def by (metis lessI option.inject)
    with False show ?thesis by auto
  qed
  with assms show ?thesis by (simp add: covers_def broadcast_of_def)
qed

lemma set_rowsSince:
  assumes "room_ok rm"
  shows "r \<in> set (rowsSince c rm) \<longleftrightarrow> t_seq r > c \<and> map_of (rm_rows rm) (ts_key r) = Some r"
    and "distinct (map ts_key (rowsSince c rm))"
proof -
  have d: "distinct (map fst (rm_rows rm))" using assms by (simp add: room_ok_def hm_ok_def)
  have m: "(k, r) \<in> set (rm_rows rm) \<longleftrightarrow> map_of (rm_rows rm) k = Some r" for k r using d by simp
  have raw: "read_raw r = r" if "(k, r) \<in> set (rm_rows rm)" for k r
    using room_row(1) [OF assms] that m by (metis read_raw_stored)
  have eq: "rowsSince c rm = sort_key t_seq (filter (\<lambda>r. t_seq r > c) (map snd (rm_rows rm)))"
    unfolding rowsSince_def by (rule map_idI) (use raw in auto)
  have key: "k = ts_key r" if "(k, r) \<in> set (rm_rows rm)" for k r
    using room_row(1) [OF assms] that m by (simp add: stored_ok_def)
  have "r \<in> snd ` set (rm_rows rm) \<longleftrightarrow> map_of (rm_rows rm) (ts_key r) = Some r"
    using key unfolding m [symmetric] by force
  then show "r \<in> set (rowsSince c rm) \<longleftrightarrow> t_seq r > c \<and> map_of (rm_rows rm) (ts_key r) = Some r"
    unfolding eq by auto
  have "map ts_key (map snd (rm_rows rm)) = map fst (rm_rows rm)"
    using key by auto
  with d have "distinct (map ts_key (map snd (rm_rows rm)))" by argo
  then have "distinct (map ts_key (filter (\<lambda>r. t_seq r > c) (map snd (rm_rows rm))))"
    by (rule distinct_map_filter)
  then show "distinct (map ts_key (rowsSince c rm))"
    unfolding eq by (simp add: distinct_map)
qed

lemma covers_delta:
  assumes "room_ok rm" "rm_seq rm' = rm_seq rm" "rm_rows rm' = rm_rows rm" "rm_gcFloor rm' = rm_gcFloor rm"
  shows "covers rm (case cursor of None \<Rightarrow> 0 | Some c \<Rightarrow> c) (rm_seq rm) (hello_full cursor rm') (delta_rows cursor rm')"
proof -
  let ?c = "if hello_full cursor rm' then 0 else (case cursor of None \<Rightarrow> 0 | Some c \<Rightarrow> c)"
  have eq: "delta_rows cursor rm' = rowsSince ?c rm"
    using assms by (auto simp: delta_rows_def rowsSince_def hello_full_def split: option.splits)
  note s = set_rowsSince [OF assms(1), where c = ?c]
  have k: "keyed_rows (rowsSince ?c rm) k = (if ?c < t_seq r then Some r else None)"
    if "map_of (rm_rows rm) k = Some r" for k r
  proof (cases "?c < t_seq r")
    case True
    have "ts_key r = k" using room_row(1) [OF assms(1) that] by (simp add: stored_ok_def)
    with True that s(1) [of r] s(2) show ?thesis by (simp add: keyed_rows_distinct)
  next
    case False
    have "keyed_rows (rowsSince ?c rm) k \<noteq> Some q" for q
    proof
      assume "keyed_rows (rowsSince ?c rm) k = Some q"
      then have "q \<in> set (rowsSince ?c rm)" "ts_key q = k" by (auto dest: keyed_rows_SomeD)
      then have "map_of (rm_rows rm) k = Some q" "t_seq q > ?c" using s(1) [of q] by simp_all
      then show False using that False by simp
    qed
    then have "keyed_rows (rowsSince ?c rm) k = None" by (metis option.exhaust)
    with False show ?thesis by simp
  qed
  have "keyed_rows (rowsSince ?c rm) k = (if hello_full cursor rm' \<or> (case cursor of None \<Rightarrow> 0 | Some c \<Rightarrow> c) < t_seq r then Some r else None)"
    if "map_of (rm_rows rm) k = Some r" for k r
    using k [OF that] room_row(2) [OF assms(1) that] by simp
  with s(2) show ?thesis unfolding covers_def eq by simp
qed

end
