(* ===== verification/Registry_Client.thy ===== *)
theory Registry_Client
  imports Registry_Doc
begin

text \<open>
  The registry client (\<^verbatim>\<open>src/crates/sync/src/registry.rs\<close>): the wire frames, the hello with the
  replica's cursor, the steady state of a session (frames, nudges, presence, probes, redial, shutdown), the
  plain-HTTPS cycle that pushes and pulls while the socket is down, and the backoff between dials.

  The actor owns no row semantics: everything goes through the replica. Its state is a record; what a
  broadcast channel or the pipe receives is a list in order. Time is milliseconds: \<open>epoch\<close> is a reading of
  \<^verbatim>\<open>epoch_ms\<close>, \<open>inst\<close> one of the monotonic clock. A parsed frame is an optional \<open>ServerFrame\<close>, \<open>None\<close> for a
  text that does not parse. The arms of the steady state's \<^verbatim>\<open>select!\<close> are the events of \<open>SessionEvent\<close>;
  the sockets and the tasks themselves are not modelled.
\<close>

section \<open>Constants and frames\<close>

definition CONNECT_TIMEOUT :: int where "CONNECT_TIMEOUT = 20000"
definition HELLO_DEADLINE :: int where "HELLO_DEADLINE = 15000"
definition PROBE_DEADLINE :: int where "PROBE_DEADLINE = 10000"
definition PRESENCE_TTL :: int where "PRESENCE_TTL = 30000"
definition BACKOFF_BASE :: int where "BACKOFF_BASE = 250"
definition BACKOFF_CAP :: int where "BACKOFF_CAP = 16000"
definition STABLE_RESET :: int where "STABLE_RESET = 30000"
definition OFFLINE_PARK_RECHECK :: int where "OFFLINE_PARK_RECHECK = 30000"
definition PROBE_QUIET_DEFAULT :: int where "PROBE_QUIET_DEFAULT = 900000"

datatype RegistryEvent = Connected | Disconnected | Applied | Presence

datatype ClientFrame =
    CHello "u64 option" string
  | CPush string "RowOp list"
  | CPresence int
  | CProbe

datatype ServerFrame =
    SState u64 bool u64 "RegistryRow list" "(string, int) hmap"
  | SRows u64 "RegistryRow list"
  | SAck string u64 u64
  | SPresence string int
  | SProbeOk u64
  | SError string string

record Stats =
  st_connected :: bool
  st_synced :: bool
  st_last_pushed_ms :: int
  st_last_ack_ms :: int
  st_rejoins :: u64
  st_probes :: u64
  st_full_resyncs :: u64
  st_disconnects :: u64
  st_rejected :: u64
  st_retry_at_ms :: int
  st_dial_seq :: u64
  st_last_failure :: "string option"

record ReconnectState =
  rs_retry_at_ms :: int
  rs_last_failure :: "string option"

record Actor =
  ac_doc :: RegistryDoc
  ac_device_id :: string
  ac_probe_quiet :: int
  ac_events :: "RegistryEvent list"
  ac_presence :: "(string, int \<times> int) hmap"
  ac_stats :: Stats
  ac_sync_busy :: bool

datatype SessionEnd = Reconnect | Stop
datatype Waited = Elapsed | Woke | Shutdown

section \<open>Reads\<close>

definition presence :: "int \<Rightarrow> Actor \<Rightarrow> (string, int) hmap" where
  "presence inst a =
     map (\<lambda>(device, (at, seen)). (device, at))
       (filter (\<lambda>(_, (_, seen)). inst - seen < PRESENCE_TTL) (ac_presence a))"

definition reconnect_state :: "Actor \<Rightarrow> ReconnectState" where
  "reconnect_state a =
     \<lparr>rs_retry_at_ms = st_retry_at_ms (ac_stats a), rs_last_failure = st_last_failure (ac_stats a)\<rparr>"

section \<open>Helpers\<close>

definition emit :: "RegistryEvent \<Rightarrow> Actor \<Rightarrow> Actor" where
  "emit e a = a\<lparr>ac_events := ac_events a @ [e]\<rparr>"

definition with_doc :: "RegistryDoc \<Rightarrow> Actor \<Rightarrow> Actor" where
  "with_doc d a = a\<lparr>ac_doc := d\<rparr>"

definition on_stats :: "(Stats \<Rightarrow> Stats) \<Rightarrow> Actor \<Rightarrow> Actor" where
  "on_stats f a = a\<lparr>ac_stats := f (ac_stats a)\<rparr>"

definition insert_presence :: "int \<Rightarrow> (string, int) hmap \<Rightarrow> Actor \<Rightarrow> Actor" where
  "insert_presence inst ps a =
     a\<lparr>ac_presence := fold (\<lambda>(device, at). AList.update device (at, inst)) ps (ac_presence a)\<rparr>"

definition note_failure :: "string \<Rightarrow> Actor \<Rightarrow> Actor" where
  "note_failure msg = on_stats (\<lambda>s. s\<lparr>st_last_failure := Some msg\<rparr>)"

section \<open>The session\<close>

definition hello_cursor :: "RegistryDoc \<Rightarrow> u64 option" where
  "hello_cursor d =
     (if cursor d = 0 \<and> pending_len d = 0 \<and> generation d = 0 then None else Some (cursor d))"

definition hello_frame :: "Actor \<Rightarrow> ClientFrame" where
  "hello_frame a = CHello (hello_cursor (ac_doc a)) (ac_device_id a)"

text \<open>The texts received before the deadline, up to the state frame: stale broadcasts are skipped, a text
  that does not parse or the end of the stream fails the handshake.\<close>

fun await_state :: "ServerFrame option list \<Rightarrow> (ServerFrame \<times> ServerFrame option list) option" where
  "await_state [] = None"
| "await_state (None # rest) = None"
| "await_state (Some (SState seq full gc rows ps) # rest) = Some (SState seq full gc rows ps, rest)"
| "await_state (Some _ # rest) = await_state rest"

definition join :: "(nat \<Rightarrow> int) \<Rightarrow> int \<Rightarrow> int \<Rightarrow> bool \<Rightarrow> u64 \<Rightarrow> bool \<Rightarrow> u64 \<Rightarrow> RegistryRow list \<Rightarrow> (string, int) hmap \<Rightarrow> Actor \<Rightarrow> Actor" where
  "join now epoch inst first seq full gcf rows ps a =
     (let (outcome, d) = apply_state now seq full gcf rows (ac_doc a);
          a = with_doc d a;
          a = (if full then on_stats (\<lambda>s. s\<lparr>st_full_resyncs := st_full_resyncs s + 1\<rparr>) a else a);
          a = insert_presence inst ps a;
          a = on_stats (\<lambda>s. s\<lparr>st_connected := True, st_synced := True, st_last_pushed_ms := epoch,
                              st_retry_at_ms := 0, st_last_failure := None\<rparr>) a;
          a = (if \<not> first then on_stats (\<lambda>s. s\<lparr>st_rejoins := st_rejoins s + 1\<rparr>) a else a)
      in emit Applied (emit Connected a))"

text \<open>Sends through the pipe: \<open>accepts i\<close> says whether the \<open>i\<close>-th send of the call succeeds.\<close>

fun send_all :: "(nat \<Rightarrow> bool) \<Rightarrow> nat \<Rightarrow> 'f list \<Rightarrow> bool \<times> 'f list" where
  "send_all accepts i [] = (True, [])"
| "send_all accepts i (f # fs) =
     (if accepts i then map_prod id (\<lambda>sent. f # sent) (send_all accepts (Suc i) fs) else (False, []))"

definition push_pending :: "(nat \<Rightarrow> bool) \<Rightarrow> Actor \<Rightarrow> bool \<times> ClientFrame list \<times> Actor" where
  "push_pending accepts a =
     (let (batches, d) = take_pushable (ac_doc a);
          (ok, sent) = send_all accepts 0 (map (\<lambda>b. CPush (batch_id b) (batch_ops b)) batches)
      in (ok, sent, with_doc d a))"

definition send_probe :: "bool \<Rightarrow> int \<Rightarrow> int option \<Rightarrow> Actor \<Rightarrow> bool \<times> ClientFrame list \<times> int option \<times> Actor" where
  "send_probe accepts inst deadline a =
     (let a = on_stats (\<lambda>s. s\<lparr>st_probes := st_probes s + 1\<rparr>) a in
      if \<not> accepts then (False, [], deadline, a)
      else (True, [CProbe], (case deadline of None \<Rightarrow> Some (inst + PROBE_DEADLINE) | d \<Rightarrow> d), a))"

definition handle_frame :: "(nat \<Rightarrow> int) \<Rightarrow> int \<Rightarrow> int \<Rightarrow> ServerFrame option \<Rightarrow> Actor \<Rightarrow> bool \<times> Actor" where
  "handle_frame now epoch inst text a =
     (case text of
        None \<Rightarrow> (False, a)
      | Some (SRows seq rows) \<Rightarrow>
          let (contiguous, d) = apply_rows seq rows (ac_doc a);
              a = emit Applied (on_stats (\<lambda>s. s\<lparr>st_last_pushed_ms := epoch\<rparr>) (with_doc d a))
          in (contiguous, a)
      | Some (SAck batch seq _) \<Rightarrow>
          (True, emit Applied (on_stats (\<lambda>s. s\<lparr>st_last_ack_ms := epoch\<rparr>)
                   (with_doc (snd (ack_batch batch seq (ac_doc a))) a)))
      | Some (SPresence device at) \<Rightarrow> (True, emit Presence (insert_presence inst [(device, at)] a))
      | Some (SProbeOk _) \<Rightarrow> (True, on_stats (\<lambda>s. s\<lparr>st_last_pushed_ms := epoch\<rparr>) a)
      | Some (SState seq full gcf rows ps) \<Rightarrow>
          (True, emit Applied (insert_presence inst ps
                   (with_doc (snd (apply_state now seq full gcf rows (ac_doc a))) a)))
      | Some (SError code message) \<Rightarrow>
          (True, on_stats (\<lambda>s. s\<lparr>st_rejected := st_rejected s + 1\<rparr>) a))"

record SessionLoop =
  ss_last_frame :: int
  ss_probe_deadline :: "int option"

datatype SessionEvent =
    EvFrame "ServerFrame option"
  | EvClosed
  | EvNudge
  | EvPresence "int option"
  | EvProbe
  | EvRedial
  | EvQuiet
  | EvDeadline
  | EvShutdown bool

text \<open>One turn of the steady state: the end of the session or its new variables, the frames sent and
  the actor.\<close>

definition session_event ::
  "(nat \<Rightarrow> int) \<Rightarrow> int \<Rightarrow> int \<Rightarrow> (nat \<Rightarrow> bool) \<Rightarrow> SessionEvent \<Rightarrow> SessionLoop \<Rightarrow> Actor \<Rightarrow>
   (SessionEnd + SessionLoop) \<times> ClientFrame list \<times> Actor" where
  "session_event now epoch inst accepts ev ss a =
     (case ev of
        EvClosed \<Rightarrow> (Inl Reconnect, [], a)
      | EvFrame text \<Rightarrow>
          let (ok, a) = handle_frame now epoch inst text a in
          (if ok then Inr \<lparr>ss_last_frame = inst, ss_probe_deadline = None\<rparr> else Inl Reconnect, [], a)
      | EvNudge \<Rightarrow>
          let (ok, sent, a) = push_pending accepts a in (if ok then Inr ss else Inl Reconnect, sent, a)
      | EvPresence None \<Rightarrow> (Inr ss, [], a)
      | EvPresence (Some at) \<Rightarrow>
          if accepts 0 then (Inr ss, [CPresence at], a) else (Inl Reconnect, [], a)
      | EvProbe \<Rightarrow>
          let (ok, sent, deadline, a) = send_probe (accepts 0) inst (ss_probe_deadline ss) a in
          (if ok then Inr (ss\<lparr>ss_probe_deadline := deadline\<rparr>) else Inl Reconnect, sent, a)
      | EvQuiet \<Rightarrow>
          let (ok, sent, deadline, a) = send_probe (accepts 0) inst (ss_probe_deadline ss) a in
          (if ok then Inr (ss\<lparr>ss_probe_deadline := deadline, ss_last_frame := inst\<rparr>) else Inl Reconnect, sent, a)
      | EvRedial \<Rightarrow> (Inl Reconnect, [], a)
      | EvDeadline \<Rightarrow> (Inl Reconnect, [], a)
      | EvShutdown stop \<Rightarrow> (if stop then Inl Stop else Inr ss, [], a))"

text \<open>The opening of a session: the hello is sent, the state frame awaited and applied, everything
  pending pushed. \<open>texts\<close> are the texts that arrive before the deadline; the result is the end of the
  session or the variables of its steady state, with the frames sent.\<close>

definition open_session ::
  "(nat \<Rightarrow> int) \<Rightarrow> int \<Rightarrow> int \<Rightarrow> (nat \<Rightarrow> bool) \<Rightarrow> bool \<Rightarrow> ServerFrame option list \<Rightarrow> Actor \<Rightarrow>
   (SessionEnd + SessionLoop) \<times> ClientFrame list \<times> Actor" where
  "open_session now epoch inst accepts first texts a =
     (if \<not> accepts 0 then (Inl Reconnect, [], a)
      else case await_state texts of
        Some (SState seq full gcf rows ps, _) \<Rightarrow>
          let (ok, sent, a') = push_pending (\<lambda>i. accepts (Suc i)) (join now epoch inst first seq full gcf rows ps a) in
          (if ok then Inr \<lparr>ss_last_frame = inst, ss_probe_deadline = None\<rparr> else Inl Reconnect,
           hello_frame a # sent, a')
      | _ \<Rightarrow> (Inl Reconnect, [hello_frame a], a))"

section \<open>Between sessions\<close>

definition session_lost :: "Actor \<Rightarrow> bool \<times> Actor" where
  "session_lost a =
     (let joined = st_connected (ac_stats a);
          a = with_doc (mark_disconnected (ac_doc a)) a;
          a = on_stats (\<lambda>s. s\<lparr>st_connected := False, st_disconnects := st_disconnects s + 1\<rparr>) a;
          a = note_failure ''connection dropped'' a
      in (joined, emit Disconnected a))"

definition after_session :: "bool \<Rightarrow> int \<Rightarrow> int \<Rightarrow> int" where
  "after_session joined lasted backoff =
     (if joined \<and> lasted \<ge> STABLE_RESET then BACKOFF_BASE else backoff)"

definition next_backoff :: "Waited \<Rightarrow> int \<Rightarrow> int option" where
  "next_backoff w backoff =
     (case w of
        Shutdown \<Rightarrow> None
      | Woke \<Rightarrow> Some BACKOFF_BASE
      | Elapsed \<Rightarrow> Some (min (backoff * 2) BACKOFF_CAP))"

definition wait_time :: "bool \<Rightarrow> int \<Rightarrow> int" where
  "wait_time path_offline wait = (if path_offline then max wait OFFLINE_PARK_RECHECK else wait)"

text \<open>A dial attempt takes the next number; a wait announces when the next attempt is due and withdraws
  the announcement when it ends.\<close>

definition dial_attempt :: "Actor \<Rightarrow> u64 \<times> Actor" where
  "dial_attempt a = (st_dial_seq (ac_stats a) + 1, on_stats (\<lambda>s. s\<lparr>st_dial_seq := st_dial_seq s + 1\<rparr>) a)"

definition wait_announced :: "bool \<Rightarrow> int \<Rightarrow> int \<Rightarrow> Actor \<Rightarrow> Actor" where
  "wait_announced path_offline epoch wait = on_stats (\<lambda>s. s\<lparr>st_retry_at_ms := epoch + wait_time path_offline wait\<rparr>)"

definition wait_over :: "Actor \<Rightarrow> Actor" where
  "wait_over = on_stats (\<lambda>s. s\<lparr>st_retry_at_ms := 0\<rparr>)"

text \<open>The plain-HTTPS cycle: every pushable batch is posted in turn, up to the first that fails or whose
  answer cannot be read; then the rows since the cursor are fetched and applied as a state frame.
  \<open>acks i\<close> is the parsed answer to the \<open>i\<close>-th post, \<open>None\<close> for a failure.\<close>

fun post_batches ::
  "(nat \<Rightarrow> (string \<times> u64) option) \<Rightarrow> int \<Rightarrow> nat \<Rightarrow> PendingBatch list \<Rightarrow> Actor \<Rightarrow> bool \<times> Actor" where
  "post_batches acks epoch i [] a = (False, a)"
| "post_batches acks epoch i (b # bs) a =
     (case acks i of
        None \<Rightarrow> (True, a)
      | Some (batch, seq) \<Rightarrow>
          post_batches acks epoch (Suc i) bs
            (emit Applied (on_stats (\<lambda>s. s\<lparr>st_last_ack_ms := epoch\<rparr>)
              (with_doc (snd (ack_batch batch seq (ac_doc a))) a))))"

definition offline_push :: "(nat \<Rightarrow> (string \<times> u64) option) \<Rightarrow> int \<Rightarrow> Actor \<Rightarrow> Actor" where
  "offline_push acks epoch a =
     (let (batches, d) = take_pushable (ac_doc a);
          (push_failed, a) = post_batches acks epoch 0 batches (with_doc d (a\<lparr>ac_sync_busy := True\<rparr>))
      in if push_failed then with_doc (mark_disconnected (ac_doc a)) a else a)"

definition offline_pull :: "(nat \<Rightarrow> int) \<Rightarrow> int \<Rightarrow> int \<Rightarrow> ServerFrame option \<Rightarrow> Actor \<Rightarrow> Actor" where
  "offline_pull now epoch inst body a =
     (case body of
        Some (SState seq full gcf rows ps) \<Rightarrow>
          emit Applied (on_stats (\<lambda>s. s\<lparr>st_synced := True, st_last_pushed_ms := epoch\<rparr>)
            (insert_presence inst ps (with_doc (snd (apply_state now seq full gcf rows (ac_doc a))) a)))
      | _ \<Rightarrow> a)\<lparr>ac_sync_busy := False\<rparr>"

section \<open>Backoff\<close>

lemma backoff_bounds:
  assumes "BACKOFF_BASE \<le> b" "b \<le> BACKOFF_CAP"
  shows "BACKOFF_BASE \<le> after_session j l b \<and> after_session j l b \<le> BACKOFF_CAP \<and>
    (\<forall>w b'. next_backoff w b = Some b' \<longrightarrow> BACKOFF_BASE \<le> b' \<and> b' \<le> BACKOFF_CAP)"
  using assms by (auto simp: after_session_def next_backoff_def BACKOFF_BASE_def BACKOFF_CAP_def split: Waited.splits)

end
