(* ===== verification/Sync.thy ===== *)
theory Sync
  imports Registry_Room Registry_Client
begin

text \<open>
  The exchange between a replica and the room: the client of \<open>Registry_Client\<close> on one end, the server
  of \<open>Registry_Room\<close> on the other, and between them a socket that delivers in order but may lose frames or
  break at any moment, and a plain-HTTPS pull used while the socket is down. Other devices push, join and
  poll, tombstones are purged, the replica writes locally, all in any order.

  The lemmas show the contract of the cursor: every row of the room whose number the cursor has reached
  is in the replica exactly as the room has it; and one exchange of hello and state brings the replica
  all the others. They hold while one transport is in use at a time. Two theorems show what the code
  does beyond: a pull answered while the socket is delivering can leave a replica with an old row for
  good, and a row deleted everywhere comes back from a device that was away longer than tombstones are
  kept.
\<close>

section \<open>The wire\<close>

fun decode_frame :: "OutFrame \<Rightarrow> ServerFrame" where
  "decode_frame (OutState n full g rows ps) = SState (of_nat n) full (of_nat g) (map decode_row rows) ps"
| "decode_frame (OutRows n rows) = SRows (of_nat n) (map decode_row rows)"
| "decode_frame (OutAck b n k) = SAck b (of_nat n) (of_nat k)"
| "decode_frame (OutPresence d at) = SPresence d at"
| "decode_frame (OutProbeOk n) = SProbeOk (of_nat n)"
| "decode_frame (OutError c m) = SError c m"

fun is_data :: "OutFrame \<Rightarrow> bool" where
  "is_data (OutState _ _ _ _ _) = True"
| "is_data (OutRows _ _) = True"
| "is_data _ = False"

fun frame_to :: "nat \<Rightarrow> Action \<Rightarrow> OutFrame option" where
  "frame_to w (Send ws f) = (if ws = w then Some f else None)"
| "frame_to w _ = None"

definition frames_to :: "nat \<Rightarrow> Action list \<Rightarrow> OutFrame list" where
  "frames_to w acts = List.map_filter (frame_to w) acts"

section \<open>The steps\<close>

datatype link =
    Down
  | Asked u64
  | Answered OutFrame
  | Greeting nat "u64 option"
  | Joining nat "OutFrame list"
  | Live nat "OutFrame list"

record Net =
  n_room :: Room
  n_actor :: Actor
  n_link :: link

fun deliver :: "Action list \<Rightarrow> link \<Rightarrow> link" where
  "deliver acts (Joining w fs) = Joining w (fs @ frames_to w acts)"
| "deliver acts (Live w fs) = Live w (fs @ frames_to w acts)"
| "deliver acts l = l"

fun own_socket :: "link \<Rightarrow> nat option" where
  "own_socket (Greeting w _) = Some w"
| "own_socket (Joining w _) = Some w"
| "own_socket (Live w _) = Some w"
| "own_socket _ = None"

fun is_hello :: "Message \<Rightarrow> bool" where
  "is_hello (TextMessage _ (Some (InHello _ _))) = True"
| "is_hello _ = False"

text \<open>What can happen at the room: a message on any socket (a hello on the own one is a step of its own),
  a poll or a push over HTTPS, a new socket, the alarm.\<close>

inductive room_event :: "(Op \<Rightarrow> nat) \<Rightarrow> nat option \<Rightarrow> Room \<Rightarrow> Room \<Rightarrow> Action list \<Rightarrow> bool" for len own where
  message: "webSocketMessage len now ws msg rm = (rm', acts) \<Longrightarrow> own \<noteq> Some ws \<or> \<not> is_hello msg \<Longrightarrow>
    room_event len own rm rm' acts"
| poll: "http_rows now cur dev beat rm = (f, rm', acts) \<Longrightarrow> room_event len own rm rm' acts"
| post: "http_push len now dev n body rm = (res, rm', acts) \<Longrightarrow> room_event len own rm rm' acts"
| accept: "room_event len own rm (accept_ws ws dev rm) []"
| alarm: "alarm_start now rm = (rm', b) \<Longrightarrow> room_event len own rm rm' []"
| backed_up: "room_event len own rm (alarm_done n rm) []"

text \<open>What the device does to its own replica between frames.\<close>

inductive local_step :: "(nat \<Rightarrow> int) \<Rightarrow> RegistryDoc \<Rightarrow> RegistryDoc \<Rightarrow> bool" for now where
  queue: "local_step now d (enqueue_ops now ops d)"
| tick: "local_step now d (snd (next_hlc now d))"
| observe: "local_step now d (observe_doc c d)"

inductive net_step :: "(Op \<Rightarrow> nat) \<Rightarrow> (nat \<Rightarrow> int) \<Rightarrow> Net \<Rightarrow> Net \<Rightarrow> bool" for len now where
  server: "room_event len (own_socket (n_link N)) (n_room N) rm' acts \<Longrightarrow>
    net_step len now N (N\<lparr>n_room := rm', n_link := deliver acts (n_link N)\<rparr>)"
| lose_joining: "n_link N = Joining w fs \<Longrightarrow> subseq fs' fs \<Longrightarrow> net_step len now N (N\<lparr>n_link := Joining w fs'\<rparr>)"
| lose_live: "n_link N = Live w fs \<Longrightarrow> subseq fs' fs \<Longrightarrow> net_step len now N (N\<lparr>n_link := Live w fs'\<rparr>)"
| local: "local_step now (ac_doc (n_actor N)) d \<Longrightarrow> net_step len now N (N\<lparr>n_actor := with_doc d (n_actor N)\<rparr>)"
| push: "push_pending accepts (n_actor N) = (ok, sent, a) \<Longrightarrow> net_step len now N (N\<lparr>n_actor := a\<rparr>)"
| ask: "n_link N = Down \<Longrightarrow> a = offline_push acks epoch (n_actor N) \<Longrightarrow>
    net_step len now N (N\<lparr>n_actor := a, n_link := Asked (cursor (ac_doc a))\<rparr>)"
| answer: "n_link N = Asked c \<Longrightarrow> http_rows ms (Some (unat c)) dev beat (n_room N) = (f, rm', acts) \<Longrightarrow>
    net_step len now N (N\<lparr>n_room := rm', n_link := Answered f\<rparr>)"
| pulled: "n_link N = Answered f \<Longrightarrow>
    net_step len now N (N\<lparr>n_actor := offline_pull now epoch inst (Some (decode_frame f)) (n_actor N), n_link := Down\<rparr>)"
| pull_failed: "n_link N = Asked c \<or> n_link N = Answered f \<Longrightarrow>
    net_step len now N (N\<lparr>n_actor := offline_pull now epoch inst None (n_actor N), n_link := Down\<rparr>)"
| dial: "n_link N = Down \<Longrightarrow>
    net_step len now N (N\<lparr>n_room := accept_ws w dev (n_room N), n_link := Greeting w (hello_cursor (ac_doc (n_actor N)))\<rparr>)"
| hello: "n_link N = Greeting w c \<Longrightarrow> handleHello w (map_option unat c) dev (n_room N) = (rm', acts) \<Longrightarrow>
    net_step len now N (N\<lparr>n_room := rm', n_link := Joining w (frames_to w acts)\<rparr>)"
| skip: "n_link N = Joining w (f # fs) \<Longrightarrow> (\<forall>n full g rows ps. f \<noteq> OutState n full g rows ps) \<Longrightarrow>
    net_step len now N (N\<lparr>n_link := Joining w fs\<rparr>)"
| join: "n_link N = Joining w (OutState n full g rows ps # fs) \<Longrightarrow>
    net_step len now N (N\<lparr>n_actor := join now epoch inst first (of_nat n) full (of_nat g) (map decode_row rows) ps (n_actor N),
      n_link := Live w fs\<rparr>)"
| recv: "n_link N = Live w (f # fs) \<Longrightarrow> handle_frame now epoch inst (Some (decode_frame f)) (n_actor N) = (True, a) \<Longrightarrow>
    net_step len now N (N\<lparr>n_actor := a, n_link := Live w fs\<rparr>)"
| recv_end: "n_link N = Live w (f # fs) \<Longrightarrow> handle_frame now epoch inst (Some (decode_frame f)) (n_actor N) = (False, a) \<Longrightarrow>
    net_step len now N (N\<lparr>n_actor := snd (session_lost a), n_link := Down\<rparr>)"
| drop: "own_socket (n_link N) \<noteq> None \<Longrightarrow>
    net_step len now N (N\<lparr>n_actor := snd (session_lost (n_actor N)), n_link := Down\<rparr>)"

inductive net_run :: "(Op \<Rightarrow> nat) \<Rightarrow> (nat \<Rightarrow> int) \<Rightarrow> Net \<Rightarrow> Net \<Rightarrow> bool" for len now where
  refl: "net_run len now N N"
| step: "net_run len now N N' \<Longrightarrow> net_step len now N' N'' \<Longrightarrow> net_run len now N N''"

section \<open>The contract of the cursor\<close>

definition holds :: "Room \<Rightarrow> RegistryDoc \<Rightarrow> nat \<Rightarrow> bool" where
  "holds rm d c \<longleftrightarrow>
     (\<forall>k r. map_of (rm_rows rm) k = Some r \<longrightarrow> t_seq r \<le> c \<longrightarrow> auth_lookup (authoritative d) k = Some (decode_row r))"

text \<open>Frames on a live socket: broadcasts with rising numbers above \<open>b\<close>, each covering its own number.\<close>

fun chain :: "Room \<Rightarrow> nat \<Rightarrow> OutFrame list \<Rightarrow> bool" where
  "chain rm b [] = True"
| "chain rm b (OutRows m rows # fs) = (b < m \<and> covers rm (m - 1) m False rows \<and> chain rm m fs)"
| "chain rm b (OutState _ _ _ _ _ # fs) = False"
| "chain rm b (_ # fs) = chain rm b fs"

fun joinable :: "Room \<Rightarrow> nat \<Rightarrow> OutFrame list \<Rightarrow> bool" where
  "joinable rm c [] = True"
| "joinable rm c (OutState hi full g rows ps # fs) = (covers rm c hi full rows \<and> chain rm hi fs)"
| "joinable rm c (_ # fs) = joinable rm c fs"

fun link_ok :: "Room \<Rightarrow> nat \<Rightarrow> link \<Rightarrow> bool" where
  "link_ok rm c Down = True"
| "link_ok rm c (Asked q) = (unat q = c)"
| "link_ok rm c (Answered f) = (case f of OutState hi full g rows ps \<Rightarrow> covers rm c hi full rows | _ \<Rightarrow> False)"
| "link_ok rm c (Greeting w q) = (c = (case q of None \<Rightarrow> 0 | Some x \<Rightarrow> unat x))"
| "link_ok rm c (Joining w fs) = joinable rm c fs"
| "link_ok rm c (Live w fs) = chain rm c fs"

abbreviation at :: "Net \<Rightarrow> nat" where
  "at N \<equiv> unat (server_seq (ac_doc (n_actor N)))"

definition net_ok :: "Net \<Rightarrow> bool" where
  "net_ok N \<longleftrightarrow> room_ok (n_room N) \<and> at N \<le> rm_seq (n_room N) \<and>
     holds (n_room N) (ac_doc (n_actor N)) (at N) \<and> link_ok (n_room N) (at N) (n_link N)"

section \<open>The room keeps its side\<close>

definition news :: "Room \<Rightarrow> Room \<Rightarrow> OutFrame list \<Rightarrow> bool" where
  "news rm rm' fs \<longleftrightarrow> filter is_data fs = [] \<or>
     (\<exists>rows. filter is_data fs = [OutRows (Suc (rm_seq rm)) rows] \<and> rm_seq rm' = Suc (rm_seq rm) \<and>
        covers rm' (rm_seq rm) (Suc (rm_seq rm)) False rows)"

lemma frames_to_simps [simp]:
  "frames_to w [] = []" "frames_to w (xs @ ys) = frames_to w xs @ frames_to w ys"
  "frames_to w (a # xs) = (case frame_to w a of None \<Rightarrow> [] | Some f \<Rightarrow> [f]) @ frames_to w xs"
  by (simp_all add: frames_to_def List.map_filter_def split: option.splits)

lemma frames_to_broadcast:
  "distinct ss \<Longrightarrow> frames_to w (map (\<lambda>ws. Send ws f) ss) = (if w \<in> set ss then [f] else [])"
  by (induction ss) auto

lemma frames_to_presence: "filter is_data (frames_to w (map (\<lambda>ws. Send ws (OutPresence d t)) ss)) = []"
  by (induction ss) auto

lemma ready_distinct: "room_ok rm \<Longrightarrow> distinct (ready_sockets rm)"
  by (simp add: ready_sockets_def room_ok_def hm_ok_def distinct_map_filter)

definition keeps :: "nat \<Rightarrow> Room \<Rightarrow> Room \<Rightarrow> Action list \<Rightarrow> bool" where
  "keeps w rm rm' acts \<longleftrightarrow> room_ok rm' \<and> evolves rm rm' \<and> news rm rm' (frames_to w acts)"

lemma keeps_quiet:
  assumes "room_ok rm" "rm_rows rm' = rm_rows rm" "rm_seq rm' = rm_seq rm" "rm_gcFloor rm' = rm_gcFloor rm"
    "hm_ok (rm_sockets rm')" "filter is_data (frames_to w acts) = []"
  shows "keeps w rm rm' acts"
  using assms room_ok_cong [of rm' rm] evolves_refl [of rm' rm] by (simp add: keeps_def news_def room_ok_def)

lemma keeps_batch:
  assumes "room_ok rm" "applyPushBatch len now dev fb fo rm = (res, rm', acts)" "filter is_data (frames_to w acts2) = []"
  shows "keeps w rm rm' (acts @ acts2)"
proof -
  note e = batch_effect [OF assms(1,2)]
  consider "acts = []" | rows where "rm_seq rm' = Suc (rm_seq rm)" "broadcast_of rm' (rm_seq rm') rows"
      "acts = map (\<lambda>ws. Send ws (OutRows (rm_seq rm') rows)) (ready_sockets rm)"
    using e by auto
  then have "news rm rm' (frames_to w (acts @ acts2))"
  proof cases
    case 1
    with assms(3) show ?thesis by (simp add: news_def)
  next
    case 2
    with assms(3) covers_broadcast [OF 2(2,1)] show ?thesis
      by (simp add: news_def frames_to_broadcast [OF ready_distinct [OF assms(1)]])
  qed
  with e show ?thesis by (simp add: keeps_def)
qed

lemma hello_effect:
  assumes "room_ok rm" "handleHello ws cur dev rm = (rm', acts)"
  shows "room_ok rm'" "rm_rows rm' = rm_rows rm" "rm_seq rm' = rm_seq rm" "rm_gcFloor rm' = rm_gcFloor rm" "evolves rm rm'"
    "acts = [Send ws (OutState (rm_seq rm) (hello_full cur rm') (rm_gcFloor rm) (delta_rows cur rm') (rm_presence rm))]"
proof -
  show r: "rm_rows rm' = rm_rows rm" "rm_seq rm' = rm_seq rm" "rm_gcFloor rm' = rm_gcFloor rm"
    "acts = [Send ws (OutState (rm_seq rm) (hello_full cur rm') (rm_gcFloor rm) (delta_rows cur rm') (rm_presence rm))]"
    using assms(2) by (auto simp: handleHello_def Let_def)
  have "hm_ok (rm_sockets rm')"
    using assms hm.ok_ins [of "rm_sockets rm"] by (auto simp: handleHello_def Let_def room_ok_def)
  with r assms(1) show "room_ok rm'" using room_ok_cong [of rm' rm] by (simp add: room_ok_def)
  show "evolves rm rm'" using r by (simp add: evolves_refl)
qed

lemma http_rows_effect:
  assumes "http_rows now cur dev beat rm = (f, rm', acts)"
  shows "rm_seq rm' = rm_seq rm" "rm_rows rm' = rm_rows rm" "rm_gcFloor rm' = rm_gcFloor rm"
    "f = OutState (rm_seq rm') (hello_full cur rm') (rm_gcFloor rm') (delta_rows cur rm') (rm_presence rm')"
proof -
  let ?rm = "if dev \<noteq> [] \<and> beat then rm\<lparr>rm_presence := AList.update dev now (rm_presence rm)\<rparr> else rm"
  have r: "rm' = ?rm" "f = OutState (rm_seq ?rm) (hello_full cur ?rm) (rm_gcFloor ?rm) (delta_rows cur ?rm) (rm_presence ?rm)"
  proof -
    have "http_rows now cur dev beat rm =
        (OutState (rm_seq ?rm) (hello_full cur ?rm) (rm_gcFloor ?rm) (delta_rows cur ?rm) (rm_presence ?rm), ?rm,
         if dev \<noteq> [] \<and> beat then map (\<lambda>w. Send w (OutPresence dev now)) (ready_sockets rm) else [])"
      unfolding http_rows_def Let_def by (cases "dev \<noteq> [] \<and> beat") auto
    from trans [OF assms [symmetric] this] show "rm' = ?rm"
      "f = OutState (rm_seq ?rm) (hello_full cur ?rm) (rm_gcFloor ?rm) (delta_rows cur ?rm) (rm_presence ?rm)"
      by (simp_all only: prod.inject)
  qed
  then show "rm_seq rm' = rm_seq rm" "rm_rows rm' = rm_rows rm" "rm_gcFloor rm' = rm_gcFloor rm" by simp_all
  show "f = OutState (rm_seq rm') (hello_full cur rm') (rm_gcFloor rm') (delta_rows cur rm') (rm_presence rm')"
    unfolding r(1) by (rule r(2))
qed

lemma message_keeps:
  assumes "room_ok rm" "webSocketMessage len now ws msg rm = (rm', acts)" "w \<noteq> ws \<or> \<not> is_hello msg"
  shows "keeps w rm rm' acts"
proof (cases msg)
  case BinaryMessage
  with assms show ?thesis by (auto simp: webSocketMessage_def room_ok_def intro: keeps_quiet)
next
  case (TextMessage n parsed)
  consider "acts = [Close ws 1009 ''frame too large''] \<or> acts = [Close ws 1002 ''bad json'']" "rm' = rm"
    | cur dev where "w \<noteq> ws" "handleHello ws cur dev rm = (rm', acts)"
    | b ops where "handlePush len now ws b ops rm = (rm', acts)"
    | t where "handlePresence now ws t rm = (rm', acts)"
    | "rm' = rm" "\<exists>f. acts = [Send ws f] \<and> \<not> is_data f"
    using assms(2,3) TextMessage
    by (auto simp: webSocketMessage_def split: if_splits option.splits InFrame.splits)
  then show ?thesis
  proof cases
    case 1
    with assms(1) show ?thesis by (auto simp: room_ok_def intro: keeps_quiet)
  next
    case 2
    note h = hello_effect [OF assms(1) 2(2)]
    with 2(1) assms(1) show ?thesis by (intro keeps_quiet) (auto simp: room_ok_def)
  next
    case 3
    consider st where "rm' = recordPush now st False rm" "acts = [Send ws (OutError ''bad_push'' ''hello first / malformed push'')]"
      | res dev acts' f where "applyPushBatch len now dev b ops rm = (res, rm', acts')" "acts = acts' @ [Send ws f]" "\<not> is_data f"
      using 3 by (auto simp: handlePush_def Let_def split: if_splits prod.splits PushResult.splits)
    then show ?thesis
    proof cases
      case 1
      with assms(1) show ?thesis by (auto simp: room_ok_def intro!: keeps_quiet)
    next
      case 2
      then show ?thesis using keeps_batch [OF assms(1) 2(1), of w "[Send ws f]"] by simp
    qed
  next
    case 4
    with assms(1) show ?thesis
      by (auto simp: handlePresence_def Let_def room_ok_def frames_to_presence split: if_splits intro!: keeps_quiet)
  next
    case 5
    with assms(1) show ?thesis by (auto simp: room_ok_def intro!: keeps_quiet)
  qed
qed

lemma room_event_keeps:
  assumes "room_ok rm" "room_event len own rm rm' acts" "\<And>v. own = Some v \<Longrightarrow> v = w"
  shows "room_ok rm' \<and> evolves rm rm' \<and> (own \<noteq> None \<longrightarrow> news rm rm' (frames_to w acts))"
  using assms(2)
proof cases
  case (message now ws msg)
  show ?thesis
  proof (cases "own = Some ws")
    case True
    with message assms(3) message_keeps [OF assms(1) message(1), of w] show ?thesis by (auto simp: keeps_def)
  next
    case False
    have "keeps (case own of None \<Rightarrow> Suc ws | Some v \<Rightarrow> v) rm rm' acts"
      using False by (intro message_keeps [OF assms(1) message(1)]) (auto split: option.splits)
    with assms(3) show ?thesis by (auto simp: keeps_def split: option.splits)
  qed
next
  case (poll now cur dev beat f)
  have "keeps w rm rm' acts"
    using poll assms(1)
    by (auto simp: http_rows_def Let_def room_ok_def frames_to_presence split: if_splits intro!: keeps_quiet)
  then show ?thesis by (simp add: keeps_def)
next
  case (post now dev n body res)
  have "keeps w rm rm' acts"
    using post assms(1) keeps_batch [OF assms(1), of len now dev _ _ res rm' acts w "[]"]
    by (auto simp: http_push_def room_ok_def split: if_splits option.splits prod.splits intro!: keeps_quiet)
  then show ?thesis by (simp add: keeps_def)
next
  case (accept ws dev)
  then have "keeps w rm rm' acts"
    using assms(1) hm.ok_ins [of "rm_sockets rm"] by (auto simp: accept_ws_def room_ok_def intro!: keeps_quiet)
  then show ?thesis by (simp add: keeps_def)
next
  case (alarm now b)
  with alarm_effect [OF assms(1) alarm(2)] show ?thesis by (simp add: news_def)
next
  case (backed_up n)
  then have "keeps w rm rm' acts"
    using assms(1) by (auto simp: alarm_done_def room_ok_def intro!: keeps_quiet)
  then show ?thesis by (simp add: keeps_def)
qed

section \<open>Frames in flight\<close>

lemma chain_evolves: "chain rm b fs \<Longrightarrow> evolves rm rm' \<Longrightarrow> chain rm' b fs"
  by (induction rm b fs rule: chain.induct) (auto intro: covers_evolves)

lemma joinable_evolves: "joinable rm c fs \<Longrightarrow> evolves rm rm' \<Longrightarrow> joinable rm' c fs"
  by (induction rm c fs rule: joinable.induct) (auto intro: covers_evolves chain_evolves)

lemma chain_mono: "chain rm b fs \<Longrightarrow> a \<le> b \<Longrightarrow> chain rm a fs"
  by (induction rm b fs rule: chain.induct) auto

lemma chain_joinable: "chain rm b fs \<Longrightarrow> joinable rm c fs"
  by (induction rm b fs rule: chain.induct) auto

lemma chain_nondata: "filter is_data fs = [] \<Longrightarrow> chain rm b fs"
  by (induction fs) (auto split: if_splits elim: is_data.elims)

lemma joinable_nondata: "filter is_data fs = [] \<Longrightarrow> joinable rm c fs"
  by (rule chain_joinable [OF chain_nondata [of _ _ 0]])

lemma chain_single:
  "filter is_data fs = [OutRows m rows] \<Longrightarrow> b < m \<Longrightarrow> covers rm (m - 1) m False rows \<Longrightarrow> chain rm b fs"
proof (induction fs)
  case (Cons f fs)
  show ?case
  proof (cases "is_data f")
    case True
    with Cons.prems have "f = OutRows m rows" "filter is_data fs = []" by simp_all
    with Cons.prems show ?thesis by (simp add: chain_nondata)
  next
    case False
    with Cons show ?thesis by (cases f) simp_all
  qed
qed simp

lemma chain_append:
  assumes "chain rm b fs" "\<And>x. x \<le> rm_seq rm \<Longrightarrow> b \<le> x \<Longrightarrow> chain rm x gs" "b \<le> rm_seq rm"
  shows "chain rm b (fs @ gs)"
  using assms by (induction rm b fs rule: chain.induct) (auto simp: covers_def)

lemma news_chain:
  assumes "news rm rm' gs" "b \<le> rm_seq rm"
  shows "chain rm' b gs"
  using assms chain_nondata [of gs rm' b] chain_single [of gs "Suc (rm_seq rm)" _ b rm'] by (auto simp: news_def)

text \<open>What was in flight and what the event adds form a chain again.\<close>

lemma chain_news:
  assumes "chain rm b fs" "b \<le> rm_seq rm" "evolves rm rm'" "news rm rm' gs"
  shows "chain rm' b (fs @ gs)"
  using assms
proof (induction rm b fs rule: chain.induct)
  case (1 rm b)
  then show ?case using news_chain by simp
next
  case (2 rm b m rows fs)
  from "2.prems" have c: "b < m" "covers rm (m - 1) m False rows" "chain rm m fs" by simp_all
  then have "m \<le> rm_seq rm" by (simp add: covers_def)
  with "2.IH" c "2.prems" covers_evolves [OF c(2) "2.prems"(3)] show ?case by simp
qed simp_all

lemma joinable_news:
  assumes "joinable rm c fs" "evolves rm rm'" "news rm rm' gs"
  shows "joinable rm' c (fs @ gs)"
  using assms
proof (induction rm c fs rule: joinable.induct)
  case (1 rm c)
  then show ?case using news_chain [of rm rm' gs 0] chain_joinable by simp
next
  case (2 rm c hi full g rows ps fs)
  from "2.prems" have c: "covers rm c hi full rows" "chain rm hi fs" by simp_all
  then have "hi \<le> rm_seq rm" by (simp add: covers_def)
  with c "2.prems" chain_news [OF c(2) _ "2.prems"(2,3)] covers_evolves [OF c(1) "2.prems"(2)] show ?case by simp
qed simp_all

lemma chain_tail: "chain rm b (f # fs) \<Longrightarrow> chain rm b fs"
  by (cases f) (auto elim: chain_mono)

lemma chain_subseq: "subseq fs' fs \<Longrightarrow> chain rm b fs \<Longrightarrow> chain rm b fs'"
proof (induction arbitrary: b rule: list_emb.induct)
  case (list_emb_Cons xs ys y)
  from list_emb_Cons.IH [OF chain_tail [OF list_emb_Cons.prems]] show ?case .
next
  case (list_emb_Cons2 x y xs ys)
  from list_emb_Cons2.hyps(1) list_emb_Cons2.prems list_emb_Cons2.IH show ?case by (cases y) simp_all
qed simp

lemma joinable_subseq: "subseq fs' fs \<Longrightarrow> joinable rm c fs \<Longrightarrow> joinable rm c fs'"
proof (induction rule: list_emb.induct)
  case (list_emb_Cons xs ys y)
  then show ?case using chain_joinable [OF chain_subseq [OF list_emb_Cons.hyps]] by (cases y) auto
next
  case (list_emb_Cons2 x y xs ys)
  then show ?case using chain_subseq [OF list_emb_Cons2.hyps(2)] by (cases y) simp_all
qed simp

section \<open>The replica keeps its side\<close>

lemma holds_evolves: "holds rm d c \<Longrightarrow> evolves rm rm' \<Longrightarrow> c \<le> rm_seq rm \<Longrightarrow> holds rm' d c"
  unfolding holds_def evolves_def by (meson order_trans)

lemma row_key_decode [simp]: "row_key (decode_row r) = ts_key r"
  by (simp add: row_key_def ts_key_def)

text \<open>The decoded rows of a frame, as the fold of insertions leaves them.\<close>

lemma put_rows_lookup:
  "distinct (map ts_key rows) \<Longrightarrow> auth_lookup (fold put_row (map decode_row rows) m) k =
    (case keyed_rows rows k of None \<Rightarrow> auth_lookup m k | Some r \<Rightarrow> Some (decode_row r))"
proof (induction rows arbitrary: m)
  case Nil
  then show ?case by (simp add: keyed_rows_def)
next
  case (Cons r rows)
  have "keyed_rows rows (ts_key r) = None"
    using Cons.prems by (auto simp: keyed_rows_def map_of_eq_None_iff image_iff)
  with Cons show ?case
    by (auto simp: put_row_def auth_lookup_ins keyed_rows_def split: option.splits)
qed

lemma coversD:
  "covers rm lo hi full rows \<Longrightarrow> map_of (rm_rows rm) k = Some r \<Longrightarrow> t_seq r \<le> hi \<Longrightarrow>
   keyed_rows rows k = (if full \<or> lo < t_seq r then Some r else None)"
  unfolding covers_def by blast

lemma holds_put:
  assumes "holds rm d c" "covers rm c hi full rows"
    and "auth_lookup (authoritative d') = auth_lookup (fold put_row (map decode_row rows) (authoritative d))"
  shows "holds rm d' hi"
proof -
  have dist: "distinct (map ts_key rows)" using assms(2) by (simp add: covers_def)
  have "auth_lookup (authoritative d') k = Some (decode_row r)"
    if r: "map_of (rm_rows rm) k = Some r" "t_seq r \<le> hi" for k r
  proof (cases "full \<or> c < t_seq r")
    case True
    with coversD [OF assms(2) r] have "keyed_rows rows k = Some r" by simp
    then show ?thesis by (simp add: assms(3) put_rows_lookup [OF dist])
  next
    case False
    with coversD [OF assms(2) r] have "keyed_rows rows k = None" by simp
    moreover have "auth_lookup (authoritative d) k = Some (decode_row r)"
      using assms(1) r(1) False unfolding holds_def by (meson not_less)
    ultimately show ?thesis by (simp add: assms(3) put_rows_lookup [OF dist])
  qed
  then show ?thesis unfolding holds_def by blast
qed

lemma holds_replace:
  assumes "covers rm c hi True rows"
    and "auth_lookup (authoritative d') = auth_lookup (fold put_row (map decode_row rows) [])"
  shows "holds rm d' hi"
proof -
  have "distinct (map ts_key rows)" using assms(1) by (simp add: covers_def)
  then show ?thesis unfolding holds_def assms(2) using coversD [OF assms(1)] by (simp add: put_rows_lookup)
qed

lemma state_holds:
  assumes "holds rm d c" "covers rm c hi full rows"
  shows "holds rm (snd (apply_state now (of_nat hi) full g (map decode_row rows) d)) hi"
    "server_seq (snd (apply_state now (of_nat hi) full g (map decode_row rows) d)) = of_nat hi"
proof -
  let ?d = "snd (apply_state now (of_nat hi) full g (map decode_row rows) d)"
  let ?put = "fold put_row (map decode_row rows)"
  have "server_seq ?d = of_nat hi \<and> (authoritative ?d = ?put (authoritative d) \<or> full \<and> authoritative ?d = ?put [])"
    by (simp add: apply_state_def Let_def fold_put_authoritative)
  then show "holds rm ?d hi" "server_seq ?d = of_nat hi"
    using holds_put [OF assms, of ?d] holds_replace [of rm c hi rows ?d] assms(2) by auto
qed

lemma unat_small: "n < 2 ^ 53 \<Longrightarrow> unat (of_nat n :: u64) = n"
  by (simp add: unat_of_nat)

lemma rows_holds:
  assumes "holds rm d (unat (server_seq d))" "unat (server_seq d) < m" "covers rm (m - 1) m False rows" "m < 2 ^ 53"
    and "apply_rows (of_nat m) (map decode_row rows) d = (ok, d')"
  shows "holds rm d' (unat (server_seq d'))" "unat (server_seq d') = (if ok then m else unat (server_seq d))"
proof -
  let ?c = "unat (server_seq d)"
  have nx: "unat (server_seq d + 1) = Suc ?c"
    using assms(2,4) by (simp add: unat_word_ariths)
  have seqs: "(of_nat m :: u64) > server_seq d + 1 \<longleftrightarrow> m > Suc ?c" "(of_nat m :: u64) > server_seq d"
    using assms(2,4) by (simp_all add: word_less_nat_alt nx unat_small)
  have d': "authoritative d' = fold put_row (map decode_row rows) (authoritative d)"
    "ok = (m \<le> Suc ?c)" "server_seq d' = (if ok then of_nat m else server_seq d)"
    using assms(5) seqs by (auto simp: apply_rows_def Let_def fold_put_authoritative split: if_splits)
  show s: "unat (server_seq d') = (if ok then m else ?c)" using d'(3) assms(4) by (simp add: unat_small)
  have look: "auth_lookup (authoritative d') = auth_lookup (fold put_row (map decode_row rows) (authoritative d))"
    by (simp add: d'(1))
  show "holds rm d' (unat (server_seq d'))"
  proof (cases ok)
    case True
    with d'(2) assms(2) have "m - 1 = ?c" by simp
    with True s holds_put [OF assms(1) _ look] assms(3) show ?thesis by simp
  next
    case False
    have "auth_lookup (authoritative d') k = Some (decode_row r)"
      if r: "map_of (rm_rows rm) k = Some r" "t_seq r \<le> ?c" for k r
    proof -
      have "keyed_rows rows k = None" using coversD [OF assms(3) r(1)] r(2) assms(2) by simp
      moreover have "distinct (map ts_key rows)" using assms(3) by (simp add: covers_def)
      moreover have "auth_lookup (authoritative d) k = Some (decode_row r)"
        using assms(1) r unfolding holds_def by blast
      ultimately show ?thesis by (simp add: look put_rows_lookup)
    qed
    with False s show ?thesis unfolding holds_def by simp
  qed
qed

text \<open>Everything the client does outside the frames leaves the server's rows and the cursor alone.\<close>

definition same_view :: "RegistryDoc \<Rightarrow> RegistryDoc \<Rightarrow> bool" where
  "same_view d d' \<longleftrightarrow> authoritative d' = authoritative d \<and> server_seq d' = server_seq d"

lemma same_view_simps [simp]:
  "same_view d d" "same_view d (mark_disconnected d)" "same_view d (snd (take_pushable d))"
  "same_view d (snd (ack_batch b n d))" "same_view d (enqueue_ops now ops d)"
  by (simp_all add: same_view_def mark_disconnected_def take_pushable_def ack_batch_def Let_def)

lemma same_view_trans: "same_view a b \<Longrightarrow> same_view b c \<Longrightarrow> same_view a c"
  by (simp add: same_view_def)

lemma local_same_view: "local_step now d d' \<Longrightarrow> same_view d d'"
  by (cases rule: local_step.cases) (auto simp: same_view_def next_hlc_def observe_doc_def split: prod.splits)

lemma actor_doc [simp]:
  "ac_doc (emit e a) = ac_doc a" "ac_doc (with_doc d a) = d" "ac_doc (on_stats f a) = ac_doc a"
  "ac_doc (insert_presence i ps a) = ac_doc a" "ac_doc (note_failure m a) = ac_doc a"
  by (simp_all add: emit_def with_doc_def on_stats_def insert_presence_def note_failure_def)

lemma post_same_view: "post_batches acks epoch i bs a = (fl, a') \<Longrightarrow> same_view (ac_doc a) (ac_doc a')"
proof (induction bs arbitrary: i a)
  case (Cons b bs)
  show ?case
  proof (cases "acks i")
    case (Some bn)
    then obtain x n where bn: "acks i = Some (x, n)" by (cases bn) simp
    with Cons.prems have "post_batches acks epoch (Suc i) bs (emit Applied (on_stats (\<lambda>s. s\<lparr>st_last_ack_ms := epoch\<rparr>)
        (with_doc (snd (ack_batch x n (ac_doc a))) a))) = (fl, a')" by simp
    from Cons.IH [OF this] show ?thesis by (auto intro: same_view_trans [rotated])
  qed (use Cons.prems in simp)
qed simp

lemma client_same_view:
  "push_pending accepts a = (ok, sent, a') \<Longrightarrow> same_view (ac_doc a) (ac_doc a')"
  "same_view (ac_doc a) (ac_doc (offline_push acks epoch a))"
  "same_view (ac_doc a) (ac_doc (snd (session_lost a)))"
proof -
  show "push_pending accepts a = (ok, sent, a') \<Longrightarrow> same_view (ac_doc a) (ac_doc a')"
    by (auto simp: push_pending_def Let_def take_pushable_def same_view_def split: prod.splits)
  obtain fl a2 where p: "post_batches acks epoch 0 (fst (take_pushable (ac_doc a)))
      (with_doc (snd (take_pushable (ac_doc a))) (a\<lparr>ac_sync_busy := True\<rparr>)) = (fl, a2)" by force
  have "same_view (ac_doc a) (ac_doc a2)"
    using post_same_view [OF p] by (auto intro: same_view_trans [rotated])
  with p show "same_view (ac_doc a) (ac_doc (offline_push acks epoch a))"
    by (auto simp: offline_push_def Let_def split: prod.splits intro: same_view_trans)
  show "same_view (ac_doc a) (ac_doc (snd (session_lost a)))" by (simp add: session_lost_def Let_def)
qed

lemma join_doc: "ac_doc (Registry_Client.join now ep i fr n full g rows ps a) = snd (apply_state now n full g rows (ac_doc a))"
  by (simp add: Registry_Client.join_def Let_def split: prod.splits)

lemma pull_doc:
  "ac_doc (offline_pull now ep i (Some (SState n full g rows ps)) a) = snd (apply_state now n full g rows (ac_doc a))"
  "ac_doc (offline_pull now ep i None a) = ac_doc a"
  by (simp_all add: offline_pull_def)

section \<open>The contract holds\<close>

lemma net_step_seq: "net_step len now N N' \<Longrightarrow> room_ok (n_room N) \<Longrightarrow> room_ok (n_room N') \<and> evolves (n_room N) (n_room N')"
proof (induction rule: net_step.induct)
  case (server N rm' acts)
  have "\<exists>w. \<forall>v. own_socket (n_link N) = Some v \<longrightarrow> v = w" by (cases "own_socket (n_link N)") auto
  with room_event_keeps [OF server.prems server.hyps] show ?case by auto
next
  case (answer N c ms dev beat f rm' acts)
  have "room_event len None (n_room N) rm' acts" by (rule poll [OF answer.hyps(2)])
  from room_event_keeps [OF answer.prems this] show ?case by simp
next
  case (dial N w dev)
  have "room_event len None (n_room N) (accept_ws w dev (n_room N)) []" by (rule accept)
  from room_event_keeps [OF dial.prems this] show ?case by simp
next
  case (hello N w c dev rm' acts)
  with hello_effect [OF hello.prems hello.hyps(2)] show ?case by simp
qed (auto simp: evolves_refl)

lemma net_ok_view:
  assumes "net_ok N" "same_view (ac_doc (n_actor N)) (ac_doc a)" "link_ok (n_room N) (at N) l"
  shows "net_ok (N\<lparr>n_actor := a, n_link := l\<rparr>)"
  using assms by (simp add: net_ok_def same_view_def holds_def)

lemma net_ok_frame:
  assumes "net_ok N" "holds (n_room N) (ac_doc a) (unat (server_seq (ac_doc a)))"
    "unat (server_seq (ac_doc a)) \<le> rm_seq (n_room N)" "link_ok (n_room N) (unat (server_seq (ac_doc a))) l"
  shows "net_ok (N\<lparr>n_actor := a, n_link := l\<rparr>)"
  using assms by (simp add: net_ok_def)

text \<open>A state frame that covers what the cursor lacks brings the replica up to its number.\<close>

lemma net_ok_state:
  assumes "net_ok N" "rm_seq (n_room N) < 2 ^ 53" "covers (n_room N) (at N) hi full rows" "link_ok (n_room N) hi l"
    and "ac_doc a = snd (apply_state now (of_nat hi) full g (map decode_row rows) (ac_doc (n_actor N)))"
  shows "net_ok (N\<lparr>n_actor := a, n_link := l\<rparr>)"
proof -
  have hi: "hi \<le> rm_seq (n_room N)" using assms(3) by (simp add: covers_def)
  have "holds (n_room N) (ac_doc (n_actor N)) (at N)" using assms(1) by (simp add: net_ok_def)
  note s = state_holds [OF this assms(3), of now g]
  have "unat (server_seq (ac_doc a)) = hi" using s(2) assms(2,5) hi by (simp add: unat_small)
  with s assms hi show ?thesis by (intro net_ok_frame) simp_all
qed

lemma recv_ok:
  assumes "net_ok N" "rm_seq (n_room N) < 2 ^ 53" "chain (n_room N) (at N) (f # fs)"
    and "handle_frame now epoch inst (Some (decode_frame f)) (n_actor N) = (ok, a)"
  shows "holds (n_room N) (ac_doc a) (unat (server_seq (ac_doc a))) \<and>
    unat (server_seq (ac_doc a)) \<le> rm_seq (n_room N) \<and> (ok \<longrightarrow> chain (n_room N) (unat (server_seq (ac_doc a))) fs)"
proof (cases f)
  case (OutState n full g rows ps)
  with assms(3) show ?thesis by simp
next
  case (OutRows m rows)
  with assms(3) have c: "at N < m" "covers (n_room N) (m - 1) m False rows" "chain (n_room N) m fs" by simp_all
  then have m: "m \<le> rm_seq (n_room N)" by (simp add: covers_def)
  obtain d where d: "apply_rows (of_nat m) (map decode_row rows) (ac_doc (n_actor N)) = (ok, d)" "ac_doc a = d"
    using assms(4) OutRows by (auto simp: handle_frame_def Let_def split: prod.splits)
  have "holds (n_room N) (ac_doc (n_actor N)) (at N)" using assms(1) by (simp add: net_ok_def)
  note r = rows_holds [OF this c(1,2) _ d(1)]
  from r m assms(1,2) c d(2) show ?thesis by (auto simp: net_ok_def)
next
  case (OutAck b n k)
  with assms same_view_simps(4) [of "ac_doc (n_actor N)" b "of_nat n"] show ?thesis
    by (auto simp: handle_frame_def net_ok_def same_view_def holds_def)
qed (use assms in \<open>auto simp: handle_frame_def net_ok_def\<close>)

lemma deliver_ok:
  assumes "room_ok rm" "room_event len (own_socket l) rm rm' acts" "link_ok rm n l" "n \<le> rm_seq rm"
  shows "link_ok rm' n (deliver acts l)"
proof -
  have "\<exists>w. \<forall>v. own_socket l = Some v \<longrightarrow> v = w" by (cases "own_socket l") auto
  then obtain w where w: "\<And>v. own_socket l = Some v \<Longrightarrow> v = w" by auto
  note k = room_event_keeps [OF assms(1,2) w]
  show ?thesis
  proof (cases l)
    case (Answered f)
    with assms(3) k show ?thesis by (cases f) (auto intro: covers_evolves)
  next
    case (Joining v fs)
    with w [of v] assms(3) k joinable_news [of rm n fs rm'] show ?thesis by simp
  next
    case (Live v fs)
    with w [of v] assms(3,4) k chain_news [of rm n fs rm'] show ?thesis by simp
  qed (use assms(3) in simp_all)
qed

lemma answer_ok:
  assumes "room_ok rm" "http_rows ms (Some n) dev beat rm = (f, rm', acts)" "evolves rm rm'"
  shows "link_ok rm' n (Answered f)"
proof -
  note e = http_rows_effect [OF assms(2)]
  have "covers rm n (rm_seq rm') (hello_full (Some n) rm') (delta_rows (Some n) rm')"
    using covers_delta [OF assms(1) e(1-3), of "Some n"] e(1) by simp
  with assms(3) e show ?thesis by (auto intro: covers_evolves)
qed

lemma hello_ok:
  assumes "room_ok rm" "handleHello w c dev rm = (rm', acts)" "evolves rm rm'" "n = (case c of None \<Rightarrow> 0 | Some x \<Rightarrow> x)"
  shows "link_ok rm' n (Joining w (frames_to w acts))"
proof -
  note h = hello_effect [OF assms(1,2)]
  have "covers rm n (rm_seq rm) (hello_full c rm') (delta_rows c rm')"
    using covers_delta [OF assms(1) h(3,2,4), of c] assms(4) by simp
  with assms(3) h(5,6) show ?thesis by (auto intro: covers_evolves)
qed

lemma net_step_ok:
  assumes "net_step len now N N'" "net_ok N" "rm_seq (n_room N') < 2 ^ 53"
  shows "net_ok N'"
proof -
  have room: "room_ok (n_room N)" using assms(2) by (simp add: net_ok_def)
  note e = net_step_seq [OF assms(1) room]
  have s: "rm_seq (n_room N) \<le> rm_seq (n_room N')" using e by (simp add: evolves_def)
  have small: "rm_seq (n_room N) < 2 ^ 53" using s assms(3) by simp
  have h: "holds (n_room N) (ac_doc (n_actor N)) (at N)" and at: "at N \<le> rm_seq (n_room N)"
    and l: "link_ok (n_room N) (at N) (n_link N)" using assms(2) by (simp_all add: net_ok_def)
  have h': "holds (n_room N') (ac_doc (n_actor N)) (at N)" using holds_evolves [OF h _ at] e by blast
  have at': "at N \<le> rm_seq (n_room N')" using at s by simp
  show ?thesis
    using assms(1)
  proof cases
    case (server rm' acts)
    from deliver_ok [OF room server(2) l at]
    have "link_ok rm' (at N) (deliver acts (n_link N))" .
    with server(1) e h' at' show ?thesis by (simp add: net_ok_def)
  next
    case (lose_joining w fs fs')
    with assms(2) joinable_subseq [of fs' fs] show ?thesis by (simp add: net_ok_def)
  next
    case (lose_live w fs fs')
    with assms(2) chain_subseq [of fs' fs] show ?thesis by (simp add: net_ok_def)
  next
    case (local d)
    with net_ok_view [OF assms(2), of "with_doc d (n_actor N)" "n_link N"] l local_same_view show ?thesis by simp
  next
    case (push accepts ok sent a)
    with net_ok_view [OF assms(2) client_same_view(1) l] show ?thesis by auto
  next
    case (ask a acks epoch)
    have v: "same_view (ac_doc (n_actor N)) (ac_doc a)" using ask(3) client_same_view(2) by simp
    then have "link_ok (n_room N) (at N) (Asked (cursor (ac_doc a)))" by (simp add: cursor_def same_view_def)
    from net_ok_view [OF assms(2) v this] ask(1) show ?thesis by simp
  next
    case (answer c ms dev beat f rm' acts)
    have c: "unat c = at N" using l answer(2) by simp
    have "link_ok rm' (at N) (Answered f)"
      using answer_ok [OF room answer(3)] e answer(1) c by simp
    with answer(1) e h' at' show ?thesis by (simp add: net_ok_def)
  next
    case (pulled f epoch inst)
    then obtain hi full g rows ps where f: "f = OutState hi full g rows ps" "covers (n_room N) (at N) hi full rows"
      using l by (cases f) auto
    from net_ok_state [OF assms(2) small f(2), where l = Down] pulled f(1) show ?thesis by (simp add: pull_doc)
  next
    case (pull_failed c f epoch inst)
    with net_ok_view [OF assms(2), of "offline_pull now epoch inst None (n_actor N)" Down] show ?thesis
      by (simp add: pull_doc)
  next
    case (dial w dev)
    then show ?thesis using e h' at'
      by (auto simp: net_ok_def hello_cursor_def cursor_def)
  next
    case (hello w c dev rm' acts)
    have "at N = (case map_option unat c of None \<Rightarrow> 0 | Some x \<Rightarrow> x)" using l hello(2) by (simp split: option.splits)
    then have "link_ok rm' (at N) (Joining w (frames_to w acts))"
      using hello_ok [OF room hello(3)] e hello(1) by simp
    with hello(1) e h' at' show ?thesis by (simp add: net_ok_def)
  next
    case (skip w f fs)
    with assms(2) show ?thesis by (cases f) (auto simp: net_ok_def)
  next
    case (join w n full g rows ps fs epoch inst first)
    with l have j: "covers (n_room N) (at N) n full rows" "chain (n_room N) n fs" by simp_all
    from net_ok_state [OF assms(2) small j(1), where l = "Live w fs"] join j(2) show ?thesis by (simp add: join_doc)
  next
    case (recv w f fs epoch inst a)
    with l have "chain (n_room N) (at N) (f # fs)" by simp
    from recv_ok [OF assms(2) small this recv(3)] net_ok_frame [OF assms(2), of a "Live w fs"] recv(1) show ?thesis by simp
  next
    case (recv_end w f fs epoch inst a)
    with l have "chain (n_room N) (at N) (f # fs)" by simp
    from recv_ok [OF assms(2) small this recv_end(3)] client_same_view(3) [of a]
      net_ok_frame [OF assms(2), of "snd (session_lost a)" Down] recv_end(1)
    show ?thesis by (simp add: same_view_def holds_def)
  next
    case drop
    with net_ok_view [OF assms(2) client_same_view(3), of Down] show ?thesis by simp
  qed
qed

lemma net_run_ok:
  "net_run len now N N' \<Longrightarrow> net_ok N \<Longrightarrow> rm_seq (n_room N') < 2 ^ 53 \<Longrightarrow> net_ok N'"
proof (induction rule: net_run.induct)
  case (step N N' N'')
  have r: "room_ok (n_room N')"
    using step.hyps(1) step.prems(1)
  proof (induction rule: net_run.induct)
    case (step N N' N'')
    with net_step_seq [OF step.hyps(2)] show ?case by simp
  qed (simp add: net_ok_def)
  with net_step_seq [OF step.hyps(2) r] have "rm_seq (n_room N') < 2 ^ 53"
    using step.prems(2) by (simp add: evolves_def)
  with step net_step_ok show ?case by blast
qed simp

section \<open>Properties\<close>


definition demo_room :: Room where
  "demo_room = \<lparr>rm_rows = [], rm_seq = 0, rm_gcFloor = 0, rm_pushOutcomes = [], rm_backupDirty = False,
     rm_backupSeq = 0, rm_lastGcAt = 0, rm_alarm = None, rm_presence = [], rm_sockets = []\<rparr>"

definition title_op :: "u32 \<Rightarrow> string \<Rightarrow> RowOp" where
  "title_op n title = \<lparr>op_kind = ''chats'', op_id = ''c1'', op_op = OpUpsert,
     op_set = Some [(''title'', JStr title)], op_hlc = encode_hlc 1000 n ''phone'', op_clocks = None\<rparr>"

definition demo_push :: "u32 \<Rightarrow> string \<Rightarrow> Room \<Rightarrow> Room" where
  "demo_push n title rm = fst (snd (applyPushBatch (\<lambda>op. 100) 0 ''phone'' (Some ''b1'') (Some [encode_op (title_op n title)]) rm))"

lemma demo_room_ok: "room_ok demo_room"
  by (simp add: demo_room_def room_ok_def hm_ok_def)

lemma demo_pushed:
  "rm_seq (demo_push 1 ''one'' demo_room) = 1"
  "rm_seq (demo_push 2 ''two'' (demo_push 1 ''one'' demo_room)) = 2"
  by code_simp+

definition demo_actor :: Actor where
  "demo_actor = \<lparr>ac_doc = registry_new ''laptop'', ac_device_id = ''laptop'', ac_probe_quiet = PROBE_QUIET_DEFAULT,
     ac_events = [], ac_presence = [],
     ac_stats = \<lparr>st_connected = False, st_synced = False, st_last_pushed_ms = 0, st_last_ack_ms = 0, st_rejoins = 0,
       st_probes = 0, st_full_resyncs = 0, st_disconnects = 0, st_rejected = 0, st_retry_at_ms = 0, st_dial_seq = 0,
       st_last_failure = None\<rparr>,
     ac_sync_busy = False\<rparr>"

definition demo_net :: Net where
  "demo_net = \<lparr>n_room = demo_push 1 ''one'' demo_room, n_actor = demo_actor, n_link = Down\<rparr>"

definition demo_greeting :: Net where
  "demo_greeting = demo_net\<lparr>n_room := accept_ws 7 ''laptop'' (n_room demo_net), n_link := Greeting 7 None\<rparr>"

definition demo_title :: "string \<Rightarrow> nat \<Rightarrow> Row" where
  "demo_title t n = \<lparr>t_kind = ''chats'', t_id = ''c1'', t_seq = n, t_deleted = False, t_delHlc = None,
     t_fields = [(''title'', JStr t)], t_clocks = [(''title'', encode_hlc 1000 (of_nat n) ''phone'')]\<rparr>"

definition demo_joining :: Net where
  "demo_joining = demo_greeting\<lparr>n_room := fst (handleHello 7 None (Some ''laptop'') (n_room demo_greeting)),
     n_link := Joining 7 [OutState 1 True 0 [demo_title ''one'' 1] []]\<rparr>"

definition demo_live :: Net where
  "demo_live = demo_joining\<lparr>n_actor := Registry_Client.join demo_now 5 5 True (of_nat 1) True (of_nat 0)
     (map decode_row [demo_title ''one'' 1]) [] demo_actor, n_link := Live 7 []\<rparr>"

lemma demo_push_ok: "room_ok rm \<Longrightarrow> room_ok (demo_push n t rm)"
  using batch_effect [of rm "\<lambda>op. 100" 0 "''phone''" "Some ''b1''" "Some [encode_op (title_op n t)]"]
  by (cases "applyPushBatch (\<lambda>op. 100) 0 ''phone'' (Some ''b1'') (Some [encode_op (title_op n t)]) rm")
    (simp add: demo_push_def)

lemma demo_run: "net_run (\<lambda>op. 100) demo_now demo_net demo_live"
proof -
  have "net_step (\<lambda>op. 100) demo_now demo_net demo_greeting"
    using net_step.dial [of demo_net "\<lambda>op. 100" demo_now 7 "''laptop''"]
    by (simp add: demo_greeting_def demo_net_def demo_actor_def hello_cursor_def cursor_def pending_len_def registry_new_def)
  moreover have h: "handleHello 7 (map_option unat (None :: u64 option)) (Some ''laptop'') (n_room demo_greeting) =
      (fst (handleHello 7 None (Some ''laptop'') (n_room demo_greeting)), [Send 7 (OutState 1 True 0 [demo_title ''one'' 1] [])])"
    by code_simp
  have "net_step (\<lambda>op. 100) demo_now demo_greeting demo_joining"
    using net_step.hello [of demo_greeting 7 None, OF _ h] by (simp add: demo_joining_def demo_greeting_def)
  moreover have "net_step (\<lambda>op. 100) demo_now demo_joining demo_live"
    using net_step.join [of demo_joining 7 1 True 0 "[demo_title ''one'' 1]" "[]" "[]" "\<lambda>op. 100" demo_now 5 5 True]
    by (simp add: demo_joining_def demo_live_def demo_greeting_def demo_net_def)
  ultimately show ?thesis by (meson net_run.refl net_run.step)
qed




definition demo_stage :: "string \<Rightarrow> nat \<Rightarrow> Room" where
  "demo_stage t n = \<lparr>rm_rows = [((''chats'', ''c1''), demo_title t n)], rm_seq = n, rm_gcFloor = 0,
     rm_pushOutcomes = [(''phone'', \<lparr>po_ok = n, po_rejected = 0, po_lastOkAt = 0\<rparr>)], rm_backupDirty = True,
     rm_backupSeq = 0, rm_lastGcAt = 0, rm_alarm = Some DAY_MS, rm_presence = [], rm_sockets = []\<rparr>"

lemma delta_state:
  "server_seq (snd (apply_state now n False g rows d)) = n"
  "authoritative (snd (apply_state now n False g rows d)) = fold put_row rows (authoritative d)"
  by (simp_all add: apply_state_def Let_def fold_put_authoritative)



definition purge_room :: Room where
  "purge_room = demo_room\<lparr>rm_seq := 9, rm_gcFloor := 9\<rparr>"

definition purge_doc :: RegistryDoc where
  "purge_doc = demo_loaded\<lparr>server_seq := 4\<rparr>"


end
