(* ===== verification/Text.thy ===== *)
theory Text
  imports Prelude
begin

text \<open>
  Text as the transcript code handles it: lines (\<^verbatim>\<open>str::lines\<close>), UTF-8 character boundaries and counts
  (\<^verbatim>\<open>is_char_boundary\<close>, \<^verbatim>\<open>chars().count()\<close>, \<^verbatim>\<open>char_indices\<close>), and the facts about trimming the components
  share. A string is its bytes; a byte from 128 to 191 continues the character before it.
\<close>

section \<open>Lines\<close>

definition nl :: char where "nl = CHR 0x0A"
definition cr :: char where "cr = CHR 0x0D"

text \<open>\<^verbatim>\<open>split_inclusive\<close> at line feeds; a last line without one is kept when it is not empty.\<close>

fun split_inclusive :: "string \<Rightarrow> string list" where
  "split_inclusive [] = []"
| "split_inclusive (c # cs) =
     (if c = nl then [c] # split_inclusive cs
      else case split_inclusive cs of [] \<Rightarrow> [[c]] | l # ls \<Rightarrow> (c # l) # ls)"

definition strip_eol :: "string \<Rightarrow> string" where
  "strip_eol l =
     (if l \<noteq> [] \<and> last l = nl then
        let m = butlast l in if m \<noteq> [] \<and> last m = cr then butlast m else m
      else l)"

definition str_lines :: "string \<Rightarrow> string list" where
  "str_lines s = map strip_eol (split_inclusive s)"

text \<open>\<^verbatim>\<open>join\<close> with a separator.\<close>

fun join_with :: "string \<Rightarrow> string list \<Rightarrow> string" where
  "join_with sep [] = []"
| "join_with sep [x] = x"
| "join_with sep (x # xs) = x @ sep @ join_with sep xs"

section \<open>Characters\<close>

definition is_cont :: "char \<Rightarrow> bool" where
  "is_cont c \<longleftrightarrow> 128 \<le> (of_char c :: nat) \<and> (of_char c :: nat) < 192"

definition is_char_boundary :: "string \<Rightarrow> nat \<Rightarrow> bool" where
  "is_char_boundary s i \<longleftrightarrow> i = 0 \<or> i = length s \<or> i < length s \<and> \<not> is_cont (s ! i)"

definition chars_count :: "string \<Rightarrow> nat" where
  "chars_count s = length (filter (\<lambda>c. \<not> is_cont c) s)"

text \<open>The bytes before the character number \<open>n\<close>.\<close>

fun take_chars :: "nat \<Rightarrow> string \<Rightarrow> string" where
  "take_chars n [] = []"
| "take_chars n (c # cs) =
     (if is_cont c then c # take_chars n cs
      else case n of 0 \<Rightarrow> [] | Suc m \<Rightarrow> c # take_chars m cs)"

text \<open>Stepping an offset back to a character boundary.\<close>

fun floor_boundary :: "string \<Rightarrow> nat \<Rightarrow> nat" where
  "floor_boundary s 0 = 0"
| "floor_boundary s (Suc i) = (if is_char_boundary s (Suc i) then Suc i else floor_boundary s i)"

text \<open>No character has more than three continuation bytes.\<close>

definition short_chars :: "string \<Rightarrow> bool" where
  "short_chars s \<longleftrightarrow> (\<forall>i < length s. i + 3 < length s \<longrightarrow> (\<exists>j < 4. \<not> is_cont (s ! (i + j))))"

lemma chars_count_simps [simp]:
  "chars_count [] = 0"
  "chars_count (c # cs) = (if is_cont c then 0 else 1) + chars_count cs"
  "chars_count (xs @ ys) = chars_count xs + chars_count ys"
  by (simp_all add: chars_count_def)

lemma chars_count_take_chars: "chars_count (take_chars n s) \<le> n"
  by (induction n s rule: take_chars.induct) (auto split: nat.splits)

lemma prefix_take_chars: "prefix (take_chars n s) s"
  by (induction n s rule: take_chars.induct) (auto split: nat.splits)

lemma take_chars_all: "chars_count s \<le> n \<Longrightarrow> take_chars n s = s"
  by (induction n s rule: take_chars.induct) (auto split: nat.splits if_splits)

lemma boundary_0 [simp]: "is_char_boundary s 0" and boundary_length [simp]: "is_char_boundary s (length s)"
  by (simp_all add: is_char_boundary_def)

lemma floor_boundary_le: "floor_boundary s i \<le> i"
  by (induction i) auto

lemma floor_boundary_ok: "is_char_boundary s (floor_boundary s i)"
  by (induction i) auto

lemma floor_boundary_greatest: "is_char_boundary s j \<Longrightarrow> j \<le> i \<Longrightarrow> j \<le> floor_boundary s i"
  by (induction i) (auto simp: le_Suc_eq)

lemma floor_boundary_id: "is_char_boundary s i \<Longrightarrow> floor_boundary s i = i"
  by (cases i) auto

lemma short_charsD:
  assumes "short_chars s" "i + 3 < length s"
  shows "\<exists>j. i \<le> j \<and> j < i + 4 \<and> is_char_boundary s j"
proof -
  have "i < length s" using assms(2) by simp
  with assms obtain j where j: "j < 4" "\<not> is_cont (s ! (i + j))" unfolding short_chars_def by blast
  with assms(2) have "is_char_boundary s (i + j)" by (simp add: is_char_boundary_def)
  with j show ?thesis by (intro exI [of _ "i + j"]) simp
qed

lemma floor_boundary_near:
  assumes "short_chars s" "i < length s" "3 \<le> i"
  shows "i - 3 \<le> floor_boundary s i"
proof -
  obtain j where "i - 3 \<le> j" "j < i - 3 + 4" "is_char_boundary s j"
    using short_charsD [OF assms(1), of "i - 3"] assms(2,3) by auto
  with floor_boundary_greatest [of s j i] assms(3) show ?thesis by linarith
qed

lemma split_inclusive_concat: "concat (split_inclusive s) = s"
  by (induction s rule: split_inclusive.induct) (auto split: list.splits)

section \<open>Trimming\<close>

lemma starting_None: "starting ws s = None \<longleftrightarrow> (\<forall>w \<in> set ws. \<not> prefix w s)"
  by (auto simp: starting_def find_None_iff)

lemma strip_starting_stops: "[] \<notin> set ws \<Longrightarrow> starting ws (strip_starting ws s) = None"
proof (induction ws s rule: strip_starting.induct)
  case (1 ws s)
  show ?case
  proof (cases "starting ws s")
    case None
    then show ?thesis by (simp add: strip_starting.simps)
  next
    case (Some w)
    then have "w \<in> set ws" by (auto simp: starting_def find_Some_iff)
    with 1 Some show ?thesis by (subst strip_starting.simps) auto
  qed
qed

lemma strip_starting_id: "starting ws s = None \<Longrightarrow> strip_starting ws s = s"
  by (subst strip_starting.simps) simp

lemma strip_starting_suffix: "suffix (strip_starting ws s) s"
proof (induction ws s rule: strip_starting.induct)
  case (1 ws s)
  then show ?case
    by (subst strip_starting.simps) (auto split: option.splits intro: suffix_order.trans suffix_drop)
qed

lemma ws_nonempty: "[] \<notin> set ws_encodings" "[] \<notin> set (map rev ws_encodings)"
  by (auto simp: ws_encodings_def)

lemma prefix_trim_end: "prefix (trim_end s) s"
  using strip_starting_suffix [of "map rev ws_encodings" "rev s"] by (simp add: trim_end_def suffix_to_prefix)

lemma trim_end_idem: "trim_end (trim_end s) = trim_end s"
  by (simp add: trim_end_def strip_starting_id strip_starting_stops [OF ws_nonempty(2)])

lemma trim_start_trim: "trim_start (trim s) = trim s"
  unfolding trim_start_def
proof (rule strip_starting_id, unfold starting_None, intro ballI notI)
  fix w assume w: "w \<in> set ws_encodings" "prefix w (trim s)"
  have "starting ws_encodings (trim_start s) = None"
    unfolding trim_start_def by (rule strip_starting_stops [OF ws_nonempty(1)])
  moreover have "prefix w (trim_start s)"
    using w(2) prefix_trim_end [of "trim_start s"] by (auto simp: trim_def intro: prefix_order.trans)
  ultimately show False using w(1) by (auto simp: starting_None)
qed

lemma trim_idem [simp]: "trim (trim s) = trim s"
proof -
  have "trim (trim s) = trim_end (trim_start (trim s))" by (simp only: trim_def)
  also have "\<dots> = trim_end (trim s)" by (simp only: trim_start_trim)
  finally show ?thesis by (simp only: trim_def trim_end_idem)
qed

text \<open>A string that neither starts nor ends with white space is its own trimming.\<close>

lemma trim_noop:
  "starting ws_encodings s = None \<Longrightarrow> starting (map rev ws_encodings) (rev s) = None \<Longrightarrow> trim s = s"
  by (simp add: trim_def trim_start_def trim_end_def strip_starting_id)

text \<open>Printable ASCII at both ends is not trimmed.\<close>

definition graphic :: "char \<Rightarrow> bool" where
  "graphic c \<longleftrightarrow> 32 < (of_char c :: nat) \<and> (of_char c :: nat) < 128"

lemma ws_not_graphic: "w \<in> set ws_encodings \<Longrightarrow> w \<noteq> [] \<and> \<not> graphic (hd w) \<and> \<not> graphic (last w)"
  by (auto simp: ws_encodings_def graphic_def of_char_of)

lemma prefix_hd: "prefix w s \<Longrightarrow> w \<noteq> [] \<Longrightarrow> hd w = hd s"
  by (auto simp: prefix_def)

lemma trim_start_graphic: "s \<noteq> [] \<Longrightarrow> graphic (hd s) \<Longrightarrow> trim_start s = s"
  unfolding trim_start_def
  by (rule strip_starting_id) (use ws_not_graphic prefix_hd in \<open>force simp: starting_None\<close>)

lemma trim_graphic:
  assumes "s \<noteq> []" "graphic (hd s)" "graphic (last s)"
  shows "trim s = s"
proof -
  have "starting (map rev ws_encodings) (rev s) = None"
    unfolding starting_None
  proof (intro ballI notI)
    fix r assume "r \<in> set (map rev ws_encodings)" and p: "prefix r (rev s)"
    then obtain w where w: "w \<in> set ws_encodings" "r = rev w" by auto
    from ws_not_graphic [OF w(1)] have n: "w \<noteq> []" "\<not> graphic (last w)" by simp_all
    from prefix_hd [OF p] n(1) w(2) assms(1) have "last w = last s" by (simp add: hd_rev)
    with n(2) assms(3) show False by simp
  qed
  then show ?thesis
    using assms(1,2) by (simp add: trim_def trim_end_def trim_start_graphic strip_starting_id)
qed

end
