(* ===== verification/Parts.thy ===== *)
theory Parts
  imports Agent Text
begin

text \<open>
  The parts of a message (\<^verbatim>\<open>src/crates/doc/src/parts.rs\<close>): the fold of agent events into parts, the
  sidecar keys, the privacy policy that strips tool inputs, the summary of a tool output, and the
  splitting of oversized messages into continuations.

  \<^verbatim>\<open>usize\<close> lengths of byte strings in memory are natural numbers. Arguments of the model are the line
  differ of the \<^verbatim>\<open>similar\<close> crate and the lengths of values as serde serializes them.
\<close>

section \<open>Summaries\<close>

definition TOOL_OUTPUT_SUMMARY_MAX :: nat where "TOOL_OUTPUT_SUMMARY_MAX = 160"
definition MSG_INLINE_MAX :: nat where "MSG_INLINE_MAX = 256 * 1024"

text \<open>The ellipsis in UTF-8.\<close>

definition ellipsis :: string where
  "ellipsis = map (char_of :: nat \<Rightarrow> char) [0xE2, 0x80, 0xA6]"

definition is_fence :: "string \<Rightarrow> bool" where
  "is_fence l \<longleftrightarrow> prefix (replicate 3 (CHR 0x60)) (trim_start l)"

definition summarize_tool_output :: "string \<Rightarrow> string option" where
  "summarize_tool_output text =
     (let kept = filter (\<lambda>l. \<not> is_fence l) (str_lines text);
          stripped = trim (join_with [nl] kept)
      in if stripped = [] then None
         else if chars_count stripped \<le> TOOL_OUTPUT_SUMMARY_MAX then Some stripped
         else
           let line = trim_end (case find (\<lambda>l. trim l \<noteq> []) (str_lines stripped) of None \<Rightarrow> stripped | Some l \<Rightarrow> l)
           in Some (take_chars TOOL_OUTPUT_SUMMARY_MAX line @ ellipsis))"

datatype ChangeTag = TagEqual | TagInsert | TagDelete

definition diff_stat :: "(string \<Rightarrow> string \<Rightarrow> ChangeTag list) \<Rightarrow> ToolDiff \<Rightarrow> ToolDiffStat" where
  "diff_stat changes d =
     (let (additions, deletions) =
        (case td_old_text d of
           None \<Rightarrow> (of_nat (length (str_lines (td_new_text d))), 0)
         | Some old \<Rightarrow>
             fold (\<lambda>tag (a, k). case tag of TagInsert \<Rightarrow> (a + 1, k) | TagDelete \<Rightarrow> (a, k + 1) | TagEqual \<Rightarrow> (a, k))
               (changes old (td_new_text d)) (0, 0))
      in \<lparr>tds_path = td_path d, tds_additions = additions, tds_deletions = deletions\<rparr>)"

section \<open>Parts\<close>

datatype MessageStatus = Streaming | Complete | Aborted
datatype SubagentStatus = SubRunning | SubDone | SubFailed

record ToolPart =
  tp_id :: string
  tp_call :: ToolCall
  tp_is_error :: bool
  tp_resolved :: bool
  tp_output :: "string option"
  tp_diff :: "ToolDiff option"
  tp_output_ref :: "string option"
  tp_output_bytes :: "u64 option"
  tp_diff_ref :: "string option"
  tp_diff_stats :: "ToolDiffStat list option"
  tp_subagent_ref :: "string option"
  tp_subagent_status :: "SubagentStatus option"
  tp_subagent_tail :: "string option"

datatype MessagePart =
    PText string string
  | PImage string string string string
  | PReasoning string string
  | PTool ToolPart
  | PInput string string "UserInputQuestion list" bool
  | PError string string

fun part_id :: "MessagePart \<Rightarrow> string" where
  "part_id (PText ident _) = ident"
| "part_id (PImage ident _ _ _) = ident"
| "part_id (PReasoning ident _) = ident"
| "part_id (PTool t) = tp_id t"
| "part_id (PInput ident _ _ _) = ident"
| "part_id (PError ident _) = ident"

record SerLen =
  len_call :: "ToolCall \<Rightarrow> nat"
  len_diff :: "ToolDiff \<Rightarrow> nat"
  len_stats :: "ToolDiffStat list \<Rightarrow> nat"
  len_questions :: "UserInputQuestion list \<Rightarrow> nat"

fun map_or :: "'b \<Rightarrow> ('a \<Rightarrow> 'b) \<Rightarrow> 'a option \<Rightarrow> 'b" where
  "map_or d f None = d"
| "map_or d f (Some x) = f x"

fun byte_len :: "SerLen \<Rightarrow> MessagePart \<Rightarrow> nat" where
  "byte_len S (PText _ text) = length text"
| "byte_len S (PReasoning _ text) = length text"
| "byte_len S (PTool t) =
     len_call S (tp_call t) + map_or 0 length (tp_output t) + map_or 0 (len_diff S) (tp_diff t) +
     map_or 0 (len_stats S) (tp_diff_stats t)"
| "byte_len S (PInput _ _ questions _) = len_questions S questions"
| "byte_len S (PImage ident path name mime) = length ident + length path + length name + length mime"
| "byte_len S (PError _ message) = length message"

section \<open>The event fold\<close>

text \<open>\<^verbatim>\<open>iter_mut\<close> over the tool parts with an id.\<close>

definition on_tools :: "(ToolPart \<Rightarrow> bool) \<Rightarrow> (ToolPart \<Rightarrow> ToolPart) \<Rightarrow> MessagePart list \<Rightarrow> MessagePart list" where
  "on_tools sel f = map (\<lambda>p. case p of PTool t \<Rightarrow> if sel t then PTool (f t) else p | _ \<Rightarrow> p)"

text \<open>\<^verbatim>\<open>iter_mut().find\<close>: the first part that satisfies a test is replaced.\<close>

fun replace_first :: "('a \<Rightarrow> bool) \<Rightarrow> ('a \<Rightarrow> 'a) \<Rightarrow> 'a list \<Rightarrow> 'a list" where
  "replace_first sel f [] = []"
| "replace_first sel f (x # xs) = (if sel x then f x # xs else x # replace_first sel f xs)"

fun is_tool :: "string \<Rightarrow> MessagePart \<Rightarrow> bool" where
  "is_tool ident (PTool t) = (tp_id t = ident)"
| "is_tool ident _ = False"

fun set_call :: "ToolCall \<Rightarrow> MessagePart \<Rightarrow> MessagePart" where
  "set_call call (PTool t) = PTool (t\<lparr>tp_call := call\<rparr>)"
| "set_call call p = p"

definition new_tool :: "string \<Rightarrow> ToolCall \<Rightarrow> ToolPart" where
  "new_tool ident call =
     \<lparr>tp_id = ident, tp_call = call, tp_is_error = False, tp_resolved = False, tp_output = None,
      tp_diff = None, tp_output_ref = None, tp_output_bytes = None, tp_diff_ref = None,
      tp_diff_stats = None, tp_subagent_ref = None, tp_subagent_status = None, tp_subagent_tail = None\<rparr>"

definition push_text :: "string \<Rightarrow> MessagePart list \<Rightarrow> MessagePart list" where
  "push_text text out =
     (if out \<noteq> [] then
        case last out of
          PText ident tail \<Rightarrow> butlast out @ [PText ident (tail @ text)]
        | _ \<Rightarrow> out @ [PText (CHR ''t'' # dec (length out)) text]
      else [PText (CHR ''t'' # dec 0) text])"

definition push_reasoning :: "string \<Rightarrow> MessagePart list \<Rightarrow> MessagePart list" where
  "push_reasoning text out =
     (if text = [] then out
      else if out \<noteq> [] then
        case last out of
          PReasoning ident tail \<Rightarrow> butlast out @ [PReasoning ident (tail @ text)]
        | _ \<Rightarrow> out @ [PReasoning (CHR ''r'' # dec (length out)) text]
      else [PReasoning (CHR ''r'' # dec 0) text])"

definition push_error :: "string \<Rightarrow> MessagePart list \<Rightarrow> MessagePart list" where
  "push_error message out = out @ [PError (CHR ''e'' # dec (length out)) message]"

text \<open>What an event of a subagent says of its lifecycle, and the new status of its spawn chip.\<close>

fun announced_status :: "AgentEvent \<Rightarrow> SubagentStatus option" where
  "announced_status (EvDone status _ _ _) = Some (if status = DoneErrored then SubFailed else SubDone)"
| "announced_status (EvUserMessage _) = Some SubRunning"
| "announced_status (EvSteered _ _) = Some SubRunning"
| "announced_status _ = None"

definition chip_status :: "SubagentStatus option \<Rightarrow> SubagentStatus option \<Rightarrow> SubagentStatus option" where
  "chip_status announced old =
     (case announced of
        Some s \<Rightarrow> Some s
      | None \<Rightarrow> if old = Some SubDone \<or> old = Some SubFailed then old else Some SubRunning)"

fun resolve_input :: "string \<Rightarrow> MessagePart \<Rightarrow> MessagePart" where
  "resolve_input rid (PInput ident r qs b) = PInput ident r qs (if r = rid then True else b)"
| "resolve_input rid p = p"

fun fold_event_into_parts ::
  "(string \<Rightarrow> string \<Rightarrow> ChangeTag list) \<Rightarrow> AgentEvent \<Rightarrow> MessagePart list \<Rightarrow> MessagePart list" where
  "fold_event_into_parts ch (EvSessionStarted _ _ _ _ _ _) out = []"
| "fold_event_into_parts ch (EvSteered _ _) out = []"
| "fold_event_into_parts ch (EvTextDelta text) out = push_text text out"
| "fold_event_into_parts ch (EvGeneratedImage ident path name mime) out =
     (if \<exists>p \<in> set out. part_id p = ident
      then replace_first (\<lambda>p. part_id p = ident) (\<lambda>_. PImage ident path name mime) out
      else out @ [PImage ident path name mime])"
| "fold_event_into_parts ch (EvReasoningDelta text) out = push_reasoning text out"
| "fold_event_into_parts ch (EvToolCall ident call) out =
     (if \<exists>p \<in> set out. is_tool ident p then replace_first (is_tool ident) (set_call call) out
      else out @ [PTool (new_tool ident call)])"
| "fold_event_into_parts ch (EvToolResult ident is_error output diff) out =
     on_tools (\<lambda>t. tp_id t = ident)
       (\<lambda>t. t\<lparr>tp_is_error := is_error, tp_resolved := True, tp_output := None, tp_output_bytes := None,
              tp_diff := None, tp_diff_stats := map_option (\<lambda>d. [diff_stat ch d]) diff\<rparr>) out"
| "fold_event_into_parts ch (EvToolDiffStats ident stats) out =
     on_tools (\<lambda>t. tp_id t = ident) (\<lambda>t. t\<lparr>tp_diff_stats := Some stats\<rparr>) out"
| "fold_event_into_parts ch (EvInputRequested rid questions) out =
     (let ident = ''in-'' @ rid in
      if \<exists>p \<in> set out. part_id p = ident then out else out @ [PInput ident rid questions False])"
| "fold_event_into_parts ch (EvInputResolved rid) out = map (resolve_input rid) out"
| "fold_event_into_parts ch (EvError message) out = push_error message out"
| "fold_event_into_parts ch (EvDone _ _ error _) out =
     (case error of None \<Rightarrow> out | Some message \<Rightarrow> push_error message out)"
| "fold_event_into_parts ch (EvSubagent parent event) out =
     on_tools (\<lambda>t. tp_id t = parent \<and> is_subagent_spawn (tp_call t))
       (\<lambda>t. t\<lparr>tp_subagent_status := chip_status (announced_status event) (tp_subagent_status t)\<rparr>) out"
| "fold_event_into_parts ch _ out = out"

section \<open>The sidecar\<close>

definition sidecar_refs :: "string \<Rightarrow> ToolPart \<Rightarrow> ToolPart" where
  "sidecar_refs chat t =
     (let t1 = (if tp_output_ref t = None \<and> tp_output_bytes t \<noteq> None
                then t\<lparr>tp_output_ref := Some (chat @ ''/'' @ tp_id t)\<rparr> else t)
      in if tp_diff_ref t1 = None \<and> tp_diff_stats t1 \<noteq> None
         then t1\<lparr>tp_diff_ref := Some (chat @ ''/'' @ tp_id t @ ''.diff'')\<rparr> else t1)"

definition apply_sidecar_refs :: "string \<Rightarrow> MessagePart list \<Rightarrow> MessagePart list" where
  "apply_sidecar_refs chat = on_tools tp_resolved (sidecar_refs chat)"

record SidecarPayload =
  sp_part_id :: string
  sp_output :: "string option"
  sp_diff :: "ToolDiff option"

fun sidecar_payload :: "AgentEvent \<Rightarrow> SidecarPayload option" where
  "sidecar_payload (EvToolResult ident _ output diff) =
     (let output = (case output of None \<Rightarrow> None | Some o' \<Rightarrow> if trim o' \<noteq> [] then Some o' else None) in
      if output = None \<and> diff = None then None
      else Some \<lparr>sp_part_id = ident, sp_output = output, sp_diff = diff\<rparr>)"
| "sidecar_payload _ = None"

section \<open>Privacy\<close>

definition badge_entry :: "json \<Rightarrow> string \<Rightarrow> (string \<times> json) option" where
  "badge_entry input key =
     (case Option.bind (json_get input key) as_str of
        None \<Rightarrow> None
      | Some val \<Rightarrow> if trim val \<noteq> [] then Some (key, JStr (trim val)) else None)"

definition spawn_badge :: "ToolCall \<Rightarrow> json option" where
  "spawn_badge call =
     (if \<not> is_subagent_spawn call then None
      else case spawn_input call of
        None \<Rightarrow> None
      | Some input \<Rightarrow>
          let kept = bt_of_list (List.map_filter (badge_entry input) SUBAGENT_INPUT_KEEP)
          in if kept = [] then None else Some (JObj kept))"

fun sanitize_tool_call :: "ToolCall \<Rightarrow> ToolCall" where
  "sanitize_tool_call (WriteFile path _) = WriteFile path None"
| "sanitize_tool_call (EditFile path _ _) = EditFile path None None"
| "sanitize_tool_call (WebFetch url _) = WebFetch url None"
| "sanitize_tool_call (Mcp server tool input) = Mcp server tool (spawn_badge (Mcp server tool input))"
| "sanitize_tool_call (Unknown name input) = Unknown name (spawn_badge (Unknown name input))"
| "sanitize_tool_call call = call"

section \<open>Continuations\<close>

definition continuation_id :: "string \<Rightarrow> nat \<Rightarrow> string" where
  "continuation_id root index = root @ ''#c'' @ dec index"

definition push_part ::
  "SerLen \<Rightarrow> MessagePart \<Rightarrow> MessagePart list list \<times> nat \<Rightarrow> MessagePart list list \<times> nat" where
  "push_part S part st =
     (case st of (chunks, current) \<Rightarrow>
        let len = byte_len S part;
            (chunks, current) = (if current > 0 \<and> current + len > MSG_INLINE_MAX then (chunks @ [[]], 0) else (chunks, current))
        in (butlast chunks @ [last chunks @ [part]], current + len))"

text \<open>The end of the piece that starts at an offset.\<close>

definition piece_end :: "string \<Rightarrow> nat \<Rightarrow> nat" where
  "piece_end text start =
     (let e = floor_boundary text (min (start + MSG_INLINE_MAX) (length text))
      in if e \<le> start then length text else e)"

function text_pieces :: "string \<Rightarrow> nat \<Rightarrow> string list" where
  "text_pieces text start =
     (if start < length text
      then take (piece_end text start - start) (drop start text) # text_pieces text (piece_end text start)
      else [])"
  by pat_completeness auto
termination
  by (relation "measure (\<lambda>(text, start). length text - start)") (auto simp: piece_end_def Let_def)

declare text_pieces.simps [simp del]

definition piece_id :: "string \<Rightarrow> nat \<Rightarrow> string" where
  "piece_id ident piece = (if piece = 0 then ident else ident @ ''~'' @ dec piece)"

fun part_pieces :: "MessagePart \<Rightarrow> MessagePart list" where
  "part_pieces (PText ident text) =
     (if length text > MSG_INLINE_MAX
      then map (\<lambda>(i, body). PText (piece_id ident i) body) (enumerate 0 (text_pieces text 0))
      else [PText ident text])"
| "part_pieces (PReasoning ident text) =
     (if length text > MSG_INLINE_MAX
      then map (\<lambda>(i, body). PReasoning (piece_id ident i) body) (enumerate 0 (text_pieces text 0))
      else [PReasoning ident text])"
| "part_pieces p = [p]"

definition split_parts :: "SerLen \<Rightarrow> MessagePart list \<Rightarrow> MessagePart list list" where
  "split_parts S parts = fst (fold (\<lambda>p. fold (push_part S) (part_pieces p)) parts ([[]], 0))"

definition join_continuations :: "MessagePart list list \<Rightarrow> MessagePart list" where
  "join_continuations entries = concat entries"

section \<open>Splitting\<close>

lemma piece_end_bounds: "start < length s \<Longrightarrow> start < piece_end s start \<and> piece_end s start \<le> length s"
  using floor_boundary_le [of s "min (start + MSG_INLINE_MAX) (length s)"]
  by (auto simp: piece_end_def Let_def)

lemma piece_end_width:
  assumes "short_chars s" "start < length s"
  shows "piece_end s start \<le> start + MSG_INLINE_MAX"
proof (cases "length s \<le> start + MSG_INLINE_MAX")
  case True
  then show ?thesis using piece_end_bounds [OF assms(2)] by simp
next
  case False
  let ?i = "start + MSG_INLINE_MAX"
  have "?i - 3 \<le> floor_boundary s ?i"
    using False by (intro floor_boundary_near [OF assms(1)]) (simp_all add: MSG_INLINE_MAX_def)
  with False floor_boundary_le [of s ?i] show ?thesis
    by (simp add: piece_end_def Let_def MSG_INLINE_MAX_def min_def)
qed

lemma text_pieces_concat: "concat (text_pieces s start) = drop start s"
proof (induction s start rule: text_pieces.induct)
  case (1 s start)
  show ?case
  proof (cases "start < length s")
    case True
    have "drop (piece_end s start) s = drop (piece_end s start - start) (drop start s)"
      using piece_end_bounds [OF True] by (simp add: add.commute)
    with 1 True show ?thesis by (subst text_pieces.simps) (simp del: drop_drop)
  qed (simp add: text_pieces.simps)
qed

lemma text_pieces_sizes:
  "short_chars s \<Longrightarrow> b \<in> set (text_pieces s start) \<Longrightarrow> b \<noteq> [] \<and> length b \<le> MSG_INLINE_MAX"
proof (induction s start rule: text_pieces.induct)
  case (1 s start)
  then show ?case
    using piece_end_bounds [of start s] piece_end_width [of s start]
    by (subst (asm) text_pieces.simps) (auto split: if_splits)
qed

text \<open>The text a part carries, and the kind of the part without it.\<close>

fun body_of :: "MessagePart \<Rightarrow> string" where
  "body_of (PText _ text) = text"
| "body_of (PReasoning _ text) = text"
| "body_of _ = []"

fun bodied :: "MessagePart \<Rightarrow> bool" where
  "bodied (PText _ _) = True"
| "bodied (PReasoning _ _) = True"
| "bodied _ = False"

lemma byte_len_bodied: "bodied p \<Longrightarrow> byte_len S p = length (body_of p)"
  by (cases p) simp_all

lemma part_pieces_body: "concat (map body_of (part_pieces p)) = body_of p"
  by (cases p) (simp_all add: comp_def case_prod_unfold text_pieces_concat)

lemma part_pieces_bodied: "q \<in> set (part_pieces p) \<Longrightarrow> bodied q \<Longrightarrow> bodied p"
  by (cases p) auto

lemma part_pieces_size:
  "short_chars (body_of p) \<Longrightarrow> bodied p \<Longrightarrow> q \<in> set (part_pieces p) \<Longrightarrow> bodied q \<and> length (body_of q) \<le> MSG_INLINE_MAX"
  by (cases p) (auto split: if_splits simp: in_set_enumerate_eq dest!: text_pieces_sizes nth_mem)

lemma butlast_push [simp]: "butlast (xs @ [y, z]) = xs @ [y]"
  by (simp add: butlast_append)

lemma push_part_concat: "cs \<noteq> [] \<Longrightarrow> concat (fst (push_part S p (cs, n))) = concat cs @ [p] \<and> fst (push_part S p (cs, n)) \<noteq> []"
  by (cases cs rule: rev_cases) (auto simp: push_part_def Let_def)

lemma fold_push_concat:
  "cs \<noteq> [] \<Longrightarrow> concat (fst (fold (push_part S) ps (cs, n))) = concat cs @ ps \<and> fst (fold (push_part S) ps (cs, n)) \<noteq> []"
proof (induction ps arbitrary: cs n)
  case (Cons p ps)
  then show ?case using push_part_concat [OF Cons.prems, of S p n] by (cases "push_part S p (cs, n)") auto
qed simp

lemma fold_concat: "fold f (concat xss) = fold (fold f) xss"
  by (induction xss) simp_all

lemma split_parts_flat: "split_parts S parts = fst (fold (push_part S) (concat (map part_pieces parts)) ([[]], 0))"
  by (simp add: split_parts_def fold_concat fold_map comp_def)

text \<open>The open chunk is within the cap, or ends with the one part that is over it.\<close>

definition chunk_ok :: "SerLen \<Rightarrow> MessagePart list \<Rightarrow> bool" where
  "chunk_ok S c \<longleftrightarrow> sum_list (map (byte_len S) c) \<le> MSG_INLINE_MAX \<or>
     c \<noteq> [] \<and> sum_list (map (byte_len S) c) = byte_len S (last c)"

lemma push_part_chunks:
  assumes "cs \<noteq> []" "n = sum_list (map (byte_len S) (last cs))" "\<forall>c \<in> set cs. chunk_ok S c"
    and "push_part S p (cs, n) = (cs', n')"
  shows "cs' \<noteq> [] \<and> n' = sum_list (map (byte_len S) (last cs')) \<and> (\<forall>c \<in> set cs'. chunk_ok S c)"
  using assms by (cases cs rule: rev_cases) (auto simp: push_part_def Let_def chunk_ok_def split: if_splits)

lemma fold_push_chunks:
  "cs \<noteq> [] \<Longrightarrow> n = sum_list (map (byte_len S) (last cs)) \<Longrightarrow> \<forall>c \<in> set cs. chunk_ok S c \<Longrightarrow>
   \<forall>c \<in> set (fst (fold (push_part S) ps (cs, n))). chunk_ok S c"
proof (induction ps arbitrary: cs n)
  case (Cons p ps)
  obtain cs' n' where "push_part S p (cs, n) = (cs', n')" by force
  with push_part_chunks [OF Cons.prems this] Cons.IH [of cs' n'] show ?case by simp
qed simp

section \<open>Properties\<close>

text \<open>C28: splitting loses nothing and bounds every chunk: joining the chunks gives the parts in order,
  each oversized text replaced by consecutive pieces that spell it, every text piece is within the cap
  (for texts in UTF-8), and every chunk is within the cap unless it ends with a single part that alone
  exceeds what the others leave.\<close>

theorem split_parts_bounded:
  assumes "\<forall>p \<in> set parts. short_chars (body_of p)"
  shows "join_continuations (split_parts S parts) = concat (map part_pieces parts) \<and>
    (\<forall>p \<in> set parts. concat (map body_of (part_pieces p)) = body_of p \<and>
       (byte_len S p \<le> MSG_INLINE_MAX \<or> \<not> bodied p \<longrightarrow> part_pieces p = [p])) \<and>
    (\<forall>c \<in> set (split_parts S parts).
       (\<forall>q \<in> set c. bodied q \<longrightarrow> length (body_of q) \<le> MSG_INLINE_MAX) \<and>
       (sum_list (map (byte_len S) c) \<le> MSG_INLINE_MAX \<or>
        c \<noteq> [] \<and> sum_list (map (byte_len S) c) = byte_len S (last c) \<and> \<not> bodied (last c)))"
proof -
  have join: "concat (split_parts S parts) = concat (map part_pieces parts)"
    using fold_push_concat [of "[[]]" S "concat (map part_pieces parts)" 0] by (simp add: split_parts_flat)
  have small: "length (body_of q) \<le> MSG_INLINE_MAX"
    if "c \<in> set (split_parts S parts)" "q \<in> set c" "bodied q" for c q
  proof -
    from that join have "q \<in> set (concat (map part_pieces parts))" by (metis UN_I set_concat)
    then obtain p where p: "p \<in> set parts" "q \<in> set (part_pieces p)" by auto
    then have "bodied p" using that(3) by (blast intro: part_pieces_bodied)
    with p assms part_pieces_size show ?thesis by blast
  qed
  have chunks: "chunk_ok S c" if "c \<in> set (split_parts S parts)" for c
    using fold_push_chunks [of "[[]]" 0 S "concat (map part_pieces parts)"] that
    by (simp add: split_parts_flat chunk_ok_def)
  have over: "sum_list (map (byte_len S) c) \<le> MSG_INLINE_MAX \<or>
      c \<noteq> [] \<and> sum_list (map (byte_len S) c) = byte_len S (last c) \<and> \<not> bodied (last c)"
    if "c \<in> set (split_parts S parts)" for c
    using chunks [OF that] small [OF that, of "last c"] byte_len_bodied [of "last c" S]
    by (auto simp: chunk_ok_def)
  have "part_pieces p = [p]" if "byte_len S p \<le> MSG_INLINE_MAX \<or> \<not> bodied p" for p
    using that by (cases p) auto
  with join small over part_pieces_body show ?thesis unfolding join_continuations_def by blast
qed

theorem split_parts_bounded_witness:
  "let S = \<lparr>len_call = (\<lambda>_. 10), len_diff = (\<lambda>_. 0), len_stats = (\<lambda>_. 0), len_questions = (\<lambda>_. 0)\<rparr>;
       long = replicate 300000 (CHR ''a'');
       parts = [PText ''t0'' long, PTool (new_tool ''x'' (Exec ''ls'')), PError ''e2'' ''stopped'']
   in length long > MSG_INLINE_MAX \<and> (\<forall>p \<in> set parts. short_chars (body_of p)) \<and>
      concat (map body_of (join_continuations (split_parts S parts))) = long \<and>
      (\<forall>c \<in> set (split_parts S parts). \<forall>q \<in> set c. bodied q \<longrightarrow> length (body_of q) \<le> MSG_INLINE_MAX)"
proof -
  let ?S = "\<lparr>len_call = (\<lambda>_. 10), len_diff = (\<lambda>_. 0), len_stats = (\<lambda>_. 0), len_questions = (\<lambda>_. 0)\<rparr>"
  let ?long = "replicate 300000 (CHR ''a'')"
  let ?parts = "[PText ''t0'' ?long, PTool (new_tool ''x'' (Exec ''ls'')), PError ''e2'' ''stopped'']"
  have short: "\<forall>p \<in> set ?parts. short_chars (body_of p)"
    by (auto simp: short_chars_def is_cont_def intro!: exI [of _ 0])
  note t = split_parts_bounded [OF short, of ?S]
  have "concat (map body_of (join_continuations (split_parts ?S ?parts))) = ?long"
    using t part_pieces_body [of "PText ''t0'' ?long"] by (simp del: part_pieces.simps(1))
  with t short show ?thesis by (simp add: Let_def MSG_INLINE_MAX_def)
qed

section \<open>The fold keeps the parts well formed\<close>

text \<open>Generated ids carry the position of their part; an input part is named after its request; a tool
  part carries no output and no inline diff; no two tool parts share an id.\<close>

fun part_ok :: "nat \<Rightarrow> MessagePart \<Rightarrow> bool" where
  "part_ok i (PText ident _) = (ident = CHR ''t'' # dec i)"
| "part_ok i (PReasoning ident _) = (ident = CHR ''r'' # dec i)"
| "part_ok i (PError ident _) = (ident = CHR ''e'' # dec i)"
| "part_ok i (PInput ident rid _ _) = (ident = ''in-'' @ rid)"
| "part_ok i (PTool t) =
     (tp_output t = None \<and> tp_output_bytes t = None \<and> tp_output_ref t = None \<and> tp_diff t = None \<and> tp_subagent_tail t = None)"
| "part_ok i (PImage _ _ _ _) = True"

fun tool_id :: "MessagePart \<Rightarrow> string option" where
  "tool_id (PTool t) = Some (tp_id t)"
| "tool_id _ = None"

definition parts_ok :: "MessagePart list \<Rightarrow> bool" where
  "parts_ok out \<longleftrightarrow> list_all (\<lambda>(i, p). part_ok i p) (enumerate 0 out) \<and> distinct (List.map_filter tool_id out)"

lemma parts_okI:
  "(\<And>i. i < length out \<Longrightarrow> part_ok i (out ! i)) \<Longrightarrow> distinct (List.map_filter tool_id out) \<Longrightarrow> parts_ok out"
  by (auto simp: parts_ok_def list_all_iff in_set_enumerate_eq)

lemma parts_okD: "parts_ok out \<Longrightarrow> i < length out \<Longrightarrow> part_ok i (out ! i)"
  by (force simp: parts_ok_def list_all_iff in_set_enumerate_eq)

lemma parts_ok_distinct: "parts_ok out \<Longrightarrow> distinct (List.map_filter tool_id out)"
  by (simp add: parts_ok_def)

lemma map_filter_append: "List.map_filter f (xs @ ys) = List.map_filter f xs @ List.map_filter f ys"
  by (simp add: map_filter_def)

lemma map_filter_map_cong:
  "(\<And>x. f (g x) = f x) \<Longrightarrow> List.map_filter f (map g xs) = List.map_filter f xs"
  by (induction xs) (simp_all add: map_filter_simps split: option.splits)

lemma parts_ok_append:
  assumes "parts_ok out" "part_ok (length out) p" "tool_id p \<notin> tool_id ` set out \<or> tool_id p = None"
  shows "parts_ok (out @ [p])"
  using assms
  by (intro parts_okI)
    (auto simp: nth_append parts_okD less_Suc_eq map_filter_append map_filter_simps set_map_filter
      parts_ok_distinct image_iff split: option.splits)

lemma parts_ok_map:
  assumes "parts_ok out" "\<And>p. tool_id (g p) = tool_id p" "\<And>i p. part_ok i p \<Longrightarrow> part_ok i (g p)"
  shows "parts_ok (map g out)"
  using assms by (intro parts_okI) (auto simp: parts_okD map_filter_map_cong parts_ok_distinct)

lemma parts_ok_on_tools:
  assumes "parts_ok out" "\<And>t. tp_id (f t) = tp_id t" "\<And>i t. part_ok i (PTool t) \<Longrightarrow> part_ok i (PTool (f t))"
  shows "parts_ok (on_tools sel f out)"
  unfolding on_tools_def
proof (rule parts_ok_map [OF assms(1)])
  fix p i
  show "tool_id (case p of PTool t \<Rightarrow> if sel t then PTool (f t) else p | _ \<Rightarrow> p) = tool_id p"
    using assms(2) by (cases p) simp_all
  assume "part_ok i p"
  then show "part_ok i (case p of PTool t \<Rightarrow> if sel t then PTool (f t) else p | _ \<Rightarrow> p)"
    by (cases p) (simp_all del: part_ok.simps(5) add: assms(3))
qed

lemma nth_replace_first: "length (replace_first sel f xs) = length xs"
  "i < length xs \<Longrightarrow> replace_first sel f xs ! i = xs ! i \<or> sel (xs ! i) \<and> replace_first sel f xs ! i = f (xs ! i)"
  by (induction xs arbitrary: i) (auto simp: nth_Cons split: nat.splits)

lemma replace_first_tool_ids:
  "(\<And>x. sel x \<Longrightarrow> tool_id (f x) = tool_id x \<or> tool_id (f x) = None) \<Longrightarrow>
   subseq (List.map_filter tool_id (replace_first sel f xs)) (List.map_filter tool_id xs)"
proof (induction xs)
  case (Cons x xs)
  have s: "subseq ys (List.map_filter tool_id (x # xs))" if "subseq ys (List.map_filter tool_id xs)" for ys
    using that by (auto simp: map_filter_simps split: option.splits)
  show ?case
  proof (cases "sel x")
    case True
    with Cons.prems [OF True] show ?thesis
      by (cases "tool_id x"; cases "tool_id (f x)") (auto simp: map_filter_simps)
  next
    case False
    with Cons show ?thesis by (auto simp: map_filter_simps split: option.splits)
  qed
qed (simp add: map_filter_simps)

lemma parts_ok_replace:
  assumes "parts_ok out" "\<And>x. sel x \<Longrightarrow> tool_id (f x) = tool_id x \<or> tool_id (f x) = None"
    and "\<And>i x. sel x \<Longrightarrow> part_ok i x \<Longrightarrow> part_ok i (f x)"
  shows "parts_ok (replace_first sel f out)"
proof (rule parts_okI)
  fix i assume "i < length (replace_first sel f out)"
  with assms(1,3) nth_replace_first [where sel = sel and f = f and xs = out] parts_okD [of out i]
  show "part_ok i (replace_first sel f out ! i)" by metis
next
  have "subseq (List.map_filter tool_id (replace_first sel f out)) (List.map_filter tool_id out)"
    by (rule replace_first_tool_ids) (rule assms(2))
  with parts_ok_distinct [OF assms(1)] show "distinct (List.map_filter tool_id (replace_first sel f out))"
    by (auto simp: subseq_conv_nths distinct_nthsI)
qed

lemma parts_ok_prefix:
  assumes "parts_ok (xs @ ys)"
  shows "parts_ok xs"
proof (rule parts_okI)
  fix i assume "i < length xs"
  then show "part_ok i (xs ! i)" using parts_okD [OF assms, of i] by (simp add: nth_append)
next
  show "distinct (List.map_filter tool_id xs)" using parts_ok_distinct [OF assms] by (simp add: map_filter_append)
qed

lemma parts_ok_extend_last:
  assumes "parts_ok out" "out \<noteq> []" "tool_id (last out) = None" "tool_id q = None"
    "\<And>i. part_ok i (last out) \<Longrightarrow> part_ok i q"
  shows "parts_ok (butlast out @ [q])"
proof -
  obtain xs p where out: "out = xs @ [p]" using assms(2) by (metis append_butlast_last_id)
  have "parts_ok xs" using assms(1) unfolding out by (rule parts_ok_prefix)
  moreover have "part_ok (length xs) q" using assms(5) parts_okD [OF assms(1), of "length xs"] by (simp add: out)
  ultimately show ?thesis using assms(4) by (simp add: out parts_ok_append)
qed

lemma parts_ok_Nil: "parts_ok []"
  by (simp add: parts_ok_def map_filter_simps)

lemmas parts_ok_single = parts_ok_append [OF parts_ok_Nil, simplified]

lemma push_text_ok:
  assumes "parts_ok out"
  shows "parts_ok (push_text s out)"
proof (cases "out = []")
  case False
  with assms show ?thesis
    by (cases "last out") (auto simp: push_text_def intro: parts_ok_append parts_ok_extend_last)
qed (simp add: push_text_def parts_ok_single)

lemma push_reasoning_ok:
  assumes "parts_ok out"
  shows "parts_ok (push_reasoning s out)"
proof (cases "out = []")
  case False
  with assms show ?thesis
    by (cases "last out") (auto simp: push_reasoning_def intro: parts_ok_append parts_ok_extend_last)
qed (simp add: push_reasoning_def parts_ok_single parts_ok_Nil)

lemma is_tool_id: "is_tool ident p \<longleftrightarrow> tool_id p = Some ident"
  by (cases p) auto

lemma fold_event_ok: "parts_ok out \<Longrightarrow> parts_ok (fold_event_into_parts ch ev out)"
proof (induction ch ev out rule: fold_event_into_parts.induct)
  case (4 ch ident path name mime out)
  then show ?case by (auto intro!: parts_ok_replace parts_ok_append)
next
  case (6 ch ident call out)
  have "tool_id (set_call call x) = tool_id x" "part_ok i x \<Longrightarrow> part_ok i (set_call call x)" for i x
    by (cases x; simp)+
  with 6 show ?case
    by (auto simp: is_tool_id new_tool_def intro!: parts_ok_replace parts_ok_append dest: sym)
next
  case (10 ch rid out)
  then show ?case
    by simp (rule parts_ok_map, assumption, (rename_tac p, case_tac p; simp), rename_tac i p, case_tac p, auto)
qed (auto simp: parts_ok_Nil push_text_ok push_reasoning_ok push_error_def Let_def
    intro!: parts_ok_on_tools parts_ok_append split: option.split)

section \<open>Badges\<close>

lemma badge_entry_key: "badge_entry input key = Some kv \<Longrightarrow> fst kv = key"
  by (auto simp: badge_entry_def split: option.splits if_splits)

lemma map_of_keyed_filter:
  assumes "\<And>x kv. f x = Some kv \<Longrightarrow> fst kv = x" "distinct xs"
  shows "hm_ok (List.map_filter f xs)"
    and "map_of (List.map_filter f xs) k = (if k \<in> set xs then map_option snd (f k) else None)"
proof -
  have s: "fst ` set (List.map_filter f ys) \<subseteq> set ys" for ys
    using assms(1) by (force simp: set_map_filter)
  show "hm_ok (List.map_filter f xs)"
    using assms(2)
  proof (induction xs)
    case (Cons x xs)
    then show ?case using assms(1) [of x] s [of xs]
      by (auto simp: hm_ok_def map_filter_simps split: option.splits)
  qed (simp add: hm_ok_def map_filter_simps)
  show "map_of (List.map_filter f xs) k = (if k \<in> set xs then map_option snd (f k) else None)"
    using assms(2)
  proof (induction xs)
    case (Cons x xs)
    then show ?case using assms(1) [of x] by (auto simp: map_filter_simps split: option.splits)
  qed (simp add: map_filter_simps)
qed

lemma distinct_keep: "distinct SUBAGENT_INPUT_KEEP"
  by (simp add: SUBAGENT_INPUT_KEEP_def)

definition badge :: "json \<Rightarrow> json btmap" where
  "badge input = bt_of_list (List.map_filter (badge_entry input) SUBAGENT_INPUT_KEEP)"

lemma map_of_badge:
  "map_of (badge input) k = (if k \<in> set SUBAGENT_INPUT_KEEP then map_option snd (badge_entry input k) else None)"
  using map_of_keyed_filter [OF badge_entry_key [of input] distinct_keep]
  by (simp add: badge_def map_of_bt_of_list map_of_rev_distinct)

lemma badge_entry_badge: "k \<in> set SUBAGENT_INPUT_KEEP \<Longrightarrow> badge_entry (JObj (badge input)) k = badge_entry input k"
  by (auto simp: badge_entry_def map_of_badge split: option.splits)

lemma badge_idem: "badge (JObj (badge input)) = badge input"
proof -
  have "List.map_filter (badge_entry (JObj (badge input))) ks = List.map_filter (badge_entry input) ks"
    if "set ks \<subseteq> set SUBAGENT_INPUT_KEEP" for ks
    using that by (induction ks) (simp_all add: map_filter_simps badge_entry_badge split: option.split)
  from this [OF subset_refl] show ?thesis by (metis badge_def)
qed

lemma set_badge: "(k, v) \<in> set (badge input) \<Longrightarrow>
  k \<in> set SUBAGENT_INPUT_KEEP \<and> (\<exists>s. v = JStr s \<and> s \<noteq> [] \<and> trim s = s)"
proof -
  assume "(k, v) \<in> set (badge input)"
  then have "map_of (badge input) k = Some v" by (simp add: bt_ok_distinct badge_def)
  then show ?thesis
    by (auto simp: map_of_badge badge_entry_def split: if_splits option.splits)
qed

lemma spawn_badge_eq:
  "spawn_badge call = (if is_subagent_spawn call
     then Option.bind (spawn_input call) (\<lambda>input. if badge input = [] then None else Some (JObj (badge input))) else None)"
  by (simp add: spawn_badge_def badge_def Let_def split: option.split)

text \<open>What a call may show: nothing of what was written, and of an input only short identifiers.\<close>

definition badge_only :: "json option \<Rightarrow> bool" where
  "badge_only input \<longleftrightarrow>
     (case input of
        None \<Rightarrow> True
      | Some (JObj kvs) \<Rightarrow>
          list_all (\<lambda>(k, v). k \<in> set SUBAGENT_INPUT_KEEP \<and>
            (case v of JStr s \<Rightarrow> s \<noteq> [] \<and> trim s = s | _ \<Rightarrow> False)) kvs
      | _ \<Rightarrow> False)"

fun render_only :: "ToolCall \<Rightarrow> bool" where
  "render_only (WriteFile _ content) = (content = None)"
| "render_only (EditFile _ old new) = (old = None \<and> new = None)"
| "render_only (WebFetch _ prompt) = (prompt = None)"
| "render_only (Mcp server tool input) = (badge_only input \<and> (input \<noteq> None \<longrightarrow> spawn_name tool))"
| "render_only (Unknown name input) = (badge_only input \<and> (input \<noteq> None \<longrightarrow> spawn_name name))"
| "render_only _ = True"

lemma badge_only_spawn: "badge_only (spawn_badge call)"
  by (auto simp: spawn_badge_eq badge_only_def list_all_iff dest: set_badge split: Option.bind_splits option.splits)

lemma spawn_badge_idem:
  "spawn_badge (Mcp server tool (spawn_badge (Mcp server tool input))) = spawn_badge (Mcp server tool input)"
  "spawn_badge (Unknown name (spawn_badge (Unknown name input))) = spawn_badge (Unknown name input)"
  by (auto simp: spawn_badge_eq badge_idem split: Option.bind_splits)

text \<open>The key whose value names the model survives: the keys before it carry no string.\<close>

lemma find_map_badge:
  assumes "set ks \<subseteq> set SUBAGENT_INPUT_KEEP"
    and "find_map (\<lambda>key. Option.bind (json_get input key) as_str) ks = Some m" "trim m \<noteq> []"
  shows "find_map (\<lambda>key. Option.bind (json_get (JObj (badge input)) key) as_str) ks = Some (trim m)"
  using assms(1,2)
proof (induction ks)
  case (Cons k ks)
  then show ?case
    using assms(3) by (cases "Option.bind (json_get input k) as_str") (auto simp: map_of_badge badge_entry_def)
qed simp

lemma find_map_SomeD: "find_map f xs = Some y \<Longrightarrow> \<exists>x \<in> set xs. f x = Some y"
  by (induction xs) (auto split: option.splits)

lemma model_kept:
  assumes "subagent_model call = Some m"
  shows "subagent_model (sanitize_tool_call call) = Some m"
proof -
  let ?s = "\<lambda>input. find_map (\<lambda>key. Option.bind (json_get input key) as_str) SUBAGENT_MODEL_KEYS"
  have keys: "set SUBAGENT_MODEL_KEYS \<subseteq> set SUBAGENT_INPUT_KEEP"
    by (simp add: SUBAGENT_MODEL_KEYS_def SUBAGENT_INPUT_KEEP_def)
  obtain input m0 where c: "is_subagent_spawn call" "spawn_input call = Some input" "?s input = Some m0" "trim m0 = m" "m \<noteq> []"
    using assms by (auto simp: subagent_model_def split: if_splits option.splits)
  with find_map_badge [OF keys, of input m0] have f: "?s (JObj (badge input)) = Some m" by simp
  then have "badge input \<noteq> []" by (auto dest!: find_map_SomeD)
  with c have b: "spawn_badge call = Some (JObj (badge input))" by (simp add: spawn_badge_eq)
  have "trim m = m" using c(4) by auto
  with b f c show ?thesis by (cases call) (simp_all add: subagent_model_def)
qed

section \<open>Properties of the fold, the policy and the summary\<close>

lemma fold_events_ok: "parts_ok out \<Longrightarrow> parts_ok (fold (fold_event_into_parts ch) evs out)"
  by (induction evs arbitrary: out) (auto intro: fold_event_ok)

lemma parts_ok_sidecar: "parts_ok out \<Longrightarrow> parts_ok (apply_sidecar_refs c out)"
  unfolding apply_sidecar_refs_def
  by (rule parts_ok_on_tools) (auto simp: sidecar_refs_def Let_def)

lemma push_text_push_text: "push_text b (push_text a out) = push_text (a @ b) out"
  by (cases "out = []"; cases "last out") (simp_all add: push_text_def)

lemma push_reasoning_push_reasoning: "push_reasoning b (push_reasoning a out) = push_reasoning (a @ b) out"
  by (cases "out = []"; cases "last out") (simp_all add: push_reasoning_def)

lemma fold_text_deltas:
  "ts \<noteq> [] \<Longrightarrow> fold (fold_event_into_parts ch) (map EvTextDelta ts) out = push_text (concat ts) out"
proof (induction ts arbitrary: out)
  case (Cons t ts)
  then show ?case by (cases "ts = []") (simp_all add: push_text_push_text)
qed simp

lemma fold_reasoning_deltas:
  "fold (fold_event_into_parts ch) (map EvReasoningDelta ts) out = push_reasoning (concat ts) out"
  by (induction ts arbitrary: out) (simp_all add: push_reasoning_push_reasoning, simp add: push_reasoning_def)

lemma replace_first_idem:
  "(\<And>x. sel x \<Longrightarrow> sel (f x) \<and> f (f x) = f x) \<Longrightarrow>
   replace_first sel f (replace_first sel f xs) = replace_first sel f xs"
  by (induction xs) auto

lemma replace_first_append:
  "replace_first sel f (xs @ ys) =
     (if \<exists>x \<in> set xs. sel x then replace_first sel f xs @ ys else xs @ replace_first sel f ys)"
  by (induction xs) auto

lemma replace_first_ex:
  "(\<And>x. sel x \<Longrightarrow> sel (f x)) \<Longrightarrow> (\<exists>x \<in> set (replace_first sel f xs). sel x) \<longleftrightarrow> (\<exists>x \<in> set xs. sel x)"
  by (induction xs) auto

lemma set_call_tool: "is_tool ident x \<Longrightarrow> is_tool ident (set_call call x) \<and> set_call call (set_call call x) = set_call call x"
  by (cases x) simp_all

lemma tool_call_again:
  "fold_event_into_parts ch (EvToolCall ident call) (fold_event_into_parts ch (EvToolCall ident call) out) =
   fold_event_into_parts ch (EvToolCall ident call) out"
  by (simp add: set_call_tool replace_first_idem replace_first_ex replace_first_append new_tool_def)

text \<open>C29: whatever a harness emits, the parts folded from its events, and the parts with their sidecar
  keys, are well formed: the ids of text, reasoning and error parts carry their position, no two tool
  parts share an id, and no tool part carries an output, an output key or an inline diff.\<close>

theorem folded_parts_ok:
  "parts_ok (fold (fold_event_into_parts ch) evs []) \<and>
   parts_ok (apply_sidecar_refs c (fold (fold_event_into_parts ch) evs []))"
  by (simp add: fold_events_ok parts_ok_Nil parts_ok_sidecar)

text \<open>How a harness cuts its output into deltas does not matter: a run of text deltas folds like the
  one delta with their concatenation, a run of reasoning deltas likewise, and a repeated tool call
  folds like a single one.\<close>

theorem delta_chunking_irrelevant:
  "ts \<noteq> [] \<Longrightarrow> fold (fold_event_into_parts ch) (map EvTextDelta ts) out =
     fold_event_into_parts ch (EvTextDelta (concat ts)) out \<and>
   fold (fold_event_into_parts ch) (map EvReasoningDelta ts) out =
     fold_event_into_parts ch (EvReasoningDelta (concat ts)) out \<and>
   fold (fold_event_into_parts ch) (replicate (length ts) (EvToolCall ident call)) out =
     fold_event_into_parts ch (EvToolCall ident call) out"
proof -
  assume ts: "ts \<noteq> []"
  have "fold (fold_event_into_parts ch) (replicate (Suc n) (EvToolCall ident call)) out =
      fold_event_into_parts ch (EvToolCall ident call) out" for n
    by (induction n) (simp_all only: replicate.simps fold_simps tool_call_again)
  from this [of "length ts - 1"] ts show ?thesis
    by (simp add: fold_text_deltas fold_reasoning_deltas del: replicate_Suc)
qed

lemma digit_char_1: "digit_char (Suc 0) = CHR ''1''"
  by code_simp

theorem delta_chunking_irrelevant_witness:
  "fold (fold_event_into_parts (\<lambda>_ _. [])) (map EvTextDelta [''Hel'', ''lo'']) [PError ''e0'' ''x''] =
     [PError ''e0'' ''x'', PText ''t1'' ''Hello'']"
  using delta_chunking_irrelevant [of "[''Hel'', ''lo'']" "\<lambda>_ _. []" "[PError ''e0'' ''x'']"]
  by (simp add: push_text_def dec.simps digit_char_1)

text \<open>The privacy policy: a sanitized call shows no written content, no edit strings, no prompt, and
  of an input only the trimmed identifiers of a subagent spawn; sanitizing again changes nothing; and
  the model a spawn names is still named afterwards.\<close>

theorem sanitized_call_is_render_only:
  "render_only (sanitize_tool_call call) \<and>
   sanitize_tool_call (sanitize_tool_call call) = sanitize_tool_call call \<and>
   (\<forall>m. subagent_model call = Some m \<longrightarrow> subagent_model (sanitize_tool_call call) = Some m)"
proof -
  have "render_only (sanitize_tool_call call)"
    by (cases call) (simp_all add: badge_only_spawn, simp_all add: spawn_badge_eq)
  moreover have "sanitize_tool_call (sanitize_tool_call call) = sanitize_tool_call call"
    by (cases call) (simp_all add: spawn_badge_idem)
  ultimately show ?thesis by (simp add: model_kept)
qed

theorem sanitized_call_is_render_only_witness:
  "let call = Unknown ''Agent'' (Some (JObj [(''prompt'', JStr ''secret''), (''model'', JStr ''haiku'')]))
   in subagent_model call = Some ''haiku'' \<and> subagent_model (sanitize_tool_call call) = Some ''haiku'' \<and>
      sanitize_tool_call call = Unknown ''Agent'' (Some (JObj [(''model'', JStr ''haiku'')]))"
proof -
  let ?call = "Unknown ''Agent'' (Some (JObj [(''prompt'', JStr ''secret''), (''model'', JStr ''haiku'')]))"
  have t: "trim ''haiku'' = ''haiku''" by (rule trim_graphic) (simp_all add: graphic_def)
  have m: "subagent_model ?call = Some ''haiku''"
    by (simp add: subagent_model_def spawn_name_def SUBAGENT_MODEL_KEYS_def t)
  have s: "sanitize_tool_call ?call = Unknown ''Agent'' (Some (JObj [(''model'', JStr ''haiku'')]))"
    by (simp add: spawn_badge_def spawn_name_def SUBAGENT_INPUT_KEEP_def badge_entry_def t map_filter_simps bt_of_list_def)
  from sanitized_call_is_render_only [of ?call] m s show ?thesis by (simp add: Let_def)
qed

text \<open>The summary of a tool output has at most 160 characters and the ellipsis, is absent exactly for
  output that is blank once fences are removed, and is the trimmed output itself when that fits.\<close>

theorem tool_summary_bounded:
  "(case summarize_tool_output s of
      None \<Rightarrow> trim (join_with [nl] (filter (\<lambda>l. \<not> is_fence l) (str_lines s))) = []
    | Some r \<Rightarrow> r \<noteq> [] \<and> chars_count r \<le> TOOL_OUTPUT_SUMMARY_MAX + 1 \<and>
        (chars_count r \<le> TOOL_OUTPUT_SUMMARY_MAX \<and> \<not> suffix ellipsis r \<longrightarrow>
           r = trim (join_with [nl] (filter (\<lambda>l. \<not> is_fence l) (str_lines s)))))"
proof -
  have e: "chars_count ellipsis = 1" by (simp add: ellipsis_def is_cont_def of_char_of)
  have "chars_count (take_chars TOOL_OUTPUT_SUMMARY_MAX l @ ellipsis) \<le> TOOL_OUTPUT_SUMMARY_MAX + 1" for l
    using chars_count_take_chars [of TOOL_OUTPUT_SUMMARY_MAX l] by (simp add: e)
  then show ?thesis
    by (simp add: summarize_tool_output_def Let_def suffix_def ellipsis_def del: chars_count_simps)
qed

theorem tool_summary_bounded_witness:
  "summarize_tool_output ''total 0'' = Some ''total 0'' \<and> chars_count ''total 0'' \<le> TOOL_OUTPUT_SUMMARY_MAX + 1"
proof -
  have t: "trim ''total 0'' = ''total 0''" "trim_start ''total 0'' = ''total 0''"
    by (rule trim_graphic trim_start_graphic; simp add: graphic_def)+
  have l: "str_lines ''total 0'' = [''total 0'']" "chars_count ''total 0'' = 7"
    by (simp_all add: str_lines_def strip_eol_def nl_def is_cont_def)
  have s: "summarize_tool_output ''total 0'' = Some ''total 0''"
    by (simp add: summarize_tool_output_def l is_fence_def t TOOL_OUTPUT_SUMMARY_MAX_def numeral_3_eq_3 del: chars_count_simps)
  from tool_summary_bounded [of "''total 0''"] s show ?thesis by simp
qed

end
