(* ===== verification/Transcript.thy ===== *)
theory Transcript
  imports Parts
begin

text \<open>
  Delta frames of a watched transcript (\<^verbatim>\<open>src/crates/doc/src/transcript_delta.rs\<close>): the difference of two
  transcripts as a frame, the application of a frame, and the watermark that separates history from
  what arrived since. The entry is \<^verbatim>\<open>SessionMessageEntry\<close> of \<^verbatim>\<open>src/crates/doc/src/schema.rs\<close>.

  A frame is applied in place: the model returns the error, if any, and the transcript as it stands
  when the code returns.
\<close>

section \<open>Entries and frames\<close>

datatype MessageRole = RoleUser | RoleAssistant | RoleSystem

record SessionMessageEntry =
  me_id :: string
  me_role :: MessageRole
  me_parts :: "MessagePart list"
  me_created_at :: int
  me_device_id :: string
  me_status :: "MessageStatus option"
  me_continuation_of :: "string option"
  me_duration_ms :: "int option"

record TranscriptUpsert =
  up_after :: "string option"
  up_entry :: SessionMessageEntry

record TextAppend =
  ta_entry :: string
  ta_part :: string
  ta_text :: string
  ta_len :: nat

datatype TranscriptFrame =
    Reset "SessionMessageEntry list"
  | Delta "TranscriptUpsert list" "TextAppend list" "string list" nat

definition is_empty_delta :: "TranscriptFrame \<Rightarrow> bool" where
  "is_empty_delta f \<longleftrightarrow>
     (case f of Reset _ \<Rightarrow> False | Delta ups apps rem _ \<Rightarrow> ups = [] \<and> apps = [] \<and> rem = [])"

section \<open>The watermark\<close>

type_synonym TranscriptBaseline = "(string, (string, nat) hmap) hmap"

text \<open>\<^verbatim>\<open>collect\<close> into a hash map: a later pair replaces an earlier one with its key.\<close>

definition hm_collect :: "('k \<times> 'v) list \<Rightarrow> ('k, 'v) hmap" where
  "hm_collect kvs = fold (\<lambda>(k, v). AList.update k v) kvs []"

fun text_len :: "MessagePart \<Rightarrow> nat" where
  "text_len (PText _ s) = length s"
| "text_len (PReasoning _ s) = length s"
| "text_len _ = 0"

definition covers_entry :: "TranscriptBaseline \<Rightarrow> SessionMessageEntry \<Rightarrow> bool" where
  "covers_entry b entry \<longleftrightarrow>
     (case map_of b (me_id entry) of
        None \<Rightarrow> False
      | Some parts \<Rightarrow>
          list_all (\<lambda>p. case map_of parts (part_id p) of
             None \<Rightarrow> False | Some len \<Rightarrow> \<not> bodied p \<or> len \<ge> text_len p) (me_parts entry))"

definition capture :: "SessionMessageEntry list \<Rightarrow> TranscriptBaseline" where
  "capture entries =
     hm_collect (map (\<lambda>e. (me_id e, hm_collect (map (\<lambda>p. (part_id p, text_len p)) (me_parts e)))) entries)"

definition cut_text :: "nat \<Rightarrow> string \<Rightarrow> string" where
  "cut_text len s = take (floor_boundary s (min len (length s))) s"

fun cut_part :: "nat \<Rightarrow> MessagePart \<Rightarrow> MessagePart" where
  "cut_part len (PText ident s) = PText ident (cut_text len s)"
| "cut_part len (PReasoning ident s) = PReasoning ident (cut_text len s)"
| "cut_part len p = p"

definition historical_entry :: "TranscriptBaseline \<Rightarrow> SessionMessageEntry \<Rightarrow> SessionMessageEntry option" where
  "historical_entry b entry =
     map_option (\<lambda>parts. entry\<lparr>me_parts :=
         List.map_filter (\<lambda>p. map_option (\<lambda>len. cut_part len p) (map_of parts (part_id p))) (me_parts entry)\<rparr>)
       (map_of b (me_id entry))"

section \<open>The difference\<close>

fun text_pair :: "MessagePart \<Rightarrow> MessagePart \<Rightarrow> ((string \<times> string) \<times> (string \<times> string)) option" where
  "text_pair (PText pid pt) (PText nid nt) = Some ((pid, pt), (nid, nt))"
| "text_pair (PReasoning pid pt) (PReasoning nid nt) = Some ((pid, pt), (nid, nt))"
| "text_pair _ _ = None"

text \<open>The loop over the parts: \<open>None\<close> for an early return, else the append found.\<close>

fun append_scan :: "string \<Rightarrow> (MessagePart \<times> MessagePart) list \<Rightarrow> TextAppend option \<Rightarrow> TextAppend option option" where
  "append_scan ident [] found = Some found"
| "append_scan ident ((p, n) # rest) found =
     (if p = n then append_scan ident rest found
      else case text_pair p n of
        None \<Rightarrow> None
      | Some ((pid, pt), (nid, nt)) \<Rightarrow>
          if pid \<noteq> nid \<or> \<not> prefix pt nt \<or> found \<noteq> None then None
          else append_scan ident rest
            (Some \<lparr>ta_entry = ident, ta_part = nid, ta_text = drop (length pt) nt, ta_len = length nt\<rparr>))"

definition try_text_append :: "SessionMessageEntry \<Rightarrow> SessionMessageEntry \<Rightarrow> TextAppend option" where
  "try_text_append prev next =
     (if me_id prev \<noteq> me_id next \<or> me_role prev \<noteq> me_role next \<or> me_created_at prev \<noteq> me_created_at next \<or>
         me_device_id prev \<noteq> me_device_id next \<or> me_status prev \<noteq> me_status next \<or>
         me_continuation_of prev \<noteq> me_continuation_of next \<or> length (me_parts prev) \<noteq> length (me_parts next)
      then None
      else case append_scan (me_id next) (zip (me_parts prev) (me_parts next)) None of
        None \<Rightarrow> None | Some found \<Rightarrow> found)"

definition before :: "SessionMessageEntry list \<Rightarrow> nat \<Rightarrow> string option" where
  "before entries i = (if i = 0 then None else Some (me_id (entries ! (i - 1))))"

definition prev_by_id :: "SessionMessageEntry list \<Rightarrow> (string, nat \<times> SessionMessageEntry) hmap" where
  "prev_by_id prev = hm_collect (map (\<lambda>(i, e). (me_id e, (i, e))) (enumerate 0 prev))"

datatype Change = Same | Tail TextAppend | Put TranscriptUpsert

definition change_of :: "SessionMessageEntry list \<Rightarrow> SessionMessageEntry list \<Rightarrow> nat \<times> SessionMessageEntry \<Rightarrow> Change" where
  "change_of prev next ie =
     (case ie of (i, entry) \<Rightarrow>
        let after = before next i; put = Put \<lparr>up_after = after, up_entry = entry\<rparr> in
        case map_of (prev_by_id prev) (me_id entry) of
          None \<Rightarrow> put
        | Some (prev_ix, prev_entry) \<Rightarrow>
            if prev_entry = entry \<and> before prev prev_ix = after then Same
            else if before prev prev_ix = after then
              (case try_text_append prev_entry entry of Some a \<Rightarrow> Tail a | None \<Rightarrow> put)
            else put)"

fun put_of :: "Change \<Rightarrow> TranscriptUpsert option" where
  "put_of (Put u) = Some u" | "put_of _ = None"

fun tail_of :: "Change \<Rightarrow> TextAppend option" where
  "tail_of (Tail a) = Some a" | "tail_of _ = None"

definition diff_transcript :: "SessionMessageEntry list \<Rightarrow> SessionMessageEntry list \<Rightarrow> TranscriptFrame" where
  "diff_transcript prev next =
     (let next_ids = map me_id next;
          removed = map me_id (filter (\<lambda>e. me_id e \<notin> set next_ids) prev);
          changes = map (change_of prev next) (enumerate 0 next);
          upsert = List.map_filter put_of changes;
          appends = List.map_filter tail_of changes
      in if length upsert * 2 \<ge> max (length next) 1 \<and> length next > 4 then Reset next
         else Delta upsert appends removed (length next))"

section \<open>Application\<close>

fun index_where :: "('a \<Rightarrow> bool) \<Rightarrow> 'a list \<Rightarrow> nat option" where
  "index_where P [] = None"
| "index_where P (x # xs) = (if P x then Some 0 else map_option Suc (index_where P xs))"

definition without_at :: "nat \<Rightarrow> 'a list \<Rightarrow> 'a list" where
  "without_at i xs = take i xs @ drop (Suc i) xs"

definition with_at :: "nat \<Rightarrow> 'a \<Rightarrow> 'a list \<Rightarrow> 'a list" where
  "with_at i x xs = take i xs @ x # drop i xs"

fun apply_upserts :: "TranscriptUpsert list \<Rightarrow> SessionMessageEntry list \<Rightarrow> string option \<times> SessionMessageEntry list" where
  "apply_upserts [] current = (None, current)"
| "apply_upserts (u # us) current =
     (let current = (case index_where (\<lambda>e. me_id e = me_id (up_entry u)) current of
                       None \<Rightarrow> current | Some i \<Rightarrow> without_at i current)
      in case up_after u of
           None \<Rightarrow> apply_upserts us (with_at 0 (up_entry u) current)
         | Some anchor \<Rightarrow>
             (case index_where (\<lambda>e. me_id e = anchor) current of
                Some ix \<Rightarrow> apply_upserts us (with_at (ix + 1) (up_entry u) current)
              | None \<Rightarrow> (Some (''missing anchor '' @ anchor), current)))"

text \<open>Appending to the first text of that id: the new parts and the length of the text.\<close>

fun append_tail :: "string \<Rightarrow> string \<Rightarrow> MessagePart list \<Rightarrow> (nat \<times> MessagePart list) option" where
  "append_tail part s [] = None"
| "append_tail part s (p # ps) =
     (let later = map_option (\<lambda>(n, ps'). (n, p # ps')) (append_tail part s ps) in
      case p of
        PText ident t \<Rightarrow> if ident = part then Some (length (t @ s), PText ident (t @ s) # ps) else later
      | PReasoning ident t \<Rightarrow> if ident = part then Some (length (t @ s), PReasoning ident (t @ s) # ps) else later
      | _ \<Rightarrow> later)"

fun apply_appends :: "TextAppend list \<Rightarrow> SessionMessageEntry list \<Rightarrow> string option \<times> SessionMessageEntry list" where
  "apply_appends [] current = (None, current)"
| "apply_appends (a # as) current =
     (case index_where (\<lambda>e. me_id e = ta_entry a) current of
        None \<Rightarrow> (Some (''missing append entry '' @ ta_entry a), current)
      | Some i \<Rightarrow>
          (case append_tail (ta_part a) (ta_text a) (me_parts (current ! i)) of
             None \<Rightarrow> (Some (''missing append part '' @ ta_part a), current)
           | Some (n, parts) \<Rightarrow>
               let current = current[i := (current ! i)\<lparr>me_parts := parts\<rparr>] in
               if n \<noteq> ta_len a then
                 (Some (''append length mismatch on '' @ ta_entry a @ ''#'' @ ta_part a @ '': have '' @ dec n @
                    '', expected '' @ dec (ta_len a)), current)
               else apply_appends as current))"

fun apply_transcript_frame :: "TranscriptFrame \<Rightarrow> SessionMessageEntry list \<Rightarrow> string option \<times> SessionMessageEntry list" where
  "apply_transcript_frame (Reset entries) current = (None, entries)"
| "apply_transcript_frame (Delta upsert appends removed count) current =
     (let current = filter (\<lambda>e. me_id e \<notin> set removed) current in
      case apply_upserts upsert current of
        (Some err, current) \<Rightarrow> (Some err, current)
      | (None, current) \<Rightarrow>
          (case apply_appends appends current of
             (Some err, current) \<Rightarrow> (Some err, current)
           | (None, current) \<Rightarrow>
               if length current \<noteq> count then
                 (Some (''count mismatch: have '' @ dec (length current) @ '', expected '' @ dec count), current)
               else (None, current)))"

section \<open>One entry\<close>

lemma index_where_append:
  "(\<forall>x \<in> set xs. \<not> P x) \<Longrightarrow> P y \<Longrightarrow> index_where P (xs @ y # ys) = Some (length xs)"
  by (induction xs) auto

lemma index_where_None: "index_where P xs = None \<longleftrightarrow> (\<forall>x \<in> set xs. \<not> P x)"
  by (induction xs) auto

lemma append_scan_found:
  "append_scan ident zs (Some a) = Some r \<Longrightarrow> r = Some a \<and> (\<forall>(p, n) \<in> set zs. p = n)"
  by (induction ident zs "Some a" rule: append_scan.induct) (auto split: if_splits option.splits)

text \<open>Pairs of parts that agree but for one text that has grown.\<close>

inductive one_tail :: "string \<Rightarrow> (MessagePart \<times> MessagePart) list \<Rightarrow> TextAppend \<Rightarrow> bool" for ident where
  grown: "text_pair p n = Some ((pid, pt), (pid, nt)) \<Longrightarrow> prefix pt nt \<Longrightarrow> \<forall>(x, y) \<in> set vs. x = y \<Longrightarrow>
    one_tail ident ((p, n) # vs)
      \<lparr>ta_entry = ident, ta_part = pid, ta_text = drop (length pt) nt, ta_len = length nt\<rparr>"
| same: "one_tail ident zs a \<Longrightarrow> one_tail ident ((p, p) # zs) a"

lemma append_scan_fresh: "append_scan ident zs None = Some (Some a) \<Longrightarrow> one_tail ident zs a"
proof (induction zs)
  case (Cons z zs)
  obtain p n where z: "z = (p, n)" by force
  show ?case
  proof (cases "p = n")
    case True
    with Cons z show ?thesis by (simp add: same)
  next
    case False
    with Cons.prems z obtain pid pt nt where t: "text_pair p n = Some ((pid, pt), (pid, nt))" "prefix pt nt"
      and r: "append_scan ident zs (Some \<lparr>ta_entry = ident, ta_part = pid, ta_text = drop (length pt) nt, ta_len = length nt\<rparr>)
        = Some (Some a)"
      by (auto split: option.splits if_splits)
    from append_scan_found [OF r] grown [OF t] z show ?thesis by simp
  qed
qed simp

lemma text_pair_cases:
  "text_pair p n = Some ((pid, pt), (nid, nt)) \<Longrightarrow>
   p = PText pid pt \<and> n = PText nid nt \<or> p = PReasoning pid pt \<and> n = PReasoning nid nt"
  by (cases p; cases n) auto

definition texts_distinct :: "SessionMessageEntry \<Rightarrow> bool" where
  "texts_distinct e \<longleftrightarrow> distinct (map part_id (filter bodied (me_parts e)))"

lemma append_tail_skip:
  "\<not> (bodied p \<and> part_id p = pid) \<Longrightarrow>
   append_tail pid s (p # ps) = map_option (\<lambda>(n, ps'). (n, p # ps')) (append_tail pid s ps)"
  by (cases p) (simp_all add: Let_def)

lemma append_tail_here:
  assumes "text_pair p n = Some ((pid, pt), (pid, nt))" "prefix pt nt"
  shows "append_tail pid (drop (length pt) nt) (p # ps) = Some (length nt, n # ps)"
proof -
  have "pt @ drop (length pt) nt = nt" using assms(2) by (auto simp: prefix_def)
  with text_pair_cases [OF assms(1)] show ?thesis
    by (elim disjE conjE) (simp_all del: length_append)
qed

lemma equal_zip: "\<forall>(x, y) \<in> set (zip xs ys). x = y \<Longrightarrow> length xs = length ys \<Longrightarrow> xs = ys"
  by (induction xs ys rule: list_induct2') auto

lemma one_tail_part: "one_tail ident zs a \<Longrightarrow> \<exists>(p, n) \<in> set zs. bodied p \<and> part_id p = ta_part a"
  by (induction rule: one_tail.induct) (auto dest: text_pair_cases)

lemma one_tail_applies:
  "one_tail ident zs a \<Longrightarrow> zs = zip ps ns \<Longrightarrow> length ps = length ns \<Longrightarrow> distinct (map part_id (filter bodied ps)) \<Longrightarrow>
   ta_entry a = ident \<and> append_tail (ta_part a) (ta_text a) ps = Some (ta_len a, ns)"
proof (induction arbitrary: ps ns rule: one_tail.induct)
  case (grown p n pid pt nt vs)
  then obtain ps' ns' where s: "ps = p # ps'" "ns = n # ns'" "vs = zip ps' ns'" "length ps' = length ns'"
    by (cases ps; cases ns) auto
  with grown(3) equal_zip have "ps' = ns'" by metis
  with append_tail_here [OF grown(1,2)] s show ?case by (simp del: append_tail.simps)
next
  case (same zs a p)
  then obtain ps' ns' where s: "ps = p # ps'" "ns = p # ns'" "zs = zip ps' ns'" "length ps' = length ns'"
    by (cases ps; cases ns) auto
  have "part_id p \<noteq> ta_part a" if "bodied p"
    using one_tail_part [OF same.hyps] same.prems(3) s that
    by (force dest: set_zip_leftD)
  with same.IH [OF s(3,4)] same.prems(3) s show ?case
    by (auto simp: append_tail_skip simp del: append_tail.simps split: if_splits)
qed

lemma try_text_append_applies:
  assumes t: "try_text_append prev nxt = Some a" and d: "texts_distinct prev"
    and e: "me_duration_ms prev = me_duration_ms nxt"
  shows "ta_entry a = me_id nxt" "me_id prev = me_id nxt"
    "append_tail (ta_part a) (ta_text a) (me_parts prev) = Some (ta_len a, me_parts nxt)"
    "prev\<lparr>me_parts := me_parts nxt\<rparr> = nxt"
proof -
  have same: "me_id prev = me_id nxt" "me_role prev = me_role nxt" "me_created_at prev = me_created_at nxt"
    "me_device_id prev = me_device_id nxt" "me_status prev = me_status nxt"
    "me_continuation_of prev = me_continuation_of nxt" "length (me_parts prev) = length (me_parts nxt)"
    and scan: "append_scan (me_id nxt) (zip (me_parts prev) (me_parts nxt)) None = Some (Some a)"
    using t by (auto simp: try_text_append_def split: if_splits option.splits)
  from one_tail_applies [OF append_scan_fresh [OF scan] refl same(7)] d
  show "ta_entry a = me_id nxt" "append_tail (ta_part a) (ta_text a) (me_parts prev) = Some (ta_len a, me_parts nxt)"
    by (simp_all add: texts_distinct_def)
  show "me_id prev = me_id nxt" "prev\<lparr>me_parts := me_parts nxt\<rparr> = nxt"
    using same e by (simp_all)
qed

section \<open>The whole transcript\<close>

lemma map_of_hm_collect: "map_of (hm_collect kvs) = map_of (rev kvs)"
proof -
  have "map_of (fold (\<lambda>(k, v). AList.update k v) kvs m) = map_of m ++ map_of (rev kvs)" for m
  proof (induction kvs arbitrary: m)
    case (Cons kv kvs)
    then show ?case by (cases kv) (simp add: update_conv map_add_upd_left fun_eq_iff map_add_def split: option.splits)
  qed simp
  from this [of "[]"] show ?thesis by (simp add: hm_collect_def)
qed

lemma hm_collect_distinct: "distinct (map fst kvs) \<Longrightarrow> map_of (hm_collect kvs) = map_of kvs"
  by (simp add: map_of_hm_collect map_of_rev_distinct hm_ok_def)

lemma map_of_keyed: "distinct (map f xs) \<Longrightarrow> x \<in> set xs \<Longrightarrow> map_of (map (\<lambda>x. (f x, g x)) xs) (f x) = Some (g x)"
  by (rule map_of_is_SomeI) (auto simp: comp_def)

lemma prev_by_id_eq:
  assumes "distinct (map me_id prev)"
  shows "map_of (prev_by_id prev) k = Some (i, e) \<longleftrightarrow> i < length prev \<and> e = prev ! i \<and> me_id e = k"
proof -
  have "map fst (map (\<lambda>(i, e). (me_id e, (i, e))) (enumerate 0 prev)) = map me_id prev"
    by (simp add: comp_def case_prod_unfold flip: map_map [of me_id snd, unfolded comp_def])
  then have d: "distinct (map fst (map (\<lambda>(i, e). (me_id e, (i, e))) (enumerate 0 prev)))" using assms by metis
  then show ?thesis
    by (auto simp: prev_by_id_def hm_collect_distinct [OF d] map_of_eq_Some_iff [OF d] in_set_enumerate_eq image_iff
        intro!: bexI [of _ "(i, prev ! i)"])
qed

text \<open>Two transcripts whose common entries come in the same order.\<close>

definition same_order :: "SessionMessageEntry list \<Rightarrow> SessionMessageEntry list \<Rightarrow> bool" where
  "same_order prev next \<longleftrightarrow>
     filter (\<lambda>i. i \<in> set (map me_id next)) (map me_id prev) = filter (\<lambda>i. i \<in> set (map me_id prev)) (map me_id next)"

definition old_entry :: "SessionMessageEntry list \<Rightarrow> SessionMessageEntry \<Rightarrow> SessionMessageEntry" where
  "old_entry prev e = snd (the (map_of (prev_by_id prev) (me_id e)))"

text \<open>An entry once the upserts are applied: the new one if it was sent whole, else the one held.\<close>

definition upserted :: "SessionMessageEntry list \<Rightarrow> SessionMessageEntry list \<Rightarrow> nat \<times> SessionMessageEntry \<Rightarrow> SessionMessageEntry" where
  "upserted prev next ie = (case put_of (change_of prev next ie) of Some u \<Rightarrow> up_entry u | None \<Rightarrow> old_entry prev (snd ie))"

lemma put_of_change: "put_of (change_of prev next (i, e)) = Some u \<Longrightarrow> u = \<lparr>up_after = before next i, up_entry = e\<rparr>"
  by (auto simp: change_of_def Let_def split: option.splits if_splits prod.splits)

lemma known_entry:
  assumes "distinct (map me_id prev)"
  shows "map_of (prev_by_id prev) k = None \<longleftrightarrow> k \<notin> set (map me_id prev)"
proof
  assume "map_of (prev_by_id prev) k = None"
  then show "k \<notin> set (map me_id prev)"
    using prev_by_id_eq [OF assms, of k _ "prev ! _"] by (metis in_set_conv_nth length_map nth_map option.distinct(1))
next
  assume "k \<notin> set (map me_id prev)"
  then show "map_of (prev_by_id prev) k = None"
    using prev_by_id_eq [OF assms, of k] by (cases "map_of (prev_by_id prev) k") force+
qed

lemma old_entry_id:
  assumes "distinct (map me_id prev)" "me_id e \<in> set (map me_id prev)"
  shows "me_id (old_entry prev e) = me_id e" "old_entry prev e \<in> set prev"
proof -
  obtain i e' where m: "map_of (prev_by_id prev) (me_id e) = Some (i, e')"
    using known_entry [OF assms(1), of "me_id e"] assms(2) by auto
  from iffD1 [OF prev_by_id_eq [OF assms(1)] m]
  show "me_id (old_entry prev e) = me_id e" "old_entry prev e \<in> set prev" by (auto simp: old_entry_def m)
qed

lemma not_put_known:
  "distinct (map me_id prev) \<Longrightarrow> put_of (change_of prev next (i, e)) = None \<Longrightarrow> me_id e \<in> set (map me_id prev)"
  using known_entry [of prev "me_id e"] by (auto simp: change_of_def Let_def split: option.splits)

lemma upserted_id: "distinct (map me_id prev) \<Longrightarrow> me_id (upserted prev next (i, e)) = me_id e"
  using not_put_known [of prev "next" i e] old_entry_id(1) [of prev e] put_of_change [of prev "next" i e]
  by (auto simp: upserted_def split: option.splits)

lemma upserted_ids:
  "distinct (map me_id prev) \<Longrightarrow> map me_id (map (upserted prev nxt) (enumerate n xs)) = map me_id xs"
  by (induction xs arbitrary: n) (simp_all add: upserted_id)

lemma upserted_put: "put_of (change_of prev nxt (i, e)) = Some u \<Longrightarrow> upserted prev nxt (i, e) = e"
  using put_of_change [of prev nxt i e u] by (simp add: upserted_def)

lemma upserted_kept: "put_of (change_of prev nxt (i, e)) = None \<Longrightarrow> upserted prev nxt (i, e) = old_entry prev e"
  by (simp add: upserted_def)

lemma enumerate_snoc: "enumerate n (xs @ [x]) = enumerate n xs @ [(n + length xs, x)]"
  by (simp add: enumerate_append_eq)

lemma index_of_last:
  assumes "distinct (map me_id xs)" "xs \<noteq> []" "map me_id as = map me_id xs"
  shows "index_where (\<lambda>e. me_id e = me_id (last xs)) (as @ bs) = Some (length xs - 1)"
proof -
  from assms(2,3) have "as \<noteq> []" by auto
  then obtain as' a where as: "as = as' @ [a]" by (metis append_butlast_last_id)
  from assms(2) obtain xs' x where xs: "xs = xs' @ [x]" by (metis append_butlast_last_id)
  have eq: "map me_id as' = map me_id xs'" "me_id a = me_id x" using assms(3) by (simp_all add: as xs)
  have "me_id x \<notin> set (map me_id xs')" using assms(1) by (auto simp: xs)
  then have "me_id x \<notin> me_id ` set as'" by (simp flip: eq(1))
  then have "\<forall>e \<in> set as'. me_id e \<noteq> me_id x" by (metis imageI)
  from index_where_append [OF this, of a bs] eq show ?thesis
    using map_eq_imp_length_eq [OF eq(1)] by (simp add: as xs)
qed

lemma apply_upserts_step:
  assumes ids: "map me_id as = map me_id xs" and d: "distinct (map me_id (xs @ y # ys))"
    and b: "set (map me_id bs) \<subseteq> set (map me_id ys)" and o': "os = [] \<or> (\<exists>e. os = [e] \<and> me_id e = me_id y)"
  shows "apply_upserts (\<lparr>up_after = before (xs @ y # ys) (length xs), up_entry = y\<rparr> # us) (as @ os @ bs) =
    apply_upserts us (as @ y # bs)"
proof -
  have "me_id y \<notin> set (map me_id xs)" "me_id y \<notin> set (map me_id ys)" using d by auto
  then have "me_id y \<notin> me_id ` set as" "me_id y \<notin> me_id ` set bs" using b by (auto simp flip: ids)
  then have na: "\<forall>e \<in> set as. me_id e \<noteq> me_id y" and nb: "\<forall>e \<in> set bs. me_id e \<noteq> me_id y" by (metis imageI)+
  have gone: "(case index_where (\<lambda>e. me_id e = me_id y) (as @ os @ bs) of
      None \<Rightarrow> as @ os @ bs | Some i \<Rightarrow> without_at i (as @ os @ bs)) = as @ bs"
  proof (cases os)
    case Nil
    with na nb have "index_where (\<lambda>e. me_id e = me_id y) (as @ os @ bs) = None" by (auto simp: index_where_None)
    with Nil show ?thesis by simp
  next
    case (Cons e r)
    with o' have e: "os = [e]" "me_id e = me_id y" by auto
    from index_where_append [where P = "\<lambda>e. me_id e = me_id y", OF na e(2), of bs] show ?thesis
      by (simp add: e(1) without_at_def)
  qed
  have step: "apply_upserts (\<lparr>up_after = before (xs @ y # ys) (length xs), up_entry = y\<rparr> # us) (as @ os @ bs) =
      (case before (xs @ y # ys) (length xs) of
         None \<Rightarrow> apply_upserts us (with_at 0 y (as @ bs))
       | Some anchor \<Rightarrow> (case index_where (\<lambda>e. me_id e = anchor) (as @ bs) of
            Some ix \<Rightarrow> apply_upserts us (with_at (ix + 1) y (as @ bs))
          | None \<Rightarrow> (Some (''missing anchor '' @ anchor), as @ bs)))"
    by (simp only: apply_upserts.simps Let_def TranscriptUpsert.select_convs gone)
  show ?thesis
  proof (cases "xs = []")
    case True
    with ids step show ?thesis by (simp add: before_def with_at_def del: apply_upserts.simps)
  next
    case False
    then have bf: "before (xs @ y # ys) (length xs) = Some (me_id (last xs))"
      by (simp add: before_def nth_append last_conv_nth)
    have "length as = length xs" using map_eq_imp_length_eq [OF ids] .
    with index_of_last [OF _ False ids, of bs] d False step show ?thesis
      by (simp add: bf with_at_def Suc_diff_Suc del: apply_upserts.simps)
  qed
qed

lemma apply_upserts_all:
  assumes d: "distinct (map me_id prev)" "distinct (map me_id nxt)"
  shows "nxt = xs @ ys \<Longrightarrow>
    apply_upserts (List.map_filter put_of (map (change_of prev nxt) (enumerate (length xs) ys)))
      (map (upserted prev nxt) (enumerate 0 xs) @
       map (old_entry prev) (filter (\<lambda>e. me_id e \<in> set (map me_id prev)) ys)) =
    (None, map (upserted prev nxt) (enumerate 0 nxt))"
proof (induction ys arbitrary: xs)
  case Nil
  then show ?case by (simp add: map_filter_simps)
next
  case (Cons y ys)
  let ?A = "map (upserted prev nxt) (enumerate 0 xs)"
  let ?B = "map (old_entry prev) (filter (\<lambda>e. me_id e \<in> set (map me_id prev)) ys)"
  let ?us = "List.map_filter put_of (map (change_of prev nxt) (enumerate (Suc (length xs)) ys))"
  have IH: "apply_upserts ?us (map (upserted prev nxt) (enumerate 0 (xs @ [y])) @ ?B) =
      (None, map (upserted prev nxt) (enumerate 0 nxt))"
    using Cons.IH [of "xs @ [y]"] Cons.prems by simp
  have ids: "map me_id ?A = map me_id xs" by (rule upserted_ids [OF d(1)])
  have B: "set (map me_id ?B) \<subseteq> set (map me_id ys)" using old_entry_id(1) [OF d(1)] by auto
  show ?case
  proof (cases "put_of (change_of prev nxt (length xs, y))")
    case None
    with not_put_known [OF d(1) None] IH show ?thesis
      by (simp add: map_filter_simps enumerate_snoc upserted_kept)
  next
    case (Some u)
    let ?os = "if me_id y \<in> set (map me_id prev) then [old_entry prev y] else []"
    have "apply_upserts (u # ?us) (?A @ ?os @ ?B) = apply_upserts ?us (?A @ y # ?B)"
      unfolding put_of_change [OF Some] Cons.prems
      by (rule apply_upserts_step) (use ids B d(2) Cons.prems old_entry_id(1) [OF d(1)] in auto)
    with IH Some show ?thesis
      by (simp add: map_filter_simps enumerate_snoc upserted_put del: apply_upserts.simps split: if_splits)
  qed
qed

lemma held_entries:
  assumes d: "distinct (map me_id prev)" and o': "same_order prev nxt"
  shows "filter (\<lambda>e. me_id e \<notin> set (map me_id (filter (\<lambda>e. me_id e \<notin> set (map me_id nxt)) prev))) prev =
    map (old_entry prev) (filter (\<lambda>e. me_id e \<in> set (map me_id prev)) nxt)"
    (is "?R = map _ ?K")
proof -
  have R: "?R = filter (\<lambda>e. me_id e \<in> set (map me_id nxt)) prev"
  proof (rule filter_cong [OF refl])
    fix e assume "e \<in> set prev"
    then show "(me_id e \<notin> set (map me_id (filter (\<lambda>e. me_id e \<notin> set (map me_id nxt)) prev))) =
        (me_id e \<in> set (map me_id nxt))" by force
  qed
  have ids: "map me_id ?R = map me_id ?K"
    using o' by (simp only: R same_order_def filter_map comp_def)
  let ?look = "\<lambda>k. snd (the (map_of (prev_by_id prev) k))"
  have "?look (me_id e) = e" if "e \<in> set prev" for e
  proof -
    obtain i where "i < length prev" "e = prev ! i" using \<open>e \<in> set prev\<close> by (auto simp: in_set_conv_nth)
    with prev_by_id_eq [OF d, of "me_id e" i e] show ?thesis by simp
  qed
  then have "map ?look (map me_id ?R) = ?R" unfolding map_map by (intro map_idI) auto
  then have "?R = map ?look (map me_id ?R)" by (rule sym)
  also have "\<dots> = map ?look (map me_id ?K)" by (simp only: ids)
  also have "\<dots> = map (old_entry prev) ?K" by (simp add: old_entry_def comp_def)
  finally show ?thesis .
qed

lemma tail_change:
  assumes d: "distinct (map me_id prev)" and c: "change_of prev nxt (i, y) = Tail a"
  shows "try_text_append (old_entry prev y) y = Some a" "old_entry prev y \<in> set prev"
    "upserted prev nxt (i, y) = old_entry prev y"
proof -
  have n: "put_of (change_of prev nxt (i, y)) = None" by (simp add: c)
  from c show "try_text_append (old_entry prev y) y = Some a"
    by (auto simp: change_of_def Let_def old_entry_def split: option.splits if_splits prod.splits)
  from old_entry_id(2) [OF d not_put_known [OF d n]] show "old_entry prev y \<in> set prev" .
  show "upserted prev nxt (i, y) = old_entry prev y" by (rule upserted_kept [OF n])
qed

lemma not_tail_change:
  assumes "tail_of (change_of prev nxt (i, y)) = None"
  shows "upserted prev nxt (i, y) = y"
proof (cases "change_of prev nxt (i, y)")
  case Same
  then show ?thesis
    by (auto simp: upserted_kept change_of_def Let_def old_entry_def split: option.splits if_splits prod.splits)
next
  case (Put u)
  then show ?thesis by (simp add: upserted_put)
qed (use assms in simp)

text \<open>The one difference the append check overlooks.\<close>

definition durations_kept :: "SessionMessageEntry list \<Rightarrow> SessionMessageEntry list \<Rightarrow> bool" where
  "durations_kept prev next \<longleftrightarrow>
     (\<forall>p \<in> set prev. \<forall>e \<in> set next. try_text_append p e \<noteq> None \<longrightarrow> me_duration_ms p = me_duration_ms e)"

lemma apply_appends_all:
  assumes d: "distinct (map me_id prev)" "distinct (map me_id nxt)" "\<forall>e \<in> set prev. texts_distinct e"
    and k: "durations_kept prev nxt"
  shows "nxt = xs @ ys \<Longrightarrow>
    apply_appends (List.map_filter tail_of (map (change_of prev nxt) (enumerate (length xs) ys)))
      (xs @ map (upserted prev nxt) (enumerate (length xs) ys)) = (None, nxt)"
proof (induction ys arbitrary: xs)
  case Nil
  then show ?case by (simp add: map_filter_simps)
next
  case (Cons y ys)
  have IH: "apply_appends (List.map_filter tail_of (map (change_of prev nxt) (enumerate (Suc (length xs)) ys)))
      (xs @ y # map (upserted prev nxt) (enumerate (Suc (length xs)) ys)) = (None, nxt)"
    using Cons.IH [of "xs @ [y]"] Cons.prems by simp
  show ?case
  proof (cases "change_of prev nxt (length xs, y)")
    case (Tail a)
    let ?p = "old_entry prev y"
    note c = tail_change [OF d(1) Tail]
    have "me_duration_ms ?p = me_duration_ms y"
      using k c(1,2) Cons.prems by (force simp: durations_kept_def)
    note t = try_text_append_applies [OF c(1) bspec [OF d(3) c(2)] this]
    have "me_id y \<notin> me_id ` set xs" using d(2) Cons.prems by auto
    then have "\<forall>e \<in> set xs. me_id e \<noteq> me_id y" by (metis imageI)
    from index_where_append [where P = "\<lambda>e. me_id e = me_id y", OF this t(2)] IH Tail t
    show ?thesis by (simp add: map_filter_simps c(3) nth_append list_update_append)
  qed (use IH not_tail_change [of prev nxt "length xs" y] in \<open>simp_all add: map_filter_simps\<close>)
qed

section \<open>Properties\<close>


definition demo_entry :: "string \<Rightarrow> MessagePart list \<Rightarrow> SessionMessageEntry" where
  "demo_entry ident parts = \<lparr>me_id = ident, me_role = RoleAssistant, me_parts = parts, me_created_at = 5,
     me_device_id = ''mac'', me_status = Some Streaming, me_continuation_of = None, me_duration_ms = None\<rparr>"


lemma append_scan_self: "append_scan ident (zip ps ps) found = Some found"
  by (induction ps) simp_all

text \<open>A change of an entry's duration is lost when it comes together with an append: the append check
  compares every field but the duration, so the receiver keeps the old duration and sees no error.\<close>

theorem append_drops_duration:
  assumes "try_text_append p e = Some a" "texts_distinct p"
  shows "apply_transcript_frame (diff_transcript [p] [e]) [p] = (None, [e\<lparr>me_duration_ms := me_duration_ms p\<rparr>])"
proof -
  let ?e = "e\<lparr>me_duration_ms := me_duration_ms p\<rparr>"
  have "p \<noteq> e" using assms(1) by (auto simp: try_text_append_def append_scan_self)
  have "try_text_append p ?e = Some a" using assms(1) by (auto simp: try_text_append_def split: if_splits)
  note t = try_text_append_applies [OF this assms(2), simplified]
  have "diff_transcript [p] [e] = Delta [] [a] [] 1"
    using \<open>p \<noteq> e\<close> assms(1) t(2)
    by (simp add: diff_transcript_def change_of_def prev_by_id_def hm_collect_def before_def map_filter_simps)
  with t show ?thesis by (simp add: Let_def)
qed

theorem append_drops_duration_witness:
  "let p = demo_entry ''b'' [PText ''t0'' ''on'']; e = (demo_entry ''b'' [PText ''t0'' ''one''])\<lparr>me_duration_ms := Some 900\<rparr>
   in apply_transcript_frame (diff_transcript [p] [e]) [p] = (None, [demo_entry ''b'' [PText ''t0'' ''one'']])"
  using append_drops_duration [of "demo_entry ''b'' [PText ''t0'' ''on'']"
      "(demo_entry ''b'' [PText ''t0'' ''one''])\<lparr>me_duration_ms := Some 900\<rparr>"
      "\<lparr>ta_entry = ''b'', ta_part = ''t0'', ta_text = ''e'', ta_len = 3\<rparr>"]
  by (simp add: Let_def demo_entry_def try_text_append_def texts_distinct_def)

text \<open>Outside the order hypothesis the count does not notice: two swapped blocks, each upserted at its
  head only, are left interleaved.\<close>

theorem swapped_blocks_misapplied:
  "let e = (\<lambda>i. demo_entry i []);
       prev = [e ''a'', e ''b'', e ''x'', e ''y'']; nxt = [e ''x'', e ''y'', e ''a'', e ''b'']
   in apply_transcript_frame (diff_transcript prev nxt) prev = (None, [e ''x'', e ''b'', e ''y'', e ''a''])"
  by code_simp

section \<open>The watermark\<close>

fun grown :: "MessagePart \<Rightarrow> MessagePart \<Rightarrow> bool" where
  "grown (PText i s) (PText j t) \<longleftrightarrow> i = j \<and> prefix s t \<and> is_char_boundary t (length s)"
| "grown (PReasoning i s) (PReasoning j t) \<longleftrightarrow> i = j \<and> prefix s t \<and> is_char_boundary t (length s)"
| "grown p q \<longleftrightarrow> p = q"

lemma cut_text_prefix: "prefix s t \<Longrightarrow> is_char_boundary t (length s) \<Longrightarrow> cut_text (length s) t = s"
  by (auto simp: cut_text_def floor_boundary_id prefix_def min_def)

lemma cut_grown: "grown p q \<Longrightarrow> part_id q = part_id p \<and> cut_part (text_len p) q = p"
  by (cases p; cases q) (auto simp: cut_text_prefix)

lemma captured:
  assumes "distinct (map me_id entries)" "e \<in> set entries"
  shows "map_of (capture entries) (me_id e) = Some (hm_collect (map (\<lambda>p. (part_id p, text_len p)) (me_parts e)))"
  unfolding capture_def using assms
  by (subst hm_collect_distinct) (auto simp: comp_def intro!: map_of_keyed)

lemma captured_part:
  assumes "distinct (map part_id ps)"
  shows "map_of (hm_collect (map (\<lambda>p. (part_id p, text_len p)) ps)) k =
    (if k \<in> part_id ` set ps then map_of (map (\<lambda>p. (part_id p, text_len p)) ps) k else None)"
proof -
  have "distinct (map fst (map (\<lambda>p. (part_id p, text_len p)) ps))" using assms by (simp add: comp_def)
  then show ?thesis by (auto simp: hm_collect_distinct map_of_eq_None_iff image_image)
qed

text \<open>The watermark taken of a transcript covers every entry of it, and later gives back exactly the
  history of an entry whose texts have grown and which has gained parts.\<close>

theorem watermark_recovers_history:
  assumes "distinct (map me_id entries)" "e \<in> set entries" "distinct (map part_id (me_parts e))"
    and "me_id e' = me_id e" "me_parts e' = ps @ new" "list_all2 grown (me_parts e) ps"
    and "\<forall>p \<in> set new. part_id p \<notin> part_id ` set (me_parts e)"
  shows "covers_entry (capture entries) e \<and>
    historical_entry (capture entries) e' = Some (e'\<lparr>me_parts := me_parts e\<rparr>)"
proof -
  let ?m = "hm_collect (map (\<lambda>p. (part_id p, text_len p)) (me_parts e))"
  let ?f = "\<lambda>p. map_option (\<lambda>len. cut_part len p) (map_of ?m (part_id p))"
  have m: "map_of ?m (part_id p) = Some (text_len p)" if "p \<in> set (me_parts e)" for p
    using that by (simp add: captured_part [OF assms(3)] map_of_keyed [OF assms(3)])
  have old: "List.map_filter ?f qs = rs" if "list_all2 grown rs qs" "set rs \<subseteq> set (me_parts e)" for rs qs
    using that
  proof (induction rule: list_all2_induct)
    case (Cons r rs q qs)
    then have "map_of ?m (part_id q) = Some (text_len r)" "cut_part (text_len r) q = r"
      using cut_grown [OF Cons.hyps(1)] m [of r] by simp_all
    with Cons show ?case by (simp add: map_filter_simps)
  qed (simp add: map_filter_simps)
  have gone: "List.map_filter ?f new = []"
    using assms(7) by (induction new) (auto simp: map_filter_simps captured_part [OF assms(3)])
  show ?thesis
    using old [OF assms(6) subset_refl] gone m captured [OF assms(1,2)]
    by (simp add: historical_entry_def covers_entry_def assms(4,5) map_filter_append list_all_iff)
qed

theorem watermark_recovers_history_witness:
  "let e = demo_entry ''b'' [PText ''t0'' ''on'']; e' = demo_entry ''b'' [PText ''t0'' ''one'', PError ''e1'' ''x'']
   in historical_entry (capture [demo_entry ''a'' [], e]) e' = Some e"
  using watermark_recovers_history [of "[demo_entry ''a'' [], demo_entry ''b'' [PText ''t0'' ''on'']]"
      "demo_entry ''b'' [PText ''t0'' ''on'']" "demo_entry ''b'' [PText ''t0'' ''one'', PError ''e1'' ''x'']"
      "[PText ''t0'' ''one'']" "[PError ''e1'' ''x'']"]
  by (simp add: Let_def demo_entry_def is_char_boundary_def is_cont_def)

end
