(* ===== verification/View.thy ===== *)
theory View
  imports Agent Text "HOL-Library.Product_Lexorder" "HOL-Library.Multiset"
begin

text \<open>
  What every surface derives the same way from the shared state (\<^verbatim>\<open>src/crates/proto/src/view.rs\<close>): the
  status shown for a chat, sort orders, the gate of the application, groups by project, relative times,
  one-line tool summaries and the checkout of a new session.

  Instants are nanoseconds, and the difference of two is truncated toward zero to milliseconds or
  seconds, as \<^verbatim>\<open>chrono\<close> does. A comparator that compares keys in turn is sorting by the tuple of the
  keys, descending ones negated. Paths are those of Unix.
\<close>

section \<open>Status\<close>

datatype ConnectionStatus = Connecting | ConnReady | ConnFailed string
datatype Indicator = ShowNone | ShowWorking | ShowAwaitingInput | ShowErrored

definition SESSION_STALE_MS :: int where "SESSION_STALE_MS = 45000"

definition units_between :: "int \<Rightarrow> DateTime \<Rightarrow> DateTime \<Rightarrow> int" where
  "units_between unit later earlier =
     (if later \<ge> earlier then (later - earlier) div unit else - ((earlier - later) div unit))"

definition effective_indicator :: "Session option \<Rightarrow> DateTime \<Rightarrow> Indicator" where
  "effective_indicator session now =
     (case session of
        None \<Rightarrow> ShowNone
      | Some s \<Rightarrow>
          (case ses_status s of
             Idle \<Rightarrow> ShowNone
           | Errored \<Rightarrow> ShowErrored
           | _ \<Rightarrow>
               if units_between 1000000 now (ses_updated_at s) > SESSION_STALE_MS then ShowNone
               else if ses_status s = Working then ShowWorking
               else ShowAwaitingInput))"

definition display_status :: "Chat \<Rightarrow> Session option \<Rightarrow> DateTime \<Rightarrow> ChatIndicator" where
  "display_status chat session now =
     chat_indicator chat
       (case session of
          None \<Rightarrow> None
        | Some s \<Rightarrow> if effective_indicator (Some s) now \<noteq> ShowNone then Some s else None)"

fun attention_rank :: "ChatIndicator \<Rightarrow> 8 word" where
  "attention_rank IndAwaitingInput = 0"
| "attention_rank IndErrored = 1"
| "attention_rank IndWorking = 2"
| "attention_rank IndCompleted = 3"
| "attention_rank IndIdle = 4"

section \<open>Sort orders\<close>

definition recency :: "Chat \<Rightarrow> DateTime" where
  "recency c = (case chat_last_message_at c of None \<Rightarrow> chat_created_at c | Some t \<Rightarrow> t)"

definition sort_active :: "(ChatIndicator \<times> Chat) list \<Rightarrow> (ChatIndicator \<times> Chat) list" where
  "sort_active = sort_key (\<lambda>(_, c). (- recency c, chat_id c))"

definition sort_tabs :: "Chat list \<Rightarrow> Chat list" where
  "sort_tabs = sort_key (\<lambda>c. (chat_created_at c, chat_id c))"

definition sort_spaces :: "Space list \<Rightarrow> Space list" where
  "sort_spaces = sort_key (\<lambda>s. (sp_created_at s, sp_id s))"

definition sort_chats :: "Chat list \<Rightarrow> Chat list" where
  "sort_chats = sort_key (\<lambda>c. (- recency c, - chat_created_at c, chat_id c))"

section \<open>The gate\<close>

datatype WorkspaceScope = Local | Synced | Development

record UserProfile =
  user_id :: string
  user_email :: string
  user_name :: "string option"

datatype AuthState = SignedOut | NeedsOrganization UserProfile | SignedIn UserProfile "string option"

datatype GatePhase = GateLoading | GateFailed string | GateSignIn | GateOrg | GateReady

definition gate_phase :: "ConnectionStatus \<Rightarrow> WorkspaceScope option \<Rightarrow> AuthState option \<Rightarrow> GatePhase" where
  "gate_phase connection workspace_scope auth =
     (case connection of
        Connecting \<Rightarrow> GateLoading
      | ConnFailed err \<Rightarrow> GateFailed err
      | ConnReady \<Rightarrow>
          (case (case workspace_scope of None \<Rightarrow> Synced | Some s \<Rightarrow> s) of
             Synced \<Rightarrow>
               (case auth of
                  Some (NeedsOrganization _) \<Rightarrow> GateOrg
                | Some (SignedIn _ _) \<Rightarrow> GateReady
                | _ \<Rightarrow> GateSignIn)
           | _ \<Rightarrow> GateReady))"

definition json_str :: "json \<Rightarrow> string \<Rightarrow> string option" where
  "json_str v key = Option.bind (json_get v key) as_str"

definition auth_user :: "json \<Rightarrow> UserProfile option" where
  "auth_user val =
     (case json_get val ''user'' of
        None \<Rightarrow> None
      | Some u \<Rightarrow>
          (case (json_str u ''id'', json_str u ''email'') of
             (Some i, Some e) \<Rightarrow> Some \<lparr>user_id = i, user_email = e, user_name = json_str u ''name''\<rparr>
           | _ \<Rightarrow> None))"

text \<open>\<open>from_value\<close> is the derived deserializer of \<^verbatim>\<open>AuthState\<close>.\<close>

definition parse_auth_state :: "(json \<Rightarrow> AuthState option) \<Rightarrow> json \<Rightarrow> AuthState option" where
  "parse_auth_state from_value val =
     (case from_value val of
        Some st \<Rightarrow> Some st
      | None \<Rightarrow>
          (case json_str val ''_tag'' of
             None \<Rightarrow> None
           | Some tag \<Rightarrow>
               if tag = ''SignedOut'' then Some SignedOut
               else if tag = ''NeedsOrganization'' then map_option NeedsOrganization (auth_user val)
               else if tag = ''SignedIn'' then map_option (\<lambda>u. SignedIn u (json_str val ''orgId'')) (auth_user val)
               else None))"

section \<open>Groups\<close>

record ChatGroup =
  grp_label :: string
  grp_chats :: "Chat list"

fun split_on :: "char \<Rightarrow> string \<Rightarrow> string list" where
  "split_on d [] = [[]]"
| "split_on d (c # cs) = (if c = d then [] # split_on d cs else
     (case split_on d cs of [] \<Rightarrow> [[c]] | w # ws \<Rightarrow> (c # w) # ws))"

text \<open>\<^verbatim>\<open>Path::file_name\<close>: the last component, unless it is the parent or there is none.\<close>

definition file_name :: "string \<Rightarrow> string option" where
  "file_name path =
     (let cs = filter (\<lambda>c. c \<noteq> [] \<and> c \<noteq> ''.'') (split_on (CHR ''/'') path)
      in if cs = [] \<or> last cs = ''..'' then None else Some (last cs))"

definition project_label :: "string option \<Rightarrow> string" where
  "project_label cwd =
     (case Option.bind cwd (\<lambda>c. if trim c \<noteq> [] then Some (trim c) else None) of
        None \<Rightarrow> ''No project''
      | Some cwd \<Rightarrow>
          if cwd = ''~'' \<or> cwd = ''~/'' then ''No project''
          else (case Option.bind (file_name (rev (dropWhile (\<lambda>c. c = CHR ''/'' \<or> c = CHR 0x5C) (rev cwd))))
                       (\<lambda>n. if n \<noteq> [] then Some n else None) of
                  None \<Rightarrow> cwd | Some n \<Rightarrow> n))"

fun add_to_group :: "string \<Rightarrow> Chat \<Rightarrow> ChatGroup list \<Rightarrow> ChatGroup list" where
  "add_to_group label chat [] = [\<lparr>grp_label = label, grp_chats = [chat]\<rparr>]"
| "add_to_group label chat (g # gs) =
     (if grp_label g = label then g\<lparr>grp_chats := grp_chats g @ [chat]\<rparr> # gs
      else g # add_to_group label chat gs)"

definition group_chats :: "Chat list \<Rightarrow> ChatGroup list" where
  "group_chats chats = fold (\<lambda>chat. add_to_group (project_label (chat_cwd chat)) chat) chats []"

section \<open>Relative times\<close>

definition format_time_ago :: "DateTime \<Rightarrow> DateTime \<Rightarrow> string" where
  "format_time_ago then_at now =
     (let s = nat (max (units_between 1000000000 now then_at) 0) in
      if s < 60 then ''now'' else
      let m = s div 60 in if m < 60 then dec m @ ''m'' else
      let h = m div 60 in if h < 24 then dec h @ ''h'' else
      let d = h div 24 in if d < 7 then dec d @ ''d'' else
      let w = d div 7 in if w < 5 then dec w @ ''w'' else
      let mo = d div 30 in if mo < 12 then dec mo @ ''mo'' else
      dec (d div 365) @ ''y'')"

text \<open>The middle dot with its spaces, in UTF-8.\<close>

definition middot :: string where
  "middot = '' '' @ map (char_of :: nat \<Rightarrow> char) [0xC2, 0xB7] @ '' ''"

definition chat_location :: "Chat \<Rightarrow> string option" where
  "chat_location chat =
     (let nonblank = (\<lambda>s. Option.bind s (\<lambda>c. if trim c \<noteq> [] then Some (trim c) else None));
          project = map_option (\<lambda>c. project_label (Some c)) (nonblank (chat_cwd chat));
          reference = nonblank (chat_branch chat)
      in case (project, reference) of
           (Some p, Some r) \<Rightarrow> Some (p @ middot @ r)
         | (Some p, None) \<Rightarrow> Some p
         | (None, r) \<Rightarrow> r)"

section \<open>Tool summaries\<close>

fun word_span :: "string \<Rightarrow> string \<times> string" where
  "word_span [] = ([], [])"
| "word_span (c # cs) =
     (if starting ws_encodings (c # cs) \<noteq> None then ([], c # cs)
      else map_prod (\<lambda>w. c # w) id (word_span cs))"

text \<open>\<^verbatim>\<open>split_whitespace\<close>; the fuel is the length of the text.\<close>

fun split_words :: "nat \<Rightarrow> string \<Rightarrow> string list" where
  "split_words 0 s = []"
| "split_words (Suc n) s =
     (case word_span (trim_start s) of (w, rest) \<Rightarrow> if w = [] then [] else w # split_words n rest)"

definition single_line :: "string \<Rightarrow> string" where
  "single_line s = join_with '' '' (split_words (length s) s)"

definition plural :: "nat \<Rightarrow> string \<Rightarrow> string \<Rightarrow> string" where
  "plural n one many = (if n = 1 then dec n @ '' '' @ one else dec n @ '' '' @ many)"

fun tool_chip_content_raw :: "ToolCall \<Rightarrow> string \<times> string" where
  "tool_chip_content_raw (Exec command) = (''Run'', command)"
| "tool_chip_content_raw (ReadFile path) = (''Read'', path)"
| "tool_chip_content_raw (WriteFile path _) = (''Write'', path)"
| "tool_chip_content_raw (EditFile path _ _) = (''Edit'', path)"
| "tool_chip_content_raw (ApplyPatch path) = (''Patch'', case path of None \<Rightarrow> ''workspace'' | Some p \<Rightarrow> p)"
| "tool_chip_content_raw (Search pattern path) =
     (''Search'', case path of Some p \<Rightarrow> pattern @ '' in '' @ p | None \<Rightarrow> pattern)"
| "tool_chip_content_raw (Glob pattern) = (''Glob'', pattern)"
| "tool_chip_content_raw (WebFetch url _) = (''Fetch'', url)"
| "tool_chip_content_raw (WebSearch query) = (''Web'', query)"
| "tool_chip_content_raw (Todo items) =
     (''Todo'', dec (length (filter todo_done items)) @ ''/'' @ dec (length items) @ '' done'')"
| "tool_chip_content_raw (Mcp server tool _) = (''MCP'', server @ middot @ tool)"
| "tool_chip_content_raw (Unknown name _) =
     (if prefix ''Agent: '' name then (''Agent'', drop 7 name)
      else if name = ''Agent'' then (''Agent'', [])
      else (''Tool'', name))"

definition tool_chip_content :: "ToolCall \<Rightarrow> string \<times> string" where
  "tool_chip_content call = (case tool_chip_content_raw call of (label, detail) \<Rightarrow> (label, single_line detail))"

record Tally =
  n_commands :: nat
  n_edited :: "string list"
  n_reads :: nat
  n_searches :: nat
  n_fetches :: nat
  n_todos :: nat
  n_other :: nat
  n_failed :: nat

definition add_edited :: "string \<Rightarrow> Tally \<Rightarrow> Tally" where
  "add_edited path t = (if path \<in> set (n_edited t) then t else t\<lparr>n_edited := n_edited t @ [path]\<rparr>)"

definition tally_tool :: "ToolCall \<times> bool \<Rightarrow> Tally \<Rightarrow> Tally" where
  "tally_tool tool t0 =
     (let t = (if snd tool then t0\<lparr>n_failed := n_failed t0 + 1\<rparr> else t0) in
      case fst tool of
        Exec _ \<Rightarrow> t\<lparr>n_commands := n_commands t + 1\<rparr>
      | WriteFile path _ \<Rightarrow> add_edited path t
      | EditFile path _ _ \<Rightarrow> add_edited path t
      | ApplyPatch path \<Rightarrow> add_edited (case path of None \<Rightarrow> ''patch'' | Some p \<Rightarrow> p) t
      | ReadFile _ \<Rightarrow> t\<lparr>n_reads := n_reads t + 1\<rparr>
      | Search _ _ \<Rightarrow> t\<lparr>n_searches := n_searches t + 1\<rparr>
      | Glob _ \<Rightarrow> t\<lparr>n_searches := n_searches t + 1\<rparr>
      | WebSearch _ \<Rightarrow> t\<lparr>n_searches := n_searches t + 1\<rparr>
      | WebFetch _ _ \<Rightarrow> t\<lparr>n_fetches := n_fetches t + 1\<rparr>
      | Todo _ \<Rightarrow> t\<lparr>n_todos := n_todos t + 1\<rparr>
      | _ \<Rightarrow> t\<lparr>n_other := n_other t + 1\<rparr>)"

definition upper :: "char \<Rightarrow> char" where
  "upper c = (if CHR ''a'' \<le> c \<and> c \<le> CHR ''z'' then char_of ((of_char c :: nat) - 32) else c)"

definition tool_group_summary :: "(ToolCall \<times> bool) list \<Rightarrow> string" where
  "tool_group_summary tools =
     (let t = fold tally_tool tools \<lparr>n_commands = 0, n_edited = [], n_reads = 0, n_searches = 0, n_fetches = 0,
                n_todos = 0, n_other = 0, n_failed = 0\<rparr>;
          segments =
            (if n_commands t > 0 then [''ran '' @ plural (n_commands t) ''command'' ''commands''] else []) @
            (if n_edited t \<noteq> [] then [''edited '' @ plural (length (n_edited t)) ''file'' ''files''] else []) @
            (if n_reads t > 0 then [''read '' @ plural (n_reads t) ''file'' ''files''] else []) @
            (if n_searches t > 0 then [''searched '' @ plural (n_searches t) ''time'' ''times''] else []) @
            (if n_fetches t > 0 then [''fetched '' @ plural (n_fetches t) ''page'' ''pages''] else []) @
            (if n_todos t > 0 then [''updated todos''] else []) @
            (if n_other t > 0 then [''called '' @ plural (n_other t) ''tool'' ''tools''] else []);
          segments = (if segments = [] then [plural (length tools) ''tool'' ''tools''] else segments);
          segments = (if n_failed t > 0 then segments @ [dec (n_failed t) @ '' failed''] else segments);
          summary = join_with middot segments
      in case summary of [] \<Rightarrow> [] | c # cs \<Rightarrow> if is_char_boundary summary 1 then upper c # cs else summary)"

section \<open>The checkout of a new session\<close>

record RepoRef =
  ref_name :: string
  ref_current :: bool
  ref_worktree_path :: "string option"

datatype CheckoutKind = KindLocal | KindNewWorktree

datatype CheckoutPlan =
    CurrentCheckout "string option"
  | ReuseWorktree string string
  | NewWorktree "string option"

definition checkout_plan :: "CheckoutKind \<Rightarrow> RepoRef option \<Rightarrow> CheckoutPlan" where
  "checkout_plan kind picked =
     (let name = map_option ref_name picked in
      case kind of
        KindNewWorktree \<Rightarrow> NewWorktree name
      | KindLocal \<Rightarrow>
          (case Option.bind picked ref_worktree_path of
             Some path \<Rightarrow> ReuseWorktree path (case name of None \<Rightarrow> [] | Some n \<Rightarrow> n)
           | None \<Rightarrow> CurrentCheckout name))"

definition checkout_label :: "CheckoutKind \<Rightarrow> RepoRef option \<Rightarrow> string" where
  "checkout_label kind picked =
     (case kind of
        KindNewWorktree \<Rightarrow> ''New worktree''
      | KindLocal \<Rightarrow>
          if Option.bind picked ref_worktree_path \<noteq> None then ''Current worktree'' else ''Current checkout'')"

section \<open>Lemmas\<close>

lemma sort_key_canonical: "mset xs = mset ys \<Longrightarrow> inj_on f (set xs) \<Longrightarrow> sort_key f xs = sort_key f ys"
  by (rule sort_key_inj_key_eq) simp_all

lemma inj_on_ids: "distinct (map f xs) \<Longrightarrow> (\<And>x y. g x = g y \<Longrightarrow> f x = f y) \<Longrightarrow> inj_on g (set xs)"
  unfolding distinct_map inj_on_def by blast

lemma add_to_group_known:
  assumes "distinct ls" "l \<in> set ls"
  shows "add_to_group l c (map (\<lambda>l. \<lparr>grp_label = l, grp_chats = G l\<rparr>) ls) =
    map (\<lambda>k. \<lparr>grp_label = k, grp_chats = if k = l then G k @ [c] else G k\<rparr>) ls"
  using assms by (induction ls) auto

lemma add_to_group_new:
  "l \<notin> set ls \<Longrightarrow> add_to_group l c (map (\<lambda>l. \<lparr>grp_label = l, grp_chats = G l\<rparr>) ls) =
    map (\<lambda>l. \<lparr>grp_label = l, grp_chats = G l\<rparr>) ls @ [\<lparr>grp_label = l, grp_chats = [c]\<rparr>]"
  by (induction ls) auto

lemma dec_starts_0: "(\<exists>r. dec n @ u = CHR ''0'' # r) \<longleftrightarrow> n = 0"
proof -
  have ne: "dec n \<noteq> []" for n by (subst dec.simps) simp
  have "hd (dec n) = digit_char 0 \<longleftrightarrow> n = 0" for n
  proof (induction n rule: dec.induct)
    case (1 n)
    show ?case
    proof (cases "n < 10")
      case True
      then have "dec n = [digit_char n]" by (subst dec.simps) simp
      with True show ?thesis by (simp add: digit_char_inj)
    next
      case False
      then have "dec n = dec (n div 10) @ [digit_char (n mod 10)]" by (subst dec.simps) simp
      with False 1 show ?thesis by (simp add: ne div_eq_0_iff)
    qed
  qed
  moreover have "digit_char 0 = CHR ''0''" by code_simp
  moreover have "(\<exists>r. dec n @ u = c # r) \<longleftrightarrow> hd (dec n) = c" for c
    using ne [of n] by (cases "dec n") simp_all
  ultimately show ?thesis by simp
qed

section \<open>Properties\<close>

text \<open>The order of every list is total: from the same chats or spaces, in whatever order a device holds
  them, every device derives the same list, a permutation of what it holds.\<close>

theorem sorts_device_independent:
  assumes "distinct (map chat_id cs)" "mset cs' = mset cs" "distinct (map (chat_id \<circ> snd) rows)" "mset rows' = mset rows"
    and "distinct (map sp_id ss)" "mset ss' = mset ss"
  shows "sort_chats cs' = sort_chats cs \<and> sort_tabs cs' = sort_tabs cs \<and> sort_active rows' = sort_active rows \<and>
    sort_spaces ss' = sort_spaces ss \<and>
    mset (sort_chats cs) = mset cs \<and> mset (sort_tabs cs) = mset cs \<and> mset (sort_active rows) = mset rows \<and>
    mset (sort_spaces ss) = mset ss"
  unfolding sort_chats_def sort_tabs_def sort_active_def sort_spaces_def
proof (intro conjI)
  note s = sort_key_canonical [OF assms(2)] sort_key_canonical [OF assms(4)] sort_key_canonical [OF assms(6)]
  have c: "distinct (map chat_id cs')" using assms(1,2) by (metis mset_map mset_eq_imp_distinct_iff)
  have r: "distinct (map (chat_id \<circ> snd) rows')" using assms(3,4) by (metis mset_map mset_eq_imp_distinct_iff)
  have p: "distinct (map sp_id ss')" using assms(5,6) by (metis mset_map mset_eq_imp_distinct_iff)
  show "sort_key (\<lambda>c. (- recency c, - chat_created_at c, chat_id c)) cs' = sort_key (\<lambda>c. (- recency c, - chat_created_at c, chat_id c)) cs"
    "sort_key (\<lambda>c. (chat_created_at c, chat_id c)) cs' = sort_key (\<lambda>c. (chat_created_at c, chat_id c)) cs"
    by (rule s; rule inj_on_ids [OF c]; simp)+
  show "sort_key (\<lambda>(_, c). (- recency c, chat_id c)) rows' = sort_key (\<lambda>(_, c). (- recency c, chat_id c)) rows"
    by (rule s; rule inj_on_ids [OF r]) auto
  show "sort_key (\<lambda>s. (sp_created_at s, sp_id s)) ss' = sort_key (\<lambda>s. (sp_created_at s, sp_id s)) ss"
    by (rule s; rule inj_on_ids [OF p]) simp
qed simp_all

text \<open>Grouping is by label: the groups are the labels in the order of their first chat, each with exactly
  its chats in their order.\<close>

theorem groups_are_the_labels:
  "group_chats chats =
     map (\<lambda>l. \<lparr>grp_label = l, grp_chats = filter (\<lambda>c. project_label (chat_cwd c) = l) chats\<rparr>)
       (rev (remdups (rev (map (\<lambda>c. project_label (chat_cwd c)) chats))))"
proof (induction chats rule: rev_induct)
  case (snoc c cs)
  let ?L = "\<lambda>c. project_label (chat_cwd c)"
  let ?ls = "rev (remdups (rev (map ?L cs)))"
  have d: "distinct ?ls" by simp
  show ?case
  proof (cases "?L c \<in> set ?ls")
    case True
    with snoc show ?thesis
      using add_to_group_known [OF d True, of c "\<lambda>l. filter (\<lambda>c. ?L c = l) cs"]
      by (auto simp: group_chats_def)
  next
    case False
    then have "?L c \<notin> ?L ` set cs" by simp
    then have "\<forall>d \<in> set cs. ?L d \<noteq> ?L c" by (metis imageI)
    then have "filter (\<lambda>d. ?L d = ?L c) cs = []" by (simp add: filter_empty_conv)
    with snoc False show ?thesis
      using add_to_group_new [OF False, of c "\<lambda>l. filter (\<lambda>c. ?L c = l) cs"]
      by (auto simp: group_chats_def)
  qed
qed (simp add: group_chats_def)

text \<open>A chat is shown as working or awaiting input only on the word of a session in that state heard from
  within the last 45 seconds.\<close>

theorem live_status_is_fresh:
  assumes "display_status chat session now \<in> {IndWorking, IndAwaitingInput}"
  shows "\<exists>s. session = Some s \<and> units_between 1000000 now (ses_updated_at s) \<le> SESSION_STALE_MS \<and>
    (ses_status s = (if display_status chat session now = IndWorking then Working else AwaitingInput))"
  using assms
  by (auto simp: display_status_def effective_indicator_def chat_indicator_def
      split: option.splits SessionStatus.splits if_splits)

text \<open>A relative time reads as zero units exactly between 360 and 364 days, where it reads \<^verbatim>\<open>0y\<close>: twelve
  months of 30 days are passed before a year of 365 is reached.\<close>

theorem time_ago_zero_years:
  "(\<exists>r. format_time_ago t now = CHR ''0'' # r) \<longleftrightarrow>
     360 * 86400 \<le> units_between 1000000000 now t \<and> units_between 1000000000 now t < 365 * 86400"
proof -
  define s where "s = nat (max (units_between 1000000000 now t) 0)"
  have s: "360 * 86400 \<le> units_between 1000000000 now t \<and> units_between 1000000000 now t < 365 * 86400 \<longleftrightarrow>
      360 * 86400 \<le> s \<and> s < 365 * 86400"
    by (auto simp: s_def)
  have "(\<exists>r. format_time_ago t now = CHR ''0'' # r) \<longleftrightarrow> 360 * 86400 \<le> s \<and> s < 365 * 86400"
    unfolding format_time_ago_def Let_def s_def [symmetric]
    by (simp add: dec_starts_0 div_mult2_eq [symmetric] div_eq_0_iff) linarith
  with s show ?thesis by simp
qed

definition demo_chat :: "string \<Rightarrow> DateTime \<Rightarrow> Chat" where
  "demo_chat ident t = \<lparr>chat_id = ident, chat_device_id = ''mac'', chat_title = None, chat_archived = False,
     chat_cwd = None, chat_branch = None, chat_checkout_id = None, chat_source_context = None,
     chat_config = None, chat_last_message_preview = None, chat_last_message_at = None, chat_created_at = t,
     chat_harness_session_id = None, chat_harness_session_cwd = None, chat_space_id = None, chat_last_seen_at = None,
     chat_room_gen = None, chat_parent_chat_id = None\<rparr>"

theorem sorts_device_independent_witness:
  "let cs = [demo_chat ''a'' 5, demo_chat ''b'' 5, demo_chat ''c'' 9]; cs' = [demo_chat ''c'' 9, demo_chat ''b'' 5, demo_chat ''a'' 5]
   in sort_chats cs' = sort_chats cs \<and> map chat_id (sort_chats cs) = [''c'', ''a'', ''b'']"
proof -
  let ?cs = "[demo_chat ''a'' 5, demo_chat ''b'' 5, demo_chat ''c'' 9]"
  let ?cs' = "[demo_chat ''c'' 9, demo_chat ''b'' 5, demo_chat ''a'' 5]"
  have d: "distinct (map chat_id ?cs)" "mset ?cs' = mset ?cs" by (simp_all add: demo_chat_def)
  have "sort_chats ?cs' = sort_chats ?cs"
    using sorts_device_independent [OF d, of "[]" "[]" "[]" "[]"] by simp
  moreover have "map chat_id (sort_chats ?cs) = [''c'', ''a'', ''b'']"
    by (simp add: sort_chats_def demo_chat_def recency_def less_eq_char_def)
  ultimately show ?thesis by (simp add: Let_def)
qed

theorem live_status_is_fresh_witness:
  "let s = \<lparr>ses_last_completed_turn = None, ses_chat_id = ''a'', ses_device_id = ''mac'', ses_status = Working,
            ses_started_at = None, ses_updated_at = 0\<rparr>
   in display_status (demo_chat ''a'' 0) (Some s) 45000000000 = IndWorking \<and>
      units_between 1000000 45000000000 (ses_updated_at s) \<le> SESSION_STALE_MS"
proof -
  let ?s = "\<lparr>ses_last_completed_turn = None, ses_chat_id = ''a'', ses_device_id = ''mac'', ses_status = Working,
            ses_started_at = None, ses_updated_at = 0\<rparr>"
  have d: "display_status (demo_chat ''a'' 0) (Some ?s) 45000000000 = IndWorking"
    by (simp add: display_status_def effective_indicator_def units_between_def SESSION_STALE_MS_def chat_indicator_def)
  with live_status_is_fresh [of "demo_chat ''a'' 0" "Some ?s" 45000000000] show ?thesis by (simp add: Let_def)
qed

end
