(* ===== verification/Chat_Frames.thy ===== *)
theory Chat_Frames
  imports Prelude
begin

text \<open>
  The binary frames between a device and a chat room (\<^verbatim>\<open>src/crates/sync/src/chat_frames.rs\<close>): one byte of
  type, the length of the header as a little-endian 32-bit integer, the header as JSON, the payload.

  Bytes are words of eight bits. Writing and parsing JSON text is \<^verbatim>\<open>serde_json\<close>'s: \<open>to_vec\<close> is the text
  of a header value, \<open>from_slice\<close> the parser, both arguments. The typed headers are read from the parsed
  value by the derived deserializers: members by name, unknown members ignored, a member marked
  \<^verbatim>\<open>serde(default)\<close> allowed to be absent.
\<close>

type_synonym byte = "8 word"
type_synonym bytes = "byte list"

unbundle bit_operations_syntax

section \<open>Frame types\<close>

definition FT_HELLO :: byte where "FT_HELLO = 0x01"
definition FT_STATE :: byte where "FT_STATE = 0x02"
definition FT_ROWS_REQ :: byte where "FT_ROWS_REQ = 0x03"
definition FT_ROW :: byte where "FT_ROW = 0x04"
definition FT_ROWS_DONE :: byte where "FT_ROWS_DONE = 0x05"
definition FT_PUSH :: byte where "FT_PUSH = 0x06"
definition FT_ACK :: byte where "FT_ACK = 0x07"
definition FT_PRESENCE :: byte where "FT_PRESENCE = 0x08"
definition FT_PROBE :: byte where "FT_PROBE = 0x09"
definition FT_PROBE_OK :: byte where "FT_PROBE_OK = 0x0a"
definition FT_ERROR :: byte where "FT_ERROR = 0x0b"

lemmas frame_types = FT_HELLO_def FT_STATE_def FT_ROWS_REQ_def FT_ROW_def FT_ROWS_DONE_def FT_PUSH_def
  FT_ACK_def FT_PRESENCE_def FT_PROBE_def FT_PROBE_OK_def FT_ERROR_def

definition MAX_HEADER_BYTES :: nat where "MAX_HEADER_BYTES = 4096"

record WireFrame =
  wf_kind :: byte
  wf_header :: json
  wf_payload :: bytes

section \<open>The codec\<close>

definition to_le_bytes :: "u32 \<Rightarrow> bytes" where
  "to_le_bytes n = map (\<lambda>i. ucast (drop_bit (8 * i) n)) [0, 1, 2, 3]"

definition from_le_bytes :: "bytes \<Rightarrow> u32" where
  "from_le_bytes bs = foldr (\<lambda>b n. push_bit 8 n OR ucast b) bs 0"

definition encode :: "('h \<Rightarrow> bytes) \<Rightarrow> byte \<Rightarrow> 'h \<Rightarrow> bytes \<Rightarrow> bytes" where
  "encode to_vec kind header payload =
     (let h = to_vec header in [kind] @ to_le_bytes (of_nat (length h)) @ h @ payload)"

fun is_object :: "json \<Rightarrow> bool" where
  "is_object (JObj _) = True"
| "is_object _ = False"

definition decode :: "(bytes \<Rightarrow> json option) \<Rightarrow> bytes \<Rightarrow> WireFrame option" where
  "decode from_slice bs =
     (if length bs < 5 then None
      else let kind = bs ! 0;
               header_len = unat (from_le_bytes (take 4 (drop 1 bs)))
           in if header_len > MAX_HEADER_BYTES \<or> 5 + header_len > length bs then None
              else case from_slice (take header_len (drop 5 bs)) of
                     None \<Rightarrow> None
                   | Some header \<Rightarrow>
                       if \<not> is_object header then None
                       else Some \<lparr>wf_kind = kind, wf_header = header, wf_payload = drop (5 + header_len) bs\<rparr>)"

section \<open>Typed headers\<close>

text \<open>Members of the derived deserializers. A \<^verbatim>\<open>u64\<close> takes any integer in its range.\<close>

fun as_u64 :: "json \<Rightarrow> u64 option" where
  "as_u64 (JInt i) = (if 0 \<le> i \<and> i < 2 ^ 64 then Some (word_of_int i) else None)"
| "as_u64 _ = None"

definition member_u64 :: "json \<Rightarrow> string \<Rightarrow> u64 option" where
  "member_u64 h k = Option.bind (json_get h k) as_u64"

definition member_or :: "(json \<Rightarrow> 'a option) \<Rightarrow> 'a \<Rightarrow> json \<Rightarrow> string \<Rightarrow> 'a option" where
  "member_or f d h k = (case json_get h k of None \<Rightarrow> Some d | Some v \<Rightarrow> f v)"

definition member_str :: "json \<Rightarrow> string \<Rightarrow> string option" where
  "member_str h k = Option.bind (json_get h k) as_str"

record HelloHeader = hh_cursor :: u64 hh_device :: string
record RowsReqHeader = rq_after :: u64 rq_exclude_own :: bool
record PushHeader = ph_batch_id :: string
record PresenceOutHeader = po_at :: int

record StateHeader =
  sh_head_seq :: u64
  sh_seq_floor :: u64
  sh_checkpoint_seq :: u64
  sh_checkpoint_size :: u64
  sh_row_count :: u64
  sh_row_bytes :: u64

record RowHeader = rh_seq :: u64 rh_device :: string rh_batch_id :: string
record RowsDoneHeader = rd_head_seq :: u64
record AckHeader = ah_batch_id :: string ah_seq :: u64 ah_dup :: bool
record PresenceInHeader = pi_device :: string pi_at :: int
record ProbeOkHeader = pk_head_seq :: u64
record ErrorHeader = eh_code :: string eh_message :: string

definition state_header :: "json \<Rightarrow> StateHeader option" where
  "state_header h =
     (case (member_u64 h ''headSeq'', member_u64 h ''seqFloor'', member_u64 h ''checkpointSeq'',
            member_u64 h ''checkpointSize'', member_or as_u64 0 h ''rowCount'', member_or as_u64 0 h ''rowBytes'') of
        (Some head, Some floor, Some cseq, Some csize, Some rows, Some bs) \<Rightarrow>
          Some \<lparr>sh_head_seq = head, sh_seq_floor = floor, sh_checkpoint_seq = cseq, sh_checkpoint_size = csize,
                sh_row_count = rows, sh_row_bytes = bs\<rparr>
      | _ \<Rightarrow> None)"

definition row_header :: "json \<Rightarrow> RowHeader option" where
  "row_header h =
     (case (member_u64 h ''seq'', member_str h ''device'', member_str h ''batchId'') of
        (Some s, Some d, Some b) \<Rightarrow> Some \<lparr>rh_seq = s, rh_device = d, rh_batch_id = b\<rparr>
      | _ \<Rightarrow> None)"

definition rows_done_header :: "json \<Rightarrow> RowsDoneHeader option" where
  "rows_done_header h = map_option (\<lambda>s. \<lparr>rd_head_seq = s\<rparr>) (member_u64 h ''headSeq'')"

definition ack_header :: "json \<Rightarrow> AckHeader option" where
  "ack_header h =
     (case (member_str h ''batchId'', member_u64 h ''seq'', member_or as_bool False h ''dup'') of
        (Some b, Some s, Some d) \<Rightarrow> Some \<lparr>ah_batch_id = b, ah_seq = s, ah_dup = d\<rparr>
      | _ \<Rightarrow> None)"

definition presence_in_header :: "json \<Rightarrow> PresenceInHeader option" where
  "presence_in_header h =
     (case (member_str h ''device'', Option.bind (json_get h ''at'') as_i64) of
        (Some d, Some t) \<Rightarrow> Some \<lparr>pi_device = d, pi_at = t\<rparr>
      | _ \<Rightarrow> None)"

definition probe_ok_header :: "json \<Rightarrow> ProbeOkHeader option" where
  "probe_ok_header h = map_option (\<lambda>s. \<lparr>pk_head_seq = s\<rparr>) (member_u64 h ''headSeq'')"

definition error_header :: "json \<Rightarrow> ErrorHeader option" where
  "error_header h =
     (case (member_str h ''code'', member_or as_str [] h ''message'') of
        (Some c, Some m) \<Rightarrow> Some \<lparr>eh_code = c, eh_message = m\<rparr>
      | _ \<Rightarrow> None)"

text \<open>The headers a client writes.\<close>

definition hello_json :: "HelloHeader \<Rightarrow> json" where
  "hello_json h = JObj [(''cursor'', JInt (uint (hh_cursor h))), (''device'', JStr (hh_device h))]"

definition rows_req_json :: "RowsReqHeader \<Rightarrow> json" where
  "rows_req_json h = JObj [(''after'', JInt (uint (rq_after h))), (''excludeOwn'', JBool (rq_exclude_own h))]"

definition push_json :: "PushHeader \<Rightarrow> json" where
  "push_json h = JObj [(''batchId'', JStr (ph_batch_id h))]"

definition presence_out_json :: "PresenceOutHeader \<Rightarrow> json" where
  "presence_out_json h = JObj [(''at'', JInt (po_at h))]"

section \<open>Lemmas\<close>

lemma le_bytes_roundtrip [simp]: "from_le_bytes (to_le_bytes n) = n"
proof (rule bit_word_eqI)
  fix k assume "k < LENGTH(32)"
  then consider "k < 8" | "8 \<le> k" "k < 16" | "16 \<le> k" "k < 24" | "24 \<le> k" "k < 32" by force
  then show "bit (from_le_bytes (to_le_bytes n)) k \<longleftrightarrow> bit n k"
    by cases (auto simp: from_le_bytes_def to_le_bytes_def bit_simps)
qed

lemma length_to_le_bytes [simp]: "length (to_le_bytes n) = 4"
  by (simp add: to_le_bytes_def)

lemma le_word_roundtrip: "length bs = 4 \<Longrightarrow> to_le_bytes (from_le_bytes bs) = bs"
proof -
  assume "length bs = 4"
  then obtain a b c d where bs: "bs = [a, b, c, d]" by (auto simp: length_Suc_conv numeral_eq_Suc)
  have "ucast (drop_bit (8 * i) (from_le_bytes bs)) = bs ! i" if "i < 4" for i
  proof (rule bit_word_eqI)
    fix k assume "k < LENGTH(8)"
    moreover have "i = 0 \<or> i = 1 \<or> i = 2 \<or> i = 3" using that by auto
    ultimately show "bit (ucast (drop_bit (8 * i) (from_le_bytes bs)) :: byte) k \<longleftrightarrow> bit (bs ! i) k"
      unfolding bs from_le_bytes_def by (elim disjE) (auto simp: bit_simps dest: bit_imp_le_length)
  qed
  from this [of 0] this [of 1] this [of 2] this [of 3] show ?thesis
    by (simp add: bs to_le_bytes_def)
qed

text \<open>Take the layout apart: what follows the five leading bytes.\<close>

lemma layout_parts:
  fixes n :: u32
  shows "([k] @ to_le_bytes n @ rest) ! 0 = k"
    "take 4 (drop 1 ([k] @ to_le_bytes n @ rest)) = to_le_bytes n"
    "drop (5 + m) ([k] @ to_le_bytes n @ rest) = drop m rest"
    "drop 5 ([k] @ to_le_bytes n @ rest) = rest"
  by (simp_all add: drop_Cons')

lemma take_5:
  assumes "5 \<le> length bs"
  shows "bs = [bs ! 0] @ take 4 (drop 1 bs) @ drop 5 bs"
  using assms by (cases bs) (auto simp: drop_Cons')

section \<open>Properties\<close>

text \<open>C37: the decoder accepts exactly the texts of the layout: a frame is read from the bytes iff they are a
  type, the length of a header text of at most 4096 bytes, that text, which parses to an object, and the
  payload.\<close>

theorem decode_exactly_the_layout:
  "decode from_slice bs = Some f \<longleftrightarrow>
     (\<exists>h. length h \<le> MAX_HEADER_BYTES \<and> from_slice h = Some (wf_header f) \<and> is_object (wf_header f) \<and>
        bs = [wf_kind f] @ to_le_bytes (of_nat (length h)) @ h @ wf_payload f)"
proof
  assume d: "decode from_slice bs = Some f"
  obtain lb n where lb: "lb = take 4 (drop 1 bs)" and n: "n = unat (from_le_bytes lb)" by blast
  from d have l: "5 \<le> length bs" "n \<le> MAX_HEADER_BYTES" "5 + n \<le> length bs"
    and f: "from_slice (take n (drop 5 bs)) = Some (wf_header f)" "is_object (wf_header f)"
      "wf_kind f = bs ! 0" "wf_payload f = drop (5 + n) bs"
    unfolding decode_def Let_def lb [symmetric] n [symmetric]
    by (auto split: if_splits option.splits)
  obtain h where h: "h = take n (drop 5 bs)" by blast
  have len: "length h = n" using l by (simp add: h)
  have "length lb = 4" using l(1) by (simp add: lb)
  then have "lb = to_le_bytes (of_nat (length h))" by (simp add: len n le_word_roundtrip)
  moreover have "drop 5 bs = h @ wf_payload f"
    unfolding h f(4) by (metis append_take_drop_id drop_drop add.commute)
  moreover have "bs = [bs ! 0] @ lb @ drop 5 bs" unfolding lb by (rule take_5 [OF l(1)])
  ultimately have "bs = [wf_kind f] @ to_le_bytes (of_nat (length h)) @ h @ wf_payload f"
    by (simp add: f(3))
  with l(2) f(1,2) len show "\<exists>h. length h \<le> MAX_HEADER_BYTES \<and> from_slice h = Some (wf_header f) \<and> is_object (wf_header f) \<and>
        bs = [wf_kind f] @ to_le_bytes (of_nat (length h)) @ h @ wf_payload f"
    by (intro exI [of _ h]) (simp_all add: h [symmetric])
next
  assume "\<exists>h. length h \<le> MAX_HEADER_BYTES \<and> from_slice h = Some (wf_header f) \<and> is_object (wf_header f) \<and>
        bs = [wf_kind f] @ to_le_bytes (of_nat (length h)) @ h @ wf_payload f"
  then obtain h where h: "length h \<le> MAX_HEADER_BYTES" "from_slice h = Some (wf_header f)" "is_object (wf_header f)"
    and bs: "bs = [wf_kind f] @ to_le_bytes (of_nat (length h)) @ (h @ wf_payload f)" by auto
  have "unat (of_nat (length h) :: u32) = length h"
    using h(1) by (simp add: unat_of_nat MAX_HEADER_BYTES_def)
  with h show "decode from_slice bs = Some f"
    unfolding bs decode_def layout_parts by (simp add: layout_parts)
qed

text \<open>What is encoded with a header of at most 4096 bytes that is an object decodes to itself; a longer
  header, or one that is not an object, is refused.\<close>

theorem frame_roundtrip:
  assumes "from_slice (to_vec h) = Some v" "length (to_vec h) < 2 ^ 32"
  shows "decode from_slice (encode to_vec kind h payload) =
    (if length (to_vec h) \<le> MAX_HEADER_BYTES \<and> is_object v
     then Some \<lparr>wf_kind = kind, wf_header = v, wf_payload = payload\<rparr> else None)"
proof -
  have "unat (of_nat (length (to_vec h)) :: u32) = length (to_vec h)"
    using assms(2) by (simp add: unat_of_nat)
  with assms(1) show ?thesis
    unfolding encode_def decode_def Let_def layout_parts by (simp add: layout_parts)
qed

end
