(* ===== verification/Chat_Client.thy ===== *)
theory Chat_Client
  imports Chat_Frames
begin

text \<open>
  The client of a chat room (\<^verbatim>\<open>src/crates/sync/src/chat_client.rs\<close>): catching up from a checkpoint and the
  rows after it, the cursor, the queue of pushes that are not acknowledged, the frames of a session, the
  repair of gaps, and the cycle over plain HTTPS.

  The document is behind the trait \<^verbatim>\<open>ChatDocSink\<close>, here the record \<open>Sink\<close> of its methods over a state of
  any type. A session is the sequence of its waits: \<open>Phase\<close> says what it waits for, and a turn handles one
  event and runs to the next wait. So is a cycle over HTTPS (\<open>HttpPhase\<close>). Frames are taken as decoded
  (\<open>None\<close> for bytes that are no frame), JSON texts as parsed. Time is milliseconds; whether the \<open>i\<close>-th send
  of a turn succeeds is \<open>accepts i\<close>. Tasks and channels are not modelled.
\<close>

section \<open>Constants\<close>

definition CHAT_CONNECT_TIMEOUT :: int where "CHAT_CONNECT_TIMEOUT = 20000"
definition CHAT_HELLO_DEADLINE :: int where "CHAT_HELLO_DEADLINE = 15000"
definition BACKFILL_DEADLINE :: int where "BACKFILL_DEADLINE = 120000"
definition CHAT_PROBE_DEADLINE :: int where "CHAT_PROBE_DEADLINE = 10000"
definition CHAT_BACKOFF_BASE :: int where "CHAT_BACKOFF_BASE = 250"
definition CHAT_BACKOFF_CAP :: int where "CHAT_BACKOFF_CAP = 16000"
definition CHAT_STABLE_RESET :: int where "CHAT_STABLE_RESET = 30000"
definition CHAT_OFFLINE_PARK_RECHECK :: int where "CHAT_OFFLINE_PARK_RECHECK = 30000"
definition CHAT_PROBE_QUIET_DEFAULT :: int where "CHAT_PROBE_QUIET_DEFAULT = 900000"
definition CHECKPOINT_FETCH_DEADLINE :: int where "CHECKPOINT_FETCH_DEADLINE = 300000"
definition QUOTA_RETRY :: int where "QUOTA_RETRY = 5000"
definition MAX_PUSH_BYTES :: nat where "MAX_PUSH_BYTES = 1024 * 1024 - 4096"
definition MAX_GAP_REPAIRS_PER_SESSION :: u32 where "MAX_GAP_REPAIRS_PER_SESSION = 3"

datatype ChatEvent =
    ChatConnected | CaughtUp u64 | ChatApplied | ChatDisconnected | ChatPresence | ServerReset | PushRejected

section \<open>The document behind the client\<close>

datatype RowImportOutcome = RowApplied | PendingDependencies

record 's Sink =
  sk_cursor_is_verified :: "'s \<Rightarrow> bool"
  sk_reset_cursor :: "u64 \<Rightarrow> 's \<Rightarrow> 's"
  sk_pending_updates :: "'s \<Rightarrow> (string + (string \<times> bytes) list) \<times> 's"
  sk_persist_update :: "string \<Rightarrow> bytes \<Rightarrow> 's \<Rightarrow> (string + unit) \<times> 's"
  sk_acknowledge_update :: "string \<Rightarrow> 's \<Rightarrow> (string + unit) \<times> 's"
  sk_reject_update :: "string \<Rightarrow> 's \<Rightarrow> (string + unit) \<times> 's"
  sk_apply_row :: "bytes \<Rightarrow> u64 \<Rightarrow> 's \<Rightarrow> RowImportOutcome \<times> 's"
  sk_apply_replay_row :: "bytes \<Rightarrow> u64 \<Rightarrow> 's \<Rightarrow> RowImportOutcome \<times> 's"
  sk_apply_checkpoint :: "bytes \<Rightarrow> u64 \<Rightarrow> 's \<Rightarrow> (string + unit) \<times> 's"
  sk_contains_frontier :: "bytes \<Rightarrow> 's \<Rightarrow> bool"
  sk_advance_cursor :: "u64 \<Rightarrow> 's \<Rightarrow> 's"

section \<open>Catch-up planning\<close>

datatype CatchUpPlan = RowsOnly (plan_after: u64) | CheckpointThenRows (plan_after: u64)

definition plan_catch_up :: "u64 \<Rightarrow> StateHeader \<Rightarrow> bool \<Rightarrow> CatchUpPlan" where
  "plan_catch_up cur st frontier_contained =
     (let cur = (if cur > sh_head_seq st then 0 else cur) in
      if sh_checkpoint_size st = 0 then RowsOnly cur
      else if frontier_contained then RowsOnly (max cur (sh_checkpoint_seq st))
      else CheckpointThenRows (sh_checkpoint_seq st))"

section \<open>State\<close>

record PendingPush =
  pp_batch_id :: string
  pp_bytes :: bytes
  pp_durable :: bool

record ChatShared =
  ch_cursor :: u64
  ch_pending :: "PendingPush list"
  ch_server :: "StateHeader option"
  ch_retry_at :: "int option"
  ch_quota_blocked :: bool
  ch_gap_repair :: bool
  ch_replaying_gap :: bool
  ch_http_replay_epoch :: u64
  ch_http_live_epoch :: "u64 option"
  ch_needs_checkpoint :: bool
  ch_causal_gap_generation :: u64

record ChatFlags =
  fl_connected :: bool
  fl_rejoins :: u64
  fl_disconnects :: u64
  fl_rejected :: u64
  fl_server_resets :: u64
  fl_dial_seq :: u64

record 's ChatActor =
  ca_shared :: ChatShared
  ca_sink :: 's
  ca_events :: "ChatEvent list"
  ca_flags :: ChatFlags
  ca_device_id :: string
  ca_ready_pending :: bool
  ca_resumed :: bool
  ca_amnesty_done :: bool
  ca_sync_busy :: bool

definition on_shared :: "(ChatShared \<Rightarrow> ChatShared) \<Rightarrow> 's ChatActor \<Rightarrow> 's ChatActor" where
  "on_shared f a = a\<lparr>ca_shared := f (ca_shared a)\<rparr>"

definition on_flags :: "(ChatFlags \<Rightarrow> ChatFlags) \<Rightarrow> 's ChatActor \<Rightarrow> 's ChatActor" where
  "on_flags f a = a\<lparr>ca_flags := f (ca_flags a)\<rparr>"

definition with_sink :: "'s \<Rightarrow> 's ChatActor \<Rightarrow> 's ChatActor" where
  "with_sink s a = a\<lparr>ca_sink := s\<rparr>"

definition chat_emit :: "ChatEvent \<Rightarrow> 's ChatActor \<Rightarrow> 's ChatActor" where
  "chat_emit e a = a\<lparr>ca_events := ca_events a @ [e]\<rparr>"

abbreviation chat_cursor :: "'s ChatActor \<Rightarrow> u64" where
  "chat_cursor a \<equiv> ch_cursor (ca_shared a)"

abbreviation set_cursor :: "u64 \<Rightarrow> 's ChatActor \<Rightarrow> 's ChatActor" where
  "set_cursor c \<equiv> on_shared (\<lambda>h. h\<lparr>ch_cursor := c\<rparr>)"

lemmas actor_defs = on_shared_def on_flags_def with_sink_def chat_emit_def

definition chat_connect :: "'s Sink \<Rightarrow> string \<Rightarrow> u64 \<Rightarrow> bool \<Rightarrow> 's \<Rightarrow> string + 's ChatActor" where
  "chat_connect S device initial_cursor transport s =
     (case sk_pending_updates S s of
        (Inl e, _) \<Rightarrow> Inl e
      | (Inr updates, s') \<Rightarrow> Inr
          \<lparr>ca_shared = \<lparr>ch_cursor = initial_cursor,
              ch_pending = map (\<lambda>(b, u). \<lparr>pp_batch_id = b, pp_bytes = u, pp_durable = True\<rparr>) updates,
              ch_server = None, ch_retry_at = None, ch_quota_blocked = False, ch_gap_repair = False,
              ch_replaying_gap = False, ch_http_replay_epoch = 0, ch_http_live_epoch = None,
              ch_needs_checkpoint = False, ch_causal_gap_generation = 0\<rparr>,
           ca_sink = s', ca_events = [],
           ca_flags = \<lparr>fl_connected = False, fl_rejoins = 0, fl_disconnects = 0, fl_rejected = 0,
              fl_server_resets = 0, fl_dial_seq = 0\<rparr>,
           ca_device_id = device, ca_ready_pending = \<not> transport, ca_resumed = False,
           ca_amnesty_done = False, ca_sync_busy = False\<rparr>)"

section \<open>Rows and pushes\<close>

definition find_push :: "string \<Rightarrow> 's ChatActor \<Rightarrow> PendingPush option" where
  "find_push b a = find (\<lambda>p. pp_batch_id p = b) (ch_pending (ca_shared a))"

fun mark_durable :: "string \<Rightarrow> PendingPush list \<Rightarrow> PendingPush list" where
  "mark_durable b [] = []"
| "mark_durable b (p # ps) =
     (if pp_batch_id p = b then p\<lparr>pp_durable := True\<rparr> # ps else p # mark_durable b ps)"

definition ensure_durable :: "'s Sink \<Rightarrow> PendingPush \<Rightarrow> 's ChatActor \<Rightarrow> bool \<times> 's ChatActor" where
  "ensure_durable S push a =
     (if pp_durable push then (True, a)
      else case find_push (pp_batch_id push) a of
        None \<Rightarrow> (True, a)
      | Some p \<Rightarrow>
          if pp_durable p then (True, a)
          else case sk_persist_update S (pp_batch_id p) (pp_bytes p) (ca_sink a) of
            (Inr _, s) \<Rightarrow>
              (True, on_shared (\<lambda>h. h\<lparr>ch_pending := mark_durable (pp_batch_id p) (ch_pending h)\<rparr>) (with_sink s a))
          | (Inl _, s) \<Rightarrow> (False, with_sink s a))"

definition apply_cursor_amnesty :: "'s Sink \<Rightarrow> StateHeader \<Rightarrow> 's ChatActor \<Rightarrow> 's ChatActor" where
  "apply_cursor_amnesty S st a =
     (let a' = a\<lparr>ca_amnesty_done := True\<rparr> in
      if ca_amnesty_done a \<or> sk_cursor_is_verified S (ca_sink a) then a'
      else let clamp_to = (if sh_checkpoint_size st > 0 then sh_checkpoint_seq st else 0) in
           if chat_cursor a' > clamp_to
           then set_cursor clamp_to (with_sink (sk_reset_cursor S 0 (ca_sink a')) a')
           else a')"

definition sat_succ :: "u64 \<Rightarrow> u64" where
  "sat_succ c = (if c = - 1 then c else c + 1)"

definition apply_remote_row :: "'s Sink \<Rightarrow> bytes \<Rightarrow> u64 \<Rightarrow> bool \<Rightarrow> 's ChatActor \<Rightarrow> 's ChatActor" where
  "apply_remote_row S bs seq replay a =
     (let gap = seq > sat_succ (chat_cursor a);
          a = (if gap then on_shared (\<lambda>h. h\<lparr>ch_gap_repair := True\<rparr>) a else a);
          cur = (if gap then chat_cursor a else max (chat_cursor a) seq);
          (outcome, s) = (if replay then sk_apply_replay_row S bs cur (ca_sink a) else sk_apply_row S bs cur (ca_sink a));
          a = with_sink s a
      in case outcome of
           RowApplied \<Rightarrow> set_cursor (max (chat_cursor a) cur) a
         | PendingDependencies \<Rightarrow>
             on_shared (\<lambda>h. h\<lparr>ch_needs_checkpoint := True,
               ch_causal_gap_generation := ch_causal_gap_generation h + 1\<rparr>) a)"

definition enqueue_batch :: "'s Sink \<Rightarrow> string \<Rightarrow> bytes \<Rightarrow> 's ChatActor \<Rightarrow> 's ChatActor" where
  "enqueue_batch S batch bs a =
     (let (r, s) = sk_persist_update S batch bs (ca_sink a);
          durable = (case r of Inr _ \<Rightarrow> True | Inl _ \<Rightarrow> False);
          a = with_sink s a
      in if length bs > MAX_PUSH_BYTES then
           chat_emit PushRejected
             (with_sink (snd (sk_reject_update S batch (ca_sink a))) (on_flags (\<lambda>f. f\<lparr>fl_rejected := fl_rejected f + 1\<rparr>) a))
         else if batch \<in> pp_batch_id ` set (ch_pending (ca_shared a)) then a
         else on_shared (\<lambda>h. h\<lparr>ch_pending := ch_pending h @
                [\<lparr>pp_batch_id = batch, pp_bytes = bs, pp_durable = durable\<rparr>]\<rparr>) a)"

definition chat_probe :: "'s ChatActor \<Rightarrow> 's ChatActor" where
  "chat_probe = on_shared (\<lambda>h. h\<lparr>ch_http_replay_epoch := ch_http_replay_epoch h + 1\<rparr>)"

definition note_checkpoint :: "u64 \<Rightarrow> u64 \<Rightarrow> 's ChatActor \<Rightarrow> 's ChatActor" where
  "note_checkpoint seq_covered sz =
     on_shared (\<lambda>h. h\<lparr>ch_server := map_option (\<lambda>st. st\<lparr>sh_checkpoint_seq := seq_covered,
       sh_checkpoint_size := sz, sh_seq_floor := seq_covered, sh_row_count := 0, sh_row_bytes := 0\<rparr>) (ch_server h)\<rparr>)"

record ChatStatsSnapshot =
  cs_connected :: bool
  cs_server_known :: bool
  cs_cursor :: u64
  cs_head_seq :: u64
  cs_seq_floor :: u64
  cs_checkpoint_seq :: u64
  cs_checkpoint_size :: u64
  cs_row_count :: u64
  cs_row_bytes :: u64
  cs_pending_pushes :: u64
  cs_rejoins :: u64
  cs_disconnects :: u64
  cs_rejected :: u64
  cs_server_resets :: u64

definition chat_stats :: "'s ChatActor \<Rightarrow> ChatStatsSnapshot" where
  "chat_stats a =
     (let h = ca_shared a; f = ca_flags a;
          server = (case ch_server h of Some st \<Rightarrow> st
            | None \<Rightarrow> \<lparr>sh_head_seq = 0, sh_seq_floor = 0, sh_checkpoint_seq = 0, sh_checkpoint_size = 0,
                sh_row_count = 0, sh_row_bytes = 0\<rparr>)
      in \<lparr>cs_connected = fl_connected f, cs_server_known = (ch_server h \<noteq> None), cs_cursor = ch_cursor h,
          cs_head_seq = sh_head_seq server, cs_seq_floor = sh_seq_floor server,
          cs_checkpoint_seq = sh_checkpoint_seq server, cs_checkpoint_size = sh_checkpoint_size server,
          cs_row_count = sh_row_count server, cs_row_bytes = sh_row_bytes server,
          cs_pending_pushes = of_nat (length (ch_pending h)), cs_rejoins = fl_rejoins f,
          cs_disconnects = fl_disconnects f, cs_rejected = fl_rejected f, cs_server_resets = fl_server_resets f\<rparr>)"

section \<open>Frames\<close>

definition out_frame :: "byte \<Rightarrow> json \<Rightarrow> bytes \<Rightarrow> WireFrame" where
  "out_frame kind header payload = \<lparr>wf_kind = kind, wf_header = header, wf_payload = payload\<rparr>"

definition push_frame :: "PendingPush \<Rightarrow> WireFrame" where
  "push_frame p = out_frame FT_PUSH (push_json \<lparr>ph_batch_id = pp_batch_id p\<rparr>) (pp_bytes p)"

definition rows_req_frame :: "u64 \<Rightarrow> bool \<Rightarrow> WireFrame" where
  "rows_req_frame after exclude_own =
     out_frame FT_ROWS_REQ (rows_req_json \<lparr>rq_after = after, rq_exclude_own = exclude_own\<rparr>) []"

text \<open>An acknowledgement: the batch is forgotten once the sink has, the cursor takes at most one step.\<close>

definition settle_ack :: "'s Sink \<Rightarrow> string \<Rightarrow> (ChatShared \<Rightarrow> ChatShared) \<Rightarrow> 's ChatActor \<Rightarrow> 's ChatActor" where
  "settle_ack S batch failed a =
     (case sk_acknowledge_update S batch (ca_sink a) of
        (Inr _, s) \<Rightarrow> on_shared (\<lambda>h. h\<lparr>ch_pending := filter (\<lambda>p. pp_batch_id p \<noteq> batch) (ch_pending h)\<rparr>) (with_sink s a)
      | (Inl _, s) \<Rightarrow> on_shared failed (with_sink s a))"

definition handle_ack :: "'s Sink \<Rightarrow> int \<Rightarrow> AckHeader \<Rightarrow> 's ChatActor \<Rightarrow> 's ChatActor" where
  "handle_ack S inst ack a =
     (let a = settle_ack S (ah_batch_id ack) (\<lambda>h. h\<lparr>ch_retry_at := Some (inst + QUOTA_RETRY)\<rparr>) a;
          a = (if ah_seq ack > chat_cursor a + 1 then on_shared (\<lambda>h. h\<lparr>ch_gap_repair := True\<rparr>) a
               else set_cursor (max (chat_cursor a) (ah_seq ack)) a);
          cur = chat_cursor a;
          a = (if \<not> ch_quota_blocked (ca_shared a) then a
               else if ch_pending (ca_shared a) = [] then on_shared (\<lambda>h. h\<lparr>ch_quota_blocked := False\<rparr>) a
               else on_shared (\<lambda>h. h\<lparr>ch_retry_at := Some inst\<rparr>) a)
      in chat_emit ChatApplied (with_sink (sk_advance_cursor S cur (ca_sink a)) a))"

definition header_str :: "json \<Rightarrow> string \<Rightarrow> string \<Rightarrow> string" where
  "header_str h k d = (case member_str h k of None \<Rightarrow> d | Some s \<Rightarrow> s)"

definition handle_error :: "'s Sink \<Rightarrow> int \<Rightarrow> json \<Rightarrow> 's ChatActor \<Rightarrow> bool \<times> 's ChatActor" where
  "handle_error S inst header a =
     (let a = on_flags (\<lambda>f. f\<lparr>fl_rejected := fl_rejected f + 1\<rparr>) a;
          code = header_str header ''code'' ''?'';
          batch = header_str header ''batchId'' []
      in if code \<in> {''too_large'', ''empty'', ''bad_push''} \<and> batch \<noteq> [] then
           (case sk_reject_update S batch (ca_sink a) of
              (Inl _, s) \<Rightarrow> (False, with_sink s a)
            | (Inr _, s) \<Rightarrow>
                let a = with_sink s a; len0 = length (ch_pending (ca_shared a));
                    a = on_shared (\<lambda>h. h\<lparr>ch_pending := filter (\<lambda>p. pp_batch_id p \<noteq> batch) (ch_pending h)\<rparr>) a
                in (True, if len0 \<noteq> length (ch_pending (ca_shared a)) then chat_emit PushRejected a else a))
         else if code = ''quota'' then
           (True, on_shared (\<lambda>h. h\<lparr>ch_quota_blocked := True, ch_retry_at := Some (inst + QUOTA_RETRY)\<rparr>) a)
         else (True, a))"

definition handle_frame_with_replay ::
  "'s Sink \<Rightarrow> int \<Rightarrow> WireFrame \<Rightarrow> bool \<Rightarrow> 's ChatActor \<Rightarrow> bool \<times> 's ChatActor" where
  "handle_frame_with_replay S inst f replay a =
     (if wf_kind f = FT_ROW then
        (case row_header (wf_header f) of
           None \<Rightarrow> (False, a)
         | Some row \<Rightarrow>
             (True, chat_emit ChatApplied
               (apply_remote_row S (wf_payload f) (rh_seq row) (replay \<or> ch_replaying_gap (ca_shared a)) a)))
      else if wf_kind f = FT_ACK then
        (case ack_header (wf_header f) of None \<Rightarrow> (False, a) | Some ack \<Rightarrow> (True, handle_ack S inst ack a))
      else if wf_kind f = FT_PRESENCE then (True, chat_emit ChatPresence a)
      else if wf_kind f = FT_ROWS_DONE then (True, on_shared (\<lambda>h. h\<lparr>ch_replaying_gap := False\<rparr>) a)
      else if wf_kind f = FT_PROBE_OK then
        (True, case probe_ok_header (wf_header f) of
           None \<Rightarrow> a
         | Some ok \<Rightarrow> on_shared (\<lambda>h. h\<lparr>ch_server :=
             map_option (\<lambda>st. st\<lparr>sh_head_seq := max (sh_head_seq st) (pk_head_seq ok)\<rparr>) (ch_server h)\<rparr>) a)
      else if wf_kind f = FT_STATE then
        (True, case state_header (wf_header f) of
           None \<Rightarrow> a
         | Some st \<Rightarrow> on_shared (\<lambda>h. h\<lparr>ch_server := Some st\<rparr>) a)
      else if wf_kind f = FT_ERROR then handle_error S inst (wf_header f) a
      else (True, a))"

text \<open>A gap asks for the rows above the honest cursor; at most three times in a session.\<close>

definition maybe_repair_gap :: "bool \<Rightarrow> u32 \<Rightarrow> 's ChatActor \<Rightarrow> bool \<times> WireFrame list \<times> u32 \<times> 's ChatActor" where
  "maybe_repair_gap accepts repairs a =
     (if ch_needs_checkpoint (ca_shared a) then (False, [], repairs, a)
      else let repair = ch_gap_repair (ca_shared a); after = chat_cursor a;
               a = on_shared (\<lambda>h. h\<lparr>ch_gap_repair := False\<rparr>) a
           in if \<not> repair then (True, [], repairs, a)
              else let a = on_shared (\<lambda>h. h\<lparr>ch_replaying_gap := True\<rparr>) a; repairs = repairs + 1
                   in if repairs > MAX_GAP_REPAIRS_PER_SESSION then (False, [], repairs, a)
                      else if accepts then (True, [rows_req_frame after False], repairs, a)
                      else (False, [], repairs, a))"

text \<open>Pushes go out in the order of the queue, each once a session.\<close>

fun push_all ::
  "'s Sink \<Rightarrow> (nat \<Rightarrow> bool) \<Rightarrow> nat \<Rightarrow> PendingPush list \<Rightarrow> string list \<Rightarrow> 's ChatActor \<Rightarrow>
   bool \<times> WireFrame list \<times> string list \<times> 's ChatActor" where
  "push_all S accepts i [] in_flight a = (True, [], in_flight, a)"
| "push_all S accepts i (p # ps) in_flight a =
     (case ensure_durable S p a of
        (False, a) \<Rightarrow> (False, [], in_flight, a)
      | (True, a) \<Rightarrow>
          if \<not> accepts i then (False, [], in_flight, a)
          else (case push_all S accepts (Suc i) ps (List.insert (pp_batch_id p) in_flight) a of
                  (ok, sent, fl, a) \<Rightarrow> (ok, push_frame p # sent, fl, a)))"

definition chat_push_pending ::
  "'s Sink \<Rightarrow> (nat \<Rightarrow> bool) \<Rightarrow> string list \<Rightarrow> 's ChatActor \<Rightarrow> bool \<times> WireFrame list \<times> string list \<times> 's ChatActor" where
  "chat_push_pending S accepts in_flight a =
     (let in_flight = filter (\<lambda>b. b \<in> pp_batch_id ` set (ch_pending (ca_shared a))) in_flight in
      if ch_quota_blocked (ca_shared a) then (True, [], in_flight, a)
      else push_all S accepts 0
             (filter (\<lambda>p. pp_batch_id p \<notin> set in_flight) (ch_pending (ca_shared a))) in_flight a)"

definition push_head :: "'s Sink \<Rightarrow> bool \<Rightarrow> 's ChatActor \<Rightarrow> bool \<times> WireFrame list \<times> 's ChatActor" where
  "push_head S accepts a =
     (case ch_pending (ca_shared a) of
        [] \<Rightarrow> (True, [], a)
      | p # _ \<Rightarrow>
          (case ensure_durable S p a of
             (False, a) \<Rightarrow> (False, [], a)
           | (True, a) \<Rightarrow> if accepts then (True, [push_frame p], a) else (False, [], a)))"

definition chat_send_probe :: "bool \<Rightarrow> int \<Rightarrow> int option \<Rightarrow> bool \<times> WireFrame list \<times> int option" where
  "chat_send_probe accepts inst deadline =
     (if \<not> accepts then (False, [], deadline)
      else (True, [out_frame FT_PROBE (JObj []) []],
            case deadline of None \<Rightarrow> Some (inst + CHAT_PROBE_DEADLINE) | d \<Rightarrow> d))"

section \<open>A session\<close>

datatype ChatSessionEnd = ChatReconnect | ChatStop

record SessionVars =
  sv_in_flight :: "string list"
  sv_last_frame :: int
  sv_probe_deadline :: "int option"
  sv_gap_repairs :: u32

text \<open>What a session waits for: the state; the checkpoint, with the state it was planned from, the
  generation of causal gaps at that time, the pushes in flight and the frames received meanwhile; the end
  of the backfill; anything.\<close>

datatype Phase =
    AwaitingState
  | Fetching StateHeader u64 "string list" "WireFrame list"
  | Backfilling "string list"
  | Steady SessionVars

datatype ChatSessionEvent =
    EvBytes "WireFrame option"
  | EvPipeClosed
  | EvTimeout
  | EvFetched bytes
  | EvFetchFailed
  | EvPushNudge
  | EvBeat "(int \<times> bytes) option"
  | EvProbeAsked
  | EvRedialAsked
  | EvRetryDue
  | EvQuietFor
  | EvShutdownChanged bool

type_synonym 's turn = "(ChatSessionEnd + Phase) \<times> WireFrame list \<times> 's ChatActor"

definition chat_hello :: "'s ChatActor \<Rightarrow> WireFrame" where
  "chat_hello a = out_frame FT_HELLO (hello_json \<lparr>hh_cursor = chat_cursor a, hh_device = ca_device_id a\<rparr>) []"

definition start_session :: "bool \<Rightarrow> 's ChatActor \<Rightarrow> 's turn" where
  "start_session accepts a =
     (if accepts then (Inr AwaitingState, [chat_hello a], a) else (Inl ChatReconnect, [], a))"

text \<open>The state is noted, a room that lost its rows is reported, and an unverified cursor is clamped once.\<close>

definition note_state :: "'s Sink \<Rightarrow> StateHeader \<Rightarrow> 's ChatActor \<Rightarrow> 's ChatActor" where
  "note_state S st a =
     (let a = on_shared (\<lambda>h. h\<lparr>ch_server := Some st, ch_replaying_gap := False\<rparr>) a;
          a = (if chat_cursor a > sh_head_seq st
               then chat_emit ServerReset (on_flags (\<lambda>f. f\<lparr>fl_server_resets := fl_server_resets f + 1\<rparr>)
                      (with_sink (sk_reset_cursor S 0 (ca_sink a)) a))
               else a);
          a = apply_cursor_amnesty S st a;
          a = on_flags (\<lambda>f. f\<lparr>fl_connected := True\<rparr>) a;
          a = (if \<not> ca_ready_pending a then on_flags (\<lambda>f. f\<lparr>fl_rejoins := fl_rejoins f + 1\<rparr>) a else a)
      in chat_emit ChatConnected a)"

text \<open>The checkpoint's frontier is asked of the document, unless a causal gap is being repaired.\<close>

definition frontier_contained :: "'s Sink \<Rightarrow> StateHeader \<Rightarrow> bytes \<Rightarrow> 's ChatActor \<Rightarrow> bool" where
  "frontier_contained S st frontier a \<longleftrightarrow>
     sh_checkpoint_size st = 0 \<or>
     (\<not> ch_needs_checkpoint (ca_shared a) \<and> sk_contains_frontier S frontier (ca_sink a))"

definition clear_repair :: "u64 \<Rightarrow> 's ChatActor \<Rightarrow> 's ChatActor" where
  "clear_repair gen =
     on_shared (\<lambda>h. if ch_causal_gap_generation h = gen then h\<lparr>ch_needs_checkpoint := False\<rparr> else h)"

definition on_state :: "'s Sink \<Rightarrow> (nat \<Rightarrow> bool) \<Rightarrow> StateHeader \<Rightarrow> bytes \<Rightarrow> 's ChatActor \<Rightarrow> 's turn" where
  "on_state S accepts st frontier a =
     (let a = note_state S st a;
          repair = ch_needs_checkpoint (ca_shared a);
          gen = ch_causal_gap_generation (ca_shared a);
          plan = plan_catch_up (chat_cursor a) st (frontier_contained S st frontier a);
          a = set_cursor (plan_after plan) a
      in if \<not> accepts 0 then (Inl ChatReconnect, [], a)
         else case chat_push_pending S (\<lambda>i. accepts (Suc i)) [] a of
           (ok, sent, in_flight, a) \<Rightarrow>
             let sent = rows_req_frame (plan_after plan) (ca_resumed a \<and> \<not> repair) # sent in
             if \<not> ok then (Inl ChatReconnect, sent, a)
             else case plan of
               CheckpointThenRows _ \<Rightarrow> (Inr (Fetching st gen in_flight []), sent, a)
             | RowsOnly _ \<Rightarrow> (Inr (Backfilling in_flight), sent, clear_repair gen a))"

definition finish_backfill :: "bool \<Rightarrow> int \<Rightarrow> string list \<Rightarrow> u64 \<Rightarrow> 's ChatActor \<Rightarrow> 's turn" where
  "finish_backfill accepts inst in_flight head a =
     (let a = a\<lparr>ca_resumed := True, ca_ready_pending := False\<rparr>;
          a = (if \<not> ch_needs_checkpoint (ca_shared a) then chat_emit (CaughtUp head) a else a)
      in case maybe_repair_gap accepts 0 a of
           (ok, sent, repairs, a) \<Rightarrow>
             (if ok then Inr (Steady \<lparr>sv_in_flight = in_flight, sv_last_frame = inst, sv_probe_deadline = None,
                                       sv_gap_repairs = repairs\<rparr>) else Inl ChatReconnect, sent, a))"

text \<open>The frames received during the fetch, in order: those before the end of the backfill are history.\<close>

fun replay_buffered ::
  "'s Sink \<Rightarrow> int \<Rightarrow> WireFrame list \<Rightarrow> u64 option \<Rightarrow> 's ChatActor \<Rightarrow> (u64 option) option \<times> 's ChatActor" where
  "replay_buffered S inst [] head a = (Some head, a)"
| "replay_buffered S inst (f # fs) head a =
     (if head = None \<and> wf_kind f = FT_ROWS_DONE then
        (case rows_done_header (wf_header f) of
           None \<Rightarrow> (None, a)
         | Some d \<Rightarrow> replay_buffered S inst fs (Some (rd_head_seq d)) a)
      else case handle_frame_with_replay S inst f (head = None) a of
             (False, a) \<Rightarrow> (None, a)
           | (True, a) \<Rightarrow> replay_buffered S inst fs head a)"

definition on_fetched ::
  "'s Sink \<Rightarrow> bool \<Rightarrow> int \<Rightarrow> StateHeader \<Rightarrow> u64 \<Rightarrow> string list \<Rightarrow> WireFrame list \<Rightarrow> bytes \<Rightarrow> 's ChatActor \<Rightarrow> 's turn" where
  "on_fetched S accepts inst st gen in_flight buffered bs a =
     (case sk_apply_checkpoint S bs (sh_checkpoint_seq st) (ca_sink a) of
        (Inl _, s) \<Rightarrow> (Inl ChatReconnect, [], with_sink s a)
      | (Inr _, s) \<Rightarrow>
          let a = with_sink s a;
              a = chat_emit ChatApplied (set_cursor (max (chat_cursor a) (sh_checkpoint_seq st)) a)
          in case replay_buffered S inst buffered None (clear_repair gen a) of
               (None, a) \<Rightarrow> (Inl ChatReconnect, [], a)
             | (Some None, a) \<Rightarrow> (Inr (Backfilling in_flight), [], a)
             | (Some (Some head), a) \<Rightarrow> finish_backfill accepts inst in_flight head a)"

definition on_backfill :: "'s Sink \<Rightarrow> bool \<Rightarrow> int \<Rightarrow> string list \<Rightarrow> WireFrame \<Rightarrow> 's ChatActor \<Rightarrow> 's turn" where
  "on_backfill S accepts inst in_flight f a =
     (if wf_kind f = FT_ROWS_DONE then
        (case rows_done_header (wf_header f) of
           None \<Rightarrow> (Inl ChatReconnect, [], a)
         | Some d \<Rightarrow> finish_backfill accepts inst in_flight (rd_head_seq d) a)
      else case handle_frame_with_replay S inst f True a of
             (ok, a) \<Rightarrow> (if ok then Inr (Backfilling in_flight) else Inl ChatReconnect, [], a))"

definition on_steady ::
  "'s Sink \<Rightarrow> (nat \<Rightarrow> bool) \<Rightarrow> int \<Rightarrow> ChatSessionEvent \<Rightarrow> SessionVars \<Rightarrow> 's ChatActor \<Rightarrow> 's turn" where
  "on_steady S accepts inst ev v a =
     (case ev of
        EvBytes (Some f) \<Rightarrow>
          (case handle_frame_with_replay S inst f False a of
             (False, a) \<Rightarrow> (Inl ChatReconnect, [], a)
           | (True, a) \<Rightarrow>
               (case maybe_repair_gap (accepts 0) (sv_gap_repairs v) a of
                  (ok, sent, repairs, a) \<Rightarrow>
                    (if ok then Inr (Steady (v\<lparr>sv_last_frame := inst, sv_probe_deadline := None,
                                               sv_gap_repairs := repairs\<rparr>)) else Inl ChatReconnect, sent, a)))
      | EvBytes None \<Rightarrow> (Inl ChatReconnect, [], a)
      | EvPipeClosed \<Rightarrow> (Inl ChatReconnect, [], a)
      | EvTimeout \<Rightarrow> (Inl ChatReconnect, [], a)
      | EvPushNudge \<Rightarrow>
          (case chat_push_pending S accepts (sv_in_flight v) a of
             (ok, sent, in_flight, a) \<Rightarrow>
               (if ok then Inr (Steady (v\<lparr>sv_in_flight := in_flight\<rparr>)) else Inl ChatReconnect, sent, a))
      | EvBeat None \<Rightarrow> (Inr (Steady v), [], a)
      | EvBeat (Some (at, payload)) \<Rightarrow>
          if accepts 0 then (Inr (Steady v), [out_frame FT_PRESENCE (presence_out_json \<lparr>po_at = at\<rparr>) payload], a)
          else (Inl ChatReconnect, [], a)
      | EvProbeAsked \<Rightarrow>
          (case chat_send_probe (accepts 0) inst (sv_probe_deadline v) of
             (ok, sent, d) \<Rightarrow> (if ok then Inr (Steady (v\<lparr>sv_probe_deadline := d\<rparr>)) else Inl ChatReconnect, sent, a))
      | EvRedialAsked \<Rightarrow> (Inl ChatReconnect, [], a)
      | EvRetryDue \<Rightarrow>
          (case push_head S (accepts 0) (on_shared (\<lambda>h. h\<lparr>ch_retry_at := None\<rparr>) a) of
             (ok, sent, a) \<Rightarrow> (if ok then Inr (Steady v) else Inl ChatReconnect, sent, a))
      | EvQuietFor \<Rightarrow>
          (case chat_send_probe (accepts 0) inst (sv_probe_deadline v) of
             (ok, sent, d) \<Rightarrow>
               (if ok then Inr (Steady (v\<lparr>sv_probe_deadline := d, sv_last_frame := inst\<rparr>)) else Inl ChatReconnect, sent, a))
      | EvShutdownChanged stop \<Rightarrow> (if stop then Inl ChatStop else Inr (Steady v), [], a)
      | _ \<Rightarrow> (Inr (Steady v), [], a))"

text \<open>One turn. An event a phase does not listen to leaves it waiting.\<close>

definition session_turn ::
  "'s Sink \<Rightarrow> (nat \<Rightarrow> bool) \<Rightarrow> int \<Rightarrow> ChatSessionEvent \<Rightarrow> Phase \<Rightarrow> 's ChatActor \<Rightarrow> 's turn" where
  "session_turn S accepts inst ev ph a =
     (case ph of
        AwaitingState \<Rightarrow>
          (case ev of
             EvBytes (Some f) \<Rightarrow>
               if wf_kind f \<noteq> FT_STATE then (Inr ph, [], a)
               else (case state_header (wf_header f) of
                       None \<Rightarrow> (Inl ChatReconnect, [], a)
                     | Some st \<Rightarrow> on_state S accepts st (wf_payload f) a)
           | EvBytes None \<Rightarrow> (Inl ChatReconnect, [], a)
           | EvPipeClosed \<Rightarrow> (Inl ChatReconnect, [], a)
           | EvTimeout \<Rightarrow> (Inl ChatReconnect, [], a)
           | _ \<Rightarrow> (Inr ph, [], a))
      | Fetching st gen in_flight buffered \<Rightarrow>
          (case ev of
             EvFetched bs \<Rightarrow> on_fetched S (accepts 0) inst st gen in_flight buffered bs a
           | EvFetchFailed \<Rightarrow> (Inl ChatReconnect, [], a)
           | EvTimeout \<Rightarrow> (Inl ChatReconnect, [], a)
           | EvShutdownChanged _ \<Rightarrow> (Inl ChatStop, [], a)
           | EvBytes (Some f) \<Rightarrow> (Inr (Fetching st gen in_flight (buffered @ [f])), [], a)
           | EvBytes None \<Rightarrow> (Inl ChatReconnect, [], a)
           | EvPipeClosed \<Rightarrow> (Inl ChatReconnect, [], a)
           | _ \<Rightarrow> (Inr ph, [], a))
      | Backfilling in_flight \<Rightarrow>
          (case ev of
             EvBytes (Some f) \<Rightarrow> on_backfill S (accepts 0) inst in_flight f a
           | EvBytes None \<Rightarrow> (Inl ChatReconnect, [], a)
           | EvPipeClosed \<Rightarrow> (Inl ChatReconnect, [], a)
           | EvTimeout \<Rightarrow> (Inl ChatReconnect, [], a)
           | _ \<Rightarrow> (Inr ph, [], a))
      | Steady v \<Rightarrow> on_steady S accepts inst ev v a)"

section \<open>Between sessions\<close>

definition chat_dial_attempt :: "'s ChatActor \<Rightarrow> u64 \<times> 's ChatActor" where
  "chat_dial_attempt a = (fl_dial_seq (ca_flags a) + 1, on_flags (\<lambda>f. f\<lparr>fl_dial_seq := fl_dial_seq f + 1\<rparr>) a)"

text \<open>A lost session: whether it had joined, and whether the client gives up, because its first join failed.\<close>

definition chat_session_lost :: "'s ChatActor \<Rightarrow> bool \<times> bool \<times> 's ChatActor" where
  "chat_session_lost a =
     (let joined = fl_connected (ca_flags a);
          a = on_flags (\<lambda>f. f\<lparr>fl_connected := False\<rparr>) a;
          a = (if joined then on_shared (\<lambda>h. h\<lparr>ch_http_replay_epoch := ch_http_replay_epoch h + 1\<rparr>) a else a);
          a = chat_emit ChatDisconnected (on_flags (\<lambda>f. f\<lparr>fl_disconnects := fl_disconnects f + 1\<rparr>) a)
      in (joined, ca_ready_pending a, a\<lparr>ca_ready_pending := False\<rparr>))"

datatype ChatWaited = ChatElapsed | ChatWoke | ChatShut

definition chat_next_backoff :: "ChatWaited \<Rightarrow> int \<Rightarrow> int option" where
  "chat_next_backoff w backoff =
     (case w of
        ChatShut \<Rightarrow> None
      | ChatWoke \<Rightarrow> Some CHAT_BACKOFF_BASE
      | ChatElapsed \<Rightarrow> Some (min (backoff * 2) CHAT_BACKOFF_CAP))"

definition chat_after_session :: "bool \<Rightarrow> int \<Rightarrow> int \<Rightarrow> int" where
  "chat_after_session joined lasted backoff =
     (if joined \<and> lasted \<ge> CHAT_STABLE_RESET then CHAT_BACKOFF_BASE else backoff)"

definition chat_wait_time :: "bool \<Rightarrow> int \<Rightarrow> int" where
  "chat_wait_time path_offline wait = (if path_offline then max wait CHAT_OFFLINE_PARK_RECHECK else wait)"

section \<open>A cycle over HTTPS\<close>

text \<open>The body of a pull: frames, each after its length as a little-endian 32-bit integer.\<close>

function body_frames :: "(bytes \<Rightarrow> json option) \<Rightarrow> bytes \<Rightarrow> WireFrame list" where
  "body_frames from_slice body =
     (if length body < 4 then []
      else let n = unat (from_le_bytes (take 4 body)); rest = drop 4 body
           in if n > length rest then []
              else (case decode from_slice (take n rest) of None \<Rightarrow> [] | Some f \<Rightarrow> [f]) @
                   body_frames from_slice (drop n rest))"
  by pat_completeness auto
termination by (relation "measure (\<lambda>(_, body). length body)") (auto simp: Let_def)

declare body_frames.simps [simp del]

text \<open>What the cycle waits for: the answer to a push, with the pushes left; the body of the pull; the
  checkpoint.\<close>

datatype HttpPhase =
    HttpPosting PendingPush "PendingPush list"
  | HttpPulling u64 u64 bool
  | HttpFetching StateHeader u64 u64 u64 "WireFrame list"

datatype HttpEvent =
    HtPosted "(string \<times> u64) option option"
  | HtBody "WireFrame list option"
  | HtCheckpoint "bytes option"

definition http_done :: "'s ChatActor \<Rightarrow> HttpPhase option \<times> 's ChatActor" where
  "http_done a = (None, a\<lparr>ca_sync_busy := False\<rparr>)"

definition begin_pull :: "'s ChatActor \<Rightarrow> HttpPhase option \<times> 's ChatActor" where
  "begin_pull a =
     (let h = ca_shared a; live = (ch_http_live_epoch h = Some (ch_http_replay_epoch h))
      in (Some (HttpPulling (ch_cursor h) (ch_http_replay_epoch h) live),
          on_shared (\<lambda>h. h\<lparr>ch_http_live_epoch := None\<rparr>) a))"

fun post_next :: "'s Sink \<Rightarrow> PendingPush list \<Rightarrow> 's ChatActor \<Rightarrow> HttpPhase option \<times> 's ChatActor" where
  "post_next S [] a = begin_pull a"
| "post_next S (p # ps) a =
     (case ensure_durable S p a of
        (True, a) \<Rightarrow> (Some (HttpPosting p ps), a)
      | (False, a) \<Rightarrow> begin_pull a)"

definition spawn_offline_sync :: "'s Sink \<Rightarrow> 's ChatActor \<Rightarrow> HttpPhase option \<times> 's ChatActor" where
  "spawn_offline_sync S a =
     (if ca_sync_busy a then (None, a)
      else post_next S (ch_pending (ca_shared a)) (a\<lparr>ca_sync_busy := True\<rparr>))"

definition on_posted ::
  "'s Sink \<Rightarrow> PendingPush list \<Rightarrow> (string \<times> u64) option option \<Rightarrow> 's ChatActor \<Rightarrow> HttpPhase option \<times> 's ChatActor" where
  "on_posted S ps ack a =
     (case ack of
        None \<Rightarrow> begin_pull a
      | Some None \<Rightarrow> post_next S ps a
      | Some (Some (batch, seq)) \<Rightarrow>
          let a = settle_ack S batch id a;
              a = (if seq \<le> chat_cursor a + 1 then set_cursor (max (chat_cursor a) seq) a else a);
              a = chat_emit ChatApplied (with_sink (sk_advance_cursor S (chat_cursor a) (ca_sink a)) a)
          in post_next S ps a)"

text \<open>The frames after the state: rows are applied, live only in an epoch that was live from its start.\<close>

definition http_frame :: "'s Sink \<Rightarrow> u64 \<Rightarrow> bool \<Rightarrow> WireFrame \<Rightarrow> bool \<times> 's ChatActor \<Rightarrow> bool \<times> 's ChatActor" where
  "http_frame S epoch live f = (\<lambda>(applied, a).
     if wf_kind f = FT_ROW then
       (case row_header (wf_header f) of
          None \<Rightarrow> (applied, a)
        | Some row \<Rightarrow>
            let replay = (\<not> live \<or> ch_http_replay_epoch (ca_shared a) \<noteq> epoch \<or> ch_needs_checkpoint (ca_shared a))
            in (True, apply_remote_row S (wf_payload f) (rh_seq row) replay a))
     else if wf_kind f = FT_ROWS_DONE then
       (case rows_done_header (wf_header f) of
          None \<Rightarrow> (applied, a)
        | Some d \<Rightarrow>
            (applied, on_shared (\<lambda>h. if ch_http_replay_epoch h = epoch \<and> ch_cursor h \<ge> rd_head_seq d \<and>
                \<not> ch_needs_checkpoint h then h\<lparr>ch_http_live_epoch := Some epoch\<rparr> else h) a))
     else (applied, a))"

definition http_frames :: "'s Sink \<Rightarrow> u64 \<Rightarrow> bool \<Rightarrow> WireFrame list \<Rightarrow> 's ChatActor \<Rightarrow> HttpPhase option \<times> 's ChatActor" where
  "http_frames S epoch live fs a =
     (case fold (http_frame S epoch live) fs (False, a) of
        (applied, a) \<Rightarrow> http_done (if applied then chat_emit ChatApplied a else a))"

definition http_settle :: "StateHeader \<Rightarrow> u64 \<Rightarrow> u64 \<Rightarrow> 's ChatActor \<Rightarrow> 's ChatActor" where
  "http_settle st after gen a =
     clear_repair gen
       (set_cursor (if chat_cursor a > sh_head_seq st then after else max (chat_cursor a) after) a)"

definition on_body ::
  "'s Sink \<Rightarrow> u64 \<Rightarrow> u64 \<Rightarrow> bool \<Rightarrow> WireFrame list \<Rightarrow> 's ChatActor \<Rightarrow> HttpPhase option \<times> 's ChatActor" where
  "on_body S cur epoch live frames a =
     (case frames of
        [] \<Rightarrow> http_done a
      | sf # fs \<Rightarrow>
          (case (if wf_kind sf = FT_STATE then state_header (wf_header sf) else None) of
             None \<Rightarrow> http_frames S epoch live fs a
           | Some st \<Rightarrow>
               let a = apply_cursor_amnesty S st (on_shared (\<lambda>h. h\<lparr>ch_server := Some st\<rparr>) a)
               in if chat_cursor a < cur \<and> cur \<le> sh_head_seq st then http_done a
                  else let repair = ch_needs_checkpoint (ca_shared a);
                           gen = ch_causal_gap_generation (ca_shared a);
                           plan = plan_catch_up cur st (frontier_contained S st (wf_payload sf) a);
                           live = (live \<and> \<not> (repair \<or> cur > sh_head_seq st));
                           a = (if cur > sh_head_seq st then with_sink (sk_reset_cursor S 0 (ca_sink a)) a else a)
                       in case plan of
                            CheckpointThenRows after \<Rightarrow> (Some (HttpFetching st after epoch gen fs), a)
                          | RowsOnly after \<Rightarrow> http_frames S epoch live fs (http_settle st after gen a)))"

definition http_turn :: "'s Sink \<Rightarrow> HttpEvent \<Rightarrow> HttpPhase \<Rightarrow> 's ChatActor \<Rightarrow> HttpPhase option \<times> 's ChatActor" where
  "http_turn S ev ph a =
     (case (ph, ev) of
        (HttpPosting p ps, HtPosted ack) \<Rightarrow> on_posted S ps ack a
      | (HttpPulling cur epoch live, HtBody None) \<Rightarrow>
          http_done (on_shared (\<lambda>h. h\<lparr>ch_http_replay_epoch := ch_http_replay_epoch h + 1\<rparr>) a)
      | (HttpPulling cur epoch live, HtBody (Some frames)) \<Rightarrow> on_body S cur epoch live frames a
      | (HttpFetching st after epoch gen fs, HtCheckpoint None) \<Rightarrow> http_done a
      | (HttpFetching st after epoch gen fs, HtCheckpoint (Some bs)) \<Rightarrow>
          (case sk_apply_checkpoint S bs (sh_checkpoint_seq st) (ca_sink a) of
             (Inl _, s) \<Rightarrow> http_done (with_sink s a)
           | (Inr _, s) \<Rightarrow> http_frames S epoch False fs (http_settle st after gen (chat_emit ChatApplied (with_sink s a))))
      | _ \<Rightarrow> (Some ph, a))"

end
