(* ===== verification/Chat_Contract.thy ===== *)
theory Chat_Contract
  imports Chat_Client
begin

text \<open>
  What the client of a chat room promises, whatever document is behind it.

  The locale \<open>chat_sink\<close> is the interface between the client and the trait \<^verbatim>\<open>ChatDocSink\<close>: no operation
  loses an update the document holds, and a row or checkpoint reported as applied is held. From it follows
  the contract of the cursor: every row up to the cursor is held, save for a debt. A debt is run up in one
  place only, where the socket session raises the cursor to a checkpoint it has yet to fetch
  (\<^verbatim>\<open>run_session\<close>), and is paid when a checkpoint that reaches as far has been imported.
\<close>

section \<open>The ledger of the room\<close>

text \<open>\<open>row n\<close> is the update with sequence number \<open>n\<close>, \<open>N\<close> the newest number given out, \<open>content b\<close> the bytes
  of batch \<open>b\<close>.\<close>

definition push_ok :: "('s \<Rightarrow> bytes \<Rightarrow> bool) \<Rightarrow> (string \<Rightarrow> bytes) \<Rightarrow> 's \<Rightarrow> string \<Rightarrow> bytes \<Rightarrow> bool" where
  "push_ok has content s batch bs \<longleftrightarrow> bs = content batch \<and> has s bs"

definition claims :: "('s \<Rightarrow> bytes \<Rightarrow> bool) \<Rightarrow> (nat \<Rightarrow> bytes) \<Rightarrow> nat \<Rightarrow> 's \<Rightarrow> u64 \<Rightarrow> bool" where
  "claims has row D s c \<longleftrightarrow> (\<forall>n. D < n \<and> n \<le> unat c \<longrightarrow> has s (row n))"

definition client_ok ::
  "('s \<Rightarrow> bytes \<Rightarrow> bool) \<Rightarrow> (nat \<Rightarrow> bytes) \<Rightarrow> (string \<Rightarrow> bytes) \<Rightarrow> nat \<Rightarrow> nat \<Rightarrow> 's ChatActor \<Rightarrow> bool" where
  "client_ok has row content N D a \<longleftrightarrow>
     unat (chat_cursor a) \<le> N \<and> claims has row D (ca_sink a) (chat_cursor a) \<and>
     (\<forall>p \<in> set (ch_pending (ca_shared a)). push_ok has content (ca_sink a) (pp_batch_id p) (pp_bytes p))"

text \<open>A state the room may answer with, with the frontier of its checkpoint.\<close>

definition state_ok :: "'s Sink \<Rightarrow> ('s \<Rightarrow> bytes \<Rightarrow> bool) \<Rightarrow> (nat \<Rightarrow> bytes) \<Rightarrow> nat \<Rightarrow> StateHeader \<Rightarrow> bytes \<Rightarrow> bool" where
  "state_ok S has row N st frontier \<longleftrightarrow>
     unat (sh_head_seq st) \<le> N \<and> unat (sh_checkpoint_seq st) \<le> N \<and>
     (sh_checkpoint_size st \<noteq> 0 \<longrightarrow>
        (\<forall>s n. sk_contains_frontier S frontier s \<longrightarrow> 0 < n \<longrightarrow> n \<le> unat (sh_checkpoint_seq st) \<longrightarrow> has s (row n)))"

text \<open>A frame the room may send a client that holds \<open>s\<close>.\<close>

definition frame_ok ::
  "'s Sink \<Rightarrow> ('s \<Rightarrow> bytes \<Rightarrow> bool) \<Rightarrow> (nat \<Rightarrow> bytes) \<Rightarrow> nat \<Rightarrow> 's \<Rightarrow> WireFrame \<Rightarrow> bool" where
  "frame_ok S has row N s f \<longleftrightarrow>
     (wf_kind f = FT_ROW \<longrightarrow> (\<forall>r. row_header (wf_header f) = Some r \<longrightarrow>
        unat (rh_seq r) \<le> N \<and> wf_payload f = row (unat (rh_seq r)))) \<and>
     (wf_kind f = FT_ACK \<longrightarrow> (\<forall>k. ack_header (wf_header f) = Some k \<longrightarrow>
        unat (ah_seq k) \<le> N \<and> has s (row (unat (ah_seq k))))) \<and>
     (wf_kind f = FT_STATE \<longrightarrow> (\<forall>st. state_header (wf_header f) = Some st \<longrightarrow>
        state_ok S has row N st (wf_payload f)))"

text \<open>What a client may send.\<close>

definition sent_ok :: "('s \<Rightarrow> bytes \<Rightarrow> bool) \<Rightarrow> (string \<Rightarrow> bytes) \<Rightarrow> 's \<Rightarrow> WireFrame \<Rightarrow> bool" where
  "sent_ok has content s f \<longleftrightarrow>
     (wf_kind f = FT_PUSH \<longrightarrow> (\<forall>b. member_str (wf_header f) ''batchId'' = Some b \<longrightarrow>
        push_ok has content s b (wf_payload f)))"

text \<open>What may be in the variables of a session, and a checkpoint the room may serve, which reaches \<open>q\<close>.\<close>

definition phase_ok :: "'s Sink \<Rightarrow> ('s \<Rightarrow> bytes \<Rightarrow> bool) \<Rightarrow> (nat \<Rightarrow> bytes) \<Rightarrow> nat \<Rightarrow> 's \<Rightarrow> Phase \<Rightarrow> bool" where
  "phase_ok S has row N s ph \<longleftrightarrow>
     (case ph of
        Fetching st gen fl buffered \<Rightarrow>
          unat (sh_checkpoint_seq st) \<le> N \<and> (\<forall>f \<in> set buffered. frame_ok S has row N s f)
      | _ \<Rightarrow> True)"

definition blob_ok :: "('s \<Rightarrow> bytes \<Rightarrow> bool) \<Rightarrow> (nat \<Rightarrow> bytes) \<Rightarrow> nat \<Rightarrow> nat \<Rightarrow> bytes \<Rightarrow> bool" where
  "blob_ok has row N q bs \<longleftrightarrow> q \<le> N \<and> (\<forall>s n. has s bs \<longrightarrow> 0 < n \<longrightarrow> n \<le> q \<longrightarrow> has s (row n))"

section \<open>The debt\<close>

text \<open>The debt after the state of a session: it grows to the checkpoint when that is still to be fetched, and
  is paid when the document contains it. Importing a checkpoint that reaches \<open>q\<close> pays a debt of at most \<open>q\<close>.\<close>

definition owed_after_state :: "'s Sink \<Rightarrow> StateHeader \<Rightarrow> bytes \<Rightarrow> 's ChatActor \<Rightarrow> nat \<Rightarrow> nat" where
  "owed_after_state S st frontier a D =
     (if frontier_contained S st frontier (note_state S st a)
      then (if sh_checkpoint_size st \<noteq> 0 \<and> D \<le> unat (sh_checkpoint_seq st) then 0 else D)
      else max D (unat (sh_checkpoint_seq st)))"

definition owed_after_import :: "'s Sink \<Rightarrow> bytes \<Rightarrow> u64 \<Rightarrow> nat \<Rightarrow> 's ChatActor \<Rightarrow> nat \<Rightarrow> nat" where
  "owed_after_import S bs c q a D =
     (case fst (sk_apply_checkpoint S bs c (ca_sink a)) of Inl _ \<Rightarrow> D | Inr _ \<Rightarrow> if D \<le> q then 0 else D)"

definition owed_after_body :: "'s Sink \<Rightarrow> WireFrame list \<Rightarrow> 's ChatActor \<Rightarrow> nat \<Rightarrow> nat" where
  "owed_after_body S frames a D =
     (case frames of
        [] \<Rightarrow> D
      | sf # _ \<Rightarrow>
          (case (if wf_kind sf = FT_STATE then state_header (wf_header sf) else None) of
             None \<Rightarrow> D
           | Some st \<Rightarrow>
               if frontier_contained S st (wf_payload sf)
                    (apply_cursor_amnesty S st (on_shared (\<lambda>h. h\<lparr>ch_server := Some st\<rparr>) a)) \<and>
                  sh_checkpoint_size st \<noteq> 0 \<and> D \<le> unat (sh_checkpoint_seq st) then 0 else D))"

text \<open>The debt after a turn of the session; \<open>q\<close> is how far the fetched checkpoint reaches.\<close>

definition owed_after_turn :: "'s Sink \<Rightarrow> nat \<Rightarrow> ChatSessionEvent \<Rightarrow> Phase \<Rightarrow> 's ChatActor \<Rightarrow> nat \<Rightarrow> nat" where
  "owed_after_turn S q ev ph a D =
     (case (ph, ev) of
        (AwaitingState, EvBytes (Some f)) \<Rightarrow>
          (case (if wf_kind f = FT_STATE then state_header (wf_header f) else None) of
             None \<Rightarrow> D | Some st \<Rightarrow> owed_after_state S st (wf_payload f) a D)
      | (Fetching st _ _ _, EvFetched bs) \<Rightarrow> owed_after_import S bs (sh_checkpoint_seq st) q a D
      | _ \<Rightarrow> D)"

definition owed_after_http :: "'s Sink \<Rightarrow> nat \<Rightarrow> HttpEvent \<Rightarrow> HttpPhase \<Rightarrow> 's ChatActor \<Rightarrow> nat \<Rightarrow> nat" where
  "owed_after_http S q ev ph a D =
     (case (ph, ev) of
        (HttpPulling _ _ _, HtBody (Some frames)) \<Rightarrow> owed_after_body S frames a D
      | (HttpFetching st _ _ _ _, HtCheckpoint (Some bs)) \<Rightarrow> owed_after_import S bs (sh_checkpoint_seq st) q a D
      | _ \<Rightarrow> D)"

text \<open>What may be in the variables of a cycle over HTTPS.\<close>

definition http_ok ::
  "'s Sink \<Rightarrow> ('s \<Rightarrow> bytes \<Rightarrow> bool) \<Rightarrow> (nat \<Rightarrow> bytes) \<Rightarrow> (string \<Rightarrow> bytes) \<Rightarrow> nat \<Rightarrow> nat \<Rightarrow> 's \<Rightarrow> HttpPhase \<Rightarrow> bool" where
  "http_ok S has row content N D s ph \<longleftrightarrow>
     (case ph of
        HttpPosting p ps \<Rightarrow> (\<forall>p \<in> set (p # ps). push_ok has content s (pp_batch_id p) (pp_bytes p))
      | HttpPulling cur _ _ \<Rightarrow> unat cur \<le> N \<and> claims has row D s cur
      | HttpFetching st after _ _ fs \<Rightarrow>
          after = sh_checkpoint_seq st \<and> unat after \<le> N \<and> (\<forall>f \<in> set fs. frame_ok S has row N s f))"

section \<open>The interface\<close>

locale chat_sink =
  fixes S :: "'s Sink" and has :: "'s \<Rightarrow> bytes \<Rightarrow> bool"
  assumes keeps_reset: "has s b \<Longrightarrow> has (sk_reset_cursor S c s) b"
    and keeps_persist: "has s b \<Longrightarrow> has (snd (sk_persist_update S i u s)) b"
    and keeps_acknowledge: "has s b \<Longrightarrow> has (snd (sk_acknowledge_update S i s)) b"
    and keeps_reject: "has s b \<Longrightarrow> has (snd (sk_reject_update S i s)) b"
    and keeps_row: "has s b \<Longrightarrow> has (snd (sk_apply_row S u c s)) b"
    and keeps_replay_row: "has s b \<Longrightarrow> has (snd (sk_apply_replay_row S u c s)) b"
    and keeps_checkpoint: "has s b \<Longrightarrow> has (snd (sk_apply_checkpoint S u c s)) b"
    and keeps_advance: "has s b \<Longrightarrow> has (sk_advance_cursor S c s) b"
    and row_held: "sk_apply_row S u c s = (RowApplied, s') \<Longrightarrow> has s' u"
    and replay_row_held: "sk_apply_replay_row S u c s = (RowApplied, s') \<Longrightarrow> has s' u"
    and checkpoint_held: "sk_apply_checkpoint S u c s = (Inr v, s') \<Longrightarrow> has s' u"
begin

definition grows :: "'s ChatActor \<Rightarrow> 's ChatActor \<Rightarrow> bool" where
  "grows a a' \<longleftrightarrow> (\<forall>b. has (ca_sink a) b \<longrightarrow> has (ca_sink a') b)"

lemma grows_refl [simp, intro]: "grows a a"
  by (simp add: grows_def)

lemma grows_trans: "grows a b \<Longrightarrow> grows b c \<Longrightarrow> grows a c"
  by (auto simp: grows_def)

lemma grows_sink: "ca_sink a' = ca_sink a \<Longrightarrow> grows a a'"
  by (simp add: grows_def)

text \<open>Whatever cursor was justified under the debt \<open>D\<close> stays so under \<open>D'\<close>.\<close>

definition settles :: "(nat \<Rightarrow> bytes) \<Rightarrow> nat \<Rightarrow> 's ChatActor \<Rightarrow> nat \<Rightarrow> 's ChatActor \<Rightarrow> bool" where
  "settles row D a D' a' \<longleftrightarrow> (\<forall>c. claims has row D (ca_sink a) c \<longrightarrow> claims has row D' (ca_sink a') c)"

lemma settles_mono: "grows a a' \<Longrightarrow> D \<le> D' \<Longrightarrow> settles row D a D' a'"
  by (auto simp: settles_def claims_def grows_def)

lemma settles_paid:
  "grows a a' \<Longrightarrow> (\<And>n. 0 < n \<Longrightarrow> n \<le> Q \<Longrightarrow> has (ca_sink a') (row n)) \<Longrightarrow> settles row D a (if D \<le> Q then 0 else D) a'"
  by (auto simp: settles_def claims_def grows_def) (meson le_trans not_le)

lemma settles_trans: "settles row D a D1 a1 \<Longrightarrow> settles row D1 a1 D2 a2 \<Longrightarrow> settles row D a D2 a2"
  by (auto simp: settles_def)

lemma frame_ok_grows: "frame_ok S has row N (ca_sink a) f \<Longrightarrow> grows a a' \<Longrightarrow> frame_ok S has row N (ca_sink a') f"
  by (auto simp: frame_ok_def grows_def)

lemma sent_ok_grows: "sent_ok has content (ca_sink a) f \<Longrightarrow> grows a a' \<Longrightarrow> sent_ok has content (ca_sink a') f"
  by (auto simp: sent_ok_def push_ok_def grows_def)

text \<open>Changes that leave cursor and queue alone, or shrink the queue, or lower the cursor.\<close>

lemma client_ok_weaken:
  assumes "client_ok has row content N D a" "grows a a'" "chat_cursor a' \<le> chat_cursor a"
    "set (ch_pending (ca_shared a')) \<subseteq> set (ch_pending (ca_shared a))"
  shows "client_ok has row content N D a'"
  using assms unfolding client_ok_def claims_def push_ok_def grows_def word_le_nat_alt
  by (meson le_trans subsetD)

lemma claims_debt: "claims has row D s c \<Longrightarrow> D \<le> D' \<Longrightarrow> claims has row D' s c"
  by (auto simp: claims_def)

text \<open>A step of the cursor to a held row.\<close>

lemma client_ok_walk:
  assumes "client_ok has row content N D a" "grows a a'" "unat c \<le> N"
    "unat c \<le> unat (chat_cursor a) + 1" "c > chat_cursor a \<Longrightarrow> has (ca_sink a') (row (unat c))"
    "chat_cursor a' = c" "set (ch_pending (ca_shared a')) \<subseteq> set (ch_pending (ca_shared a))"
  shows "client_ok has row content N D a'"
proof -
  have "has (ca_sink a') (row n)" if "D < n" "n \<le> unat c" for n
  proof (cases "n \<le> unat (chat_cursor a)")
    case True
    with assms(1,2) that show ?thesis by (auto simp: client_ok_def claims_def grows_def)
  next
    case False
    with that assms(4) have "n = unat c" "chat_cursor a < c" by (auto simp: word_less_nat_alt)
    with assms(5) show ?thesis by simp
  qed
  with assms show ?thesis by (auto simp: client_ok_def claims_def push_ok_def grows_def)
qed

text \<open>A raise of the cursor over held rows, and the payment of a debt.\<close>

lemma client_ok_raise:
  assumes "client_ok has row content N D a" "grows a a'" "Q \<le> N" "unat c \<le> Q"
    "\<And>n. 0 < n \<Longrightarrow> n \<le> Q \<Longrightarrow> has (ca_sink a') (row n)" "chat_cursor a' = max (chat_cursor a) c"
    "set (ch_pending (ca_shared a')) \<subseteq> set (ch_pending (ca_shared a))"
  shows "client_ok has row content N (if D \<le> Q then 0 else D) a'"
proof -
  have "has (ca_sink a') (row n)" if "(if D \<le> Q then 0 else D) < n" "n \<le> unat (max (chat_cursor a) c)" for n
  proof (cases "n \<le> Q")
    case True
    with that assms(5) show ?thesis by auto
  next
    case False
    with that assms(4) have "D < n" "n \<le> unat (chat_cursor a)"
      by (auto simp: max_def word_le_nat_alt split: if_splits)
    with assms(1,2) show ?thesis by (auto simp: client_ok_def claims_def grows_def)
  qed
  with assms show ?thesis by (auto simp: client_ok_def claims_def push_ok_def grows_def max_def)
qed

lemma client_ok_drop:
  assumes "client_ok has row content N D a" "grows a a'" "unat (chat_cursor a') \<le> D'" "D \<le> D'" "unat (chat_cursor a') \<le> N"
    "set (ch_pending (ca_shared a')) \<subseteq> set (ch_pending (ca_shared a))"
  shows "client_ok has row content N D' a'"
  using assms by (auto simp: client_ok_def claims_def push_ok_def grows_def)

subsection \<open>Pushes\<close>

lemma mark_durable_facts: "p \<in> set (mark_durable b ps) \<Longrightarrow>
    \<exists>q \<in> set ps. pp_batch_id q = pp_batch_id p \<and> pp_bytes q = pp_bytes p"
  by (induction b ps rule: mark_durable.induct) (auto split: if_splits)

lemma ensure_durable_ok:
  assumes "client_ok has row content N D a" "ensure_durable S p a = (ok, a')"
  shows "client_ok has row content N D a' \<and> grows a a' \<and> chat_cursor a' = chat_cursor a \<and>
    (\<forall>q \<in> set (ch_pending (ca_shared a')). \<exists>p \<in> set (ch_pending (ca_shared a)).
       pp_batch_id p = pp_batch_id q \<and> pp_bytes p = pp_bytes q)"
proof -
  have g: "grows a a'"
    using assms(2) keeps_persist unfolding ensure_durable_def grows_def actor_defs
    by (auto split: option.splits if_splits prod.splits sum.splits) (metis snd_conv)+
  have c: "chat_cursor a' = chat_cursor a"
    using assms(2) unfolding ensure_durable_def actor_defs
    by (auto split: option.splits if_splits prod.splits sum.splits)
  have q: "\<forall>q \<in> set (ch_pending (ca_shared a')). \<exists>p \<in> set (ch_pending (ca_shared a)).
       pp_batch_id p = pp_batch_id q \<and> pp_bytes p = pp_bytes q"
    using assms(2) unfolding ensure_durable_def actor_defs
    by (auto split: option.splits if_splits prod.splits sum.splits dest!: mark_durable_facts)
  from assms(1) g c q have "client_ok has row content N D a'"
    unfolding client_ok_def claims_def push_ok_def grows_def by metis
  with g c q show ?thesis by blast
qed

lemma push_frame_ok: "push_ok has content s (pp_batch_id p) (pp_bytes p) \<Longrightarrow> sent_ok has content s (push_frame p)"
  by (simp add: sent_ok_def push_frame_def out_frame_def push_json_def member_str_def)

lemma other_sent_ok: "k \<noteq> FT_PUSH \<Longrightarrow> sent_ok has content s (out_frame k h u)"
  by (simp add: sent_ok_def out_frame_def)

lemma rows_req_ok: "sent_ok has content s (rows_req_frame q x)"
  by (simp add: rows_req_frame_def other_sent_ok frame_types)

lemma push_all_ok:
  assumes "client_ok has row content N D a" "push_all S acc i ps fl a = (ok, sent, fl', a')"
    "\<forall>p \<in> set ps. push_ok has content (ca_sink a) (pp_batch_id p) (pp_bytes p)"
  shows "client_ok has row content N D a' \<and> grows a a' \<and> chat_cursor a' = chat_cursor a \<and>
    (\<forall>f \<in> set sent. sent_ok has content (ca_sink a') f)"
  using assms
proof (induction ps arbitrary: i fl a sent)
  case (Cons p ps)
  obtain b a1 where e: "ensure_durable S p a = (b, a1)" by force
  note d = ensure_durable_ok [OF Cons.prems(1) e]
  show ?case
  proof (cases "b \<and> acc i")
    case False
    with Cons.prems(2) e d show ?thesis by (auto split: bool.splits if_splits)
  next
    case True
    obtain sent1 where s: "push_all S acc (Suc i) ps (List.insert (pp_batch_id p) fl) a1 = (ok, sent1, fl', a')"
      "sent = push_frame p # sent1"
      using Cons.prems(2) e True by (auto split: prod.splits)
    have "\<forall>q \<in> set ps. push_ok has content (ca_sink a1) (pp_batch_id q) (pp_bytes q)"
      using Cons.prems(3) d by (auto simp: push_ok_def grows_def)
    from Cons.IH [OF _ s(1) this] d
    have ih: "client_ok has row content N D a'" "grows a1 a'" "chat_cursor a' = chat_cursor a1"
      "\<forall>f \<in> set sent1. sent_ok has content (ca_sink a') f" by auto
    moreover have "grows a a'" using d ih grows_trans by blast
    moreover from this Cons.prems(3) have "sent_ok has content (ca_sink a') (push_frame p)"
      by (auto intro!: push_frame_ok simp: push_ok_def grows_def)
    ultimately show ?thesis using d s(2) by auto
  qed
qed auto

lemma push_pending_ok:
  assumes "client_ok has row content N D a" "chat_push_pending S acc fl a = (ok, sent, fl', a')"
  shows "client_ok has row content N D a' \<and> grows a a' \<and> chat_cursor a' = chat_cursor a \<and>
    (\<forall>f \<in> set sent. sent_ok has content (ca_sink a') f)"
proof (cases "ch_quota_blocked (ca_shared a)")
  case True
  with assms show ?thesis by (auto simp: chat_push_pending_def)
next
  case False
  show ?thesis
    by (rule push_all_ok [OF assms(1)]) (use assms False in \<open>auto simp: chat_push_pending_def Let_def client_ok_def\<close>)
qed

lemma push_head_ok:
  assumes "client_ok has row content N D a" "push_head S acc a = (ok, sent, a')"
  shows "client_ok has row content N D a' \<and> grows a a' \<and> (\<forall>f \<in> set sent. sent_ok has content (ca_sink a') f)"
proof (cases "ch_pending (ca_shared a)")
  case Nil
  with assms show ?thesis by (auto simp: push_head_def)
next
  case (Cons p ps)
  obtain b a1 where e: "ensure_durable S p a = (b, a1)" by force
  note d = ensure_durable_ok [OF assms(1) e]
  from assms(1) Cons d have "sent_ok has content (ca_sink a1) (push_frame p)"
    by (auto intro!: push_frame_ok simp: push_ok_def grows_def client_ok_def)
  with assms(2) Cons e d show ?thesis by (auto simp: push_head_def split: bool.splits if_splits)
qed

subsection \<open>Frames\<close>

lemma grows_emit [simp]: "grows a (chat_emit e a') \<longleftrightarrow> grows a a'"
  by (simp add: grows_def chat_emit_def)

lemma grows_shared [simp]: "grows a (on_shared f a') \<longleftrightarrow> grows a a'"
  by (simp add: grows_def on_shared_def)

lemma grows_flags [simp]: "grows a (on_flags f a') \<longleftrightarrow> grows a a'"
  by (simp add: grows_def on_flags_def)

lemma shared_simps [simp]:
  "ca_shared (chat_emit e a) = ca_shared a"
  "ca_shared (with_sink s a) = ca_shared a"
  "ca_shared (on_flags f a) = ca_shared a"
  "ca_shared (on_shared g a) = g (ca_shared a)"
  "ca_sink (chat_emit e a) = ca_sink a"
  "ca_sink (with_sink s a) = s"
  "ca_sink (on_flags f a) = ca_sink a"
  "ca_sink (on_shared g a) = ca_sink a"
  by (simp_all add: actor_defs)

lemma sat_succ_bound: "\<not> seq > sat_succ c \<Longrightarrow> unat seq \<le> unat c + 1"
  by (auto simp: sat_succ_def word_le_nat_alt word_less_nat_alt unat_word_ariths split: if_splits)

lemma word_succ_bound: "unat c + 1 < 2 ^ 64 \<Longrightarrow> \<not> seq > c + 1 \<Longrightarrow> unat seq \<le> unat (c :: u64) + 1"
  by (simp add: word_less_nat_alt unat_word_ariths)

lemma apply_remote_row_ok:
  assumes "client_ok has row content N D a" "unat seq \<le> N" "bs = row (unat seq)"
  shows "client_ok has row content N D (apply_remote_row S bs seq replay a) \<and> grows a (apply_remote_row S bs seq replay a)"
proof -
  define gap where "gap = (seq > sat_succ (chat_cursor a))"
  define a1 where "a1 = (if gap then on_shared (\<lambda>h. h\<lparr>ch_gap_repair := True\<rparr>) a else a)"
  define cur where "cur = (if gap then chat_cursor a else max (chat_cursor a) seq)"
  obtain outcome s where o: "(if replay then sk_apply_replay_row S bs cur (ca_sink a) else sk_apply_row S bs cur (ca_sink a)) = (outcome, s)"
    by force
  let ?a2 = "with_sink s a1"
  have a1: "chat_cursor a1 = chat_cursor a" "ca_sink a1 = ca_sink a" "ch_pending (ca_shared a1) = ch_pending (ca_shared a)"
    by (simp_all add: a1_def actor_defs)
  have r: "apply_remote_row S bs seq replay a = (case outcome of
      RowApplied \<Rightarrow> set_cursor (max (chat_cursor a) cur) ?a2
    | PendingDependencies \<Rightarrow> on_shared (\<lambda>h. h\<lparr>ch_needs_checkpoint := True,
        ch_causal_gap_generation := ch_causal_gap_generation h + 1\<rparr>) ?a2)"
    by (simp only: apply_remote_row_def Let_def gap_def [symmetric] a1_def [symmetric] a1 cur_def [symmetric] o prod.case)
      (cases outcome; simp add: a1)
  have keep: "has (ca_sink a) b \<Longrightarrow> has s b" for b
    using o keeps_row keeps_replay_row by (metis snd_conv)
  then have g: "grows a (apply_remote_row S bs seq replay a)"
    by (simp add: r grows_def actor_defs split: RowImportOutcome.splits)
  have "client_ok has row content N D (apply_remote_row S bs seq replay a)"
  proof (cases outcome)
    case PendingDependencies
    with g r show ?thesis by (intro client_ok_weaken [OF assms(1)]) (auto simp: actor_defs a1)
  next
    case RowApplied
    then have "has s bs" using o row_held replay_row_held by metis
    moreover have "unat (max (chat_cursor a) cur) \<le> unat (chat_cursor a) + 1"
      using sat_succ_bound [of "chat_cursor a" seq] by (auto simp: cur_def gap_def max_def)
    moreover have "unat (max (chat_cursor a) cur) \<le> N"
      using assms(1,2) by (auto simp: cur_def max_def client_ok_def)
    moreover have "max (chat_cursor a) cur > chat_cursor a \<Longrightarrow> max (chat_cursor a) cur = seq"
      by (auto simp: cur_def max_def split: if_splits)
    ultimately show ?thesis
      using g r RowApplied assms(3)
      by (intro client_ok_walk [OF assms(1), where c = "max (chat_cursor a) cur"]) (auto simp: actor_defs a1)
  qed
  with g show ?thesis by blast
qed

lemma settle_ack_facts:
  assumes "\<And>h. ch_cursor (failed h) = ch_cursor h" "\<And>h. ch_pending (failed h) = ch_pending h"
  shows "grows a (settle_ack S b failed a)" "chat_cursor (settle_ack S b failed a) = chat_cursor a"
    "set (ch_pending (ca_shared (settle_ack S b failed a))) \<subseteq> set (ch_pending (ca_shared a))"
  using keeps_acknowledge [of "ca_sink a" _ b] assms
  unfolding settle_ack_def grows_def actor_defs by (auto split: prod.splits sum.splits)

lemma grows_advance: "grows a (with_sink (sk_advance_cursor S c (ca_sink a)) a)"
  by (simp add: grows_def with_sink_def keeps_advance)

lemma handle_ack_ok:
  assumes "client_ok has row content N D a" "N + 1 < 2 ^ 64" "unat (ah_seq k) \<le> N" "has (ca_sink a) (row (unat (ah_seq k)))"
  shows "client_ok has row content N D (handle_ack S inst k a) \<and> grows a (handle_ack S inst k a)"
proof -
  let ?f = "\<lambda>h. h\<lparr>ch_retry_at := Some (inst + QUOTA_RETRY)\<rparr>"
  define a1 where "a1 = settle_ack S (ah_batch_id k) ?f a"
  have a1: "grows a a1" "chat_cursor a1 = chat_cursor a" "set (ch_pending (ca_shared a1)) \<subseteq> set (ch_pending (ca_shared a))"
    unfolding a1_def by (rule settle_ack_facts; simp)+
  define c where "c = (if ah_seq k > chat_cursor a + 1 then chat_cursor a else max (chat_cursor a) (ah_seq k))"
  let ?r = "handle_ack S inst k a"
  have r: "chat_cursor ?r = c" "ch_pending (ca_shared ?r) = ch_pending (ca_shared a1)" "ca_sink ?r = sk_advance_cursor S c (ca_sink a1)"
    unfolding handle_ack_def a1_def [symmetric] Let_def by (simp_all add: c_def a1(2))
  have g: "grows a ?r" using a1(1) by (simp add: grows_def r(3) keeps_advance)
  moreover have "unat c \<le> unat (chat_cursor a) + 1"
    using word_succ_bound [of "chat_cursor a" "ah_seq k"] assms(1,2) by (auto simp: c_def max_def client_ok_def)
  moreover have "c > chat_cursor a \<Longrightarrow> c = ah_seq k" by (auto simp: c_def max_def split: if_splits)
  moreover have "unat c \<le> N" using assms(1,3) by (auto simp: c_def max_def client_ok_def)
  moreover have "has (ca_sink ?r) (row (unat (ah_seq k)))" using g assms(4) by (simp add: grows_def)
  moreover have "set (ch_pending (ca_shared ?r)) \<subseteq> set (ch_pending (ca_shared a))" using a1(3) by (simp add: r(2))
  ultimately show ?thesis using client_ok_walk [OF assms(1) g _ _ _ r(1)] by metis
qed

lemma handle_error_ok:
  assumes "client_ok has row content N D a" "handle_error S inst h a = (ok, a')"
  shows "client_ok has row content N D a' \<and> grows a a'"
proof -
  have "grows a a' \<and> chat_cursor a' = chat_cursor a \<and> set (ch_pending (ca_shared a')) \<subseteq> set (ch_pending (ca_shared a))"
    using assms(2) keeps_reject [of "ca_sink a" _ "header_str h ''batchId'' []"]
    unfolding handle_error_def Let_def grows_def
    by (auto split: if_splits prod.splits sum.splits)
  with client_ok_weaken [OF assms(1), of a'] show ?thesis by auto
qed

lemma frame_kinds_distinct [simp]:
  "FT_ACK \<noteq> FT_ROW" "FT_PRESENCE \<noteq> FT_ROW" "FT_PRESENCE \<noteq> FT_ACK" "FT_ROWS_DONE \<noteq> FT_ROW" "FT_ROWS_DONE \<noteq> FT_ACK"
  "FT_STATE \<noteq> FT_ROW" "FT_STATE \<noteq> FT_ACK"
  by (simp_all add: frame_types)

lemma handle_frame_ok:
  assumes "client_ok has row content N D a" "N + 1 < 2 ^ 64" "frame_ok S has row N (ca_sink a) f"
    "handle_frame_with_replay S inst f replay a = (ok, a')"
  shows "client_ok has row content N D a' \<and> grows a a'"
proof -
  have quiet: "client_ok has row content N D a'" if "ca_sink a' = ca_sink a" "chat_cursor a' = chat_cursor a"
    "ch_pending (ca_shared a') = ch_pending (ca_shared a)" for a'
    using client_ok_weaken [OF assms(1), of a'] that by (simp add: grows_sink)
  consider "wf_kind f = FT_ROW" | "wf_kind f = FT_ACK" | "wf_kind f = FT_ERROR"
    | "wf_kind f \<notin> {FT_ROW, FT_ACK, FT_ERROR}" by blast
  then show ?thesis
  proof cases
    case 1
    show ?thesis
    proof (cases "row_header (wf_header f)")
      case None
      with 1 assms show ?thesis by (simp add: handle_frame_with_replay_def)
    next
      case (Some r)
      with 1 assms(3) have "unat (rh_seq r) \<le> N" "wf_payload f = row (unat (rh_seq r))" by (auto simp: frame_ok_def)
      from apply_remote_row_ok [OF assms(1) this, of "replay \<or> ch_replaying_gap (ca_shared a)"] 1 Some assms(4)
      show ?thesis
        using quiet by (auto simp: handle_frame_with_replay_def client_ok_def)
    qed
  next
    case 2
    show ?thesis
    proof (cases "ack_header (wf_header f)")
      case None
      with 2 assms show ?thesis by (simp add: handle_frame_with_replay_def)
    next
      case (Some k)
      with 2 assms(3) have "unat (ah_seq k) \<le> N" "has (ca_sink a) (row (unat (ah_seq k)))" by (auto simp: frame_ok_def)
      from handle_ack_ok [OF assms(1,2) this] 2 Some assms(4)
      show ?thesis by (auto simp: handle_frame_with_replay_def)
    qed
  next
    case 3
    with assms(4) have "handle_error S inst (wf_header f) a = (ok, a')"
      by (simp add: handle_frame_with_replay_def frame_types)
    from handle_error_ok [OF assms(1) this] show ?thesis .
  next
    case 4
    with assms(4) have "ca_sink a' = ca_sink a" "chat_cursor a' = chat_cursor a"
      "ch_pending (ca_shared a') = ch_pending (ca_shared a)"
      by (auto simp: handle_frame_with_replay_def split: if_splits option.splits)
    with quiet show ?thesis by (simp add: grows_sink)
  qed
qed

lemma maybe_repair_ok:
  assumes "client_ok has row content N D a" "maybe_repair_gap acc k a = (ok, sent, k', a')"
  shows "client_ok has row content N D a' \<and> grows a a' \<and> (\<forall>f \<in> set sent. sent_ok has content (ca_sink a') f)"
proof -
  have "ca_sink a' = ca_sink a" "chat_cursor a' = chat_cursor a" "ch_pending (ca_shared a') = ch_pending (ca_shared a)"
    "\<forall>f \<in> set sent. sent_ok has content (ca_sink a') f"
    using assms(2) by (auto simp: maybe_repair_gap_def Let_def rows_req_ok split: if_splits)
  with client_ok_weaken [OF assms(1), of a'] show ?thesis by (simp add: grows_sink)
qed

subsection \<open>The session\<close>

lemma actor_more_simps [simp]:
  "ca_shared (a\<lparr>ca_amnesty_done := x\<rparr>) = ca_shared a" "ca_sink (a\<lparr>ca_amnesty_done := x\<rparr>) = ca_sink a"
  by simp_all

lemma amnesty_facts:
  "grows a (apply_cursor_amnesty S st a)"
  "chat_cursor (apply_cursor_amnesty S st a) \<le> chat_cursor a"
  "ch_pending (ca_shared (apply_cursor_amnesty S st a)) = ch_pending (ca_shared a)"
  by (auto simp: apply_cursor_amnesty_def Let_def grows_def keeps_reset)

lemma note_state_facts:
  "grows a (note_state S st a)"
  "chat_cursor (note_state S st a) \<le> chat_cursor a"
  "ch_pending (ca_shared (note_state S st a)) = ch_pending (ca_shared a)"
proof -
  define a1 where "a1 = on_shared (\<lambda>h. h\<lparr>ch_server := Some st, ch_replaying_gap := False\<rparr>) a"
  define a2 where "a2 = (if chat_cursor a1 > sh_head_seq st
      then chat_emit ServerReset (on_flags (\<lambda>f. f\<lparr>fl_server_resets := fl_server_resets f + 1\<rparr>)
             (with_sink (sk_reset_cursor S 0 (ca_sink a1)) a1)) else a1)"
  have a2: "grows a a2" "chat_cursor a2 = chat_cursor a" "ch_pending (ca_shared a2) = ch_pending (ca_shared a)"
    by (auto simp: a2_def a1_def grows_def keeps_reset)
  have n: "ca_sink (note_state S st a) = ca_sink (apply_cursor_amnesty S st a2)"
    "ca_shared (note_state S st a) = ca_shared (apply_cursor_amnesty S st a2)"
    unfolding note_state_def Let_def a1_def [symmetric] a2_def [symmetric] by auto
  from n(1) amnesty_facts(1) [of a2 st] a2(1) show "grows a (note_state S st a)" by (auto simp: grows_def)
  from n(2) amnesty_facts(2) [of st a2] a2(2) show "chat_cursor (note_state S st a) \<le> chat_cursor a" by simp
  from n(2) amnesty_facts(3) [of st a2] a2(3)
  show "ch_pending (ca_shared (note_state S st a)) = ch_pending (ca_shared a)" by simp
qed

lemma clear_repair_facts [simp]:
  "chat_cursor (clear_repair g a) = chat_cursor a" "ca_sink (clear_repair g a) = ca_sink a"
  "ch_pending (ca_shared (clear_repair g a)) = ch_pending (ca_shared a)"
  by (simp_all add: clear_repair_def)

lemma client_ok_same:
  assumes "client_ok has row content N D a" "ca_sink a' = ca_sink a" "chat_cursor a' = chat_cursor a"
    "ch_pending (ca_shared a') = ch_pending (ca_shared a)"
  shows "client_ok has row content N D a'"
  using client_ok_weaken [OF assms(1), of a'] assms by (simp add: grows_sink)

text \<open>The cursor set by the plan.\<close>

lemma plan_ok:
  assumes "client_ok has row content N D a" "state_ok S has row N st frontier"
  shows "client_ok has row content N
    (if frontier_contained S st frontier a then (if sh_checkpoint_size st \<noteq> 0 \<and> D \<le> unat (sh_checkpoint_seq st) then 0 else D)
     else max D (unat (sh_checkpoint_seq st)))
    (set_cursor (plan_after (plan_catch_up (chat_cursor a) st (frontier_contained S st frontier a))) a) \<and>
    settles row D a
    (if frontier_contained S st frontier a then (if sh_checkpoint_size st \<noteq> 0 \<and> D \<le> unat (sh_checkpoint_seq st) then 0 else D)
     else max D (unat (sh_checkpoint_seq st)))
    (set_cursor (plan_after (plan_catch_up (chat_cursor a) st (frontier_contained S st frontier a))) a)"
proof -
  let ?q = "sh_checkpoint_seq st"
  define cur where "cur = (if chat_cursor a > sh_head_seq st then 0 else chat_cursor a)"
  have low: "client_ok has row content N D (set_cursor cur a)"
    by (rule client_ok_weaken [OF assms(1)]) (auto simp: cur_def)
  have q: "unat ?q \<le> N" using assms(2) by (simp add: state_ok_def)
  show ?thesis
  proof (cases "frontier_contained S st frontier a")
    case False
    then have "sh_checkpoint_size st \<noteq> 0" by (auto simp: frontier_contained_def)
    with False q show ?thesis
      by (auto simp: plan_catch_up_def intro!: client_ok_drop [OF assms(1)] settles_mono)
  next
    case True
    show ?thesis
    proof (cases "sh_checkpoint_size st = 0")
      case z: True
      then have "frontier_contained S st frontier a" by (simp add: frontier_contained_def)
      with z low show ?thesis by (simp add: plan_catch_up_def Let_def cur_def [symmetric] settles_mono)
    next
      case nz: False
      with True have "sk_contains_frontier S frontier (ca_sink a)" by (simp add: frontier_contained_def)
      with assms(2) nz have held: "has (ca_sink a) (row n)" if "0 < n" "n \<le> unat ?q" for n
        using that by (auto simp: state_ok_def)
      have "client_ok has row content N (if D \<le> unat ?q then 0 else D) (set_cursor (max cur ?q) a)"
          "settles row D a (if D \<le> unat ?q then 0 else D) (set_cursor (max cur ?q) a)"
        by (rule client_ok_raise [OF low _ q, where c = ?q]; simp add: grows_def held)
          (rule settles_paid; simp add: grows_def held)
      with True nz show ?thesis by (simp add: plan_catch_up_def Let_def cur_def [symmetric])
    qed
  qed
qed

definition turn_ok where
  "turn_ok row content N D D' a t \<longleftrightarrow>
     (case t of (r, sent, a') \<Rightarrow>
        client_ok has row content N D' a' \<and> grows a a' \<and> settles row D a D' a' \<and> (\<forall>f \<in> set sent. sent_ok has content (ca_sink a') f) \<and>
        (\<forall>ph. r = Inr ph \<longrightarrow> phase_ok S has row N (ca_sink a') ph))"

lemma on_state_ok:
  assumes "client_ok has row content N D a" "state_ok S has row N st frontier"
  shows "turn_ok row content N D (owed_after_state S st frontier a D) a (on_state S acc st frontier a)"
proof -
  define a1 where "a1 = note_state S st a"
  have a1: "client_ok has row content N D a1" "grows a a1"
    unfolding a1_def using note_state_facts by (auto intro: client_ok_weaken [OF assms(1)])
  let ?c = "frontier_contained S st frontier a1"
  let ?plan = "plan_catch_up (chat_cursor a1) st ?c"
  define a2 where "a2 = set_cursor (plan_after ?plan) a1"
  have a2: "client_ok has row content N (owed_after_state S st frontier a D) a2" "grows a a2"
    "settles row D a (owed_after_state S st frontier a D) a2"
    using plan_ok [OF a1(1) assms(2)] a1(2) settles_trans [OF settles_mono [OF a1(2) order_refl]]
    by (simp_all add: a2_def owed_after_state_def a1_def)
  obtain ok sent fl a3 where p: "chat_push_pending S (\<lambda>i. acc (Suc i)) [] a2 = (ok, sent, fl, a3)"
    using prod_cases4 by blast
  note p_ok = push_pending_ok [OF a2(1) p]
  have g3: "grows a a3" using p_ok a2(2) grows_trans by blast
  have s3: "settles row D a (owed_after_state S st frontier a D) a3"
    using settles_trans [OF a2(3) settles_mono] p_ok by blast
  have q: "unat (sh_checkpoint_seq st) \<le> N" using assms(2) by (simp add: state_ok_def)
  show ?thesis
    using p_ok g3 s3 a2 q
    unfolding turn_ok_def on_state_def Let_def a1_def [symmetric] a2_def [symmetric] p
    by (auto simp: rows_req_ok phase_ok_def grows_def settles_def split: CatchUpPlan.splits
        intro: client_ok_same [where a = a3])
qed

lemma finish_backfill_ok:
  assumes "client_ok has row content N D a"
  shows "turn_ok row content N D D a (finish_backfill acc inst fl head a)"
proof -
  define a1 where "a1 = a\<lparr>ca_resumed := True, ca_ready_pending := False\<rparr>"
  define a2 where "a2 = (if \<not> ch_needs_checkpoint (ca_shared a1) then chat_emit (CaughtUp head) a1 else a1)"
  have a2: "client_ok has row content N D a2" "grows a a2"
    by (rule client_ok_same [OF assms]) (auto simp: a2_def a1_def grows_def)
  obtain ok sent k a3 where m: "maybe_repair_gap acc 0 a2 = (ok, sent, k, a3)" using prod_cases4 by blast
  show ?thesis
    using maybe_repair_ok [OF a2(1) m] a2(2) grows_trans settles_mono
    unfolding turn_ok_def finish_backfill_def Let_def a1_def [symmetric] a2_def [symmetric] m
    by (auto simp: phase_ok_def)
qed

lemma replay_buffered_ok:
  assumes "client_ok has row content N D a" "N + 1 < 2 ^ 64" "\<forall>f \<in> set fs. frame_ok S has row N (ca_sink a) f"
    "replay_buffered S inst fs head a = (r, a')"
  shows "client_ok has row content N D a' \<and> grows a a'"
  using assms
proof (induction fs arbitrary: head a)
  case (Cons f fs)
  show ?case
  proof (cases "head = None \<and> wf_kind f = FT_ROWS_DONE")
    case True
    with Cons show ?thesis by (auto split: option.splits)
  next
    case False
    obtain ok a1 where h: "handle_frame_with_replay S inst f (head = None) a = (ok, a1)" by force
    have h_ok: "client_ok has row content N D a1" "grows a a1"
      using handle_frame_ok [OF Cons.prems(1,2) _ h] Cons.prems(3) by auto
    show ?thesis
    proof (cases ok)
      case False
      with \<open>\<not> (head = None \<and> _)\<close> h h_ok Cons.prems(4) show ?thesis by (auto split: if_splits)
    next
      case True
      have "\<forall>f \<in> set fs. frame_ok S has row N (ca_sink a1) f"
        using Cons.prems(3) h_ok(2) by (auto intro: frame_ok_grows)
      moreover have "replay_buffered S inst fs head a1 = (r, a')"
        using True \<open>\<not> (head = None \<and> _)\<close> h Cons.prems(4) by (auto split: if_splits)
      ultimately have "client_ok has row content N D a' \<and> grows a1 a'"
        using Cons.IH [OF h_ok(1) Cons.prems(2)] by blast
      with h_ok(2) grows_trans show ?thesis by blast
    qed
  qed
qed auto

lemma import_ok:
  assumes "client_ok has row content N D a" "blob_ok has row N q bs" "unat c \<le> q"
    "sk_apply_checkpoint S bs cs (ca_sink a) = (Inr v, s)" "ca_sink a' = s"
    "chat_cursor a' = max (chat_cursor a) c" "ch_pending (ca_shared a') = ch_pending (ca_shared a)"
  shows "client_ok has row content N (if D \<le> q then 0 else D) a' \<and> grows a a' \<and>
    settles row D a (if D \<le> q then 0 else D) a'"
proof -
  have g: "grows a a'" using keeps_checkpoint assms(4,5) unfolding grows_def by (metis snd_conv)
  have "has s bs" using checkpoint_held assms(4) by blast
  with assms(2,5) have h: "has (ca_sink a') (row n)" if "0 < n" "n \<le> q" for n using that by (auto simp: blob_ok_def)
  moreover have "q \<le> N" using assms(2) by (simp add: blob_ok_def)
  ultimately show ?thesis using client_ok_raise [OF assms(1) g _ assms(3) _ assms(6)] assms(7) g settles_paid [OF g h] by simp
qed

lemma turn_ok_stay:
  "client_ok has row content N D a \<Longrightarrow> phase_ok S has row N (ca_sink a) ph \<Longrightarrow> turn_ok row content N D D a (Inr ph, [], a)"
  "client_ok has row content N D a \<Longrightarrow> turn_ok row content N D D a (Inl e, [], a)"
  by (simp_all add: turn_ok_def settles_mono)

lemma turn_ok_from:
  "turn_ok row content N D1 D2 a1 t \<Longrightarrow> grows a a1 \<Longrightarrow> settles row D a D1 a1 \<Longrightarrow> turn_ok row content N D D2 a t"
  by (auto simp: turn_ok_def grows_def settles_def)

lemma on_fetched_ok:
  assumes "client_ok has row content N D a" "N + 1 < 2 ^ 64"
    "\<forall>f \<in> set buffered. frame_ok S has row N (ca_sink a) f"
    "blob_ok has row N q bs" "unat (sh_checkpoint_seq st) \<le> q"
  shows "turn_ok row content N D (owed_after_import S bs (sh_checkpoint_seq st) q a D) a
    (on_fetched S acc inst st gen fl buffered bs a)"
proof -
  obtain r s where i: "sk_apply_checkpoint S bs (sh_checkpoint_seq st) (ca_sink a) = (r, s)" by force
  show ?thesis
  proof (cases r)
    case (Inl e)
    have "grows a (with_sink s a)" using keeps_checkpoint i unfolding grows_def by (metis shared_simps(6) snd_conv)
    then have "client_ok has row content N D (with_sink s a)" "grows a (with_sink s a)"
      by (auto intro: client_ok_weaken [OF assms(1)])
    with i Inl show ?thesis by (simp add: on_fetched_def owed_after_import_def turn_ok_def settles_mono)
  next
    case (Inr v)
    define D1 where "D1 = owed_after_import S bs (sh_checkpoint_seq st) q a D"
    then have D1: "D1 = (if D \<le> q then 0 else D)" using i Inr by (simp add: owed_after_import_def)
    define a1 where "a1 = chat_emit ChatApplied (set_cursor (max (chat_cursor (with_sink s a)) (sh_checkpoint_seq st)) (with_sink s a))"
    define a2 where "a2 = clear_repair gen a1"
    have a2: "client_ok has row content N D1 a2" "grows a a2" "settles row D a D1 a2"
      using import_ok [OF assms(1,4,5) i [unfolded Inr], of a2] by (simp_all add: D1 a1_def a2_def)
    obtain rb a3 where b: "replay_buffered S inst buffered None a2 = (rb, a3)" by force
    have "\<forall>f \<in> set buffered. frame_ok S has row N (ca_sink a2) f"
      using assms(3) a2(2) by (auto intro: frame_ok_grows)
    from replay_buffered_ok [OF a2(1) assms(2) this b] a2(2)
    have a3: "client_ok has row content N D1 a3" "grows a a3" "settles row D a D1 a3"
      using grows_trans settles_trans [OF a2(3) settles_mono] by blast+
    have "on_fetched S acc inst st gen fl buffered bs a =
        (case (rb, a3) of
           (None, a) \<Rightarrow> (Inl ChatReconnect, [], a)
         | (Some None, a) \<Rightarrow> (Inr (Backfilling fl), [], a)
         | (Some (Some head), a) \<Rightarrow> finish_backfill acc inst fl head a)"
      using b by (simp add: on_fetched_def i Inr Let_def a1_def a2_def)
    with a3 turn_ok_from [OF finish_backfill_ok [OF a3(1)] a3(2,3)] show ?thesis
      by (auto simp: D1_def [symmetric] turn_ok_def phase_ok_def split: option.splits)
  qed
qed

lemma on_backfill_ok:
  assumes "client_ok has row content N D a" "N + 1 < 2 ^ 64" "frame_ok S has row N (ca_sink a) f"
  shows "turn_ok row content N D D a (on_backfill S acc inst fl f a)"
proof (cases "wf_kind f = FT_ROWS_DONE")
  case True
  with assms(1) show ?thesis by (auto simp: on_backfill_def turn_ok_stay finish_backfill_ok split: option.splits)
next
  case False
  obtain ok a1 where h: "handle_frame_with_replay S inst f True a = (ok, a1)" by force
  from handle_frame_ok [OF assms h] False h show ?thesis by (auto simp: on_backfill_def turn_ok_def phase_ok_def settles_mono)
qed

lemma on_steady_ok:
  assumes "client_ok has row content N D a" "N + 1 < 2 ^ 64"
    "\<And>f. ev = EvBytes (Some f) \<Longrightarrow> frame_ok S has row N (ca_sink a) f"
  shows "turn_ok row content N D D a (on_steady S acc inst ev v a)"
proof (cases ev)
  case (EvBytes mf)
  show ?thesis
  proof (cases mf)
    case None
    with EvBytes assms(1) show ?thesis by (simp add: on_steady_def turn_ok_stay)
  next
    case (Some f)
    obtain ok a1 where h: "handle_frame_with_replay S inst f False a = (ok, a1)" by force
    have h_ok: "client_ok has row content N D a1" "grows a a1"
      using handle_frame_ok [OF assms(1,2) assms(3) h] EvBytes Some by auto
    obtain ok2 sent k a2 where m: "maybe_repair_gap (acc 0) (sv_gap_repairs v) a1 = (ok2, sent, k, a2)"
      using prod_cases4 by blast
    from maybe_repair_ok [OF h_ok(1) m] h_ok h m EvBytes Some grows_trans show ?thesis
      by (cases ok) (auto simp: on_steady_def turn_ok_def phase_ok_def settles_mono)
  qed
next
  case EvPushNudge
  obtain ok sent fl a1 where p: "chat_push_pending S acc (sv_in_flight v) a = (ok, sent, fl, a1)" using prod_cases4 by blast
  from push_pending_ok [OF assms(1) p] p EvPushNudge show ?thesis by (auto simp: on_steady_def turn_ok_def phase_ok_def settles_mono)
next
  case EvRetryDue
  let ?a = "on_shared (\<lambda>h. h\<lparr>ch_retry_at := None\<rparr>) a"
  have ok: "client_ok has row content N D ?a" by (rule client_ok_same [OF assms(1)]) auto
  obtain b sent a1 where p: "push_head S (acc 0) ?a = (b, sent, a1)" using prod_cases3 by blast
  from push_head_ok [OF ok p] p EvRetryDue show ?thesis by (auto simp: on_steady_def turn_ok_def phase_ok_def settles_mono grows_def)
qed (use assms(1) in \<open>auto simp: on_steady_def turn_ok_def phase_ok_def settles_mono chat_send_probe_def other_sent_ok frame_types
    split: option.splits prod.splits\<close>)

lemma session_turn_ok:
  assumes "client_ok has row content N D a" "N + 1 < 2 ^ 64" "phase_ok S has row N (ca_sink a) ph"
    "\<And>f. ev = EvBytes (Some f) \<Longrightarrow> frame_ok S has row N (ca_sink a) f"
    "\<And>st gen fl buf bs. ph = Fetching st gen fl buf \<Longrightarrow> ev = EvFetched bs \<Longrightarrow>
       blob_ok has row N q bs \<and> unat (sh_checkpoint_seq st) \<le> q"
  shows "turn_ok row content N D (owed_after_turn S q ev ph a D) a (session_turn S acc inst ev ph a)"
proof (cases ph)
  case AwaitingState
  show ?thesis
  proof (cases "\<exists>f. ev = EvBytes (Some f)")
    case True
    then obtain f where f: "ev = EvBytes (Some f)" by blast
    show ?thesis
    proof (cases "wf_kind f = FT_STATE \<and> state_header (wf_header f) \<noteq> None")
      case True
      then obtain st where st: "state_header (wf_header f) = Some st" by blast
      with True assms(4) f have "state_ok S has row N st (wf_payload f)" by (auto simp: frame_ok_def)
      from on_state_ok [OF assms(1) this, of acc] show ?thesis
        using True f st AwaitingState by (simp add: session_turn_def owed_after_turn_def)
    next
      case False
      with f AwaitingState assms(1) show ?thesis
        by (auto simp: session_turn_def owed_after_turn_def phase_ok_def intro!: turn_ok_stay split: option.splits)
    qed
  next
    case False
    then have "session_turn S acc inst ev ph a = (Inr ph, [], a) \<or>
        (\<exists>e. session_turn S acc inst ev ph a = (Inl e, [], a))"
      using AwaitingState by (cases ev) (auto simp: session_turn_def split: option.splits)
    with False AwaitingState assms(1,3) show ?thesis
      by (auto simp: owed_after_turn_def turn_ok_stay split: ChatSessionEvent.splits option.splits)
  qed
next
  case (Fetching st gen fl buf)
  with assms(3) have buf: "\<forall>f \<in> set buf. frame_ok S has row N (ca_sink a) f" by (simp add: phase_ok_def)
  show ?thesis
  proof (cases "\<exists>bs. ev = EvFetched bs")
    case True
    then obtain bs where bs: "ev = EvFetched bs" by blast
    from on_fetched_ok [OF assms(1,2) buf conjunct1 [OF assms(5) [OF Fetching bs]] conjunct2 [OF assms(5) [OF Fetching bs]]]
    show ?thesis using Fetching bs by (simp add: session_turn_def owed_after_turn_def)
  next
    case False
    with Fetching assms(1,3,4) buf show ?thesis
      by (auto simp: session_turn_def owed_after_turn_def phase_ok_def turn_ok_def settles_mono split: ChatSessionEvent.splits option.splits)
  qed
next
  case (Backfilling fl)
  show ?thesis
  proof (cases "\<exists>f. ev = EvBytes (Some f)")
    case True
    then obtain f where f: "ev = EvBytes (Some f)" by blast
    from on_backfill_ok [OF assms(1,2) assms(4) [OF f]] Backfilling f show ?thesis
      by (simp add: session_turn_def owed_after_turn_def)
  next
    case False
    with Backfilling assms(1,3) show ?thesis
      by (auto simp: session_turn_def owed_after_turn_def phase_ok_def turn_ok_def settles_mono split: ChatSessionEvent.splits option.splits)
  qed
next
  case (Steady v)
  from on_steady_ok [OF assms(1,2,4), of ev acc inst v] Steady show ?thesis
    by (simp add: session_turn_def owed_after_turn_def)
qed

subsection \<open>The cycle over HTTPS\<close>

definition http_turn_ok where
  "http_turn_ok row content N D D' a t \<longleftrightarrow>
     (case t of (r, a') \<Rightarrow>
        client_ok has row content N D' a' \<and> grows a a' \<and> settles row D a D' a' \<and>
        (\<forall>ph. r = Some ph \<longrightarrow> http_ok S has row content N D' (ca_sink a') ph))"

lemma http_turn_ok_from:
  "http_turn_ok row content N D1 D2 a1 t \<Longrightarrow> grows a a1 \<Longrightarrow> settles row D a D1 a1 \<Longrightarrow> http_turn_ok row content N D D2 a t"
  by (auto simp: http_turn_ok_def grows_def settles_def)

lemma http_ok_settles:
  "http_ok S has row content N D (ca_sink a) ph \<Longrightarrow> grows a a' \<Longrightarrow> settles row D a D' a' \<Longrightarrow>
   http_ok S has row content N D' (ca_sink a') ph"
  by (auto simp: http_ok_def push_ok_def settles_def intro: frame_ok_grows split: HttpPhase.splits)
    (auto simp: grows_def)

lemma http_done_ok: "client_ok has row content N D a \<Longrightarrow> http_turn_ok row content N D D a (http_done a)"
  using settles_mono [OF grows_sink, of "a\<lparr>ca_sync_busy := False\<rparr>" a D D row]
  by (auto simp: http_done_def http_turn_ok_def intro: client_ok_same grows_sink)

lemma begin_pull_ok: "client_ok has row content N D a \<Longrightarrow> http_turn_ok row content N D D a (begin_pull a)"
  by (auto simp: begin_pull_def Let_def http_turn_ok_def http_ok_def intro: client_ok_same settles_mono)
    (simp_all add: client_ok_def)

lemma post_next_ok:
  assumes "client_ok has row content N D a" "\<forall>p \<in> set ps. push_ok has content (ca_sink a) (pp_batch_id p) (pp_bytes p)"
  shows "http_turn_ok row content N D D a (post_next S ps a)"
proof (cases ps)
  case Nil
  with assms(1) show ?thesis by (simp add: begin_pull_ok)
next
  case (Cons p qs)
  obtain b a1 where e: "ensure_durable S p a = (b, a1)" by force
  note d = ensure_durable_ok [OF assms(1) e]
  show ?thesis
  proof (cases b)
    case False
    with Cons e d http_turn_ok_from [OF begin_pull_ok [of row content N D a1]] show ?thesis
      by (simp add: settles_mono)
  next
    case True
    with Cons e d assms(2) show ?thesis
      by (auto simp: http_turn_ok_def http_ok_def push_ok_def grows_def settles_mono)
  qed
qed

lemma on_posted_ok:
  assumes "client_ok has row content N D a" "N + 1 < 2 ^ 64"
    "\<forall>p \<in> set ps. push_ok has content (ca_sink a) (pp_batch_id p) (pp_bytes p)"
    "\<And>b seq. ack = Some (Some (b, seq)) \<Longrightarrow> unat seq \<le> N \<and> has (ca_sink a) (row (unat seq))"
  shows "http_turn_ok row content N D D a (on_posted S ps ack a)"
proof (cases "\<exists>b seq. ack = Some (Some (b, seq))")
  case False
  then consider "ack = None" | "ack = Some None" by (cases ack; cases "the ack") auto
  then show ?thesis using assms(1,3) by cases (simp_all add: on_posted_def begin_pull_ok post_next_ok)
next
  case True
  then obtain b seq where ack: "ack = Some (Some (b, seq))" by blast
  define a1 where "a1 = settle_ack S b id a"
  have a1: "grows a a1" "chat_cursor a1 = chat_cursor a" "set (ch_pending (ca_shared a1)) \<subseteq> set (ch_pending (ca_shared a))"
    unfolding a1_def by (rule settle_ack_facts; simp)+
  define a2 where "a2 = (if seq \<le> chat_cursor a1 + 1 then set_cursor (max (chat_cursor a1) seq) a1 else a1)"
  define a3 where "a3 = chat_emit ChatApplied (with_sink (sk_advance_cursor S (chat_cursor a2) (ca_sink a2)) a2)"
  have g: "grows a a3" using a1(1) by (auto simp: a3_def a2_def grows_def keeps_advance)
  have c: "chat_cursor a3 = (if seq \<le> chat_cursor a + 1 then max (chat_cursor a) seq else chat_cursor a)"
    by (simp add: a3_def a2_def a1(2))
  have "unat (chat_cursor a3) \<le> unat (chat_cursor a) + 1"
    using word_succ_bound [of "chat_cursor a" seq] assms(1,2) by (auto simp: c max_def client_ok_def not_less)
  moreover have "unat (chat_cursor a3) \<le> N" using assms(1) assms(4) [OF ack] by (auto simp: c max_def client_ok_def)
  moreover have "chat_cursor a3 > chat_cursor a \<Longrightarrow> has (ca_sink a3) (row (unat (chat_cursor a3)))"
    using assms(4) [OF ack] g by (auto simp: c max_def grows_def split: if_splits)
  moreover have "set (ch_pending (ca_shared a3)) \<subseteq> set (ch_pending (ca_shared a))"
    using a1(3) by (auto simp: a3_def a2_def)
  ultimately have ok: "client_ok has row content N D a3"
    using client_ok_walk [OF assms(1) g] by blast
  have "on_posted S ps ack a = post_next S ps a3"
    by (simp add: on_posted_def ack Let_def a3_def a2_def a1_def)
  moreover have "\<forall>p \<in> set ps. push_ok has content (ca_sink a3) (pp_batch_id p) (pp_bytes p)"
    using assms(3) g by (auto simp: push_ok_def grows_def)
  ultimately show ?thesis
    using http_turn_ok_from [OF post_next_ok [OF ok] g settles_mono [OF g order_refl]] by simp
qed

lemma http_frame_ok:
  assumes "client_ok has row content N D a" "frame_ok S has row N (ca_sink a) f"
  shows "client_ok has row content N D (snd (http_frame S epoch live f (x, a))) \<and>
    grows a (snd (http_frame S epoch live f (x, a)))"
proof (cases "wf_kind f = FT_ROW")
  case True
  show ?thesis
  proof (cases "row_header (wf_header f)")
    case (Some r)
    with True assms(2) have "unat (rh_seq r) \<le> N" "wf_payload f = row (unat (rh_seq r))" by (auto simp: frame_ok_def)
    from apply_remote_row_ok [OF assms(1) this] True Some show ?thesis by (simp add: http_frame_def)
  qed (use True assms(1) in \<open>simp add: http_frame_def\<close>)
next
  case False
  have "ca_sink (snd (http_frame S epoch live f (x, a))) = ca_sink a"
    "chat_cursor (snd (http_frame S epoch live f (x, a))) = chat_cursor a"
    "ch_pending (ca_shared (snd (http_frame S epoch live f (x, a)))) = ch_pending (ca_shared a)"
    using False by (auto simp: http_frame_def split: option.splits)
  with client_ok_same [OF assms(1)] show ?thesis by (simp add: grows_sink)
qed

lemma http_fold_ok:
  assumes "client_ok has row content N D (snd xa)" "\<forall>f \<in> set fs. frame_ok S has row N (ca_sink (snd xa)) f"
  shows "client_ok has row content N D (snd (fold (http_frame S epoch live) fs xa)) \<and>
    grows (snd xa) (snd (fold (http_frame S epoch live) fs xa))"
  using assms
proof (induction fs arbitrary: xa)
  case (Cons f fs)
  let ?xa = "http_frame S epoch live f xa"
  have h: "client_ok has row content N D (snd ?xa)" "grows (snd xa) (snd ?xa)"
    using http_frame_ok [OF Cons.prems(1), of f epoch live "fst xa"] Cons.prems(2) by auto
  then have "\<forall>f \<in> set fs. frame_ok S has row N (ca_sink (snd ?xa)) f"
    using Cons.prems(2) by (auto intro: frame_ok_grows)
  from Cons.IH [OF h(1) this] h(2) grows_trans show ?case by auto
qed simp

lemma http_frames_ok:
  assumes "client_ok has row content N D a" "\<forall>f \<in> set fs. frame_ok S has row N (ca_sink a) f"
  shows "http_turn_ok row content N D D a (http_frames S epoch live fs a)"
proof -
  obtain x a1 where f: "fold (http_frame S epoch live) fs (False, a) = (x, a1)" by force
  have a1: "client_ok has row content N D a1" "grows a a1"
    using http_fold_ok [of row content N D "(False, a)" fs epoch live] assms f by auto
  let ?a2 = "if x then chat_emit ChatApplied a1 else a1"
  have "client_ok has row content N D ?a2" "grows a ?a2"
    using a1 by (auto intro: client_ok_same)
  then show ?thesis
    using http_turn_ok_from [OF http_done_ok, of row content N D ?a2 a D] settles_mono
    by (simp add: http_frames_def f)
qed

lemma claims_max: "claims has row D s c \<Longrightarrow> claims has row D s c' \<Longrightarrow> claims has row D s (max c c')"
  by (auto simp: claims_def max_def)

lemma claims_lower: "claims has row D s c \<Longrightarrow> c' \<le> c \<Longrightarrow> claims has row D s c'"
  by (auto simp: claims_def word_le_nat_alt)

lemma claims_held: "(\<And>n. 0 < n \<Longrightarrow> n \<le> Q \<Longrightarrow> has s (row n)) \<Longrightarrow> unat c \<le> Q \<Longrightarrow> claims has row D s c"
  by (auto simp: claims_def)

lemma http_settle_ok:
  assumes "client_ok has row content N D a" "claims has row D (ca_sink a) after" "unat after \<le> N"
  shows "client_ok has row content N D (http_settle st after gen a) \<and> ca_sink (http_settle st after gen a) = ca_sink a"
  using assms claims_max [of row D "ca_sink a" "chat_cursor a" after]
  by (auto simp: http_settle_def client_ok_def max_def)

lemma on_body_ok:
  assumes "client_ok has row content N D a" "unat cur \<le> N" "claims has row D (ca_sink a) cur"
    "\<forall>f \<in> set frames. frame_ok S has row N (ca_sink a) f"
  shows "http_turn_ok row content N D (owed_after_body S frames a D) a (on_body S cur epoch live frames a)"
proof (cases frames)
  case Nil
  with assms(1) show ?thesis by (simp add: on_body_def owed_after_body_def http_done_ok)
next
  case (Cons sf fs)
  show ?thesis
  proof (cases "if wf_kind sf = FT_STATE then state_header (wf_header sf) else None")
    case None
    with assms(1,4) Cons show ?thesis by (simp add: on_body_def owed_after_body_def http_frames_ok)
  next
    case (Some st)
    then have st: "state_ok S has row N st (wf_payload sf)"
      using assms(4) Cons by (auto simp: frame_ok_def split: if_splits)
    let ?q = "sh_checkpoint_seq st"
    define a1 where "a1 = apply_cursor_amnesty S st (on_shared (\<lambda>h. h\<lparr>ch_server := Some st\<rparr>) a)"
    have a1: "client_ok has row content N D a1" "grows a a1"
      using amnesty_facts [where a = "on_shared (\<lambda>h. h\<lparr>ch_server := Some st\<rparr>) a" and st = st]
      by (auto simp: a1_def grows_def intro: client_ok_weaken [OF assms(1)])
    let ?c = "frontier_contained S st (wf_payload sf) a1"
    define D1 where "D1 = owed_after_body S frames a D"
    have D1: "D1 = (if ?c \<and> sh_checkpoint_size st \<noteq> 0 \<and> D \<le> unat ?q then 0 else D)"
      using Some Cons by (simp add: D1_def owed_after_body_def a1_def)
    have held: "has (ca_sink a1) (row n)" if "?c" "sh_checkpoint_size st \<noteq> 0" "0 < n" "n \<le> unat ?q" for n
      using that st by (auto simp: state_ok_def frontier_contained_def)
    have s1: "settles row D a1 D1 a1"
      using settles_paid [of a1 a1 "unat ?q" row D] held settles_mono [of a1 a1 D D row] by (auto simp: D1)
    have a1': "client_ok has row content N D1 a1"
      using a1(1) s1 by (auto simp: client_ok_def settles_def)
    define a2 where "a2 = (if cur > sh_head_seq st then with_sink (sk_reset_cursor S 0 (ca_sink a1)) a1 else a1)"
    have g2: "grows a1 a2" by (auto simp: a2_def grows_def keeps_reset)
    have a2: "client_ok has row content N D1 a2"
      by (rule client_ok_weaken [OF a1' g2]) (auto simp: a2_def)
    have gs: "grows a a2" "settles row D a D1 a2"
      using a1(2) g2 grows_trans settles_trans [OF settles_mono [OF a1(2) order_refl] settles_trans [OF s1 settles_mono [OF g2 order_refl]]]
      by blast+
    have fs: "\<forall>f \<in> set fs. frame_ok S has row N (ca_sink a2) f"
      using assms(4) Cons gs(1) by (auto intro: frame_ok_grows)
    define plan where "plan = plan_catch_up cur st ?c"
    define live1 where "live1 = (live \<and> \<not> (ch_needs_checkpoint (ca_shared a1) \<or> cur > sh_head_seq st))"
    have b: "on_body S cur epoch live frames a =
        (if chat_cursor a1 < cur \<and> cur \<le> sh_head_seq st then http_done a1
         else case plan of
           CheckpointThenRows after \<Rightarrow> (Some (HttpFetching st after epoch (ch_causal_gap_generation (ca_shared a1)) fs), a2)
         | RowsOnly after \<Rightarrow> http_frames S epoch live1 fs (http_settle st after (ch_causal_gap_generation (ca_shared a1)) a2))"
      by (simp only: on_body_def Cons list.case Some option.case Let_def a1_def [symmetric] a2_def [symmetric]
          plan_def [symmetric] live1_def [symmetric])
    have early: "http_turn_ok row content N D D1 a (http_done a1)"
      by (rule http_turn_ok_from [OF http_done_ok [OF a1'] a1(2) settles_trans [OF settles_mono [OF a1(2) order_refl] s1]])
    show ?thesis
    proof (cases plan)
      case (CheckpointThenRows after)
      then have "after = ?q" by (auto simp: plan_def plan_catch_up_def Let_def split: if_splits)
      with CheckpointThenRows a2 gs fs early st show ?thesis
        by (auto simp: b D1_def [symmetric] http_turn_ok_def http_ok_def state_ok_def)
    next
      case (RowsOnly after)
      define cur' where "cur' = (if cur > sh_head_seq st then 0 else cur)"
      have c: ?c and after: "after = (if sh_checkpoint_size st = 0 then cur' else max cur' ?q)"
        using RowsOnly by (auto simp: plan_def plan_catch_up_def Let_def cur'_def frontier_contained_def split: if_splits)
      have "claims has row D1 (ca_sink a2) cur'"
        using assms(3) gs(2) claims_lower [of row D1 "ca_sink a2" cur cur'] by (auto simp: settles_def cur'_def)
      moreover have "claims has row D1 (ca_sink a2) ?q" if "sh_checkpoint_size st \<noteq> 0"
        by (rule claims_held [of "unat ?q"]) (use held [OF c that] g2 in \<open>auto simp: grows_def\<close>)
      ultimately have cl: "claims has row D1 (ca_sink a2) after" by (auto simp: after claims_max)
      have "unat after \<le> N" using assms(2) st by (auto simp: after cur'_def state_ok_def max_def)
      from http_settle_ok [OF a2 cl this]
      have s: "client_ok has row content N D1 (http_settle st after g a2)" "ca_sink (http_settle st after g a2) = ca_sink a2" for g
        by auto
      have "http_turn_ok row content N D D1 a (http_frames S epoch live1 fs (http_settle st after g a2))" for g
        by (rule http_turn_ok_from [OF http_frames_ok [OF s(1)]]) (use s(2) fs gs in \<open>auto simp: grows_def settles_def\<close>)
      with RowsOnly early show ?thesis by (simp add: b D1_def [symmetric])
    qed
  qed
qed

lemma http_turn_ok_step:
  assumes "client_ok has row content N D a" "N + 1 < 2 ^ 64" "http_ok S has row content N D (ca_sink a) ph"
    "\<And>b seq. ev = HtPosted (Some (Some (b, seq))) \<Longrightarrow> unat seq \<le> N \<and> has (ca_sink a) (row (unat seq))"
    "\<And>fs f. ev = HtBody (Some fs) \<Longrightarrow> f \<in> set fs \<Longrightarrow> frame_ok S has row N (ca_sink a) f"
    "\<And>st after epoch gen fs bs. ph = HttpFetching st after epoch gen fs \<Longrightarrow> ev = HtCheckpoint (Some bs) \<Longrightarrow>
       blob_ok has row N q bs \<and> unat (sh_checkpoint_seq st) \<le> q"
  shows "http_turn_ok row content N D (owed_after_http S q ev ph a D) a (http_turn S ev ph a)"
proof -
  have stay: "http_turn_ok row content N D D a (Some ph, a)"
    using assms(1,3) by (auto simp: http_turn_ok_def settles_mono)
  show ?thesis
  proof (cases ph)
    case (HttpPosting p ps)
    with stay assms(1-4) show ?thesis
      by (cases ev) (auto simp: http_turn_def owed_after_http_def http_ok_def intro!: on_posted_ok)
  next
    case (HttpPulling cur epoch live)
    then have cur: "unat cur \<le> N" "claims has row D (ca_sink a) cur" using assms(3) by (auto simp: http_ok_def)
    show ?thesis
    proof (cases ev)
      case (HtBody mf)
      let ?a = "on_shared (\<lambda>h. h\<lparr>ch_http_replay_epoch := ch_http_replay_epoch h + 1\<rparr>) a"
      have "http_turn_ok row content N D D a (http_done ?a)"
        by (rule http_turn_ok_from [OF http_done_ok]) (auto intro: client_ok_same [OF assms(1)] settles_mono)
      with HtBody HttpPulling cur assms(1,5) show ?thesis
        by (cases mf) (auto simp: http_turn_def owed_after_http_def intro!: on_body_ok)
    qed (use stay HttpPulling in \<open>auto simp: http_turn_def owed_after_http_def\<close>)
  next
    case (HttpFetching st after epoch gen fs)
    then have ph: "after = sh_checkpoint_seq st" "unat after \<le> N" "\<forall>f \<in> set fs. frame_ok S has row N (ca_sink a) f"
      using assms(3) by (auto simp: http_ok_def)
    show ?thesis
    proof (cases "\<exists>bs. ev = HtCheckpoint (Some bs)")
      case False
      then have "http_turn S ev ph a = (Some ph, a) \<or> http_turn S ev ph a = http_done a"
        using HttpFetching by (cases ev) (auto simp: http_turn_def split: option.splits)
      moreover have "owed_after_http S q ev ph a D = D"
        using False HttpFetching by (auto simp: owed_after_http_def split: HttpEvent.splits option.splits)
      ultimately show ?thesis using stay http_done_ok [OF assms(1)] by auto
    next
      case True
      then obtain bs where bs: "ev = HtCheckpoint (Some bs)" by blast
      note blob = assms(6) [OF HttpFetching bs]
      obtain r s where i: "sk_apply_checkpoint S bs (sh_checkpoint_seq st) (ca_sink a) = (r, s)" by force
      show ?thesis
      proof (cases r)
        case (Inl e)
        have "grows a (with_sink s a)" using keeps_checkpoint i unfolding grows_def by (metis shared_simps(6) snd_conv)
        then have "http_turn_ok row content N D D a (http_done (with_sink s a))"
          by (intro http_turn_ok_from [OF http_done_ok] settles_mono) (auto intro: client_ok_weaken [OF assms(1)])
        with HttpFetching bs i Inl show ?thesis
          by (simp add: http_turn_def owed_after_http_def owed_after_import_def)
      next
        case (Inr v)
        let ?D = "if D \<le> q then 0 else D"
        define a1 where "a1 = chat_emit ChatApplied (with_sink s a)"
        have a1: "client_ok has row content N ?D a1" "grows a a1" "settles row D a ?D a1"
          using import_ok [OF assms(1) conjunct1 [OF blob] _ i [unfolded Inr], of 0 a1] by (auto simp: a1_def)
        have "has s bs" using checkpoint_held i Inr by blast
        then have "claims has row ?D (ca_sink a1) after"
          using blob ph(1) by (intro claims_held [of q]) (auto simp: blob_ok_def a1_def)
        from http_settle_ok [OF a1(1) this ph(2)]
        have s: "client_ok has row content N ?D (http_settle st after gen a1)" "ca_sink (http_settle st after gen a1) = ca_sink a1"
          by auto
        have "http_turn_ok row content N D ?D a (http_frames S epoch False fs (http_settle st after gen a1))"
          by (rule http_turn_ok_from [OF http_frames_ok [OF s(1)]])
            (use s(2) ph(3) a1 in \<open>auto simp: grows_def settles_def intro: frame_ok_grows\<close>)
        with HttpFetching bs i Inr show ?thesis
          by (simp add: http_turn_def owed_after_http_def owed_after_import_def a1_def)
      qed
    qed
  qed
qed

end

end
