(* ===== verification/Docs_Store.thy ===== *)
theory Docs_Store
  imports Chat_Frames
begin

text \<open>
  The local store (\<^verbatim>\<open>src/crates/sync/src/store.rs\<close>): snapshots of documents with the cursor of their room,
  the outbox of updates not yet acknowledged, the ledger of processed commands, the migrations.

  A table is an association list by its primary key, the outbox the list of its rows in the order of their
  ordinals. A statement or transaction of SQLite either takes effect or fails and changes nothing; whether
  the \<open>n\<close>-th one succeeds is \<open>ok n\<close>, an argument, and the store counts them. An integer column keeps the 64
  bits of a cursor; \<^verbatim>\<open>now_ms\<close> and fresh batch ids are arguments. The locks, and moving a blocking call off
  a worker thread, are not modelled.
\<close>

record SnapshotRow =
  sn_bytes :: bytes
  sn_saved_at :: int
  sn_cursor :: "u64 option"
  sn_epoch :: "u32 option"
  sn_verified :: bool

record OutboxRow =
  ob_doc_id :: string
  ob_batch_id :: string
  ob_bytes :: bytes
  ob_needs_checkpoint :: bool

record DocsStore =
  snapshots :: "(string, SnapshotRow) hmap"
  processed_commands :: "(string, int) hmap"
  chat_outbox :: "OutboxRow list"
  outbox_initialized :: "string list"
  failed_publications :: "string list"
  sql_calls :: nat

type_synonym StoreError = string
type_synonym 'a stored = "(StoreError + 'a) \<times> DocsStore"

definition store_open :: DocsStore where
  "store_open = \<lparr>snapshots = [], processed_commands = [], chat_outbox = [], outbox_initialized = [],
     failed_publications = [], sql_calls = 0\<rparr>"

text \<open>One statement or transaction: its outcome, or the error that leaves the tables as they were.\<close>

definition sqlite :: "(nat \<Rightarrow> bool) \<Rightarrow> (DocsStore \<Rightarrow> 'a \<times> DocsStore) \<Rightarrow> DocsStore \<Rightarrow> 'a stored" where
  "sqlite ok f s =
     (let s' = s\<lparr>sql_calls := sql_calls s + 1\<rparr> in
      if ok (sql_calls s) then (case f s' of (v, s'') \<Rightarrow> (Inr v, s'')) else (Inl ''sqlite'', s'))"

section \<open>The outbox\<close>

definition insert_outbox :: "string \<Rightarrow> string \<Rightarrow> bytes \<Rightarrow> DocsStore \<Rightarrow> DocsStore" where
  "insert_outbox doc_id batch bs s =
     s\<lparr>chat_outbox := chat_outbox s @
         [\<lparr>ob_doc_id = doc_id, ob_batch_id = batch, ob_bytes = bs, ob_needs_checkpoint = False\<rparr>]\<rparr>"

definition known_batch :: "string \<Rightarrow> DocsStore \<Rightarrow> bool" where
  "known_batch batch s \<longleftrightarrow> batch \<in> ob_batch_id ` set (chat_outbox s)"

definition enqueue_chat_update :: "(nat \<Rightarrow> bool) \<Rightarrow> string \<Rightarrow> string \<Rightarrow> bytes \<Rightarrow> DocsStore \<Rightarrow> unit stored" where
  "enqueue_chat_update ok doc_id batch bs s =
     (case sqlite ok (\<lambda>s. ((), if known_batch batch s then s else insert_outbox doc_id batch bs s)) s of
        (Inl e, s) \<Rightarrow> (Inl e, s\<lparr>failed_publications := List.insert doc_id (failed_publications s)\<rparr>)
      | r \<Rightarrow> r)"

definition pending_chat_updates :: "(nat \<Rightarrow> bool) \<Rightarrow> string \<Rightarrow> DocsStore \<Rightarrow> (string \<times> bytes) list stored" where
  "pending_chat_updates ok doc_id =
     sqlite ok (\<lambda>s. (map (\<lambda>r. (ob_batch_id r, ob_bytes r)) (filter (\<lambda>r. ob_doc_id r = doc_id) (chat_outbox s)), s))"

definition reject_chat_update :: "(nat \<Rightarrow> bool) \<Rightarrow> string \<Rightarrow> string \<Rightarrow> DocsStore \<Rightarrow> unit stored" where
  "reject_chat_update ok doc_id batch =
     sqlite ok (\<lambda>s. ((), s\<lparr>chat_outbox :=
       map (\<lambda>r. if ob_doc_id r = doc_id \<and> ob_batch_id r = batch then r\<lparr>ob_needs_checkpoint := True\<rparr> else r)
         (chat_outbox s)\<rparr>))"

definition rejected_chat_updates :: "(nat \<Rightarrow> bool) \<Rightarrow> string \<Rightarrow> DocsStore \<Rightarrow> (string \<times> bytes) list stored" where
  "rejected_chat_updates ok doc_id =
     sqlite ok (\<lambda>s. (map (\<lambda>r. (ob_batch_id r, ob_bytes r))
       (filter (\<lambda>r. ob_doc_id r = doc_id \<and> ob_needs_checkpoint r) (chat_outbox s)), s))"

definition acknowledge_chat_update :: "(nat \<Rightarrow> bool) \<Rightarrow> string \<Rightarrow> string \<Rightarrow> DocsStore \<Rightarrow> unit stored" where
  "acknowledge_chat_update ok doc_id batch =
     sqlite ok (\<lambda>s. ((), s\<lparr>chat_outbox :=
       filter (\<lambda>r. \<not> (ob_doc_id r = doc_id \<and> ob_batch_id r = batch)) (chat_outbox s)\<rparr>))"

definition chat_outbox_initialized :: "(nat \<Rightarrow> bool) \<Rightarrow> string \<Rightarrow> DocsStore \<Rightarrow> bool stored" where
  "chat_outbox_initialized ok doc_id = sqlite ok (\<lambda>s. (doc_id \<in> set (outbox_initialized s), s))"

text \<open>The marker and the replay obligation commit together; \<open>uuid i\<close> is the \<open>i\<close>-th fresh batch id, and a
  clash with a known one breaks the transaction.\<close>

fun insert_updates :: "(nat \<Rightarrow> string) \<Rightarrow> string \<Rightarrow> nat \<Rightarrow> bytes list \<Rightarrow> DocsStore \<Rightarrow> DocsStore option" where
  "insert_updates uuid doc_id i [] s = Some s"
| "insert_updates uuid doc_id i (u # us) s =
     (if known_batch (uuid i) s then None
      else insert_updates uuid doc_id (Suc i) us (insert_outbox doc_id (uuid i) u s))"

definition initialize_chat_outbox ::
  "(nat \<Rightarrow> bool) \<Rightarrow> (nat \<Rightarrow> string) \<Rightarrow> string \<Rightarrow> bytes list \<Rightarrow> DocsStore \<Rightarrow> unit stored" where
  "initialize_chat_outbox ok uuid doc_id updates s =
     (let s0 = s\<lparr>sql_calls := sql_calls s + 1\<rparr> in
      if \<not> ok (sql_calls s) then (Inl ''sqlite'', s0)
      else if doc_id \<in> set (outbox_initialized s0) then (Inr (), s0)
      else case insert_updates uuid doc_id 0 updates (s0\<lparr>outbox_initialized := outbox_initialized s0 @ [doc_id]\<rparr>) of
             None \<Rightarrow> (Inl ''sqlite'', s0)
           | Some s1 \<Rightarrow> (Inr (), s1))"

section \<open>Snapshots\<close>

definition load_snapshot :: "(nat \<Rightarrow> bool) \<Rightarrow> string \<Rightarrow> DocsStore \<Rightarrow> bytes option stored" where
  "load_snapshot ok doc_id = sqlite ok (\<lambda>s. (map_option sn_bytes (map_of (snapshots s) doc_id), s))"

definition invalidate_failed_publication :: "string \<Rightarrow> DocsStore \<Rightarrow> DocsStore" where
  "invalidate_failed_publication doc_id s =
     (if doc_id \<in> set (failed_publications s)
      then s\<lparr>outbox_initialized := filter (\<lambda>d. d \<noteq> doc_id) (outbox_initialized s)\<rparr> else s)"

definition put_snapshot :: "string \<Rightarrow> SnapshotRow \<Rightarrow> DocsStore \<Rightarrow> DocsStore" where
  "put_snapshot doc_id row s =
     invalidate_failed_publication doc_id (s\<lparr>snapshots := AList.update doc_id row (snapshots s)\<rparr>)"

definition save_snapshot :: "(nat \<Rightarrow> bool) \<Rightarrow> int \<Rightarrow> string \<Rightarrow> bytes \<Rightarrow> DocsStore \<Rightarrow> unit stored" where
  "save_snapshot ok now doc_id bs =
     sqlite ok (\<lambda>s. ((), put_snapshot doc_id
       (case map_of (snapshots s) doc_id of
          Some row \<Rightarrow> row\<lparr>sn_bytes := bs, sn_saved_at := now\<rparr>
        | None \<Rightarrow> \<lparr>sn_bytes = bs, sn_saved_at = now, sn_cursor = None, sn_epoch = None, sn_verified = False\<rparr>) s))"

definition save_snapshot_with_cursor ::
  "(nat \<Rightarrow> bool) \<Rightarrow> int \<Rightarrow> string \<Rightarrow> bytes \<Rightarrow> u64 \<Rightarrow> u32 \<Rightarrow> DocsStore \<Rightarrow> unit stored" where
  "save_snapshot_with_cursor ok now doc_id bs cur epoch =
     sqlite ok (\<lambda>s. ((), put_snapshot doc_id
       \<lparr>sn_bytes = bs, sn_saved_at = now, sn_cursor = Some cur, sn_epoch = Some epoch, sn_verified = False\<rparr> s))"

definition save_verified_snapshot_with_cursor ::
  "(nat \<Rightarrow> bool) \<Rightarrow> int \<Rightarrow> string \<Rightarrow> bytes \<Rightarrow> u64 \<Rightarrow> u32 \<Rightarrow> DocsStore \<Rightarrow> unit stored" where
  "save_verified_snapshot_with_cursor ok now doc_id bs cur epoch =
     sqlite ok (\<lambda>s. ((), put_snapshot doc_id
       \<lparr>sn_bytes = bs, sn_saved_at = now, sn_cursor = Some cur, sn_epoch = Some epoch, sn_verified = True\<rparr> s))"

definition or_zero :: "('a :: zero) option \<Rightarrow> 'a" where
  "or_zero v = (case v of None \<Rightarrow> 0 | Some x \<Rightarrow> x)"

definition snapshot_cursor :: "(nat \<Rightarrow> bool) \<Rightarrow> string \<Rightarrow> DocsStore \<Rightarrow> u64 stored" where
  "snapshot_cursor ok doc_id =
     sqlite ok (\<lambda>s. (case map_of (snapshots s) doc_id of None \<Rightarrow> 0 | Some row \<Rightarrow> or_zero (sn_cursor row), s))"

definition snapshot_cursor_verified :: "(nat \<Rightarrow> bool) \<Rightarrow> string \<Rightarrow> DocsStore \<Rightarrow> bool stored" where
  "snapshot_cursor_verified ok doc_id =
     sqlite ok (\<lambda>s. (case map_of (snapshots s) doc_id of None \<Rightarrow> False | Some row \<Rightarrow> sn_verified row, s))"

definition load_snapshot_with_cursor ::
  "(nat \<Rightarrow> bool) \<Rightarrow> string \<Rightarrow> DocsStore \<Rightarrow> (bytes \<times> u64 \<times> u32) option stored" where
  "load_snapshot_with_cursor ok doc_id =
     sqlite ok (\<lambda>s. (map_option (\<lambda>row. (sn_bytes row, or_zero (sn_cursor row), or_zero (sn_epoch row)))
       (map_of (snapshots s) doc_id), s))"

definition delete_snapshot :: "(nat \<Rightarrow> bool) \<Rightarrow> string \<Rightarrow> DocsStore \<Rightarrow> unit stored" where
  "delete_snapshot ok doc_id =
     sqlite ok (\<lambda>s. ((), s\<lparr>snapshots := AList.delete doc_id (snapshots s),
       chat_outbox := filter (\<lambda>r. ob_doc_id r \<noteq> doc_id) (chat_outbox s),
       outbox_initialized := filter (\<lambda>d. d \<noteq> doc_id) (outbox_initialized s)\<rparr>))"

definition has_snapshot :: "(nat \<Rightarrow> bool) \<Rightarrow> string \<Rightarrow> DocsStore \<Rightarrow> bool stored" where
  "has_snapshot ok doc_id = sqlite ok (\<lambda>s. (map_of (snapshots s) doc_id \<noteq> None, s))"

section \<open>The command ledger\<close>

definition all_processed_commands :: "(nat \<Rightarrow> bool) \<Rightarrow> DocsStore \<Rightarrow> (string \<times> int) list stored" where
  "all_processed_commands ok = sqlite ok (\<lambda>s. (processed_commands s, s))"

definition insert_processed :: "string \<Rightarrow> int \<Rightarrow> DocsStore \<Rightarrow> bool \<times> DocsStore" where
  "insert_processed cmd at s =
     (if map_of (processed_commands s) cmd \<noteq> None then (False, s)
      else (True, s\<lparr>processed_commands := processed_commands s @ [(cmd, at)]\<rparr>))"

fun import_processed_commands ::
  "(nat \<Rightarrow> bool) \<Rightarrow> (string \<times> int) list \<Rightarrow> nat \<Rightarrow> DocsStore \<Rightarrow> nat stored" where
  "import_processed_commands ok [] n s = (Inr n, s)"
| "import_processed_commands ok ((cmd, at) # rows) n s =
     (case sqlite ok (insert_processed cmd at) s of
        (Inl e, s') \<Rightarrow> (Inl e, s')
      | (Inr fresh, s') \<Rightarrow> import_processed_commands ok rows (if fresh then n + 1 else n) s')"

definition is_processed :: "(nat \<Rightarrow> bool) \<Rightarrow> string \<Rightarrow> DocsStore \<Rightarrow> bool stored" where
  "is_processed ok cmd = sqlite ok (\<lambda>s. (map_of (processed_commands s) cmd \<noteq> None, s))"

definition mark_processed :: "(nat \<Rightarrow> bool) \<Rightarrow> int \<Rightarrow> string \<Rightarrow> DocsStore \<Rightarrow> bool stored" where
  "mark_processed ok now cmd = sqlite ok (insert_processed cmd now)"

section \<open>Migrations\<close>

text \<open>The schema versions applied, in order; version \<open>k\<close> runs when it is above the newest recorded one.
  The result says whether the loop finished.\<close>

definition MIGRATIONS :: nat where "MIGRATIONS = 4"

fun migrate_loop :: "(nat \<Rightarrow> bool) \<Rightarrow> nat \<Rightarrow> nat list \<Rightarrow> nat list \<Rightarrow> bool \<times> nat list" where
  "migrate_loop ok current [] applied = (True, applied)"
| "migrate_loop ok current (v # vs) applied =
     (if v \<le> current then migrate_loop ok current vs applied
      else if ok v then migrate_loop ok current vs (applied @ [v])
      else (False, applied))"

definition migrate :: "(nat \<Rightarrow> bool) \<Rightarrow> nat list \<Rightarrow> bool \<times> nat list" where
  "migrate ok applied = migrate_loop ok (foldr max applied 0) [1..<MIGRATIONS + 1] applied"

section \<open>Runs of the store\<close>

datatype StoreOp =
    OpEnqueue string string bytes
  | OpReject string string
  | OpAck string string
  | OpInitialize "nat \<Rightarrow> string" string "bytes list"
  | OpSave int string bytes
  | OpSaveCursor int string bytes u64 u32
  | OpSaveVerified int string bytes u64 u32
  | OpDelete string
  | OpMark int string
  | OpImport "(string \<times> int) list"

fun store_step :: "(nat \<Rightarrow> bool) \<Rightarrow> StoreOp \<Rightarrow> DocsStore \<Rightarrow> DocsStore" where
  "store_step ok (OpEnqueue d b u) s = snd (enqueue_chat_update ok d b u s)"
| "store_step ok (OpReject d b) s = snd (reject_chat_update ok d b s)"
| "store_step ok (OpAck d b) s = snd (acknowledge_chat_update ok d b s)"
| "store_step ok (OpInitialize uuid d us) s = snd (initialize_chat_outbox ok uuid d us s)"
| "store_step ok (OpSave now d b) s = snd (save_snapshot ok now d b s)"
| "store_step ok (OpSaveCursor now d b c e) s = snd (save_snapshot_with_cursor ok now d b c e s)"
| "store_step ok (OpSaveVerified now d b c e) s = snd (save_verified_snapshot_with_cursor ok now d b c e s)"
| "store_step ok (OpDelete d) s = snd (delete_snapshot ok d s)"
| "store_step ok (OpMark now c) s = snd (mark_processed ok now c s)"
| "store_step ok (OpImport rows) s = snd (import_processed_commands ok rows 0 s)"

definition store_run :: "(nat \<Rightarrow> bool) \<Rightarrow> StoreOp list \<Rightarrow> DocsStore \<Rightarrow> DocsStore" where
  "store_run ok ops s = fold (store_step ok) ops s"

lemma store_run_simps [simp]:
  "store_run ok [] s = s"
  "store_run ok (op # ops) s = store_run ok ops (store_step ok op s)"
  "store_run ok (ops @ ops') s = store_run ok ops' (store_run ok ops s)"
  by (simp_all add: store_run_def)

lemmas store_defs = sqlite_def Let_def enqueue_chat_update_def reject_chat_update_def acknowledge_chat_update_def
  initialize_chat_outbox_def save_snapshot_def save_snapshot_with_cursor_def
  save_verified_snapshot_with_cursor_def delete_snapshot_def mark_processed_def put_snapshot_def
  invalidate_failed_publication_def insert_outbox_def insert_processed_def

text \<open>What an operation leaves alone.\<close>

lemma insert_updates_frame:
  "insert_updates uuid d i us s = Some s' \<Longrightarrow>
     snapshots s' = snapshots s \<and> outbox_initialized s' = outbox_initialized s \<and>
     failed_publications s' = failed_publications s \<and> processed_commands s' = processed_commands s \<and>
     sql_calls s' = sql_calls s \<and>
     (\<exists>rows. chat_outbox s' = chat_outbox s @ rows \<and> map ob_bytes rows = us \<and>
       (\<forall>r \<in> set rows. ob_doc_id r = d \<and> \<not> ob_needs_checkpoint r))"
proof (induction us arbitrary: i s)
  case (Cons u us)
  from Cons.prems have "insert_updates uuid d (Suc i) us (insert_outbox d (uuid i) u s) = Some s'"
    by (simp split: if_splits)
  from Cons.IH [OF this] obtain rows where r: "chat_outbox s' = chat_outbox (insert_outbox d (uuid i) u s) @ rows"
    "map ob_bytes rows = us" "\<forall>r \<in> set rows. ob_doc_id r = d \<and> \<not> ob_needs_checkpoint r"
    and f: "snapshots s' = snapshots s" "outbox_initialized s' = outbox_initialized s"
      "failed_publications s' = failed_publications s" "processed_commands s' = processed_commands s"
      "sql_calls s' = sql_calls s" by (auto simp: insert_outbox_def)
  from r have "chat_outbox s' = chat_outbox s @ \<lparr>ob_doc_id = d, ob_batch_id = uuid i, ob_bytes = u,
      ob_needs_checkpoint = False\<rparr> # rows" by (simp add: insert_outbox_def)
  with r f show ?case by (metis list.set_intros list.simps(9) set_ConsD OutboxRow.select_convs(1,3,4))
qed simp

lemma import_frame:
  "snapshots (snd (import_processed_commands ok rows n s)) = snapshots s \<and>
   outbox_initialized (snd (import_processed_commands ok rows n s)) = outbox_initialized s \<and>
   failed_publications (snd (import_processed_commands ok rows n s)) = failed_publications s \<and>
   chat_outbox (snd (import_processed_commands ok rows n s)) = chat_outbox s"
  by (induction rows arbitrary: n s)
    (auto simp: sqlite_def Let_def insert_processed_def split: sum.splits prod.splits if_splits)

text \<open>The operations that name a document and could mark it as replayed.\<close>

fun initializes :: "string \<Rightarrow> StoreOp \<Rightarrow> bool" where
  "initializes d (OpInitialize _ d' _) \<longleftrightarrow> d' = d"
| "initializes d _ \<longleftrightarrow> False"

lemma step_failed_mono: "d \<in> set (failed_publications s) \<Longrightarrow> d \<in> set (failed_publications (store_step ok op s))"
  by (cases op) (auto simp: store_defs import_frame dest!: insert_updates_frame
    split: option.splits sum.splits prod.splits if_splits)

lemma step_uninitialized:
  "d \<notin> set (outbox_initialized s) \<Longrightarrow> \<not> initializes d op \<Longrightarrow> d \<notin> set (outbox_initialized (store_step ok op s))"
  by (cases op) (auto simp: store_defs import_frame dest!: insert_updates_frame
    split: option.splits sum.splits prod.splits if_splits)

lemma run_failed_mono: "d \<in> set (failed_publications s) \<Longrightarrow> d \<in> set (failed_publications (store_run ok ops s))"
  by (induction ops arbitrary: s) (auto intro: step_failed_mono)

lemma run_uninitialized:
  "d \<notin> set (outbox_initialized s) \<Longrightarrow> \<forall>op \<in> set ops. \<not> initializes d op \<Longrightarrow>
     d \<notin> set (outbox_initialized (store_run ok ops s))"
  by (induction ops arbitrary: s) (simp, simp add: step_uninitialized)

text \<open>The snapshot writes of a document, and what each puts in its row.\<close>

fun pair_of :: "string \<Rightarrow> StoreOp \<Rightarrow> (bytes \<times> u64 \<times> u32 \<times> bool) option" where
  "pair_of d (OpSaveCursor _ d' b c e) = (if d' = d then Some (b, c, e, False) else None)"
| "pair_of d (OpSaveVerified _ d' b c e) = (if d' = d then Some (b, c, e, True) else None)"
| "pair_of d _ = None"

fun plain_save :: "string \<Rightarrow> StoreOp \<Rightarrow> bool" where
  "plain_save d (OpSave _ d' _) \<longleftrightarrow> d' = d"
| "plain_save d _ \<longleftrightarrow> False"

definition row_of :: "string \<Rightarrow> DocsStore \<Rightarrow> (bytes \<times> u64 \<times> u32 \<times> bool) option" where
  "row_of d s = map_option (\<lambda>row. (sn_bytes row, or_zero (sn_cursor row), or_zero (sn_epoch row), sn_verified row))
     (map_of (snapshots s) d)"

lemma snd_sqlite:
  "snd (sqlite ok f s) =
     (if ok (sql_calls s) then snd (f (s\<lparr>sql_calls := sql_calls s + 1\<rparr>)) else s\<lparr>sql_calls := sql_calls s + 1\<rparr>)"
  by (simp add: sqlite_def Let_def split: prod.splits)

lemma row_of_cong: "snapshots s' = snapshots s \<Longrightarrow> row_of d s' = row_of d s"
  by (simp add: row_of_def)

lemma row_of_put:
  "row_of d (put_snapshot d' row s) =
     (if d' = d then Some (sn_bytes row, or_zero (sn_cursor row), or_zero (sn_epoch row), sn_verified row)
      else row_of d s)"
  by (simp add: row_of_def put_snapshot_def invalidate_failed_publication_def AList.update_conv')

lemma enqueue_snapshots: "snapshots (snd (enqueue_chat_update ok d b u s)) = snapshots s"
  by (simp add: enqueue_chat_update_def sqlite_def Let_def insert_outbox_def)

lemma initialize_snapshots: "snapshots (snd (initialize_chat_outbox ok uuid d us s)) = snapshots s"
  by (auto simp: initialize_chat_outbox_def Let_def dest!: insert_updates_frame split: option.splits)

lemma step_row:
  assumes "row_of d (store_step ok op s) = Some v" "\<not> plain_save d op"
  shows "row_of d s = Some v \<or> pair_of d op = Some v"
proof -
  have c: "row_of d (s\<lparr>sql_calls := n\<rparr>) = row_of d s" for n by (rule row_of_cong) simp
  show ?thesis
  proof (cases op)
    case (OpDelete d')
    with assms show ?thesis
      by (auto simp: delete_snapshot_def snd_sqlite row_of_def AList.delete_conv' split: if_splits)
  next
    case (OpImport rows)
    with assms show ?thesis by (simp add: row_of_cong [OF import_frame [THEN conjunct1]])
  next
    case (OpEnqueue d' b u)
    with assms show ?thesis by (simp add: row_of_cong [OF enqueue_snapshots])
  next
    case (OpInitialize uuid d' us)
    with assms show ?thesis by (simp add: row_of_cong [OF initialize_snapshots])
  next
    case (OpReject d' b)
    with assms show ?thesis by (auto simp: reject_chat_update_def snd_sqlite row_of_def split: if_splits)
  next
    case (OpAck d' b)
    with assms show ?thesis by (auto simp: acknowledge_chat_update_def snd_sqlite row_of_def split: if_splits)
  next
    case (OpMark now cmd)
    with assms show ?thesis by (auto simp: mark_processed_def snd_sqlite insert_processed_def row_of_def split: if_splits)
  qed (use assms in \<open>auto simp: save_snapshot_def save_snapshot_with_cursor_def
      save_verified_snapshot_with_cursor_def snd_sqlite row_of_put or_zero_def c split: if_splits\<close>)
qed

lemma run_row:
  assumes "row_of d (store_run ok ops s) = Some v" "\<forall>op \<in> set ops. \<not> plain_save d op"
  shows "row_of d s = Some v \<or> (\<exists>op \<in> set ops. pair_of d op = Some v)"
  using assms
proof (induction ops arbitrary: s)
  case (Cons op ops)
  then have "row_of d (store_step ok op s) = Some v \<or> (\<exists>op \<in> set ops. pair_of d op = Some v)" by simp
  then show ?case
  proof
    assume "row_of d (store_step ok op s) = Some v"
    from step_row [OF this] Cons.prems(2) show ?thesis by auto
  qed auto
qed simp

section \<open>Properties\<close>


text \<open>C36: an update whose outbox write failed is replayed: once its document has been saved, the document is
  not marked as replayed until \<^verbatim>\<open>initialize_chat_outbox\<close> runs for it, and that appends the whole history.\<close>

theorem failed_publication_is_replayed:
  assumes "fst (enqueue_chat_update ok d batch u s0) = Inl err"
    and "s1 = store_run ok ops1 (snd (enqueue_chat_update ok d batch u s0))"
    and "fst (save_verified_snapshot_with_cursor ok now d b c e s1) = Inr ()"
    and "s2 = store_run ok ops2 (snd (save_verified_snapshot_with_cursor ok now d b c e s1))"
    and "\<forall>op \<in> set ops2. \<not> initializes d op"
  shows "fst (chat_outbox_initialized (\<lambda>_. True) d s2) = Inr False \<and>
    (\<forall>uuid us s3. initialize_chat_outbox ok uuid d us s2 = (Inr (), s3) \<longrightarrow>
      map ob_bytes (chat_outbox s3) = map ob_bytes (chat_outbox s2) @ us)"
proof -
  have "d \<in> set (failed_publications (snd (enqueue_chat_update ok d batch u s0)))"
    using assms(1) by (auto simp: enqueue_chat_update_def sqlite_def Let_def split: if_splits)
  then have f: "d \<in> set (failed_publications s1)" unfolding assms(2) by (rule run_failed_mono)
  have "d \<notin> set (outbox_initialized (snd (save_verified_snapshot_with_cursor ok now d b c e s1)))"
    using assms(3) f by (auto simp: save_verified_snapshot_with_cursor_def sqlite_def put_snapshot_def
      invalidate_failed_publication_def Let_def split: if_splits)
  then have n: "d \<notin> set (outbox_initialized s2)" unfolding assms(4) by (rule run_uninitialized [OF _ assms(5)])
  moreover have "map ob_bytes (chat_outbox s3) = map ob_bytes (chat_outbox s2) @ us"
    if "initialize_chat_outbox ok uuid d us s2 = (Inr (), s3)" for uuid us s3
    using that n by (auto simp: initialize_chat_outbox_def Let_def comp_def split_def
      dest!: insert_updates_frame split: if_splits option.splits)
  ultimately show ?thesis by (simp add: chat_outbox_initialized_def sqlite_def)
qed

section \<open>Witnesses\<close>


theorem failed_publication_is_replayed_witness:
  "fst (chat_outbox_initialized (\<lambda>_. True) ''c''
     (snd (save_verified_snapshot_with_cursor (\<lambda>n. n \<noteq> 1) 1 ''c'' [] 0 2
       (snd (enqueue_chat_update (\<lambda>n. n \<noteq> 1) ''c'' ''b'' [5]
         (snd (initialize_chat_outbox (\<lambda>n. n \<noteq> 1) (\<lambda>_. []) ''c'' [] store_open))))))) = Inr False"
proof (rule failed_publication_is_replayed [where ?ops1.0 = "[]" and ?ops2.0 = "[]" and ok = "\<lambda>n. n \<noteq> 1"
      and batch = "''b''" and u = "[5]" and err = "''sqlite''"
      and ?s0.0 = "snd (initialize_chat_outbox (\<lambda>n. n \<noteq> 1) (\<lambda>_. []) ''c'' [] store_open)", THEN conjunct1])
  show "fst (enqueue_chat_update (\<lambda>n. n \<noteq> 1) ''c'' ''b'' [5]
      (snd (initialize_chat_outbox (\<lambda>n. n \<noteq> 1) (\<lambda>_. []) ''c'' [] store_open))) = Inl ''sqlite''" by code_simp
  show "fst (save_verified_snapshot_with_cursor (\<lambda>n. n \<noteq> 1) 1 ''c'' [] 0 2
      (snd (enqueue_chat_update (\<lambda>n. n \<noteq> 1) ''c'' ''b'' [5]
        (snd (initialize_chat_outbox (\<lambda>n. n \<noteq> 1) (\<lambda>_. []) ''c'' [] store_open))))) = Inr ()" by code_simp
qed simp_all

end
