(* ===== verification/Chat_Host.thy ===== *)
theory Chat_Host
  imports Chat_Contract Docs_Store
begin

text \<open>
  The document of a chat behind its client: coalesced snapshots
  (\<^verbatim>\<open>src/crates/engine/src/chat_persistence.rs\<close>), the sink that imports rows and checkpoints, the resumable
  download of a checkpoint and the division of a legacy document into rows
  (\<^verbatim>\<open>src/crates/engine/src/chat2_host.rs\<close>), and the posting of a checkpoint
  (\<^verbatim>\<open>spawn_chat2_checkpoint\<close> of \<^verbatim>\<open>src/crates/engine/src/doc_host.rs\<close>).

  The document is Loro's, which is not part of the repository. It is taken as the sequence of what was
  imported into it, each blob with the status Loro returned, and the record \<open>Loro\<close> holds the operations
  the code calls, as functions of that sequence.
\<close>

section \<open>Loro\<close>

datatype ImportStatus = Imported | Parked | Malformed

type_synonym loro_doc = "(bytes \<times> ImportStatus) list"

record 'v Loro =
  lo_import :: "loro_doc \<Rightarrow> bytes \<Rightarrow> ImportStatus"
  lo_export :: "loro_doc \<Rightarrow> bytes"
  lo_decode_vv :: "bytes \<Rightarrow> 'v option"
  lo_vv_empty :: "'v \<Rightarrow> bool"
  lo_includes :: "loro_doc \<Rightarrow> 'v \<Rightarrow> bool"
  lo_blob_end :: "bytes \<Rightarrow> 'v option"
  lo_encode_vv :: "'v \<Rightarrow> bytes"
  lo_vv_includes :: "'v \<Rightarrow> 'v \<Rightarrow> bool"

section \<open>The persister\<close>

definition SAVE_INTERVAL :: int where "SAVE_INTERVAL = 1000"
definition CHAT2_DOC_EPOCH :: u32 where "CHAT2_DOC_EPOCH = 2"

record ChatPersistence =
  cp_chat_id :: string
  cp_cursor :: u64
  cp_generation :: u64
  cp_saved :: u64
  cp_snapshot_bytes :: nat
  cp_urgent :: bool
  cp_runtime :: bool
  cp_wake :: bool
  cp_initial_cursor_verified :: bool

text \<open>The sink's state: the document, while someone holds it, the persister and the store.\<close>

record EngineSink =
  es_doc :: loro_doc
  es_alive :: bool
  es_persistence :: ChatPersistence
  es_store :: DocsStore

definition persistence_new :: "(nat \<Rightarrow> bool) \<Rightarrow> bool \<Rightarrow> string \<Rightarrow> u64 \<Rightarrow> DocsStore \<Rightarrow> ChatPersistence \<times> DocsStore" where
  "persistence_new ok runtime chat_id cur store =
     (let (r, store) = snapshot_cursor_verified ok chat_id store;
          verified = (case r of Inr v \<Rightarrow> v | Inl _ \<Rightarrow> False)
      in (\<lparr>cp_chat_id = chat_id, cp_cursor = (if verified then cur else 0), cp_generation = 0, cp_saved = 0,
           cp_snapshot_bytes = 0, cp_urgent = False, cp_runtime = runtime, cp_wake = False,
           cp_initial_cursor_verified = verified\<rparr>, store))"

definition on_persistence :: "(ChatPersistence \<Rightarrow> ChatPersistence) \<Rightarrow> EngineSink \<Rightarrow> EngineSink" where
  "on_persistence f e = e\<lparr>es_persistence := f (es_persistence e)\<rparr>"

text \<open>A flush samples the generation and the cursor, then exports and saves.\<close>

definition flush_sample :: "EngineSink \<Rightarrow> (u64 \<times> u64) option" where
  "flush_sample e =
     (let p = es_persistence e in
      if cp_generation p = cp_saved p \<or> \<not> es_alive e then None else Some (cp_generation p, cp_cursor p))"

definition flush_write :: "'v Loro \<Rightarrow> (nat \<Rightarrow> bool) \<Rightarrow> int \<Rightarrow> u64 \<times> u64 \<Rightarrow> EngineSink \<Rightarrow> EngineSink" where
  "flush_write L ok now sample e =
     (let bs = lo_export L (es_doc e);
          e = on_persistence (\<lambda>p. p\<lparr>cp_snapshot_bytes := length bs\<rparr>) e
      in case save_verified_snapshot_with_cursor ok now (cp_chat_id (es_persistence e)) bs (snd sample)
                CHAT2_DOC_EPOCH (es_store e) of
           (Inr _, store) \<Rightarrow> on_persistence (\<lambda>p. p\<lparr>cp_saved := fst sample\<rparr>) (e\<lparr>es_store := store\<rparr>)
         | (Inl _, store) \<Rightarrow> e\<lparr>es_store := store\<rparr>)"

definition flush_sync :: "'v Loro \<Rightarrow> (nat \<Rightarrow> bool) \<Rightarrow> int \<Rightarrow> EngineSink \<Rightarrow> EngineSink" where
  "flush_sync L ok now e = (case flush_sample e of None \<Rightarrow> e | Some sample \<Rightarrow> flush_write L ok now sample e)"

definition dirty :: "'v Loro \<Rightarrow> (nat \<Rightarrow> bool) \<Rightarrow> int \<Rightarrow> bool \<Rightarrow> EngineSink \<Rightarrow> EngineSink" where
  "dirty L ok now immediate e =
     (let e = on_persistence (\<lambda>p. p\<lparr>cp_generation := cp_generation p + 1\<rparr>) e;
          e = (if immediate then on_persistence (\<lambda>p. p\<lparr>cp_urgent := True\<rparr>) e else e)
      in if cp_runtime (es_persistence e) then on_persistence (\<lambda>p. p\<lparr>cp_wake := True\<rparr>) e
         else flush_sync L ok now e)"

definition applied :: "'v Loro \<Rightarrow> (nat \<Rightarrow> bool) \<Rightarrow> int \<Rightarrow> u64 \<Rightarrow> bool \<Rightarrow> EngineSink \<Rightarrow> EngineSink" where
  "applied L ok now cur immediate e =
     dirty L ok now immediate (on_persistence (\<lambda>p. p\<lparr>cp_cursor := max (cp_cursor p) cur\<rparr>) e)"

definition persistence_reset_cursor :: "'v Loro \<Rightarrow> (nat \<Rightarrow> bool) \<Rightarrow> int \<Rightarrow> u64 \<Rightarrow> EngineSink \<Rightarrow> EngineSink" where
  "persistence_reset_cursor L ok now cur e =
     (let old = cp_cursor (es_persistence e);
          e = on_persistence (\<lambda>p. p\<lparr>cp_cursor := cur\<rparr>) e
      in if old \<noteq> cur then dirty L ok now True e else e)"

text \<open>The worker: a wake starts the collection of changes, which ends at the deadline or when a change is
  urgent; what changed during the write, or was not written, wakes it again.\<close>

datatype WorkerPhase = WorkerIdle | WorkerCollecting int | WorkerGone

definition after_flush :: "EngineSink \<Rightarrow> WorkerPhase \<times> EngineSink" where
  "after_flush e =
     (if \<not> es_alive e then (WorkerGone, e)
      else (WorkerIdle, if cp_saved (es_persistence e) \<noteq> cp_generation (es_persistence e)
                        then on_persistence (\<lambda>p. p\<lparr>cp_wake := True\<rparr>) e else e))"

definition collect :: "'v Loro \<Rightarrow> (nat \<Rightarrow> bool) \<Rightarrow> int \<Rightarrow> int \<Rightarrow> EngineSink \<Rightarrow> WorkerPhase \<times> EngineSink" where
  "collect L ok now deadline e =
     (let urgent = cp_urgent (es_persistence e);
          e = on_persistence (\<lambda>p. p\<lparr>cp_urgent := False\<rparr>) e
      in if urgent then after_flush (flush_sync L ok now e) else (WorkerCollecting deadline, e))"

definition worker_turn :: "'v Loro \<Rightarrow> (nat \<Rightarrow> bool) \<Rightarrow> int \<Rightarrow> int \<Rightarrow> WorkerPhase \<Rightarrow> EngineSink \<Rightarrow> WorkerPhase \<times> EngineSink" where
  "worker_turn L ok now inst ph e =
     (let taken = on_persistence (\<lambda>p. p\<lparr>cp_wake := False\<rparr>) e in
      case ph of
        WorkerIdle \<Rightarrow> if cp_wake (es_persistence e) then collect L ok now (inst + SAVE_INTERVAL) taken else (ph, e)
      | WorkerCollecting deadline \<Rightarrow>
          if inst \<ge> deadline then after_flush (flush_sync L ok now e)
          else if cp_wake (es_persistence e) then collect L ok now deadline taken
          else (ph, e)
      | WorkerGone \<Rightarrow> (ph, e))"

section \<open>The sink\<close>

definition import_row ::
  "'v Loro \<Rightarrow> (nat \<Rightarrow> bool) \<Rightarrow> int \<Rightarrow> bytes \<Rightarrow> u64 \<Rightarrow> EngineSink \<Rightarrow> RowImportOutcome \<times> EngineSink" where
  "import_row L ok now bs cur e =
     (if \<not> es_alive e then (RowApplied, e)
      else let st = lo_import L (es_doc e) bs; e = e\<lparr>es_doc := es_doc e @ [(bs, st)]\<rparr>
           in if st = Parked then (PendingDependencies, e)
              else (RowApplied, applied L ok now cur False e))"

definition persist_with_cursor :: "'v Loro \<Rightarrow> (nat \<Rightarrow> bool) \<Rightarrow> int \<Rightarrow> u64 \<Rightarrow> EngineSink \<Rightarrow> EngineSink" where
  "persist_with_cursor L ok now cur e = applied L ok now cur True e"

definition in_store :: "(DocsStore \<Rightarrow> 'a stored) \<Rightarrow> EngineSink \<Rightarrow> (string + 'a) \<times> EngineSink" where
  "in_store f e = (case f (es_store e) of (r, s) \<Rightarrow> (r, e\<lparr>es_store := s\<rparr>))"

abbreviation es_chat :: "EngineSink \<Rightarrow> string" where
  "es_chat e \<equiv> cp_chat_id (es_persistence e)"

fun keep_updates ::
  "(nat \<Rightarrow> bool) \<Rightarrow> (string \<times> bytes) list \<Rightarrow> (string \<times> bytes) list \<Rightarrow> EngineSink \<Rightarrow>
   (string + (string \<times> bytes) list) \<times> EngineSink" where
  "keep_updates ok rejected [] e = (Inr [], e)"
| "keep_updates ok rejected ((b, u) # us) e =
     (if length u > MAX_PUSH_BYTES then
        (case in_store (reject_chat_update ok (es_chat e) b) e of
           (Inl err, e) \<Rightarrow> (Inl err, e)
         | (Inr _, e) \<Rightarrow> keep_updates ok rejected us e)
      else case keep_updates ok rejected us e of
             (Inr kept, e) \<Rightarrow> (Inr (if b \<in> fst ` set rejected then kept else (b, u) # kept), e)
           | r \<Rightarrow> r)"

definition engine_pending_updates :: "(nat \<Rightarrow> bool) \<Rightarrow> EngineSink \<Rightarrow> (string + (string \<times> bytes) list) \<times> EngineSink" where
  "engine_pending_updates ok e =
     (case in_store (rejected_chat_updates ok (es_chat e)) e of
        (Inl err, e) \<Rightarrow> (Inl err, e)
      | (Inr rejected, e) \<Rightarrow>
          (case in_store (pending_chat_updates ok (es_chat e)) e of
             (Inl err, e) \<Rightarrow> (Inl err, e)
           | (Inr pending, e) \<Rightarrow> keep_updates ok rejected pending e))"

definition engine_apply_checkpoint ::
  "'v Loro \<Rightarrow> (nat \<Rightarrow> bool) \<Rightarrow> int \<Rightarrow> bytes \<Rightarrow> u64 \<Rightarrow> EngineSink \<Rightarrow> (string + unit) \<times> EngineSink" where
  "engine_apply_checkpoint L ok now bs cur e =
     (if \<not> es_alive e then (Inl ''doc evicted'', e)
      else let st = lo_import L (es_doc e) bs; e = e\<lparr>es_doc := es_doc e @ [(bs, st)]\<rparr>
           in case st of
                Malformed \<Rightarrow> (Inl ''checkpoint import'', e)
              | Parked \<Rightarrow> (Inl ''checkpoint is missing causal dependencies'', e)
              | Imported \<Rightarrow> (Inr (), persist_with_cursor L ok now cur e))"

definition engine_contains_frontier :: "'v Loro \<Rightarrow> bytes \<Rightarrow> EngineSink \<Rightarrow> bool" where
  "engine_contains_frontier L frontier e =
     (if \<not> es_alive e then True
      else case lo_decode_vv L frontier of
             None \<Rightarrow> False
           | Some vv \<Rightarrow> \<not> lo_vv_empty L vv \<and> lo_includes L (es_doc e) vv)"

definition engine_sink :: "'v Loro \<Rightarrow> (nat \<Rightarrow> bool) \<Rightarrow> int \<Rightarrow> EngineSink Sink" where
  "engine_sink L ok now =
     \<lparr>sk_cursor_is_verified = (\<lambda>e. cp_initial_cursor_verified (es_persistence e)),
      sk_reset_cursor = persistence_reset_cursor L ok now,
      sk_pending_updates = engine_pending_updates ok,
      sk_persist_update = (\<lambda>b u e. in_store (enqueue_chat_update ok (es_chat e) b u) e),
      sk_acknowledge_update = (\<lambda>b e. in_store (acknowledge_chat_update ok (es_chat e) b) e),
      sk_reject_update = (\<lambda>b e. in_store (reject_chat_update ok (es_chat e) b) e),
      sk_apply_row = import_row L ok now,
      sk_apply_replay_row = import_row L ok now,
      sk_apply_checkpoint = engine_apply_checkpoint L ok now,
      sk_contains_frontier = engine_contains_frontier L,
      sk_advance_cursor = persist_with_cursor L ok now\<rparr>"

section \<open>The download of a checkpoint\<close>

text \<open>One attempt: the answer's checkpoint sequence header, its status, the bytes of the body that arrived,
  and whether the body ended; or no answer, or no credential.\<close>

datatype FetchAttempt =
    NoBearer
  | NoAnswer
  | Answer "string option" nat bytes bool

fun fetch_loop :: "nat \<Rightarrow> FetchAttempt list \<Rightarrow> bytes \<Rightarrow> string option \<Rightarrow> string + bytes" where
  "fetch_loop 0 atts got seen = Inl ''checkpoint fetch exhausted resume attempts''"
| "fetch_loop (Suc n) [] got seen = Inl ''checkpoint fetch exhausted resume attempts''"
| "fetch_loop (Suc n) (NoBearer # atts) got seen = Inl ''bearer''"
| "fetch_loop (Suc n) (NoAnswer # atts) got seen = fetch_loop n atts got seen"
| "fetch_loop (Suc n) (Answer seq status body ended # atts) got seen =
     (if seq \<noteq> None \<and> seen \<noteq> None \<and> seq \<noteq> seen then fetch_loop n atts [] seq
      else let seen = (if seq \<noteq> None then seq else seen)
           in if status \<noteq> 200 \<and> status \<noteq> 206 then Inl ''checkpoint HTTP''
              else let got = (if status = 200 then [] else got) @ body
                   in if ended then Inr got else fetch_loop n atts got seen)"

definition checkpoint_fetch :: "FetchAttempt list \<Rightarrow> string + bytes" where
  "checkpoint_fetch atts = fetch_loop 4 atts [] None"

text \<open>The byte the next attempt asks from, as the \<^verbatim>\<open>range\<close> header says it (\<open>None\<close> without the header).\<close>

definition range_from :: "bytes \<Rightarrow> nat option" where
  "range_from got = (if got = [] then None else Some (length got))"

section \<open>Publishing a legacy document\<close>

text \<open>The operations of a peer from \<open>start\<close> to \<open>stop\<close>, exported; a range that is too large is halved.\<close>

function split_range :: "(int \<Rightarrow> int \<Rightarrow> bytes option) \<Rightarrow> int \<Rightarrow> int \<Rightarrow> bytes list option" where
  "split_range export start stop =
     (case export start stop of
        None \<Rightarrow> None
      | Some bs \<Rightarrow>
          if length bs \<le> MAX_PUSH_BYTES \<or> stop - start \<le> 1 then Some [bs]
          else let middle = start + (stop - start) div 2 in
            (case split_range export start middle of
               None \<Rightarrow> None
             | Some xs \<Rightarrow>
                 (case split_range export middle stop of None \<Rightarrow> None | Some ys \<Rightarrow> Some (xs @ ys))))"
  by pat_completeness auto
termination by (relation "measure (\<lambda>(_, start, stop). nat (stop - start))") auto

declare split_range.simps [simp del]

fun publish_peers :: "(u64 \<Rightarrow> int \<Rightarrow> int \<Rightarrow> bytes option) \<Rightarrow> (u64 \<times> int) list \<Rightarrow> bytes list option" where
  "publish_peers export [] = Some []"
| "publish_peers export ((peer, stop) # peers) =
     (if stop \<le> 0 then publish_peers export peers
      else case split_range (export peer) 0 stop of
             None \<Rightarrow> None
           | Some xs \<Rightarrow> (case publish_peers export peers of None \<Rightarrow> None | Some ys \<Rightarrow> Some (xs @ ys)))"

definition publication_updates :: "(u64 \<Rightarrow> int \<Rightarrow> int \<Rightarrow> bytes option) \<Rightarrow> (u64 \<times> int) list \<Rightarrow> bytes list option" where
  "publication_updates export vv = publish_peers export (sort_key fst vv)"

section \<open>Posting a checkpoint\<close>

text \<open>What is posted: the rows the cursor says are covered, the snapshot, its frontier, and the rejected
  batches the snapshot contains.\<close>

record CheckpointPost =
  pt_seq_covered :: u64
  pt_snapshot :: bytes
  pt_frontier :: bytes
  pt_covered :: "string list"

definition prepare_checkpoint ::
  "'v Loro \<Rightarrow> (nat \<Rightarrow> bool) \<Rightarrow> EngineSink ChatActor \<Rightarrow> CheckpointPost option \<times> EngineSink ChatActor" where
  "prepare_checkpoint L ok a =
     (let seq_covered = cs_cursor (chat_stats a);
          (r, e) = in_store (rejected_chat_updates ok (es_chat (ca_sink a))) (ca_sink a);
          rejected = (case r of Inr us \<Rightarrow> us | Inl _ \<Rightarrow> []);
          snapshot = lo_export L (es_doc e)
      in (case Option.bind (map_option (lo_encode_vv L) (lo_blob_end L snapshot))
                 (\<lambda>frontier. map_option (\<lambda>vv. (frontier, vv)) (lo_decode_vv L frontier)) of
            None \<Rightarrow> None
          | Some (frontier, vv) \<Rightarrow> Some
              \<lparr>pt_seq_covered = seq_covered, pt_snapshot = snapshot, pt_frontier = frontier,
               pt_covered = map fst (filter (\<lambda>(b, u). case lo_blob_end L u of
                 None \<Rightarrow> False | Some stop \<Rightarrow> lo_vv_includes L vv stop) rejected)\<rparr>,
          with_sink e a))"

definition checkpoint_posted ::
  "(nat \<Rightarrow> bool) \<Rightarrow> CheckpointPost \<Rightarrow> EngineSink ChatActor \<Rightarrow> EngineSink ChatActor" where
  "checkpoint_posted ok p a =
     note_checkpoint (pt_seq_covered p) (of_nat (length (pt_snapshot p)))
       (with_sink (fold (\<lambda>b e. snd (in_store (acknowledge_chat_update ok (es_chat e) b) e)) (pt_covered p) (ca_sink a)) a)"

definition checkpoint_threshold :: "ChatStatsSnapshot \<Rightarrow> bool" where
  "checkpoint_threshold st \<longleftrightarrow> \<not> (cs_row_bytes st \<le> 512 * 1024 \<and> cs_row_count st \<le> 200)"

section \<open>What the document holds\<close>

text \<open>\<open>covers k b\<close> says that the operations of the update \<open>b\<close> are among those of the blob \<open>k\<close>. The document
  holds an update that it imported without parking it, or that a snapshot of it has covered.\<close>

definition doc_has :: "'v Loro \<Rightarrow> (bytes \<Rightarrow> bytes \<Rightarrow> bool) \<Rightarrow> EngineSink \<Rightarrow> bytes \<Rightarrow> bool" where
  "doc_has L covers e b \<longleftrightarrow>
     \<not> es_alive e \<or> (\<exists>st. (b, st) \<in> set (es_doc e) \<and> st \<noteq> Parked) \<or>
     (\<exists>pre post. es_doc e = pre @ post \<and> covers (lo_export L pre) b)"

text \<open>Loro's documented behaviour: a snapshot carries what was imported and does not lose it, operations
  are compared as sets, and a document whose version includes the end of a snapshot has the operations of
  the snapshot.\<close>

definition loro_ok :: "'v Loro \<Rightarrow> (bytes \<Rightarrow> bytes \<Rightarrow> bool) \<Rightarrow> bool" where
  "loro_ok L covers \<longleftrightarrow>
     (\<forall>h b st. (b, st) \<in> set h \<longrightarrow> st \<noteq> Parked \<longrightarrow> covers (lo_export L h) b) \<and>
     (\<forall>pre post b. covers (lo_export L pre) b \<longrightarrow> covers (lo_export L (pre @ post)) b) \<and>
     (\<forall>x y z. covers x y \<longrightarrow> covers y z \<longrightarrow> covers x z) \<and>
     (\<forall>h k vv vv' b. lo_blob_end L k = Some vv \<longrightarrow> lo_decode_vv L (lo_encode_vv L vv) = Some vv' \<longrightarrow>
        lo_includes L h vv' \<longrightarrow> covers k b \<longrightarrow> covers (lo_export L h) b)"

definition extends :: "EngineSink \<Rightarrow> EngineSink \<Rightarrow> bool" where
  "extends e e' \<longleftrightarrow> es_alive e' = es_alive e \<and> (\<exists>post. es_doc e' = es_doc e @ post)"

lemma doc_has_extends: "doc_has L covers e b \<Longrightarrow> extends e e' \<Longrightarrow> doc_has L covers e' b"
proof -
  assume h: "doc_has L covers e b" and x: "extends e e'"
  then obtain post where d: "es_doc e' = es_doc e @ post" "es_alive e' = es_alive e" by (auto simp: extends_def)
  from h consider "\<not> es_alive e" | st where "(b, st) \<in> set (es_doc e)" "st \<noteq> Parked"
    | pre post0 where "es_doc e = pre @ post0" "covers (lo_export L pre) b" by (auto simp: doc_has_def)
  then show "doc_has L covers e' b"
  proof cases
    case 3
    then have "es_doc e' = pre @ (post0 @ post)" using d by simp
    with 3 show ?thesis unfolding doc_has_def by blast
  qed (use d in \<open>auto simp: doc_has_def\<close>)
qed

lemma extends_refl [simp]: "extends e e"
  by (simp add: extends_def)

lemma extends_same: "es_doc e' = es_doc e \<Longrightarrow> es_alive e' = es_alive e \<Longrightarrow> extends e e'"
  by (simp add: extends_def)

lemma on_persistence_simps [simp]:
  "es_doc (on_persistence f e) = es_doc e" "es_alive (on_persistence f e) = es_alive e"
  "es_store (on_persistence f e) = es_store e" "es_persistence (on_persistence f e) = f (es_persistence e)"
  by (simp_all add: on_persistence_def)

lemma flush_doc [simp]:
  "es_doc (flush_sync L ok now e) = es_doc e" "es_alive (flush_sync L ok now e) = es_alive e"
  by (auto simp: flush_sync_def flush_write_def Let_def split: option.splits sum.splits prod.splits)

lemma dirty_doc [simp]:
  "es_doc (dirty L ok now i e) = es_doc e" "es_alive (dirty L ok now i e) = es_alive e"
  by (auto simp: dirty_def Let_def)

lemma applied_doc [simp]:
  "es_doc (applied L ok now c i e) = es_doc e" "es_alive (applied L ok now c i e) = es_alive e"
  by (simp_all add: applied_def)

lemma reset_doc [simp]:
  "es_doc (persistence_reset_cursor L ok now c e) = es_doc e"
  "es_alive (persistence_reset_cursor L ok now c e) = es_alive e"
  by (simp_all add: persistence_reset_cursor_def Let_def)

lemma in_store_doc [simp]:
  "es_doc (snd (in_store f e)) = es_doc e" "es_alive (snd (in_store f e)) = es_alive e"
  by (auto simp: in_store_def split: prod.splits)

lemma import_row_extends: "extends e (snd (import_row L ok now b c e))"
  by (auto simp: import_row_def Let_def extends_def)

lemma import_row_holds: "import_row L ok now b c e = (RowApplied, e') \<Longrightarrow> doc_has L covers e' b"
  by (auto simp: import_row_def Let_def doc_has_def split: if_splits)

lemma checkpoint_extends: "extends e (snd (engine_apply_checkpoint L ok now b c e))"
  by (auto simp: engine_apply_checkpoint_def Let_def extends_def persist_with_cursor_def split: ImportStatus.splits)

lemma checkpoint_holds: "engine_apply_checkpoint L ok now b c e = (Inr v, e') \<Longrightarrow> doc_has L covers e' b"
  by (auto simp: engine_apply_checkpoint_def Let_def doc_has_def persist_with_cursor_def split: if_splits ImportStatus.splits)

interpretation engine: chat_sink "engine_sink L ok now" "doc_has L covers" for L ok now covers
  by unfold_locales
    (auto simp: engine_sink_def persist_with_cursor_def intro: doc_has_extends [OF _ extends_same]
      doc_has_extends [OF _ import_row_extends] doc_has_extends [OF _ checkpoint_extends]
      import_row_holds checkpoint_holds)

lemma loro_okD:
  assumes "loro_ok L covers"
  shows "(b, st) \<in> set h \<Longrightarrow> st \<noteq> Parked \<Longrightarrow> covers (lo_export L h) b"
    "covers (lo_export L pre) b \<Longrightarrow> covers (lo_export L (pre @ post)) b"
    "covers x y \<Longrightarrow> covers y z \<Longrightarrow> covers x z"
    "lo_blob_end L k = Some vv \<Longrightarrow> lo_decode_vv L (lo_encode_vv L vv) = Some vv' \<Longrightarrow> lo_includes L h vv' \<Longrightarrow>
       covers k b \<Longrightarrow> covers (lo_export L h) b"
  using assms unfolding loro_ok_def by blast+

lemma doc_has_covered:
  assumes "loro_ok L covers" "doc_has L covers e b" "es_alive e"
  shows "covers (lo_export L (es_doc e)) b"
  using assms(2,3) by (auto simp: doc_has_def intro: loro_okD(1,2) [OF assms(1)])

lemma doc_has_snapshot: "covers (lo_export L (es_doc e)) b \<Longrightarrow> doc_has L covers e b"
  unfolding doc_has_def by (metis append_Nil2)

lemma doc_has_blob:
  assumes "loro_ok L covers" "doc_has L covers e k" "covers k b"
  shows "doc_has L covers e b"
proof (cases "es_alive e")
  case True
  show ?thesis
    by (rule doc_has_snapshot) (rule loro_okD(3) [OF assms(1) doc_has_covered [OF assms(1,2) True] assms(3)])
qed (simp add: doc_has_def)

end
