(* ===== verification/Chat_Room.thy ===== *)
theory Chat_Room
  imports Chat_Frames
begin

text \<open>
  The room of a chat on the server: the log of opaque updates with its one checkpoint
  (\<^verbatim>\<open>src/edge/src/chat-log.ts\<close>) and the requests and frames it answers (\<^verbatim>\<open>src/edge/src/chat-room.ts\<close>).

  The tables are lists in the order of the sequence number. A frame sent is paired with the socket it goes
  to. Numbers are integers; the server's are below \<open>2 ^ 53\<close>, where a JavaScript number is exact. The size of
  an encoded frame is \<open>wire_len\<close>, an argument. Ownership, the table of presence beats, sidecars, statistics and the nightly
  backup are not modelled; a header's
  number is an integer and the length of a batch id is in bytes.
\<close>

section \<open>The log\<close>

definition MAX_ROW_BYTES :: nat where "MAX_ROW_BYTES = 1024 * 1024"
definition MAX_CHECKPOINT_BYTES :: nat where "MAX_CHECKPOINT_BYTES = 32 * 1024 * 1024"

record LogRow =
  lr_seq :: nat
  lr_device :: string
  lr_batch_id :: string
  lr_bytes :: bytes

record ChatLog =
  cl_rows :: "LogRow list"
  cl_head :: nat
  cl_floor :: nat
  cl_checkpoint_seq :: nat
  cl_checkpoint_size :: nat
  cl_checkpoint :: "bytes option"
  cl_frontier :: "bytes option"

definition ensureChatLog :: ChatLog where
  "ensureChatLog = \<lparr>cl_rows = [], cl_head = 0, cl_floor = 0, cl_checkpoint_seq = 0, cl_checkpoint_size = 0,
     cl_checkpoint = None, cl_frontier = None\<rparr>"

text \<open>An append answers with an error, or the row's number and whether the batch was known.\<close>

definition appendRow :: "string \<Rightarrow> string \<Rightarrow> bytes \<Rightarrow> ChatLog \<Rightarrow> (string + nat \<times> bool) \<times> ChatLog" where
  "appendRow device batch bs l =
     (if bs = [] then (Inl ''empty'', l)
      else if length bs > MAX_ROW_BYTES then (Inl ''too_large'', l)
      else case find (\<lambda>r. lr_batch_id r = batch) (cl_rows l) of
             Some r \<Rightarrow> (Inr (lr_seq r, True), l)
           | None \<Rightarrow>
               let seq = cl_head l + 1 in
               (Inr (seq, False),
                l\<lparr>cl_rows := cl_rows l @ [\<lparr>lr_seq = seq, lr_device = device, lr_batch_id = batch, lr_bytes = bs\<rparr>],
                  cl_head := seq\<rparr>))"

definition rowsAfter :: "nat \<Rightarrow> string option \<Rightarrow> ChatLog \<Rightarrow> LogRow list" where
  "rowsAfter after exclude l = filter (\<lambda>r. lr_seq r > after \<and> Some (lr_device r) \<noteq> exclude) (cl_rows l)"

definition commitCheckpoint :: "nat \<Rightarrow> bytes \<Rightarrow> bytes \<Rightarrow> ChatLog \<Rightarrow> (string + nat) \<times> ChatLog" where
  "commitCheckpoint covered frontier bs l =
     (if bs = [] then (Inl ''empty'', l)
      else if covered < cl_floor l then (Inl ''floor_regression'', l)
      else if covered > cl_head l then (Inl ''ahead_of_head'', l)
      else (Inr covered,
            l\<lparr>cl_checkpoint := Some bs, cl_frontier := Some frontier,
              cl_rows := filter (\<lambda>r. \<not> lr_seq r \<le> covered) (cl_rows l),
              cl_floor := covered, cl_checkpoint_seq := covered, cl_checkpoint_size := length bs\<rparr>))"

section \<open>Frames of the room\<close>

definition logStats :: "ChatLog \<Rightarrow> json" where
  "logStats l = JObj
     [(''headSeq'', JInt (int (cl_head l))), (''seqFloor'', JInt (int (cl_floor l))),
      (''checkpointSeq'', JInt (int (cl_checkpoint_seq l))), (''checkpointSize'', JInt (int (cl_checkpoint_size l))),
      (''rowCount'', JInt (int (length (cl_rows l)))),
      (''rowBytes'', JInt (int (sum_list (map (length \<circ> lr_bytes) (cl_rows l)))))]"

definition frame :: "byte \<Rightarrow> json \<Rightarrow> bytes \<Rightarrow> WireFrame" where
  "frame kind header payload = \<lparr>wf_kind = kind, wf_header = header, wf_payload = payload\<rparr>"

definition stateFrame :: "ChatLog \<Rightarrow> WireFrame" where
  "stateFrame l = frame FT_STATE (logStats l) (case cl_frontier l of None \<Rightarrow> [] | Some f \<Rightarrow> f)"

definition row_json :: "nat \<Rightarrow> string \<Rightarrow> string \<Rightarrow> json" where
  "row_json seq device batch = JObj [(''seq'', JInt (int seq)), (''device'', JStr device), (''batchId'', JStr batch)]"

definition rowFrame :: "LogRow \<Rightarrow> WireFrame" where
  "rowFrame r = frame FT_ROW (row_json (lr_seq r) (lr_device r) (lr_batch_id r)) (lr_bytes r)"

definition rowsDoneFrame :: "ChatLog \<Rightarrow> WireFrame" where
  "rowsDoneFrame l = frame FT_ROWS_DONE (JObj [(''headSeq'', JInt (int (cl_head l)))]) []"

definition errorFrame :: "string \<Rightarrow> string \<Rightarrow> string option \<Rightarrow> WireFrame" where
  "errorFrame code message batch = frame FT_ERROR
     (JObj ([(''code'', JStr code), (''message'', JStr message)] @
        (case batch of None \<Rightarrow> [] | Some b \<Rightarrow> [(''batchId'', JStr b)]))) []"

section \<open>The room\<close>

definition QUOTA_WINDOW_MS :: int where "QUOTA_WINDOW_MS = 60000"
definition QUOTA_MAX_PUSHES :: nat where "QUOTA_MAX_PUSHES = 300"
definition QUOTA_MAX_BYTES :: nat where "QUOTA_MAX_BYTES = 8 * 1024 * 1024"
definition ROWS_BODY_CAP :: nat where "ROWS_BODY_CAP = 4 * 1024 * 1024"

record RoomSocket =
  so_id :: nat
  so_device :: string
  so_ready :: bool

record QuotaWindow =
  qw_since :: int
  qw_pushes :: nat
  qw_bytes :: nat

record ChatRoom =
  cr_log :: ChatLog
  cr_sockets :: "RoomSocket list"
  cr_quotas :: "(string, QuotaWindow) hmap"

type_synonym sends = "(nat \<times> WireFrame) list"

definition accept_socket :: "nat \<Rightarrow> string \<Rightarrow> ChatRoom \<Rightarrow> ChatRoom" where
  "accept_socket sock device R = R\<lparr>cr_sockets := cr_sockets R @ [\<lparr>so_id = sock, so_device = device, so_ready = False\<rparr>]\<rparr>"

definition close_socket :: "nat \<Rightarrow> ChatRoom \<Rightarrow> ChatRoom" where
  "close_socket sock R = R\<lparr>cr_sockets := filter (\<lambda>k. so_id k \<noteq> sock) (cr_sockets R)\<rparr>"

definition admitQuota :: "int \<Rightarrow> string \<Rightarrow> nat \<Rightarrow> ChatRoom \<Rightarrow> bool \<times> ChatRoom" where
  "admitQuota now device n R =
     (let key = (if device = [] then ''(unknown)'' else device);
          fresh = \<lparr>qw_since = now, qw_pushes = 0, qw_bytes = 0\<rparr>;
          w = (case map_of (cr_quotas R) key of
                 None \<Rightarrow> fresh
               | Some w \<Rightarrow> if now - qw_since w > QUOTA_WINDOW_MS then fresh else w);
          w = w\<lparr>qw_pushes := qw_pushes w + 1, qw_bytes := qw_bytes w + n\<rparr>
      in (qw_pushes w \<le> QUOTA_MAX_PUSHES \<and> qw_bytes w \<le> QUOTA_MAX_BYTES,
          R\<lparr>cr_quotas := AList.update key w (cr_quotas R)\<rparr>))"

definition chat_relay :: "(RoomSocket \<Rightarrow> bool) \<Rightarrow> LogRow \<Rightarrow> ChatRoom \<Rightarrow> sends" where
  "chat_relay to r R = map (\<lambda>k. (so_id k, rowFrame r)) (filter (\<lambda>k. to k \<and> so_ready k) (cr_sockets R))"

definition room_hello :: "RoomSocket \<Rightarrow> json \<Rightarrow> ChatRoom \<Rightarrow> sends \<times> ChatRoom" where
  "room_hello k header R =
     (let device = (case member_str header ''device'' of Some d \<Rightarrow> if d \<noteq> [] then d else so_device k | None \<Rightarrow> so_device k)
      in ([(so_id k, stateFrame (cr_log R))],
          R\<lparr>cr_sockets := map (\<lambda>j. if so_id j = so_id k then j\<lparr>so_device := device, so_ready := True\<rparr> else j) (cr_sockets R)\<rparr>))"

definition room_rows_req :: "RoomSocket \<Rightarrow> json \<Rightarrow> ChatRoom \<Rightarrow> sends" where
  "room_rows_req k header R =
     (if \<not> so_ready k then [(so_id k, errorFrame ''hello_first'' ''rows before hello'' None)]
      else let after = (case json_get header ''after'' of Some (JInt i) \<Rightarrow> nat i | _ \<Rightarrow> 0);
               exclude = (if json_get header ''excludeOwn'' = Some (JBool True) then Some (so_device k) else None)
           in map (\<lambda>r. (so_id k, rowFrame r)) (rowsAfter after exclude (cr_log R)) @
              [(so_id k, rowsDoneFrame (cr_log R))])"

definition ack_json :: "string \<Rightarrow> nat \<Rightarrow> bool \<Rightarrow> json" where
  "ack_json batch seq dup = JObj [(''batchId'', JStr batch), (''seq'', JInt (int seq)), (''dup'', JBool dup)]"

definition room_push :: "int \<Rightarrow> RoomSocket \<Rightarrow> json \<Rightarrow> bytes \<Rightarrow> ChatRoom \<Rightarrow> sends \<times> ChatRoom" where
  "room_push now k header payload R =
     (let batch = (case member_str header ''batchId'' of None \<Rightarrow> [] | Some b \<Rightarrow> b) in
      if \<not> so_ready k \<or> batch = [] \<or> length batch > 128
      then ([(so_id k, errorFrame ''bad_push'' ''hello first / malformed push'' (Some batch))], R)
      else case admitQuota now (so_device k) (length payload) R of
        (False, R) \<Rightarrow> ([(so_id k, errorFrame ''quota'' ''per-device push quota exceeded'' (Some batch))], R)
      | (True, R) \<Rightarrow>
          (case appendRow (so_device k) batch payload (cr_log R) of
             (Inl e, l) \<Rightarrow> ([(so_id k, errorFrame e (''push rejected: '' @ e) (Some batch))], R\<lparr>cr_log := l\<rparr>)
           | (Inr (seq, dup), l) \<Rightarrow>
               ((if dup then [] else chat_relay (\<lambda>j. so_id j \<noteq> so_id k)
                   \<lparr>lr_seq = seq, lr_device = so_device k, lr_batch_id = batch, lr_bytes = payload\<rparr> R) @
                [(so_id k, frame FT_ACK (ack_json batch seq dup) [])],
                R\<lparr>cr_log := l\<rparr>)))"

definition room_presence :: "int \<Rightarrow> RoomSocket \<Rightarrow> json \<Rightarrow> bytes \<Rightarrow> ChatRoom \<Rightarrow> sends" where
  "room_presence now k header payload R =
     (if \<not> so_ready k \<or> so_device k = [] then []
      else let at = (case json_get header ''at'' of Some (JInt i) \<Rightarrow> i | _ \<Rightarrow> now);
               f = frame FT_PRESENCE (JObj [(''device'', JStr (so_device k)), (''at'', JInt at)]) payload
           in map (\<lambda>j. (so_id j, f)) (filter (\<lambda>j. so_id j \<noteq> so_id k \<and> so_ready j) (cr_sockets R)))"

definition room_message :: "int \<Rightarrow> RoomSocket \<Rightarrow> WireFrame option \<Rightarrow> ChatRoom \<Rightarrow> sends \<times> ChatRoom" where
  "room_message now k message R =
     (case message of
        None \<Rightarrow> ([(so_id k, errorFrame ''bad_frame'' ''malformed frame'' None)], R)
      | Some f \<Rightarrow>
          if wf_kind f = FT_HELLO then room_hello k (wf_header f) R
          else if wf_kind f = FT_ROWS_REQ then (room_rows_req k (wf_header f) R, R)
          else if wf_kind f = FT_PUSH then room_push now k (wf_header f) (wf_payload f) R
          else if wf_kind f = FT_PRESENCE then (room_presence now k (wf_header f) (wf_payload f) R, R)
          else if wf_kind f = FT_PROBE
               then ([(so_id k, frame FT_PROBE_OK (JObj [(''headSeq'', JInt (int (cl_head (cr_log R))))]) [])], R)
          else ([(so_id k, errorFrame ''bad_frame'' ''unexpected type'' None)], R))"

text \<open>The rows of a pull, up to the cap; a pull that is cut short has no end frame.\<close>

fun cap_frames :: "(WireFrame \<Rightarrow> nat) \<Rightarrow> nat \<Rightarrow> WireFrame list \<Rightarrow> WireFrame list \<times> bool" where
  "cap_frames wire_len used [] = ([], False)"
| "cap_frames wire_len used (f # fs) =
     (let used = used + 4 + wire_len f in
      if used > ROWS_BODY_CAP then ([], True)
      else map_prod (\<lambda>kept. f # kept) id (cap_frames wire_len used fs))"

definition get_rows :: "(WireFrame \<Rightarrow> nat) \<Rightarrow> nat \<Rightarrow> string option \<Rightarrow> ChatRoom \<Rightarrow> WireFrame list" where
  "get_rows wire_len after exclude R =
     (let l = cr_log R;
          (rows, truncated) = cap_frames wire_len 0 (map rowFrame (rowsAfter after exclude l))
      in stateFrame l # rows @ (if truncated then [] else [rowsDoneFrame l]))"

text \<open>A push over HTTPS: the acknowledgement, or the error of the answer.\<close>

definition post_rows :: "int \<Rightarrow> string \<Rightarrow> string \<Rightarrow> bytes \<Rightarrow> ChatRoom \<Rightarrow> (string + nat \<times> bool) \<times> sends \<times> ChatRoom" where
  "post_rows now device batch payload R =
     (if batch = [] \<or> length batch > 128 then (Inl ''bad_push'', [], R)
      else if length payload > MAX_ROW_BYTES + 4096 then (Inl ''too_large'', [], R)
      else case admitQuota now device (length payload) R of
        (False, R) \<Rightarrow> (Inl ''quota'', [], R)
      | (True, R) \<Rightarrow>
          (case appendRow device batch payload (cr_log R) of
             (Inl e, l) \<Rightarrow> (Inl e, [], R\<lparr>cr_log := l\<rparr>)
           | (Inr (seq, dup), l) \<Rightarrow>
               (Inr (seq, dup),
                if dup then [] else chat_relay (\<lambda>_. True)
                  \<lparr>lr_seq = seq, lr_device = device, lr_batch_id = batch, lr_bytes = payload\<rparr> R,
                R\<lparr>cr_log := l\<rparr>)))"

definition post_checkpoint :: "nat \<Rightarrow> bytes \<Rightarrow> bytes \<Rightarrow> ChatRoom \<Rightarrow> (string + nat) \<times> ChatRoom" where
  "post_checkpoint covered frontier body R =
     (if frontier = [] \<and> covered > 0 then (Inl ''bad_frontier'', R)
      else if length body > MAX_CHECKPOINT_BYTES then (Inl ''too_large'', R)
      else case commitCheckpoint covered frontier body (cr_log R) of (r, l) \<Rightarrow> (r, R\<lparr>cr_log := l\<rparr>))"

definition room_reset :: "ChatRoom \<Rightarrow> ChatRoom" where
  "room_reset R = R\<lparr>cr_log := ensureChatLog, cr_sockets := []\<rparr>"

end
