(* ===== verification/Chat_Sync.thy ===== *)
theory Chat_Sync
  imports Chat_Host Chat_Room
begin

text \<open>
  A chat room, one device of it and the network between them.

  The device runs the client over its document: a socket session, at most one cycle over HTTPS beside it,
  local edits, and the posting of checkpoints. The room answers both transports; other devices push rows and
  post checkpoints. Frames of a session arrive in order or are lost with it, answers over HTTPS arrive late
  or not at all, a checkpoint that is fetched is any posted one that reaches as far as the state said.

  The host may let go of the document (\<open>NEvict\<close>), which the sink then no longer reaches.

  The network also keeps what no part of the program knows: every update ever given a number (\<open>cn_log\<close>),
  every checkpoint ever committed (\<open>cn_marks\<close>), and the debt of the cursor (\<open>cn_owed\<close>, in \<open>Chat_Contract\<close>).
\<close>

record 'v ChatEnv =
  ne_loro :: "'v Loro"
  ne_sql :: "nat \<Rightarrow> bool"
  ne_wire_len :: "WireFrame \<Rightarrow> nat"
  ne_content :: "string \<Rightarrow> bytes"

record ChatNet =
  cn_room :: ChatRoom
  cn_actor :: "EngineSink ChatActor"
  cn_phase :: "Phase option"
  cn_sock :: nat
  cn_up :: "WireFrame list"
  cn_down :: "WireFrame list"
  cn_http :: "HttpPhase option"
  cn_reply :: "HttpEvent option"
  cn_post :: "CheckpointPost option"
  cn_log :: "bytes list"
  cn_marks :: "(nat \<times> bytes \<times> bytes) list"
  cn_owed :: nat

abbreviation sink_at :: "'v ChatEnv \<Rightarrow> int \<Rightarrow> EngineSink Sink" where
  "sink_at E now \<equiv> engine_sink (ne_loro E) (ne_sql E) now"

text \<open>The update with a number, numbers starting at one.\<close>

definition row_at :: "bytes list \<Rightarrow> nat \<Rightarrow> bytes" where
  "row_at log i = (if 0 < i \<and> i \<le> length log then log ! (i - 1) else [])"

definition log_after :: "ChatRoom \<Rightarrow> ChatRoom \<Rightarrow> bytes \<Rightarrow> bytes list \<Rightarrow> bytes list" where
  "log_after R R' payload log = (if cl_head (cr_log R') > cl_head (cr_log R) then log @ [payload] else log)"

definition routed :: "sends \<Rightarrow> ChatNet \<Rightarrow> WireFrame list" where
  "routed out n = (if cn_phase n = None then [] else map snd (filter (\<lambda>(k, _). k = cn_sock n) out))"

definition session_over :: "ChatNet \<Rightarrow> ChatNet" where
  "session_over n = n\<lparr>cn_actor := snd (snd (chat_session_lost (cn_actor n))), cn_phase := None, cn_down := []\<rparr>"

definition absorb :: "EngineSink turn \<Rightarrow> ChatNet \<Rightarrow> ChatNet" where
  "absorb t n =
     (case t of
        (Inr ph, sent, a) \<Rightarrow> n\<lparr>cn_actor := a, cn_phase := Some ph, cn_up := cn_up n @ sent\<rparr>
      | (Inl _, sent, a) \<Rightarrow> session_over (n\<lparr>cn_actor := a, cn_up := cn_up n @ sent\<rparr>))"

datatype ChatNetEvent =
    NDial bool
  | NUp int
  | NDown int "nat \<Rightarrow> bool"
  | NSession int "nat \<Rightarrow> bool" ChatSessionEvent
  | NFetched int "nat \<Rightarrow> bool" nat
  | NLocal int string
  | NOther int string string
  | NOtherPost nat bytes bytes
  | NHttpStart int
  | NHttpServe int
  | NHttpReply int
  | NHttpLost int
  | NHttpFetched int nat
  | NPrepare
  | NPostServe bool
  | NPostLost
  | NEvict
  | NReset

definition turn_in :: "'v ChatEnv \<Rightarrow> int \<Rightarrow> (nat \<Rightarrow> bool) \<Rightarrow> nat \<Rightarrow> ChatSessionEvent \<Rightarrow> Phase \<Rightarrow> ChatNet \<Rightarrow> ChatNet" where
  "turn_in E now acc q ev ph n =
     (absorb (session_turn (sink_at E now) acc now ev ph (cn_actor n)) n)
       \<lparr>cn_owed := owed_after_turn (sink_at E now) q ev ph (cn_actor n) (cn_owed n)\<rparr>"

definition http_in :: "'v ChatEnv \<Rightarrow> int \<Rightarrow> nat \<Rightarrow> HttpEvent \<Rightarrow> HttpPhase \<Rightarrow> ChatNet \<Rightarrow> ChatNet" where
  "http_in E now q ev ph n =
     (case http_turn (sink_at E now) ev ph (cn_actor n) of
        (ph', a) \<Rightarrow> n\<lparr>cn_actor := a, cn_http := ph', cn_reply := None,
                     cn_owed := owed_after_http (sink_at E now) q ev ph (cn_actor n) (cn_owed n)\<rparr>)"

definition lost_event :: "HttpPhase \<Rightarrow> HttpEvent" where
  "lost_event ph = (case ph of HttpPosting _ _ \<Rightarrow> HtPosted None | HttpPulling _ _ _ \<Rightarrow> HtBody None
     | HttpFetching _ _ _ _ _ \<Rightarrow> HtCheckpoint None)"

text \<open>Bytes from the socket and checkpoints come through \<open>NDown\<close> and \<open>NFetched\<close> only.\<close>

fun own_event :: "ChatSessionEvent \<Rightarrow> bool" where
  "own_event (EvBytes (Some _)) \<longleftrightarrow> False"
| "own_event (EvFetched _) \<longleftrightarrow> False"
| "own_event _ \<longleftrightarrow> True"

definition room_full :: "ChatNet \<Rightarrow> bool" where
  "room_full n \<longleftrightarrow> cl_head (cr_log (cn_room n)) + 1 \<ge> 2 ^ 53"

definition commit_local :: "'v ChatEnv \<Rightarrow> int \<Rightarrow> string \<Rightarrow> EngineSink ChatActor \<Rightarrow> EngineSink ChatActor" where
  "commit_local E now batch a =
     enqueue_batch (sink_at E now) batch (ne_content E batch)
       (with_sink ((ca_sink a)\<lparr>es_doc := es_doc (ca_sink a) @ [(ne_content E batch, Imported)]\<rparr>) a)"

definition chat_step :: "'v ChatEnv \<Rightarrow> ChatNetEvent \<Rightarrow> ChatNet \<Rightarrow> ChatNet option" where
  "chat_step E ev n =
     (case ev of
        NDial acc \<Rightarrow>
          if cn_phase n \<noteq> None then None
          else let a = snd (chat_dial_attempt (cn_actor n)); sock = cn_sock n + 1;
                   n = n\<lparr>cn_room := accept_socket sock (ca_device_id a) (close_socket (cn_sock n) (cn_room n)),
                         cn_sock := sock, cn_up := [], cn_down := []\<rparr>
               in Some (absorb (start_session acc a) n)
      | NUp now \<Rightarrow>
          (case cn_up n of
             [] \<Rightarrow> None
           | f # fs \<Rightarrow>
               (case find (\<lambda>k. so_id k = cn_sock n) (cr_sockets (cn_room n)) of
                  None \<Rightarrow> Some (n\<lparr>cn_up := fs\<rparr>)
                | Some k \<Rightarrow>
                    if room_full n then None
                    else case room_message now k (Some f) (cn_room n) of
                      (out, R) \<Rightarrow> Some (n\<lparr>cn_room := R, cn_up := fs, cn_down := cn_down n @ routed out n,
                                          cn_log := log_after (cn_room n) R (wf_payload f) (cn_log n)\<rparr>)))
      | NDown now acc \<Rightarrow>
          (case (cn_phase n, cn_down n) of
             (Some ph, f # fs) \<Rightarrow> Some (turn_in E now acc 0 (EvBytes (Some f)) ph (n\<lparr>cn_down := fs\<rparr>))
           | _ \<Rightarrow> None)
      | NSession now acc e \<Rightarrow>
          (case cn_phase n of
             None \<Rightarrow> None
           | Some ph \<Rightarrow> if own_event e then Some (turn_in E now acc 0 e ph n) else None)
      | NFetched now acc i \<Rightarrow>
          (case cn_phase n of
             Some (Fetching st gen fl buf) \<Rightarrow>
               if i < length (cn_marks n) \<and> unat (sh_checkpoint_seq st) \<le> fst (cn_marks n ! i)
               then Some (turn_in E now acc (fst (cn_marks n ! i)) (EvFetched (snd (snd (cn_marks n ! i))))
                      (Fetching st gen fl buf) n)
               else None
           | _ \<Rightarrow> None)
      | NLocal now batch \<Rightarrow> Some (n\<lparr>cn_actor := commit_local E now batch (cn_actor n)\<rparr>)
      | NOther now device batch \<Rightarrow>
          if room_full n then None
          else (case post_rows now device batch (ne_content E batch) (cn_room n) of
                  (_, out, R) \<Rightarrow> Some (n\<lparr>cn_room := R, cn_down := cn_down n @ routed out n,
                                        cn_log := log_after (cn_room n) R (ne_content E batch) (cn_log n)\<rparr>))
      | NOtherPost q frontier blob \<Rightarrow>
          (case post_checkpoint q frontier blob (cn_room n) of
             (Inl _, R) \<Rightarrow> None
           | (Inr _, R) \<Rightarrow> Some (n\<lparr>cn_room := R, cn_marks := cn_marks n @ [(q, frontier, blob)]\<rparr>))
      | NHttpStart now \<Rightarrow>
          if cn_http n \<noteq> None then None
          else (case spawn_offline_sync (sink_at E now) (cn_actor n) of
                  (ph, a) \<Rightarrow> Some (n\<lparr>cn_actor := a, cn_http := ph, cn_reply := None\<rparr>))
      | NHttpServe now \<Rightarrow>
          if cn_reply n \<noteq> None \<or> room_full n then None
          else (case cn_http n of
                  Some (HttpPosting p ps) \<Rightarrow>
                    (case post_rows now (ca_device_id (cn_actor n)) (pp_batch_id p) (pp_bytes p) (cn_room n) of
                       (r, out, R) \<Rightarrow> Some (n\<lparr>cn_room := R, cn_down := cn_down n @ routed out n,
                          cn_log := log_after (cn_room n) R (pp_bytes p) (cn_log n),
                          cn_reply := Some (HtPosted (case r of Inl _ \<Rightarrow> None
                            | Inr (seq, _) \<Rightarrow> Some (Some (pp_batch_id p, of_nat seq))))\<rparr>))
                | Some (HttpPulling cur _ _) \<Rightarrow>
                    Some (n\<lparr>cn_reply := Some (HtBody (Some (get_rows (ne_wire_len E) (unat cur) None (cn_room n))))\<rparr>)
                | _ \<Rightarrow> None)
      | NHttpReply now \<Rightarrow>
          (case (cn_http n, cn_reply n) of
             (Some ph, Some r) \<Rightarrow> Some (http_in E now 0 r ph n)
           | _ \<Rightarrow> None)
      | NHttpLost now \<Rightarrow>
          (case cn_http n of None \<Rightarrow> None | Some ph \<Rightarrow> Some (http_in E now 0 (lost_event ph) ph n))
      | NHttpFetched now i \<Rightarrow>
          (case cn_http n of
             Some (HttpFetching st after epoch gen fs) \<Rightarrow>
               if i < length (cn_marks n) \<and> unat (sh_checkpoint_seq st) \<le> fst (cn_marks n ! i)
               then Some (http_in E now (fst (cn_marks n ! i)) (HtCheckpoint (Some (snd (snd (cn_marks n ! i)))))
                      (HttpFetching st after epoch gen fs) n)
               else None
           | _ \<Rightarrow> None)
      | NPrepare \<Rightarrow>
          if \<not> es_alive (ca_sink (cn_actor n)) then None
          else (case prepare_checkpoint (ne_loro E) (ne_sql E) (cn_actor n) of
             (p, a) \<Rightarrow> Some (n\<lparr>cn_actor := a, cn_post := p\<rparr>))
      | NPostServe heard \<Rightarrow>
          (case cn_post n of
             None \<Rightarrow> None
           | Some p \<Rightarrow>
               (case post_checkpoint (unat (pt_seq_covered p)) (pt_frontier p) (pt_snapshot p) (cn_room n) of
                  (Inl _, R) \<Rightarrow> Some (n\<lparr>cn_post := None\<rparr>)
                | (Inr _, R) \<Rightarrow>
                    Some (n\<lparr>cn_room := R, cn_post := None,
                           cn_marks := cn_marks n @ [(unat (pt_seq_covered p), pt_frontier p, pt_snapshot p)],
                           cn_actor := (if heard then checkpoint_posted (ne_sql E) p (cn_actor n) else cn_actor n)\<rparr>)))
      | NPostLost \<Rightarrow> Some (n\<lparr>cn_post := None\<rparr>)
      | NEvict \<Rightarrow> Some (n\<lparr>cn_actor := with_sink ((ca_sink (cn_actor n))\<lparr>es_alive := False\<rparr>) (cn_actor n)\<rparr>)
      | NReset \<Rightarrow> Some (n\<lparr>cn_room := room_reset (cn_room n), cn_log := [], cn_marks := []\<rparr>))"

fun chat_run :: "'v ChatEnv \<Rightarrow> ChatNetEvent list \<Rightarrow> ChatNet \<Rightarrow> ChatNet option" where
  "chat_run E [] n = Some n"
| "chat_run E (ev # evs) n = (case chat_step E ev n of None \<Rightarrow> None | Some n' \<Rightarrow> chat_run E evs n')"

text \<open>A device that opens the chat for the first time, and a room that no one has used.\<close>

definition fresh_device :: "'v ChatEnv \<Rightarrow> string \<Rightarrow> string + EngineSink ChatActor" where
  "fresh_device E device =
     (case persistence_new (ne_sql E) True ''chat'' 0 store_open of
        (p, store) \<Rightarrow> chat_connect (sink_at E 0) device 0 True
          \<lparr>es_doc = [], es_alive = True, es_persistence = p, es_store = store\<rparr>)"

definition fresh_net :: "EngineSink ChatActor \<Rightarrow> ChatNet" where
  "fresh_net a =
     \<lparr>cn_room = \<lparr>cr_log = ensureChatLog, cr_sockets = [], cr_quotas = []\<rparr>, cn_actor = a, cn_phase = None,
      cn_sock = 0, cn_up = [], cn_down = [], cn_http = None, cn_reply = None, cn_post = None, cn_log = [],
      cn_marks = [], cn_owed = 0\<rparr>"

text \<open>What the contract asks of a run: other devices post honest checkpoints, this one posts none while its
  cursor is in debt, and the room is not reset.\<close>

definition faithful :: "'v Loro \<Rightarrow> (bytes \<Rightarrow> bytes \<Rightarrow> bool) \<Rightarrow> bytes \<Rightarrow> bytes \<Rightarrow> bool" where
  "faithful L covers frontier k \<longleftrightarrow>
     (\<forall>h vv b. lo_decode_vv L frontier = Some vv \<longrightarrow> lo_includes L h vv \<longrightarrow> covers k b \<longrightarrow> covers (lo_export L h) b)"

definition honest_mark :: "'v Loro \<Rightarrow> (bytes \<Rightarrow> bytes \<Rightarrow> bool) \<Rightarrow> bytes list \<Rightarrow> nat \<times> bytes \<times> bytes \<Rightarrow> bool" where
  "honest_mark L covers log = (\<lambda>(q, frontier, k).
     q \<le> length log \<and> faithful L covers frontier k \<and> (\<forall>i. 0 < i \<longrightarrow> i \<le> q \<longrightarrow> covers k (row_at log i)))"

fun chat_allowed :: "'v ChatEnv \<Rightarrow> (bytes \<Rightarrow> bytes \<Rightarrow> bool) \<Rightarrow> ChatNet \<Rightarrow> ChatNetEvent \<Rightarrow> bool" where
  "chat_allowed E covers n (NOtherPost q f k) \<longleftrightarrow> honest_mark (ne_loro E) covers (cn_log n) (q, f, k)"
| "chat_allowed E covers n NPrepare \<longleftrightarrow> cn_owed n = 0"
| "chat_allowed E covers n NReset \<longleftrightarrow> False"
| "chat_allowed E covers n _ \<longleftrightarrow> True"

fun allowed_run :: "'v ChatEnv \<Rightarrow> (bytes \<Rightarrow> bytes \<Rightarrow> bool) \<Rightarrow> ChatNetEvent list \<Rightarrow> ChatNet \<Rightarrow> bool" where
  "allowed_run E covers [] n \<longleftrightarrow> True"
| "allowed_run E covers (ev # evs) n \<longleftrightarrow>
     chat_allowed E covers n ev \<and> (case chat_step E ev n of None \<Rightarrow> True | Some n' \<Rightarrow> allowed_run E covers evs n')"

end
