(* ===== verification/Chat_Invariant.thy ===== *)
theory Chat_Invariant
  imports Chat_Sync
begin

text \<open>
  The invariant of the network of \<open>Chat_Sync\<close>: the log of the room is what was numbered, its checkpoint and
  every checkpoint in flight are honest (\<open>room_ok\<close>), the client keeps its contract (\<open>Chat_Contract\<close>), and
  every frame, answer and post between them is sound (\<open>link_ok\<close>). Each step keeps it (\<open>net_step\<close>): the room's
  operations by \<open>served\<close>, the device's turns by the interpretation of the locale \<open>chat_sink\<close> on the
  engine's sink.
\<close>

section \<open>The invariant\<close>

definition room_ok :: "'v ChatEnv \<Rightarrow> (bytes \<Rightarrow> bytes \<Rightarrow> bool) \<Rightarrow> bytes list \<Rightarrow> (nat \<times> bytes \<times> bytes) list \<Rightarrow> ChatLog \<Rightarrow> bool" where
  "room_ok E covers log marks l \<longleftrightarrow>
     cl_head l = length log \<and> length log < 2 ^ 53 \<and>
     (\<forall>r \<in> set (cl_rows l). 0 < lr_seq r \<and> lr_seq r \<le> length log \<and>
        lr_bytes r = row_at log (lr_seq r) \<and> lr_bytes r = ne_content E (lr_batch_id r)) \<and>
     (\<forall>i. cl_floor l < i \<and> i \<le> length log \<longrightarrow> i \<in> lr_seq ` set (cl_rows l)) \<and>
     cl_floor l = cl_checkpoint_seq l \<and> cl_floor l \<le> length log \<and>
     (cl_checkpoint_size l = 0 \<longrightarrow> cl_floor l = 0) \<and>
     (cl_checkpoint_size l \<noteq> 0 \<longrightarrow> (\<exists>f k. cl_frontier l = Some f \<and> cl_checkpoint l = Some k \<and>
        (cl_checkpoint_seq l, f, k) \<in> set marks)) \<and>
     (\<forall>m \<in> set marks. honest_mark (ne_loro E) covers log m)"

definition reply_ok :: "'v ChatEnv \<Rightarrow> (bytes \<Rightarrow> bytes \<Rightarrow> bool) \<Rightarrow> (nat \<Rightarrow> bytes) \<Rightarrow> nat \<Rightarrow> EngineSink \<Rightarrow> HttpEvent \<Rightarrow> bool" where
  "reply_ok E covers row N s r \<longleftrightarrow>
     (case r of
        HtPosted (Some (Some (b, seq))) \<Rightarrow> unat seq \<le> N \<and> doc_has (ne_loro E) covers s (row (unat seq))
      | HtBody (Some fs) \<Rightarrow> \<forall>f \<in> set fs. frame_ok (sink_at E 0) (doc_has (ne_loro E) covers) row N s f
      | HtCheckpoint (Some _) \<Rightarrow> False
      | _ \<Rightarrow> True)"

text \<open>Everything in flight between the device and the room, and the device itself.\<close>

definition link_ok :: "'v ChatEnv \<Rightarrow> (bytes \<Rightarrow> bytes \<Rightarrow> bool) \<Rightarrow> bytes list \<Rightarrow> nat \<Rightarrow> EngineSink ChatActor \<Rightarrow> ChatNet \<Rightarrow> bool" where
  "link_ok E covers log D a n \<longleftrightarrow>
     (let has = doc_has (ne_loro E) covers; row = row_at log; N = length log; s = ca_sink a; S = sink_at E 0 in
      (\<forall>ph. cn_phase n = Some ph \<longrightarrow> phase_ok S has row N s ph) \<and>
      (\<forall>f \<in> set (cn_up n). sent_ok has (ne_content E) s f) \<and>
      (\<forall>f \<in> set (cn_down n). frame_ok S has row N s f) \<and>
      (\<forall>ph. cn_http n = Some ph \<longrightarrow> http_ok S has row (ne_content E) N D s ph) \<and>
      (\<forall>r. cn_reply n = Some r \<longrightarrow> reply_ok E covers row N s r) \<and>
      (\<forall>p. cn_post n = Some p \<longrightarrow>
         honest_mark (ne_loro E) covers log (unat (pt_seq_covered p), pt_frontier p, pt_snapshot p)))"

definition net_ok :: "'v ChatEnv \<Rightarrow> (bytes \<Rightarrow> bytes \<Rightarrow> bool) \<Rightarrow> ChatNet \<Rightarrow> bool" where
  "net_ok E covers n \<longleftrightarrow>
     room_ok E covers (cn_log n) (cn_marks n) (cr_log (cn_room n)) \<and>
     client_ok (doc_has (ne_loro E) covers) (row_at (cn_log n)) (ne_content E) (length (cn_log n)) (cn_owed n) (cn_actor n) \<and>
     link_ok E covers (cn_log n) (cn_owed n) (cn_actor n) n"

section \<open>The log grows\<close>

lemma row_at_append [simp]: "n \<le> length log \<Longrightarrow> row_at (log @ xs) n = row_at log n"
  by (auto simp: row_at_def nth_append)

lemma row_at_last: "row_at (log @ [x]) (Suc (length log)) = x"
  by (simp add: row_at_def)

lemma frame_ok_sink: "frame_ok (sink_at E now) has row N s f = frame_ok (sink_at E 0) has row N s f"
  by (simp add: frame_ok_def state_ok_def engine_sink_def)

lemma phase_ok_sink: "phase_ok (sink_at E now) has row N s ph = phase_ok (sink_at E 0) has row N s ph"
  by (simp add: phase_ok_def frame_ok_sink [of E now] split: Phase.splits)

lemma http_ok_sink: "http_ok (sink_at E now) has row c N D s ph = http_ok (sink_at E 0) has row c N D s ph"
  by (simp add: http_ok_def frame_ok_sink [of E now] split: HttpPhase.splits)

lemma claims_log: "claims has (row_at log) D s c \<Longrightarrow> unat c \<le> length log \<Longrightarrow> claims has (row_at (log @ xs)) D s c"
  by (auto simp: claims_def)

lemma client_ok_log:
  "client_ok has (row_at log) content (length log) D a \<Longrightarrow>
   client_ok has (row_at (log @ xs)) content (length (log @ xs)) D a"
  by (auto simp: client_ok_def claims_log)

lemma frame_ok_log:
  "frame_ok S has (row_at log) (length log) s f \<Longrightarrow> frame_ok S has (row_at (log @ xs)) (length (log @ xs)) s f"
  by (auto simp: frame_ok_def state_ok_def)

lemma phase_ok_log:
  "phase_ok S has (row_at log) (length log) s ph \<Longrightarrow> phase_ok S has (row_at (log @ xs)) (length (log @ xs)) s ph"
  using frame_ok_log [of S has log s _ xs] by (auto simp: phase_ok_def split: Phase.splits)

lemma http_ok_log:
  "http_ok S has (row_at log) content (length log) D s ph \<Longrightarrow>
   http_ok S has (row_at (log @ xs)) content (length (log @ xs)) D s ph"
  using frame_ok_log [of S has log s _ xs] by (auto simp: http_ok_def claims_log split: HttpPhase.splits)

lemma reply_ok_log:
  "reply_ok E covers (row_at log) (length log) s r \<Longrightarrow> reply_ok E covers (row_at (log @ xs)) (length (log @ xs)) s r"
  using frame_ok_log [of "sink_at E 0" "doc_has (ne_loro E) covers" log s _ xs]
  by (auto simp: reply_ok_def split: HttpEvent.splits option.splits)

lemma honest_mark_log: "honest_mark L covers log m \<Longrightarrow> honest_mark L covers (log @ xs) m"
  by (auto simp: honest_mark_def split: prod.splits)

lemma link_ok_log: "link_ok E covers log D a n \<Longrightarrow> link_ok E covers (log @ xs) D a n"
  unfolding link_ok_def Let_def by (meson frame_ok_log phase_ok_log http_ok_log reply_ok_log honest_mark_log)

section \<open>The device moves on\<close>


abbreviation net_has :: "'v ChatEnv \<Rightarrow> (bytes \<Rightarrow> bytes \<Rightarrow> bool) \<Rightarrow> EngineSink \<Rightarrow> bytes \<Rightarrow> bool" where
  "net_has E covers \<equiv> doc_has (ne_loro E) covers"

definition keeps :: "'v ChatEnv \<Rightarrow> (bytes \<Rightarrow> bytes \<Rightarrow> bool) \<Rightarrow> EngineSink ChatActor \<Rightarrow> EngineSink ChatActor \<Rightarrow> bool" where
  "keeps E covers a a' \<longleftrightarrow> (\<forall>b. net_has E covers (ca_sink a) b \<longrightarrow> net_has E covers (ca_sink a') b)"

lemma frame_ok_keeps:
  "frame_ok S (net_has E covers) row N (ca_sink a) f \<Longrightarrow> keeps E covers a a' \<Longrightarrow>
   frame_ok S (net_has E covers) row N (ca_sink a') f"
  by (auto simp: frame_ok_def keeps_def)

lemma reply_ok_keeps:
  "reply_ok E covers row N (ca_sink a) r \<Longrightarrow> keeps E covers a a' \<Longrightarrow> reply_ok E covers row N (ca_sink a') r"
  by (auto simp: reply_ok_def split: HttpEvent.splits option.splits intro: frame_ok_keeps) (simp add: keeps_def)

lemma link_ok_grows:
  assumes "link_ok E covers log D a n" "keeps E covers a a'"
    "\<And>c. claims (net_has E covers) (row_at log) D (ca_sink a) c \<Longrightarrow> claims (net_has E covers) (row_at log) D' (ca_sink a') c"
  shows "link_ok E covers log D' a' n"
  unfolding link_ok_def Let_def
proof (intro conjI allI impI ballI)
  fix ph assume "cn_phase n = Some ph"
  with assms(1) have "phase_ok (sink_at E 0) (net_has E covers) (row_at log) (length log) (ca_sink a) ph"
    by (simp add: link_ok_def Let_def)
  with assms(2) show "phase_ok (sink_at E 0) (net_has E covers) (row_at log) (length log) (ca_sink a') ph"
    by (auto simp: phase_ok_def split: Phase.splits intro: frame_ok_keeps)
next
  fix f assume "f \<in> set (cn_up n)"
  with assms(1) have "sent_ok (net_has E covers) (ne_content E) (ca_sink a) f" by (simp add: link_ok_def Let_def)
  with assms(2) show "sent_ok (net_has E covers) (ne_content E) (ca_sink a') f"
    by (auto simp: sent_ok_def push_ok_def keeps_def)
next
  fix f assume "f \<in> set (cn_down n)"
  with assms(1,2) show "frame_ok (sink_at E 0) (net_has E covers) (row_at log) (length log) (ca_sink a') f"
    unfolding link_ok_def Let_def by (blast intro: frame_ok_keeps)
next
  fix ph assume "cn_http n = Some ph"
  with assms(1) have "http_ok (sink_at E 0) (net_has E covers) (row_at log) (ne_content E) (length log) D (ca_sink a) ph"
    by (simp add: link_ok_def Let_def)
  with assms(2,3) show "http_ok (sink_at E 0) (net_has E covers) (row_at log) (ne_content E) (length log) D' (ca_sink a') ph"
    by (auto simp: http_ok_def push_ok_def split: HttpPhase.splits intro: frame_ok_keeps) (auto simp: keeps_def)
next
  fix r assume "cn_reply n = Some r"
  with assms(1,2) show "reply_ok E covers (row_at log) (length log) (ca_sink a') r"
    unfolding link_ok_def Let_def by (blast intro: reply_ok_keeps)
next
  fix p assume "cn_post n = Some p"
  with assms(1) show "honest_mark (ne_loro E) covers log (unat (pt_seq_covered p), pt_frontier p, pt_snapshot p)"
    by (simp add: link_ok_def Let_def)
qed

lemma client_link_same:
  assumes "keeps E covers a a'" "chat_cursor a' = chat_cursor a" "ch_pending (ca_shared a') = ch_pending (ca_shared a)"
  shows "client_ok (net_has E covers) row content N D a \<Longrightarrow> client_ok (net_has E covers) row content N D a'"
    "link_ok E covers log D a n \<Longrightarrow> link_ok E covers log D a' n"
proof -
  show "client_ok (net_has E covers) row content N D a \<Longrightarrow> client_ok (net_has E covers) row content N D a'"
    using assms by (auto simp: client_ok_def claims_def push_ok_def keeps_def)
  show "link_ok E covers log D a n \<Longrightarrow> link_ok E covers log D a' n"
    by (erule link_ok_grows [OF _ assms(1)]) (use assms(1) in \<open>auto simp: claims_def keeps_def\<close>)
qed

section \<open>The frames of the room\<close>

lemma as_u64_nat: "as_u64 (JInt (int n)) = Some w \<Longrightarrow> unat w = n"
  by (auto simp: unat_of_nat split: if_splits)

lemma member_cons: "member_u64 (JObj ((k, v) # ms)) k' = (if k = k' then as_u64 v else member_u64 (JObj ms) k')"
  "member_str (JObj ((k, v) # ms)) k' = (if k = k' then as_str v else member_str (JObj ms) k')"
  by (simp_all add: member_u64_def member_str_def)

lemma state_header_stats:
  assumes "state_header (logStats l) = Some st"
  shows "unat (sh_head_seq st) = cl_head l" "unat (sh_checkpoint_seq st) = cl_checkpoint_seq l"
    "unat (sh_checkpoint_size st) = cl_checkpoint_size l"
  using assms unfolding state_header_def logStats_def member_cons
  by (auto simp del: as_u64.simps split: option.splits dest!: as_u64_nat)

lemma row_header_json: "row_header (row_json s d b) = Some r \<Longrightarrow> unat (rh_seq r) = s"
  unfolding row_header_def row_json_def member_cons
  by (auto simp del: as_u64.simps split: option.splits dest!: as_u64_nat)

lemma ack_header_json: "ack_header (ack_json b s d) = Some k \<Longrightarrow> unat (ah_seq k) = s"
  unfolding ack_header_def ack_json_def member_cons
  by (auto simp del: as_u64.simps split: option.splits dest!: as_u64_nat)

lemma other_frame_ok: "wf_kind f \<notin> {FT_ROW, FT_ACK, FT_STATE} \<Longrightarrow> frame_ok S has row N s f"
  by (simp add: frame_ok_def)

lemma frame_sel [simp]: "wf_kind (frame k h p) = k" "wf_header (frame k h p) = h" "wf_payload (frame k h p) = p"
  by (simp_all add: frame_def)

lemma room_frame_kinds [simp]:
  "wf_kind (errorFrame c m b) = FT_ERROR" "wf_kind (rowsDoneFrame l) = FT_ROWS_DONE"
  "wf_kind (stateFrame l) = FT_STATE" "wf_kind (rowFrame r) = FT_ROW"
  by (simp_all add: errorFrame_def rowsDoneFrame_def stateFrame_def rowFrame_def)

lemma frame_kinds_apart [simp]:
  "FT_ERROR \<noteq> FT_ROW" "FT_ERROR \<noteq> FT_ACK" "FT_ERROR \<noteq> FT_STATE" "FT_ROWS_DONE \<noteq> FT_ROW" "FT_ROWS_DONE \<noteq> FT_ACK"
  "FT_ROWS_DONE \<noteq> FT_STATE" "FT_PRESENCE \<noteq> FT_ROW" "FT_PRESENCE \<noteq> FT_ACK" "FT_PRESENCE \<noteq> FT_STATE"
  "FT_PROBE_OK \<noteq> FT_ROW" "FT_PROBE_OK \<noteq> FT_ACK" "FT_PROBE_OK \<noteq> FT_STATE" "FT_ROW \<noteq> FT_STATE" "FT_ROW \<noteq> FT_ACK"
  "FT_ACK \<noteq> FT_ROW" "FT_ACK \<noteq> FT_STATE" "FT_STATE \<noteq> FT_ROW" "FT_STATE \<noteq> FT_ACK"
  by (simp_all add: frame_types)

lemma room_mark:
  assumes "room_ok E covers log marks l" "cl_checkpoint_size l \<noteq> 0"
  obtains f k where "cl_frontier l = Some f" "cl_checkpoint l = Some k"
    "honest_mark (ne_loro E) covers log (cl_checkpoint_seq l, f, k)"
  using assms unfolding room_ok_def by blast

lemma state_frame_ok:
  assumes "room_ok E covers log marks l"
  shows "frame_ok (sink_at E 0) (net_has E covers) (row_at log) (length log) s (stateFrame l)"
proof -
  have b: "cl_head l = length log" "cl_checkpoint_seq l \<le> length log" using assms by (auto simp: room_ok_def)
  have "state_ok (sink_at E 0) (net_has E covers) (row_at log) (length log) st
      (case cl_frontier l of None \<Rightarrow> [] | Some f \<Rightarrow> f)" if st: "state_header (logStats l) = Some st" for st
    unfolding state_ok_def state_header_stats [OF st]
  proof (intro conjI allI impI)
    fix s n assume sz: "sh_checkpoint_size st \<noteq> 0"
      and cf: "sk_contains_frontier (sink_at E 0) (case cl_frontier l of None \<Rightarrow> [] | Some f \<Rightarrow> f) s"
      and n: "0 < n" "n \<le> cl_checkpoint_seq l"
    from sz state_header_stats(3) [OF st] have "cl_checkpoint_size l \<noteq> 0" by (metis unat_eq_zero)
    from room_mark [OF assms this] obtain f k where f: "cl_frontier l = Some f"
      and m: "honest_mark (ne_loro E) covers log (cl_checkpoint_seq l, f, k)" by metis
    show "net_has E covers s (row_at log n)"
    proof (cases "es_alive s")
      case True
      with cf f obtain vv where "lo_decode_vv (ne_loro E) f = Some vv" "lo_includes (ne_loro E) (es_doc s) vv"
        by (auto simp: engine_sink_def engine_contains_frontier_def split: option.splits)
      moreover have "covers k (row_at log n)" using m n by (simp add: honest_mark_def)
      ultimately have "covers (lo_export (ne_loro E) (es_doc s)) (row_at log n)"
        using m unfolding honest_mark_def faithful_def by blast
      then show ?thesis by (rule doc_has_snapshot)
    qed (simp add: doc_has_def)
  qed (use b in auto)
  then show ?thesis by (auto simp: frame_ok_def stateFrame_def)
qed

lemma row_frame_ok:
  "lr_seq r \<le> length log \<Longrightarrow> lr_bytes r = row_at log (lr_seq r) \<Longrightarrow>
   frame_ok S has (row_at log) (length log) s (rowFrame r)"
  by (auto simp: frame_ok_def rowFrame_def dest!: row_header_json)

lemma ack_frame_ok:
  "seq \<le> length log \<Longrightarrow> has s (row_at log seq) \<Longrightarrow>
   frame_ok S has (row_at log) (length log) s (frame FT_ACK (ack_json b seq d) p)"
  by (auto simp: frame_ok_def dest!: ack_header_json)

section \<open>The operations of the room\<close>

lemma append_ok:
  assumes "room_ok E covers log marks l" "bs = ne_content E batch" "length log + 1 < 2 ^ 53"
    "appendRow device batch bs l = (r, l')"
  shows "case r of
      Inl _ \<Rightarrow> l' = l
    | Inr (seq, True) \<Rightarrow> l' = l \<and> 0 < seq \<and> seq \<le> length log \<and> row_at log seq = bs
    | Inr (seq, False) \<Rightarrow> seq = Suc (length log) \<and> cl_head l' = seq \<and> room_ok E covers (log @ [bs]) marks l'"
proof (cases "bs = [] \<or> length bs > MAX_ROW_BYTES")
  case True
  with assms(4) show ?thesis by (auto simp: appendRow_def split: if_splits)
next
  case False
  show ?thesis
  proof (cases "find (\<lambda>r. lr_batch_id r = batch) (cl_rows l)")
    case (Some x)
    then have "x \<in> set (cl_rows l)" "lr_batch_id x = batch" by (auto simp: find_Some_iff)
    moreover from this assms(1) have "0 < lr_seq x" "lr_seq x \<le> length log"
      "lr_bytes x = row_at log (lr_seq x)" "lr_bytes x = ne_content E (lr_batch_id x)" by (auto simp: room_ok_def)
    ultimately show ?thesis using assms(2,4) False Some by (auto simp: appendRow_def)
  next
    case None
    then have l': "r = Inr (Suc (length log), False)"
      "l' = l\<lparr>cl_rows := cl_rows l @ [\<lparr>lr_seq = Suc (length log), lr_device = device, lr_batch_id = batch, lr_bytes = bs\<rparr>],
              cl_head := Suc (length log)\<rparr>"
      using assms(1,4) False by (auto simp: appendRow_def Let_def room_ok_def)
    have "\<forall>m \<in> set marks. honest_mark (ne_loro E) covers (log @ [bs]) m"
      using assms(1) honest_mark_log unfolding room_ok_def by blast
    with assms(1-3) have "room_ok E covers (log @ [bs]) marks l'"
      unfolding l'(2) room_ok_def by (auto simp: row_at_last le_Suc_eq)
    with l' show ?thesis by simp
  qed
qed

lemma commit_ok:
  assumes "room_ok E covers log marks l" "honest_mark (ne_loro E) covers log (q, f, k)"
    "commitCheckpoint q f k l = (Inr v, l')"
  shows "room_ok E covers log (marks @ [(q, f, k)]) l'"
proof -
  have q: "q \<le> length log" "cl_floor l \<le> q" "k \<noteq> []" and l': "l' = l\<lparr>cl_checkpoint := Some k, cl_frontier := Some f,
      cl_rows := filter (\<lambda>r. \<not> lr_seq r \<le> q) (cl_rows l), cl_floor := q, cl_checkpoint_seq := q,
      cl_checkpoint_size := length k\<rparr>"
    using assms(2,3) by (auto simp: commitCheckpoint_def honest_mark_def split: if_splits)
  have rows: "\<forall>i. cl_floor l < i \<and> i \<le> length log \<longrightarrow> i \<in> lr_seq ` set (cl_rows l)"
    using assms(1) by (simp add: room_ok_def)
  have "i \<in> lr_seq ` set (filter (\<lambda>r. \<not> lr_seq r \<le> q) (cl_rows l))" if "q < i" "i \<le> length log" for i
    using rows [rule_format, of i] that q(2) by auto
  with assms(1,2) q show ?thesis unfolding l' room_ok_def by auto
qed

lemma quota_log: "admitQuota now d k R = (ok, R') \<Longrightarrow> cr_log R' = cr_log R"
  by (auto simp: admitQuota_def Let_def split: option.splits)

text \<open>What an operation of the room does to the log, and what it sends.\<close>

definition served :: "'v ChatEnv \<Rightarrow> (bytes \<Rightarrow> bytes \<Rightarrow> bool) \<Rightarrow> bytes list \<Rightarrow> (nat \<times> bytes \<times> bytes) list \<Rightarrow>
    EngineSink \<Rightarrow> bytes \<Rightarrow> sends \<Rightarrow> ChatRoom \<Rightarrow> ChatRoom \<Rightarrow> bool" where
  "served E covers log marks s payload out R R' \<longleftrightarrow>
     (let log' = log_after R R' payload log in
      (\<exists>xs. log' = log @ xs) \<and> room_ok E covers log' marks (cr_log R') \<and>
      (\<forall>(k, f) \<in> set out. frame_ok (sink_at E 0) (net_has E covers) (row_at log') (length log') s f))"

lemma served_same:
  assumes "room_ok E covers log marks (cr_log R)" "cr_log R' = cr_log R"
    "\<And>k f. (k, f) \<in> set out \<Longrightarrow> frame_ok (sink_at E 0) (net_has E covers) (row_at log) (length log) s f"
  shows "served E covers log marks s payload out R R'"
  using assms by (auto simp: served_def log_after_def)

lemma relay_ok:
  assumes "(k, f) \<in> set (chat_relay to \<lparr>lr_seq = Suc (length log), lr_device = d, lr_batch_id = b, lr_bytes = bs\<rparr> R)"
  shows "frame_ok S has (row_at (log @ [bs])) (length (log @ [bs])) s f"
proof -
  have f: "f = rowFrame \<lparr>lr_seq = Suc (length log), lr_device = d, lr_batch_id = b, lr_bytes = bs\<rparr>"
    using assms by (auto simp: chat_relay_def)
  show ?thesis unfolding f by (rule row_frame_ok) (simp_all add: row_at_last)
qed

lemma post_rows_ok:
  assumes "room_ok E covers log marks (cr_log R)" "length log + 1 < 2 ^ 53" "bs = ne_content E batch"
    "post_rows now device batch bs R = (r, out, R')"
  shows "served E covers log marks s bs out R R'"
    "r = Inr (seq, dup) \<Longrightarrow> 0 < seq \<and> seq \<le> length (log_after R R' bs log) \<and> row_at (log_after R R' bs log) seq = bs"
proof -
  have "served E covers log marks s bs out R R' \<and> (\<forall>seq dup. r = Inr (seq, dup) \<longrightarrow>
    0 < seq \<and> seq \<le> length (log_after R R' bs log) \<and> row_at (log_after R R' bs log) seq = bs)"
  proof (cases "batch = [] \<or> length batch > 128 \<or> length bs > MAX_ROW_BYTES + 4096")
    case True
    with assms show ?thesis by (auto simp: post_rows_def split: if_splits intro: served_same)
  next
    case False
    obtain ok R1 where q: "admitQuota now device (length bs) R = (ok, R1)" by force
    note l1 = quota_log [OF q]
    obtain x l where ap: "appendRow device batch bs (cr_log R1) = (x, l)" by force
    note a = append_ok [OF assms(1,3,2) ap [unfolded l1]]
    show ?thesis
    proof (cases ok)
      case False
      with \<open>\<not> (batch = [] \<or> _)\<close> assms q l1 show ?thesis
        by (auto simp: post_rows_def intro: served_same)
    next
      case True
      have head: "cl_head (cr_log R) = length log" using assms(1) by (simp add: room_ok_def)
      show ?thesis
      proof (cases x)
        case (Inl e)
        with \<open>\<not> (batch = [] \<or> _)\<close> True assms q l1 ap a show ?thesis
          by (auto simp: post_rows_def intro: served_same)
      next
        case (Inr p)
        obtain seq dup where p: "p = (seq, dup)" by force
        have e: "r = Inr (seq, dup)" "R' = R1\<lparr>cr_log := l\<rparr>" "out = (if dup then [] else chat_relay (\<lambda>_. True)
            \<lparr>lr_seq = seq, lr_device = device, lr_batch_id = batch, lr_bytes = bs\<rparr> R1)"
          using \<open>\<not> (batch = [] \<or> _)\<close> True assms(4) q ap Inr p by (auto simp: post_rows_def)
        show ?thesis
        proof (cases dup)
          case True
          with a Inr p e assms(1) l1 head show ?thesis by (auto simp: log_after_def intro: served_same)
        next
          case False
          with a Inr p have s: "seq = Suc (length log)" "cl_head l = seq" "room_ok E covers (log @ [bs]) marks l" by auto
          then have "log_after R R' bs log = log @ [bs]" using e head by (simp add: log_after_def)
          with s e False show ?thesis by (auto simp: served_def row_at_last dest!: relay_ok)
        qed
      qed
    qed
  qed
  then show "served E covers log marks s bs out R R'"
    "r = Inr (seq, dup) \<Longrightarrow> 0 < seq \<and> seq \<le> length (log_after R R' bs log) \<and> row_at (log_after R R' bs log) seq = bs"
    by auto
qed

lemma push_ok_room:
  assumes "room_ok E covers log marks (cr_log R)" "length log + 1 < 2 ^ 53"
    "\<And>b. member_str h ''batchId'' = Some b \<Longrightarrow> push_ok (net_has E covers) (ne_content E) s b bs"
    "room_push now k h bs R = (out, R')"
  shows "served E covers log marks s bs out R R'"
proof -
  obtain batch where b: "batch = (case member_str h ''batchId'' of None \<Rightarrow> [] | Some b \<Rightarrow> b)" by blast
  note d = assms(4) [unfolded room_push_def Let_def b [symmetric]]
  show ?thesis
  proof (cases "\<not> so_ready k \<or> batch = [] \<or> length batch > 128")
    case True
    with d assms(1) show ?thesis by (auto intro!: served_same other_frame_ok)
  next
    case False
    then have "member_str h ''batchId'' = Some batch" using b by (auto split: option.splits)
    from assms(3) [OF this] have p: "bs = ne_content E batch" "net_has E covers s bs" by (auto simp: push_ok_def)
    obtain ok R1 where q: "admitQuota now (so_device k) (length bs) R = (ok, R1)" by force
    note l1 = quota_log [OF q]
    obtain x l where ap: "appendRow (so_device k) batch bs (cr_log R1) = (x, l)" by force
    note a = append_ok [OF assms(1) p(1) assms(2) ap [unfolded l1]]
    have head: "cl_head (cr_log R) = length log" using assms(1) by (simp add: room_ok_def)
    show ?thesis
    proof (cases "ok \<and> (\<exists>y. x = Inr y)")
      case False
      with d \<open>\<not> (\<not> so_ready k \<or> _)\<close> q ap l1 a assms(1) show ?thesis
        by (auto split: bool.splits sum.splits intro!: served_same other_frame_ok)
    next
      case True
      then obtain seq dup where x: "x = Inr (seq, dup)" "ok" by auto
      have e: "R' = R1\<lparr>cr_log := l\<rparr>" "out = (if dup then [] else chat_relay (\<lambda>j. so_id j \<noteq> so_id k)
            \<lparr>lr_seq = seq, lr_device = so_device k, lr_batch_id = batch, lr_bytes = bs\<rparr> R1) @
            [(so_id k, frame FT_ACK (ack_json batch seq dup) [])]"
        using d \<open>\<not> (\<not> so_ready k \<or> _)\<close> q ap x by auto
      show ?thesis
      proof (cases dup)
        case True
        with a x e assms(1) l1 head p show ?thesis by (auto intro!: served_same ack_frame_ok)
      next
        case False
        with a x have s: "seq = Suc (length log)" "cl_head l = seq" "room_ok E covers (log @ [bs]) marks l" by auto
        then have "log_after R R' bs log = log @ [bs]" using e head by (simp add: log_after_def)
        moreover have "frame_ok (sink_at E 0) (net_has E covers) (row_at (log @ [bs])) (length (log @ [bs])) s
            (frame FT_ACK (ack_json batch seq dup) [])"
          by (rule ack_frame_ok) (use s p in \<open>auto simp: row_at_last\<close>)
        ultimately show ?thesis using s e False by (auto simp: served_def dest!: relay_ok)
      qed
    qed
  qed
qed

lemma room_message_ok:
  assumes "room_ok E covers log marks (cr_log R)" "length log + 1 < 2 ^ 53"
    "sent_ok (net_has E covers) (ne_content E) s f" "room_message now k (Some f) R = (out, R')"
  shows "served E covers log marks s (wf_payload f) out R R'"
proof -
  note st = state_frame_ok [OF assms(1), of s]
  have rows: "frame_ok (sink_at E 0) (net_has E covers) (row_at log) (length log) s (rowFrame r)"
    if "r \<in> set (cl_rows (cr_log R))" for r
    using assms(1) that by (auto simp: room_ok_def intro!: row_frame_ok)
  consider "wf_kind f = FT_HELLO" | "wf_kind f = FT_ROWS_REQ" | "wf_kind f = FT_PUSH"
    | "wf_kind f \<notin> {FT_HELLO, FT_ROWS_REQ, FT_PUSH}" by blast
  then show ?thesis
  proof cases
    case 1
    with assms(4) have "(out, R') = room_hello k (wf_header f) R" by (simp add: room_message_def)
    with st show ?thesis by (auto simp: room_hello_def Let_def intro!: served_same [OF assms(1)])
  next
    case 2
    then have "FT_ROWS_REQ \<noteq> FT_HELLO" by (simp add: frame_types)
    with 2 assms(4) have "out = room_rows_req k (wf_header f) R" "R' = R" by (auto simp: room_message_def)
    moreover have "frame_ok (sink_at E 0) (net_has E covers) (row_at log) (length log) s (rowsDoneFrame l)" for l
      by (rule other_frame_ok) simp
    ultimately show ?thesis using rows
      by (auto simp: room_rows_req_def Let_def rowsAfter_def intro!: served_same [OF assms(1)] intro: other_frame_ok)
  next
    case 3
    have "FT_PUSH \<noteq> FT_HELLO" "FT_PUSH \<noteq> FT_ROWS_REQ" by (simp_all add: frame_types)
    with 3 assms(4) have "room_push now k (wf_header f) (wf_payload f) R = (out, R')" by (simp add: room_message_def)
    then show ?thesis
      by (rule push_ok_room [OF assms(1,2), rotated]) (use assms(3) 3 in \<open>auto simp: sent_ok_def\<close>)
  next
    case 4
    with assms(4) have "R' = R" "\<forall>(k, f) \<in> set out. wf_kind f \<notin> {FT_ROW, FT_ACK, FT_STATE}"
      by (auto simp: room_message_def room_presence_def Let_def split: if_splits)
    with assms(1) show ?thesis by (intro served_same) (auto intro!: other_frame_ok)
  qed
qed

lemma cap_frames_subset: "set (fst (cap_frames wl used fs)) \<subseteq> set fs"
  by (induction wl used fs rule: cap_frames.induct) (auto simp: Let_def)

lemma get_rows_ok:
  assumes "room_ok E covers log marks (cr_log R)" "f \<in> set (get_rows wl after ex R)"
  shows "frame_ok (sink_at E 0) (net_has E covers) (row_at log) (length log) s f"
proof -
  obtain rows cut where c: "cap_frames wl 0 (map rowFrame (rowsAfter after ex (cr_log R))) = (rows, cut)" by force
  have "f = stateFrame (cr_log R) \<or> f = rowsDoneFrame (cr_log R) \<or> f \<in> set rows"
    using assms(2) c by (auto simp: get_rows_def Let_def split: if_splits)
  then show ?thesis
  proof (elim disjE)
    assume "f \<in> set rows"
    with cap_frames_subset [of wl 0 "map rowFrame (rowsAfter after ex (cr_log R))"] c
    obtain r where "f = rowFrame r" "r \<in> set (cl_rows (cr_log R))" by (auto simp: rowsAfter_def)
    with assms(1) show ?thesis by (auto simp: room_ok_def intro!: row_frame_ok)
  qed (use state_frame_ok [OF assms(1)] in \<open>auto intro: other_frame_ok\<close>)
qed

section \<open>The steps\<close>

lemma net_okD:
  assumes "net_ok E covers n"
  shows "room_ok E covers (cn_log n) (cn_marks n) (cr_log (cn_room n))"
    "client_ok (net_has E covers) (row_at (cn_log n)) (ne_content E) (length (cn_log n)) (cn_owed n) (cn_actor n)"
    "link_ok E covers (cn_log n) (cn_owed n) (cn_actor n) n"
    "length (cn_log n) + 1 < 2 ^ 64"
  using assms by (auto simp: net_ok_def room_ok_def)

text \<open>An operation of the room: the network after it, with what it routed to the device.\<close>

lemma routed_subset: "f \<in> set (routed out n) \<Longrightarrow> \<exists>k. (k, f) \<in> set out"
  by (auto simp: routed_def split: if_splits)

definition after_room :: "sends \<Rightarrow> ChatRoom \<Rightarrow> bytes \<Rightarrow> ChatNet \<Rightarrow> ChatNet" where
  "after_room out R payload n =
     n\<lparr>cn_room := R, cn_down := cn_down n @ routed out n, cn_log := log_after (cn_room n) R payload (cn_log n)\<rparr>"

lemma after_room_ok:
  assumes "net_ok E covers n" "served E covers (cn_log n) (cn_marks n) (ca_sink (cn_actor n)) payload out (cn_room n) R"
  shows "net_ok E covers (after_room out R payload n)"
proof -
  obtain log' where l: "log' = log_after (cn_room n) R payload (cn_log n)" by blast
  from assms(2) obtain xs where xs: "log' = cn_log n @ xs" by (auto simp: served_def l Let_def)
  have r: "room_ok E covers log' (cn_marks n) (cr_log R)"
    and f: "\<And>k f. (k, f) \<in> set out \<Longrightarrow>
      frame_ok (sink_at E 0) (net_has E covers) (row_at log') (length log') (ca_sink (cn_actor n)) f"
    using assms(2) by (auto simp: served_def l Let_def)
  have "client_ok (net_has E covers) (row_at log') (ne_content E) (length log') (cn_owed n) (cn_actor n)"
    unfolding xs by (rule client_ok_log [OF net_okD(2) [OF assms(1)]])
  moreover have "link_ok E covers log' (cn_owed n) (cn_actor n) n"
    unfolding xs by (rule link_ok_log [OF net_okD(3) [OF assms(1)]])
  then have "link_ok E covers log' (cn_owed n) (cn_actor n) (after_room out R payload n)"
    unfolding link_ok_def Let_def after_room_def using f routed_subset by (auto; blast)
  ultimately show ?thesis using r by (simp add: net_ok_def after_room_def l)
qed

text \<open>A turn of the device.\<close>

lemma session_over_simps [simp]:
  "cn_room (session_over n) = cn_room n" "cn_log (session_over n) = cn_log n" "cn_marks (session_over n) = cn_marks n"
  "cn_owed (session_over n) = cn_owed n" "cn_up (session_over n) = cn_up n" "cn_down (session_over n) = []"
  "cn_phase (session_over n) = None" "cn_http (session_over n) = cn_http n" "cn_reply (session_over n) = cn_reply n"
  "cn_post (session_over n) = cn_post n"
  by (simp_all add: session_over_def)

lemma lost_keeps: "keeps E covers a (snd (snd (chat_session_lost a)))"
  "chat_cursor (snd (snd (chat_session_lost a))) = chat_cursor a"
  "ch_pending (ca_shared (snd (snd (chat_session_lost a)))) = ch_pending (ca_shared a)"
  by (simp_all add: chat_session_lost_def Let_def keeps_def actor_defs)

lemma session_over_ok: "net_ok E covers n \<Longrightarrow> net_ok E covers (session_over n)"
  using client_link_same(1) [OF lost_keeps, of E covers "row_at (cn_log n)" "ne_content E" "length (cn_log n)" "cn_owed n" "cn_actor n"]
    client_link_same(2) [OF lost_keeps, of E covers "cn_log n" "cn_owed n" "cn_actor n" n]
  unfolding net_ok_def session_over_def by (simp add: link_ok_def Let_def)

text \<open>What a turn leaves behind, written out for the document of the engine.\<close>

definition moved :: "'v ChatEnv \<Rightarrow> (bytes \<Rightarrow> bytes \<Rightarrow> bool) \<Rightarrow> bytes list \<Rightarrow> nat \<Rightarrow> nat \<Rightarrow>
    EngineSink ChatActor \<Rightarrow> EngineSink ChatActor \<Rightarrow> bool" where
  "moved E covers log D D' a a' \<longleftrightarrow>
     client_ok (net_has E covers) (row_at log) (ne_content E) (length log) D' a' \<and> keeps E covers a a' \<and>
     (\<forall>c. claims (net_has E covers) (row_at log) D (ca_sink a) c \<longrightarrow> claims (net_has E covers) (row_at log) D' (ca_sink a') c)"

lemma engine_session:
  assumes "client_ok (net_has E covers) (row_at log) (ne_content E) (length log) D a" "length log + 1 < 2 ^ 64"
    "phase_ok (sink_at E 0) (net_has E covers) (row_at log) (length log) (ca_sink a) ph"
    "\<And>f. ev = EvBytes (Some f) \<Longrightarrow> frame_ok (sink_at E 0) (net_has E covers) (row_at log) (length log) (ca_sink a) f"
    "\<And>st gen fl buf bs. ph = Fetching st gen fl buf \<Longrightarrow> ev = EvFetched bs \<Longrightarrow>
       blob_ok (net_has E covers) (row_at log) (length log) q bs \<and> unat (sh_checkpoint_seq st) \<le> q"
    "session_turn (sink_at E now) acc now ev ph a = (r, sent, a')"
  shows "moved E covers log D (owed_after_turn (sink_at E now) q ev ph a D) a a'"
    "\<forall>f \<in> set sent. sent_ok (net_has E covers) (ne_content E) (ca_sink a') f"
    "r = Inr ph' \<Longrightarrow> phase_ok (sink_at E 0) (net_has E covers) (row_at log) (length log) (ca_sink a') ph'"
proof -
  have t: "client_ok (net_has E covers) (row_at log) (ne_content E) (length log) (owed_after_turn (sink_at E now) q ev ph a D) a' \<and>
      keeps E covers a a' \<and>
      (\<forall>c. claims (net_has E covers) (row_at log) D (ca_sink a) c \<longrightarrow>
         claims (net_has E covers) (row_at log) (owed_after_turn (sink_at E now) q ev ph a D) (ca_sink a') c) \<and>
      (\<forall>f \<in> set sent. sent_ok (net_has E covers) (ne_content E) (ca_sink a') f) \<and>
      (\<forall>ph. r = Inr ph \<longrightarrow> phase_ok (sink_at E now) (net_has E covers) (row_at log) (length log) (ca_sink a') ph)"
    unfolding keeps_def
    by (rule engine.session_turn_ok [where L = "ne_loro E" and ok = "ne_sql E" and now = now and covers = covers
        and N = "length log" and row = "row_at log" and content = "ne_content E" and D = D and a = a and ph = ph and q = q
        and ev = ev and acc = acc and inst = now, OF assms(1,2) assms(3) [folded phase_ok_sink [of E now]]
        assms(4) [folded frame_ok_sink [of E now]],
        unfolded engine.turn_ok_def engine.grows_def engine.settles_def assms(6) prod.case])
      (use assms(5) in auto)
  from t show "moved E covers log D (owed_after_turn (sink_at E now) q ev ph a D) a a'"
    by (simp add: moved_def)
  from t show "\<forall>f \<in> set sent. sent_ok (net_has E covers) (ne_content E) (ca_sink a') f" by blast
  from t show "r = Inr ph' \<Longrightarrow> phase_ok (sink_at E 0) (net_has E covers) (row_at log) (length log) (ca_sink a') ph'"
    by (simp add: phase_ok_sink [of E now])
qed

lemma engine_http:
  assumes "client_ok (net_has E covers) (row_at log) (ne_content E) (length log) D a" "length log + 1 < 2 ^ 64"
    "http_ok (sink_at E 0) (net_has E covers) (row_at log) (ne_content E) (length log) D (ca_sink a) ph"
    "\<And>b seq. ev = HtPosted (Some (Some (b, seq))) \<Longrightarrow> unat seq \<le> length log \<and> net_has E covers (ca_sink a) (row_at log (unat seq))"
    "\<And>fs f. ev = HtBody (Some fs) \<Longrightarrow> f \<in> set fs \<Longrightarrow>
       frame_ok (sink_at E 0) (net_has E covers) (row_at log) (length log) (ca_sink a) f"
    "\<And>st after epoch gen fs bs. ph = HttpFetching st after epoch gen fs \<Longrightarrow> ev = HtCheckpoint (Some bs) \<Longrightarrow>
       blob_ok (net_has E covers) (row_at log) (length log) q bs \<and> unat (sh_checkpoint_seq st) \<le> q"
    "http_turn (sink_at E now) ev ph a = (r, a')"
  shows "moved E covers log D (owed_after_http (sink_at E now) q ev ph a D) a a'"
    "r = Some ph' \<Longrightarrow> http_ok (sink_at E 0) (net_has E covers) (row_at log) (ne_content E) (length log)
       (owed_after_http (sink_at E now) q ev ph a D) (ca_sink a') ph'"
proof -
  have t: "client_ok (net_has E covers) (row_at log) (ne_content E) (length log) (owed_after_http (sink_at E now) q ev ph a D) a' \<and>
      keeps E covers a a' \<and>
      (\<forall>c. claims (net_has E covers) (row_at log) D (ca_sink a) c \<longrightarrow>
         claims (net_has E covers) (row_at log) (owed_after_http (sink_at E now) q ev ph a D) (ca_sink a') c) \<and>
      (\<forall>ph'. r = Some ph' \<longrightarrow> http_ok (sink_at E now) (net_has E covers) (row_at log) (ne_content E) (length log)
         (owed_after_http (sink_at E now) q ev ph a D) (ca_sink a') ph')"
    unfolding keeps_def
    by (rule engine.http_turn_ok_step [where L = "ne_loro E" and ok = "ne_sql E" and now = now and covers = covers
        and N = "length log" and row = "row_at log" and content = "ne_content E" and D = D and a = a and ph = ph and q = q
        and ev = ev, OF assms(1,2) assms(3) [folded http_ok_sink [of E now]] assms(4)
        assms(5) [folded frame_ok_sink [of E now]],
        unfolded engine.http_turn_ok_def engine.grows_def engine.settles_def assms(7) prod.case])
      (use assms(6) in auto)
  from t show "moved E covers log D (owed_after_http (sink_at E now) q ev ph a D) a a'"
    by (simp add: moved_def)
  from t show "r = Some ph' \<Longrightarrow> http_ok (sink_at E 0) (net_has E covers) (row_at log) (ne_content E) (length log)
       (owed_after_http (sink_at E now) q ev ph a D) (ca_sink a') ph'"
    by (simp add: http_ok_sink [of E now])
qed

lemma moved_same:
  assumes "client_ok (net_has E covers) (row_at log) (ne_content E) (length log) D a" "keeps E covers a a'"
    "chat_cursor a' = chat_cursor a" "ch_pending (ca_shared a') = ch_pending (ca_shared a)"
  shows "moved E covers log D D a a'"
  using client_link_same(1) [OF assms(2-4) assms(1)] assms(2) unfolding moved_def by (auto simp: claims_def keeps_def)

text \<open>The network after the device has moved.\<close>

lemma moved_net:
  assumes "net_ok E covers n" "moved E covers (cn_log n) (cn_owed n) D' (cn_actor n) a'"
  shows "net_ok E covers (n\<lparr>cn_actor := a', cn_owed := D'\<rparr>)"
proof -
  have "link_ok E covers (cn_log n) D' a' n"
    by (rule link_ok_grows [OF net_okD(3) [OF assms(1)]]) (use assms(2) in \<open>auto simp: moved_def\<close>)
  with assms show ?thesis by (simp add: net_ok_def moved_def link_ok_def Let_def)
qed

text \<open>What is put in flight may be replaced by anything sound.\<close>

lemma net_ok_phase:
  "net_ok E covers n \<Longrightarrow> phase_ok (sink_at E 0) (net_has E covers) (row_at (cn_log n)) (length (cn_log n)) (ca_sink (cn_actor n)) ph \<Longrightarrow>
   net_ok E covers (n\<lparr>cn_phase := Some ph\<rparr>)"
  by (simp add: net_ok_def link_ok_def Let_def)

lemma net_ok_up:
  "net_ok E covers n \<Longrightarrow> \<forall>f \<in> set fs. sent_ok (net_has E covers) (ne_content E) (ca_sink (cn_actor n)) f \<Longrightarrow>
   net_ok E covers (n\<lparr>cn_up := cn_up n @ fs\<rparr>)"
  by (auto simp: net_ok_def link_ok_def Let_def)

lemma net_ok_http:
  "net_ok E covers n \<Longrightarrow> (\<And>ph. h = Some ph \<Longrightarrow> http_ok (sink_at E 0) (net_has E covers) (row_at (cn_log n)) (ne_content E)
     (length (cn_log n)) (cn_owed n) (ca_sink (cn_actor n)) ph) \<Longrightarrow>
   net_ok E covers (n\<lparr>cn_http := h, cn_reply := None\<rparr>)"
  by (simp add: net_ok_def link_ok_def Let_def)

lemma net_ok_reply:
  "net_ok E covers n \<Longrightarrow> reply_ok E covers (row_at (cn_log n)) (length (cn_log n)) (ca_sink (cn_actor n)) r \<Longrightarrow>
   net_ok E covers (n\<lparr>cn_reply := Some r\<rparr>)"
  by (simp add: net_ok_def link_ok_def Let_def)

lemma in_tl: "x \<in> set (tl xs) \<Longrightarrow> x \<in> set xs"
  by (cases xs) auto

lemma net_ok_drop:
  assumes "net_ok E covers n"
  shows "net_ok E covers (n\<lparr>cn_down := tl (cn_down n)\<rparr>)" "net_ok E covers (n\<lparr>cn_up := tl (cn_up n)\<rparr>)"
    "net_ok E covers (n\<lparr>cn_up := [], cn_down := []\<rparr>)" "net_ok E covers (n\<lparr>cn_post := None\<rparr>)"
    "net_ok E covers (n\<lparr>cn_sock := k\<rparr>)"
  using assms by (auto simp: net_ok_def link_ok_def Let_def dest: in_tl)

lemma net_ok_room:
  "net_ok E covers n \<Longrightarrow> cr_log R = cr_log (cn_room n) \<Longrightarrow> net_ok E covers (n\<lparr>cn_room := R\<rparr>)"
  by (simp add: net_ok_def link_ok_def Let_def)

lemma absorb_ok:
  assumes "net_ok E covers n" "moved E covers (cn_log n) (cn_owed n) D' (cn_actor n) a'"
    "\<forall>f \<in> set sent. sent_ok (net_has E covers) (ne_content E) (ca_sink a') f"
    "\<And>ph. r = Inr ph \<Longrightarrow> phase_ok (sink_at E 0) (net_has E covers) (row_at (cn_log n)) (length (cn_log n)) (ca_sink a') ph"
  shows "net_ok E covers ((absorb (r, sent, a') n)\<lparr>cn_owed := D'\<rparr>)"
proof -
  obtain n1 where n1: "n1 = n\<lparr>cn_actor := a', cn_owed := D', cn_up := cn_up n @ sent\<rparr>" by blast
  have ok: "net_ok E covers n1"
    using net_ok_up [OF moved_net [OF assms(1,2)], of sent] assms(3) by (simp add: n1)
  show ?thesis
  proof (cases r)
    case (Inl x)
    have "(absorb (r, sent, a') n)\<lparr>cn_owed := D'\<rparr> = session_over n1"
      by (simp add: absorb_def Inl n1 session_over_def)
    with session_over_ok [OF ok] show ?thesis by simp
  next
    case (Inr ph)
    have "(absorb (r, sent, a') n)\<lparr>cn_owed := D'\<rparr> = n1\<lparr>cn_phase := Some ph\<rparr>"
      by (simp add: absorb_def Inr n1)
    moreover have "net_ok E covers (n1\<lparr>cn_phase := Some ph\<rparr>)"
      by (rule net_ok_phase [OF ok]) (use assms(4) [OF Inr] in \<open>simp add: n1\<close>)
    ultimately show ?thesis by simp
  qed
qed

lemma turn_in_ok:
  assumes "net_ok E covers n" "cn_phase n = Some ph"
    "\<And>f. ev = EvBytes (Some f) \<Longrightarrow>
       frame_ok (sink_at E 0) (net_has E covers) (row_at (cn_log n)) (length (cn_log n)) (ca_sink (cn_actor n)) f"
    "\<And>st gen fl buf bs. ph = Fetching st gen fl buf \<Longrightarrow> ev = EvFetched bs \<Longrightarrow>
       blob_ok (net_has E covers) (row_at (cn_log n)) (length (cn_log n)) q bs \<and> unat (sh_checkpoint_seq st) \<le> q"
  shows "net_ok E covers (turn_in E now acc q ev ph n)"
proof -
  obtain r sent a' where t: "session_turn (sink_at E now) acc now ev ph (cn_actor n) = (r, sent, a')"
    using prod_cases3 by blast
  have "phase_ok (sink_at E 0) (net_has E covers) (row_at (cn_log n)) (length (cn_log n)) (ca_sink (cn_actor n)) ph"
    using net_okD(3) [OF assms(1)] assms(2) by (simp add: link_ok_def Let_def)
  note e = engine_session [OF net_okD(2,4) [OF assms(1)] this _ _ t]
  show ?thesis unfolding turn_in_def t
    by (rule absorb_ok [OF assms(1) e(1) [where q = q] e(2) [where q = q]]) (use assms(3,4) e(3) [where q = q] in auto)
qed

lemma http_in_ok:
  assumes "net_ok E covers n" "cn_http n = Some ph"
    "\<And>b seq. ev = HtPosted (Some (Some (b, seq))) \<Longrightarrow>
       unat seq \<le> length (cn_log n) \<and> net_has E covers (ca_sink (cn_actor n)) (row_at (cn_log n) (unat seq))"
    "\<And>fs f. ev = HtBody (Some fs) \<Longrightarrow> f \<in> set fs \<Longrightarrow>
       frame_ok (sink_at E 0) (net_has E covers) (row_at (cn_log n)) (length (cn_log n)) (ca_sink (cn_actor n)) f"
    "\<And>st after epoch gen fs bs. ph = HttpFetching st after epoch gen fs \<Longrightarrow> ev = HtCheckpoint (Some bs) \<Longrightarrow>
       blob_ok (net_has E covers) (row_at (cn_log n)) (length (cn_log n)) q bs \<and> unat (sh_checkpoint_seq st) \<le> q"
  shows "net_ok E covers (http_in E now q ev ph n)"
proof -
  obtain r a' where t: "http_turn (sink_at E now) ev ph (cn_actor n) = (r, a')" by force
  have "http_ok (sink_at E 0) (net_has E covers) (row_at (cn_log n)) (ne_content E) (length (cn_log n)) (cn_owed n)
      (ca_sink (cn_actor n)) ph"
    using net_okD(3) [OF assms(1)] assms(2) by (simp add: link_ok_def Let_def)
  note e = engine_http [OF net_okD(2,4) [OF assms(1)] this _ _ _ t, where q = q]
  obtain D' where D': "D' = owed_after_http (sink_at E now) q ev ph (cn_actor n) (cn_owed n)" by blast
  have m: "moved E covers (cn_log n) (cn_owed n) D' (cn_actor n) a'"
    unfolding D' by (rule e(1)) (use assms(3-5) in auto)
  have h: "http_ok (sink_at E 0) (net_has E covers) (row_at (cn_log n)) (ne_content E) (length (cn_log n)) D' (ca_sink a') ph'"
    if "r = Some ph'" for ph'
    unfolding D' by (rule e(2)) (use assms(3-5) that in auto)
  have "net_ok E covers (n\<lparr>cn_actor := a', cn_owed := D', cn_http := r, cn_reply := None\<rparr>)"
    using net_ok_http [OF moved_net [OF assms(1) m], where h = r] h by simp
  moreover have "http_in E now q ev ph n = n\<lparr>cn_actor := a', cn_owed := D', cn_http := r, cn_reply := None\<rparr>"
    by (simp add: http_in_def t D')
  ultimately show ?thesis by simp
qed

lemma mark_blob:
  assumes "loro_ok (ne_loro E) covers" "net_ok E covers n" "i < length (cn_marks n)" "cn_marks n ! i = (q, f, k)"
  shows "blob_ok (net_has E covers) (row_at (cn_log n)) (length (cn_log n)) q k"
proof -
  have "(q, f, k) \<in> set (cn_marks n)" using assms(3,4) nth_mem by metis
  then have m: "honest_mark (ne_loro E) covers (cn_log n) (q, f, k)"
    using net_okD(1) [OF assms(2)] unfolding room_ok_def by blast
  show ?thesis using m doc_has_blob [OF assms(1)] by (auto simp: blob_ok_def honest_mark_def)
qed

lemma step_dial:
  assumes "net_ok E covers n" "chat_step E (NDial acc) n = Some n'"
  shows "net_ok E covers n'"
proof -
  obtain a where a: "a = snd (chat_dial_attempt (cn_actor n))" by blast
  obtain R where R: "R = accept_socket (cn_sock n + 1) (ca_device_id a) (close_socket (cn_sock n) (cn_room n))" by blast
  obtain n1 where n1: "n1 = n\<lparr>cn_room := R, cn_sock := cn_sock n + 1, cn_up := [], cn_down := []\<rparr>" by blast
  have n': "n' = absorb (start_session acc a) n1"
    using assms(2) by (auto simp: chat_step_def Let_def a R n1 split: if_splits)
  have "net_ok E covers n1"
  proof -
    have "cr_log R = cr_log (cn_room n)" by (simp add: R accept_socket_def close_socket_def)
    with net_ok_drop(3) [OF net_ok_drop(5) [OF net_ok_room [OF assms(1)]], of R "cn_sock n + 1"]
    show ?thesis by (simp add: n1)
  qed
  moreover have "moved E covers (cn_log n1) (cn_owed n1) (cn_owed n1) (cn_actor n1) a"
    by (rule moved_same) (use net_okD(2) [OF \<open>net_ok E covers n1\<close>] in
      \<open>simp_all add: a n1 chat_dial_attempt_def keeps_def actor_defs\<close>)
  ultimately have "net_ok E covers ((absorb (start_session acc a) n1)\<lparr>cn_owed := cn_owed n1\<rparr>)"
    unfolding start_session_def
    by (cases acc) (auto intro!: absorb_ok simp: phase_ok_def chat_hello_def sent_ok_def out_frame_def frame_types)
  moreover have "cn_owed (absorb (start_session acc a) n1) = cn_owed n1"
    by (cases acc) (simp_all add: start_session_def absorb_def session_over_def)
  ultimately show ?thesis unfolding n' by (metis (mono_tags) ChatNet.surjective ChatNet.update_convs(12))
qed

lemma step_up:
  assumes "net_ok E covers n" "chat_step E (NUp now) n = Some n'"
  shows "net_ok E covers n'"
proof -
  obtain f fs where up: "cn_up n = f # fs" using assms(2) by (auto simp: chat_step_def split: list.splits)
  have drop: "net_ok E covers (n\<lparr>cn_up := fs\<rparr>)" using net_ok_drop(2) [OF assms(1)] up by simp
  show ?thesis
  proof (cases "find (\<lambda>k. so_id k = cn_sock n) (cr_sockets (cn_room n))")
    case None
    with assms(2) up drop show ?thesis by (simp add: chat_step_def)
  next
    case (Some k)
    obtain out R where m: "room_message now k (Some f) (cn_room n) = (out, R)" by force
    have "\<not> room_full n" using assms(2) up Some by (auto simp: chat_step_def)
    moreover have n': "n' = after_room out R (wf_payload f) (n\<lparr>cn_up := fs\<rparr>)"
      using assms(2) up Some m by (auto simp: chat_step_def after_room_def routed_def split: if_splits)
    moreover have "sent_ok (net_has E covers) (ne_content E) (ca_sink (cn_actor n)) f"
      using net_okD(3) [OF assms(1)] up by (simp add: link_ok_def Let_def)
    ultimately show ?thesis
      using after_room_ok [OF drop, of "wf_payload f" out R] room_message_ok [OF net_okD(1) [OF assms(1)] _ _ m]
        net_okD(1) [OF assms(1)] by (simp add: room_full_def room_ok_def)
  qed
qed

lemma step_down:
  assumes "net_ok E covers n" "chat_step E (NDown now acc) n = Some n'"
  shows "net_ok E covers n'"
proof -
  obtain ph f fs where p: "cn_phase n = Some ph" "cn_down n = f # fs"
    using assms(2) by (auto simp: chat_step_def split: list.splits option.splits)
  with assms(2) have n': "n' = turn_in E now acc 0 (EvBytes (Some f)) ph (n\<lparr>cn_down := fs\<rparr>)"
    by (simp add: chat_step_def)
  have "frame_ok (sink_at E 0) (net_has E covers) (row_at (cn_log n)) (length (cn_log n)) (ca_sink (cn_actor n)) f"
    using net_okD(3) [OF assms(1)] p by (simp add: link_ok_def Let_def)
  moreover have "net_ok E covers (n\<lparr>cn_down := fs\<rparr>)" using net_ok_drop(1) [OF assms(1)] p by simp
  ultimately show ?thesis unfolding n' using p by (intro turn_in_ok) auto
qed

lemma step_session:
  assumes "net_ok E covers n" "chat_step E (NSession now acc ev) n = Some n'"
  shows "net_ok E covers n'"
proof -
  obtain ph where p: "cn_phase n = Some ph" "own_event ev" "n' = turn_in E now acc 0 ev ph n"
    using assms(2) by (auto simp: chat_step_def split: option.splits if_splits)
  show ?thesis unfolding p(3) by (rule turn_in_ok [OF assms(1) p(1)]) (use p(2) in auto)
qed

lemma step_fetched:
  assumes "loro_ok (ne_loro E) covers" "net_ok E covers n" "chat_step E (NFetched now acc i) n = Some n'"
  shows "net_ok E covers n'"
proof -
  obtain st gen fl buf where p: "cn_phase n = Some (Fetching st gen fl buf)" "i < length (cn_marks n)"
      "unat (sh_checkpoint_seq st) \<le> fst (cn_marks n ! i)"
      "n' = turn_in E now acc (fst (cn_marks n ! i)) (EvFetched (snd (snd (cn_marks n ! i)))) (Fetching st gen fl buf) n"
    using assms(3) by (auto simp: chat_step_def split: option.splits Phase.splits if_splits)
  obtain q f k where m: "cn_marks n ! i = (q, f, k)" using prod_cases3 by blast
  show ?thesis unfolding p(4)
    by (rule turn_in_ok [OF assms(2) p(1)]) (use mark_blob [OF assms(1,2) p(2) m] p(3) m in auto)
qed

lemma step_local:
  assumes "net_ok E covers n" "chat_step E (NLocal now batch) n = Some n'"
  shows "net_ok E covers n'"
proof -
  obtain s where s: "s = (ca_sink (cn_actor n))\<lparr>es_doc := es_doc (ca_sink (cn_actor n)) @ [(ne_content E batch, Imported)]\<rparr>"
    by blast
  obtain a' where a': "a' = commit_local E now batch (cn_actor n)" by blast
  obtain r s1 where p: "sk_persist_update (sink_at E now) batch (ne_content E batch) s = (r, s1)" by force
  obtain s2 where s2: "s2 = snd (sk_reject_update (sink_at E now) batch s1)" by blast
  have grow: "doc_has (ne_loro E) covers s b" if "doc_has (ne_loro E) covers (ca_sink (cn_actor n)) b" for b
    using that by (rule doc_has_extends) (auto simp: extends_def s)
  have "s1 = snd (sk_persist_update (sink_at E now) batch (ne_content E batch) s)" by (simp add: p)
  then have e1: "extends s s1" by (auto simp: engine_sink_def intro!: extends_same)
  have e2: "extends s1 s2" by (auto simp: s2 engine_sink_def intro!: extends_same)
  have sink: "ca_sink a' = s1 \<or> ca_sink a' = s2"
    using p by (auto simp: a' commit_local_def enqueue_batch_def Let_def s2 s actor_defs)
  have "keeps E covers (cn_actor n) a'"
    using grow sink doc_has_extends e1 e2 unfolding keeps_def by metis
  moreover have "doc_has (ne_loro E) covers s (ne_content E batch)" by (auto simp: doc_has_def s)
  then have "doc_has (ne_loro E) covers (ca_sink a') (ne_content E batch)"
    using sink doc_has_extends e1 e2 by metis
  moreover have "chat_cursor a' = chat_cursor (cn_actor n)"
    using p by (auto simp: a' commit_local_def enqueue_batch_def Let_def s actor_defs)
  moreover have "\<forall>p \<in> set (ch_pending (ca_shared a')). p \<in> set (ch_pending (ca_shared (cn_actor n))) \<or>
      pp_batch_id p = batch \<and> pp_bytes p = ne_content E batch"
    using p by (auto simp: a' commit_local_def enqueue_batch_def Let_def s actor_defs)
  ultimately have "moved E covers (cn_log n) (cn_owed n) (cn_owed n) (cn_actor n) a'"
    using net_okD(2) [OF assms(1)] unfolding moved_def client_ok_def claims_def push_ok_def keeps_def by metis
  from moved_net [OF assms(1) this] assms(2) show ?thesis by (simp add: chat_step_def a')
qed

lemma step_other:
  assumes "net_ok E covers n" "chat_step E (NOther now device batch) n = Some n'"
  shows "net_ok E covers n'"
proof -
  obtain r out R where p: "post_rows now device batch (ne_content E batch) (cn_room n) = (r, out, R)"
    using prod_cases3 by blast
  have f: "\<not> room_full n" and n': "n' = after_room out R (ne_content E batch) n"
    using assms(2) p by (auto simp: chat_step_def after_room_def split: if_splits)
  show ?thesis unfolding n'
    by (rule after_room_ok [OF assms(1) post_rows_ok(1) [OF net_okD(1) [OF assms(1)] _ refl p]])
      (use f net_okD(1) [OF assms(1)] in \<open>simp add: room_full_def room_ok_def\<close>)
qed

lemma post_checkpoint_ok:
  assumes "net_ok E covers n" "honest_mark (ne_loro E) covers (cn_log n) (q, f, k)"
    "post_checkpoint q f k (cn_room n) = (Inr v, R)"
  shows "net_ok E covers (n\<lparr>cn_room := R, cn_marks := cn_marks n @ [(q, f, k)]\<rparr>)"
proof -
  obtain l where "commitCheckpoint q f k (cr_log (cn_room n)) = (Inr v, l)" "cr_log R = l"
    using assms(3) by (auto simp: post_checkpoint_def split: if_splits prod.splits)
  from commit_ok [OF net_okD(1) [OF assms(1)] assms(2) this(1)] this(2) assms(1)
  show ?thesis by (simp add: net_ok_def link_ok_def Let_def)
qed

lemma step_other_post:
  assumes "net_ok E covers n" "chat_step E (NOtherPost q f k) n = Some n'" "honest_mark (ne_loro E) covers (cn_log n) (q, f, k)"
  shows "net_ok E covers n'"
proof -
  obtain v R where "post_checkpoint q f k (cn_room n) = (Inr v, R)" "n' = n\<lparr>cn_room := R, cn_marks := cn_marks n @ [(q, f, k)]\<rparr>"
    using assms(2) by (auto simp: chat_step_def split: prod.splits sum.splits)
  with post_checkpoint_ok [OF assms(1,3)] show ?thesis by blast
qed

lemma step_http_start:
  assumes "net_ok E covers n" "chat_step E (NHttpStart now) n = Some n'"
  shows "net_ok E covers n'"
proof -
  obtain ph a' where p: "spawn_offline_sync (sink_at E now) (cn_actor n) = (ph, a')" by force
  have n': "n' = n\<lparr>cn_actor := a', cn_http := ph, cn_reply := None\<rparr>"
    using assms(2) p by (auto simp: chat_step_def split: if_splits)
  have "moved E covers (cn_log n) (cn_owed n) (cn_owed n) (cn_actor n) a' \<and> (\<forall>h. ph = Some h \<longrightarrow>
      http_ok (sink_at E 0) (net_has E covers) (row_at (cn_log n)) (ne_content E) (length (cn_log n)) (cn_owed n) (ca_sink a') h)"
  proof (cases "ca_sync_busy (cn_actor n)")
    case True
    with p have "ph = None" "a' = cn_actor n" by (simp_all add: spawn_offline_sync_def)
    with moved_same [OF net_okD(2) [OF assms(1)], of "cn_actor n"] show ?thesis by (simp add: keeps_def)
  next
    case False
    obtain a0 where a0: "a0 = (cn_actor n)\<lparr>ca_sync_busy := True\<rparr>" by blast
    have m: "moved E covers (cn_log n) (cn_owed n) (cn_owed n) (cn_actor n) a0"
      by (rule moved_same [OF net_okD(2) [OF assms(1)]]) (simp_all add: a0 keeps_def)
    then have c: "client_ok (net_has E covers) (row_at (cn_log n)) (ne_content E) (length (cn_log n)) (cn_owed n) a0"
      by (simp add: moved_def)
    have t: "post_next (sink_at E now) (ch_pending (ca_shared a0)) a0 = (ph, a')"
      using p False by (simp add: spawn_offline_sync_def a0)
    have q: "\<forall>p \<in> set (ch_pending (ca_shared a0)). push_ok (net_has E covers) (ne_content E) (ca_sink a0) (pp_batch_id p) (pp_bytes p)"
      using c by (simp add: client_ok_def)
    have "client_ok (net_has E covers) (row_at (cn_log n)) (ne_content E) (length (cn_log n)) (cn_owed n) a' \<and>
        keeps E covers a0 a' \<and>
        (\<forall>c. claims (net_has E covers) (row_at (cn_log n)) (cn_owed n) (ca_sink a0) c \<longrightarrow>
           claims (net_has E covers) (row_at (cn_log n)) (cn_owed n) (ca_sink a') c) \<and>
        (\<forall>h. ph = Some h \<longrightarrow> http_ok (sink_at E now) (net_has E covers) (row_at (cn_log n)) (ne_content E)
           (length (cn_log n)) (cn_owed n) (ca_sink a') h)"
      unfolding keeps_def
      by (rule engine.post_next_ok [where L = "ne_loro E" and ok = "ne_sql E" and now = now, OF c q,
          unfolded engine.http_turn_ok_def engine.grows_def engine.settles_def t prod.case])
    with m show ?thesis by (auto simp: moved_def keeps_def http_ok_sink [of E now])
  qed
  then show ?thesis unfolding n'
    using net_ok_http [OF moved_net [OF assms(1)], of "cn_owed n" a' ph] by simp
qed

lemma step_http_serve:
  assumes "net_ok E covers n" "chat_step E (NHttpServe now) n = Some n'"
  shows "net_ok E covers n'"
proof -
  have f: "\<not> room_full n" and s: "(\<exists>p ps. cn_http n = Some (HttpPosting p ps)) \<or> (\<exists>c x y. cn_http n = Some (HttpPulling c x y))"
    using assms(2) by (auto simp: chat_step_def split: if_splits option.splits HttpPhase.splits)
  note r = net_okD(1) [OF assms(1)]
  from s show ?thesis
  proof (elim disjE exE)
    fix cur x y assume h: "cn_http n = Some (HttpPulling cur x y)"
    with assms(2) have "n' = n\<lparr>cn_reply := Some (HtBody (Some (get_rows (ne_wire_len E) (unat cur) None (cn_room n))))\<rparr>"
      by (auto simp: chat_step_def split: if_splits)
    with get_rows_ok [OF r] show ?thesis by (auto simp: reply_ok_def intro!: net_ok_reply [OF assms(1)])
  next
    fix p ps assume h: "cn_http n = Some (HttpPosting p ps)"
    obtain x out R where m: "post_rows now (ca_device_id (cn_actor n)) (pp_batch_id p) (pp_bytes p) (cn_room n) = (x, out, R)"
      using prod_cases3 by blast
    obtain log' where l: "log' = log_after (cn_room n) R (pp_bytes p) (cn_log n)" by blast
    have "push_ok (net_has E covers) (ne_content E) (ca_sink (cn_actor n)) (pp_batch_id p) (pp_bytes p)"
      using net_okD(3) [OF assms(1)] h by (simp add: link_ok_def Let_def http_ok_def)
    then have b: "pp_bytes p = ne_content E (pp_batch_id p)" "net_has E covers (ca_sink (cn_actor n)) (pp_bytes p)"
      by (auto simp: push_ok_def)
    have len: "length (cn_log n) + 1 < 2 ^ 53" using f r by (simp add: room_full_def room_ok_def)
    note o = post_rows_ok [OF r len b(1) m]
    have ok: "net_ok E covers (after_room out R (pp_bytes p) n)" by (rule after_room_ok [OF assms(1) o(1)])
    obtain ans where ans: "ans = HtPosted (case x of Inl _ \<Rightarrow> None | Inr (seq, _) \<Rightarrow> Some (Some (pp_batch_id p, of_nat seq)))" by blast
    have n': "n' = (after_room out R (pp_bytes p) n)\<lparr>cn_reply := Some ans\<rparr>"
      using assms(2) h m by (auto simp: chat_step_def after_room_def ans split: if_splits)
    have big: "length log' < 2 ^ 64" using net_okD(4) [OF ok] by (simp add: after_room_def l)
    have "reply_ok E covers (row_at log') (length log') (ca_sink (cn_actor n)) ans"
    proof (cases x)
      case (Inr y)
      obtain seq dup where y: "x = Inr (seq, dup)" using Inr by (cases y) simp
      from o(2) [OF y] have "0 < seq" "seq \<le> length log'" "row_at log' seq = pp_bytes p" by (simp_all add: l)
      moreover from this big have "unat (of_nat seq :: u64) = seq" by (simp add: unat_of_nat)
      ultimately show ?thesis using b(2) by (simp add: ans y reply_ok_def)
    qed (simp add: ans reply_ok_def)
    then show ?thesis unfolding n' using net_ok_reply [OF ok, of ans] by (simp add: after_room_def l)
  qed
qed

lemma step_http_reply:
  assumes "net_ok E covers n" "chat_step E (NHttpReply now) n = Some n'"
  shows "net_ok E covers n'"
proof -
  obtain ph r where p: "cn_http n = Some ph" "cn_reply n = Some r" "n' = http_in E now 0 r ph n"
    using assms(2) by (auto simp: chat_step_def split: option.splits)
  have "reply_ok E covers (row_at (cn_log n)) (length (cn_log n)) (ca_sink (cn_actor n)) r"
    using net_okD(3) [OF assms(1)] p by (simp add: link_ok_def Let_def)
  then show ?thesis unfolding p(3) by (intro http_in_ok [OF assms(1) p(1)]) (auto simp: reply_ok_def)
qed

lemma step_http_lost:
  assumes "net_ok E covers n" "chat_step E (NHttpLost now) n = Some n'"
  shows "net_ok E covers n'"
proof -
  obtain ph where p: "cn_http n = Some ph" "n' = http_in E now 0 (lost_event ph) ph n"
    using assms(2) by (auto simp: chat_step_def split: option.splits)
  show ?thesis unfolding p(2)
    by (rule http_in_ok [OF assms(1) p(1)]) (auto simp: lost_event_def split: HttpPhase.splits)
qed

lemma step_http_fetched:
  assumes "loro_ok (ne_loro E) covers" "net_ok E covers n" "chat_step E (NHttpFetched now i) n = Some n'"
  shows "net_ok E covers n'"
proof -
  obtain st after epoch gen fs where p: "cn_http n = Some (HttpFetching st after epoch gen fs)" "i < length (cn_marks n)"
      "unat (sh_checkpoint_seq st) \<le> fst (cn_marks n ! i)"
      "n' = http_in E now (fst (cn_marks n ! i)) (HtCheckpoint (Some (snd (snd (cn_marks n ! i))))) (HttpFetching st after epoch gen fs) n"
    using assms(3) by (auto simp: chat_step_def split: option.splits HttpPhase.splits if_splits)
  obtain q f k where m: "cn_marks n ! i = (q, f, k)" using prod_cases3 by blast
  show ?thesis unfolding p(4)
    by (rule http_in_ok [OF assms(2) p(1)]) (use mark_blob [OF assms(1,2) p(2) m] p(3) m in auto)
qed

text \<open>A checkpoint prepared while the cursor owes nothing is honest.\<close>

lemma prepared_honest:
  assumes "loro_ok (ne_loro E) covers" "net_ok E covers n" "cn_owed n = 0" "es_alive (ca_sink (cn_actor n))"
    "prepare_checkpoint (ne_loro E) (ne_sql E) (cn_actor n) = (Some p, a')"
  shows "honest_mark (ne_loro E) covers (cn_log n) (unat (pt_seq_covered p), pt_frontier p, pt_snapshot p)"
proof -
  obtain L a where L: "L = ne_loro E" and a: "a = cn_actor n" by blast
  obtain r e where e: "in_store (rejected_chat_updates (ne_sql E) (es_chat (ca_sink a))) (ca_sink a) = (r, e)" by force
  have doc: "es_doc e = es_doc (ca_sink a)" using arg_cong [OF e, of "\<lambda>x. es_doc (snd x)"] by simp
  have p: "pt_seq_covered p = chat_cursor a" "pt_snapshot p = lo_export L (es_doc (ca_sink a))"
    "\<exists>vv vv'. lo_blob_end L (pt_snapshot p) = Some vv \<and> pt_frontier p = lo_encode_vv L vv \<and> lo_decode_vv L (pt_frontier p) = Some vv'"
    using assms(5) [folded L a] unfolding prepare_checkpoint_def Let_def e prod.case doc
    by (auto simp: chat_stats_def Let_def bind_eq_Some_conv split: option.splits)
  have "faithful L covers (pt_frontier p) (pt_snapshot p)"
    unfolding faithful_def using p(3) loro_okD(4) [OF assms(1) [folded L]] by (metis option.inject)
  moreover have "covers (pt_snapshot p) (row_at (cn_log n) i)" if i: "0 < i" "i \<le> unat (chat_cursor a)" for i
  proof -
    have "net_has E covers (ca_sink a) (row_at (cn_log n) i)"
      using net_okD(2) [OF assms(2)] assms(3) i by (auto simp: client_ok_def claims_def a)
    from doc_has_covered [OF assms(1) this] assms(4) show ?thesis by (simp add: p(2) L a)
  qed
  moreover have "unat (chat_cursor a) \<le> length (cn_log n)"
    using net_okD(2) [OF assms(2)] by (simp add: client_ok_def a)
  ultimately show ?thesis by (simp add: honest_mark_def p(1) L)
qed

lemma step_prepare:
  assumes "loro_ok (ne_loro E) covers" "net_ok E covers n" "chat_step E NPrepare n = Some n'" "cn_owed n = 0"
  shows "net_ok E covers n'"
proof -
  obtain p a' where t: "prepare_checkpoint (ne_loro E) (ne_sql E) (cn_actor n) = (p, a')" by force
  have alive: "es_alive (ca_sink (cn_actor n))" and n': "n' = n\<lparr>cn_actor := a', cn_post := p\<rparr>"
    using assms(3) t by (auto simp: chat_step_def split: if_splits)
  have a': "a' = with_sink (snd (in_store (rejected_chat_updates (ne_sql E) (es_chat (ca_sink (cn_actor n)))) (ca_sink (cn_actor n)))) (cn_actor n)"
    using t by (auto simp: prepare_checkpoint_def Let_def split: prod.splits)
  have "moved E covers (cn_log n) (cn_owed n) (cn_owed n) (cn_actor n) a'"
    by (rule moved_same [OF net_okD(2) [OF assms(2)]])
      (auto simp: a' keeps_def actor_defs intro: doc_has_extends [OF _ extends_same])
  from moved_net [OF assms(2) this] show ?thesis
    using prepared_honest [OF assms(1,2,4) alive] t by (simp add: n' net_ok_def link_ok_def Let_def)
qed

lemma posted_keeps:
  "keeps E covers a (checkpoint_posted ok p a)" "chat_cursor (checkpoint_posted ok p a) = chat_cursor a"
  "ch_pending (ca_shared (checkpoint_posted ok p a)) = ch_pending (ca_shared a)"
proof -
  let ?ack = "\<lambda>b e. snd (in_store (acknowledge_chat_update ok (es_chat e) b) e)"
  have "es_doc (fold ?ack bs e) = es_doc e \<and> es_alive (fold ?ack bs e) = es_alive e" for bs e
    by (induction bs arbitrary: e) simp_all
  then have "extends e (fold ?ack bs e)" for bs e by (simp add: extends_same)
  then show "keeps E covers a (checkpoint_posted ok p a)"
    unfolding keeps_def checkpoint_posted_def note_checkpoint_def actor_defs
    by (auto intro: doc_has_extends)
qed (simp_all add: checkpoint_posted_def note_checkpoint_def actor_defs)

lemma step_post_serve:
  assumes "net_ok E covers n" "chat_step E (NPostServe heard) n = Some n'"
  shows "net_ok E covers n'"
proof -
  obtain p where p: "cn_post n = Some p" using assms(2) by (auto simp: chat_step_def split: option.splits)
  obtain x R where t: "post_checkpoint (unat (pt_seq_covered p)) (pt_frontier p) (pt_snapshot p) (cn_room n) = (x, R)" by force
  have h: "honest_mark (ne_loro E) covers (cn_log n) (unat (pt_seq_covered p), pt_frontier p, pt_snapshot p)"
    using net_okD(3) [OF assms(1)] p by (simp add: link_ok_def Let_def)
  show ?thesis
  proof (cases x)
    case (Inl y)
    with assms(2) p t net_ok_drop(4) [OF assms(1)] show ?thesis by (simp add: chat_step_def)
  next
    case (Inr v)
    obtain a' where a': "a' = (if heard then checkpoint_posted (ne_sql E) p (cn_actor n) else cn_actor n)" by blast
    obtain n1 where n1: "n1 = n\<lparr>cn_room := R, cn_marks := cn_marks n @ [(unat (pt_seq_covered p), pt_frontier p, pt_snapshot p)]\<rparr>"
      by blast
    have ok: "net_ok E covers n1" unfolding n1 by (rule post_checkpoint_ok [OF assms(1) h t [unfolded Inr]])
    have "moved E covers (cn_log n1) (cn_owed n1) (cn_owed n1) (cn_actor n1) a'"
    proof (rule moved_same [OF net_okD(2) [OF ok]])
      show "keeps E covers (cn_actor n1) a'" by (cases heard) (simp_all add: a' n1 posted_keeps(1), simp add: keeps_def)
    qed (simp_all add: a' n1 posted_keeps)
    from net_ok_drop(4) [OF moved_net [OF ok this]] have "net_ok E covers (n1\<lparr>cn_actor := a', cn_owed := cn_owed n1, cn_post := None\<rparr>)"
      by simp
    moreover have "n' = n1\<lparr>cn_actor := a', cn_owed := cn_owed n1, cn_post := None\<rparr>"
      using assms(2) p t Inr by (auto simp: chat_step_def a' n1)
    ultimately show ?thesis by simp
  qed
qed

lemma step_evict:
  assumes "net_ok E covers n" "chat_step E NEvict n = Some n'"
  shows "net_ok E covers n'"
proof -
  obtain a' where a': "a' = with_sink ((ca_sink (cn_actor n))\<lparr>es_alive := False\<rparr>) (cn_actor n)" by blast
  have "moved E covers (cn_log n) (cn_owed n) (cn_owed n) (cn_actor n) a'"
    by (rule moved_same [OF net_okD(2) [OF assms(1)]]) (simp_all add: a' keeps_def doc_has_def actor_defs)
  from moved_net [OF assms(1) this] assms(2) show ?thesis by (simp add: chat_step_def a')
qed

lemma net_step:
  assumes "loro_ok (ne_loro E) covers" "net_ok E covers n" "chat_allowed E covers n ev" "chat_step E ev n = Some n'"
  shows "net_ok E covers n'"
proof (cases ev)
  case NDial with assms step_dial show ?thesis by blast
next case NUp with assms step_up show ?thesis by blast
next case NDown with assms step_down show ?thesis by blast
next case NSession with assms step_session show ?thesis by blast
next case NFetched with assms step_fetched show ?thesis by blast
next case NLocal with assms step_local show ?thesis by blast
next case NOther with assms step_other show ?thesis by blast
next case (NOtherPost q f k) with assms(3) have "honest_mark (ne_loro E) covers (cn_log n) (q, f, k)" by simp
  with NOtherPost assms(2,4) step_other_post show ?thesis by blast
next case NHttpStart with assms step_http_start show ?thesis by blast
next case NHttpServe with assms step_http_serve show ?thesis by blast
next case NHttpReply with assms step_http_reply show ?thesis by blast
next case NHttpLost with assms step_http_lost show ?thesis by blast
next case NHttpFetched with assms step_http_fetched show ?thesis by blast
next case NPrepare with assms(3) have "cn_owed n = 0" by simp
  with NPrepare assms(1,2,4) step_prepare show ?thesis by blast
next case NPostServe with assms step_post_serve show ?thesis by blast
next case NPostLost with assms(2,4) net_ok_drop(4) show ?thesis by (auto simp: chat_step_def)
next case NEvict with assms step_evict show ?thesis by blast
next case NReset with assms(3) show ?thesis by simp
qed

lemma net_run:
  assumes "loro_ok (ne_loro E) covers"
  shows "net_ok E covers n \<Longrightarrow> allowed_run E covers evs n \<Longrightarrow> chat_run E evs n = Some n' \<Longrightarrow> net_ok E covers n'"
proof (induction evs arbitrary: n)
  case (Cons ev evs)
  then obtain n1 where "chat_step E ev n = Some n1" "chat_run E evs n1 = Some n'" by (auto split: option.splits)
  with Cons net_step [OF assms Cons.prems(1)] show ?case by auto
qed simp

end
