(* ===== verification/Chat_Debt.thy ===== *)
theory Chat_Debt
  imports Chat_Invariant
begin

text \<open>
  How large the debt of a cursor gets, and when it is paid: it never exceeds the checkpoint of the room, a
  state or checkpoint on its way to the device reaches as far, and a session that has left the fetch owes
  nothing.
\<close>

section \<open>The debt\<close>

definition frame_debt :: "nat \<Rightarrow> nat \<Rightarrow> WireFrame \<Rightarrow> bool" where
  "frame_debt D C f \<longleftrightarrow>
     (wf_kind f = FT_STATE \<longrightarrow> (\<forall>st. state_header (wf_header f) = Some st \<longrightarrow>
        D \<le> unat (sh_checkpoint_seq st) \<and> unat (sh_checkpoint_seq st) \<le> C \<and>
        (sh_checkpoint_size st = 0 \<longrightarrow> sh_checkpoint_seq st = 0)))"

fun phase_debt :: "nat \<Rightarrow> Phase \<Rightarrow> bool" where
  "phase_debt D AwaitingState \<longleftrightarrow> True"
| "phase_debt D (Fetching st gen fl buf) \<longleftrightarrow> D \<le> unat (sh_checkpoint_seq st)"
| "phase_debt D (Backfilling fl) \<longleftrightarrow> D = 0"
| "phase_debt D (Steady v) \<longleftrightarrow> D = 0"

definition debt_ok :: "ChatNet \<Rightarrow> bool" where
  "debt_ok n \<longleftrightarrow>
     (let D = cn_owed n; C = cl_checkpoint_seq (cr_log (cn_room n)) in
      D \<le> C \<and> (\<forall>ph. cn_phase n = Some ph \<longrightarrow> phase_debt D ph) \<and>
      (cn_phase n = Some AwaitingState \<longrightarrow> (\<forall>f \<in> set (cn_down n). frame_debt D C f)))"

lemma phase_debt_less: "phase_debt D ph \<Longrightarrow> D' \<le> D \<Longrightarrow> phase_debt D' ph"
  by (cases ph) auto

lemma frame_debt_less: "frame_debt D C f \<Longrightarrow> D' \<le> D \<Longrightarrow> C \<le> C' \<Longrightarrow> frame_debt D' C' f"
  by (auto simp: frame_debt_def)

lemma plan_contained: "plan_catch_up c st b = RowsOnly x \<Longrightarrow> b \<or> sh_checkpoint_size st = 0"
  by (auto simp: plan_catch_up_def Let_def split: if_splits)

lemma finish_phase: "finish_backfill acc inst fl head a = (Inr ph, sent, a') \<Longrightarrow> \<exists>v. ph = Steady v"
  by (auto simp: finish_backfill_def Let_def split: prod.splits if_splits)

lemma on_state_debt:
  assumes "on_state S acc st frontier a = (Inr ph, sent, a')" "D \<le> unat (sh_checkpoint_seq st)"
    "sh_checkpoint_size st = 0 \<longrightarrow> sh_checkpoint_seq st = 0"
  shows "phase_debt (owed_after_state S st frontier a D) ph \<and> ph \<noteq> AwaitingState"
proof -
  obtain a1 where a1: "a1 = note_state S st a" by blast
  obtain plan where plan: "plan = plan_catch_up (chat_cursor a1) st (frontier_contained S st frontier a1)" by blast
  have "(\<exists>x. plan = RowsOnly x) \<and> (\<exists>fl. ph = Backfilling fl) \<or> (\<exists>gen fl. ph = Fetching st gen fl [])"
    using assms(1) unfolding on_state_def Let_def a1 [symmetric] plan [symmetric]
    by (auto split: if_splits prod.splits CatchUpPlan.splits)
  then show ?thesis
  proof
    assume h: "(\<exists>x. plan = RowsOnly x) \<and> (\<exists>fl. ph = Backfilling fl)"
    then have "frontier_contained S st frontier a1"
      using plan_contained unfolding plan by (metis frontier_contained_def)
    with h assms(2,3) show ?thesis by (auto simp: owed_after_state_def a1)
  next
    assume "\<exists>gen fl. ph = Fetching st gen fl []"
    with assms(2) show ?thesis by (auto simp: owed_after_state_def)
  qed
qed

lemma on_fetched_debt:
  assumes "on_fetched S acc inst st gen fl buf bs a = (Inr ph, sent, a')" "D \<le> q"
  shows "phase_debt (owed_after_import S bs (sh_checkpoint_seq st) q a D) ph \<and> ph \<noteq> AwaitingState"
proof -
  obtain v s where s: "sk_apply_checkpoint S bs (sh_checkpoint_seq st) (ca_sink a) = (Inr v, s)"
    using assms(1) by (auto simp: on_fetched_def split: prod.splits sum.splits)
  have "(\<exists>fl. ph = Backfilling fl) \<or> (\<exists>v. ph = Steady v)"
    using assms(1) by (auto simp: on_fetched_def Let_def split: prod.splits sum.splits option.splits dest: finish_phase)
  with s assms(2) show ?thesis by (auto simp: owed_after_import_def)
qed

lemma turn_debt:
  assumes "session_turn S acc inst ev ph a = (Inr ph', sent, a')" "phase_debt D ph"
    "\<And>f. ev = EvBytes (Some f) \<Longrightarrow> ph = AwaitingState \<Longrightarrow> frame_debt D C f"
    "\<And>st gen fl buf bs. ph = Fetching st gen fl buf \<Longrightarrow> ev = EvFetched bs \<Longrightarrow> unat (sh_checkpoint_seq st) \<le> q"
  shows "phase_debt (owed_after_turn S q ev ph a D) ph' \<and>
    (ph' = AwaitingState \<longrightarrow> ph = AwaitingState \<and> owed_after_turn S q ev ph a D = D)"
proof (cases ph)
  case AwaitingState
  show ?thesis
  proof (cases "\<exists>f st. ev = EvBytes (Some f) \<and> wf_kind f = FT_STATE \<and> state_header (wf_header f) = Some st")
    case True
    then obtain f st where f: "ev = EvBytes (Some f)" "wf_kind f = FT_STATE" "state_header (wf_header f) = Some st" by blast
    with assms(1,3) AwaitingState have "on_state S acc st (wf_payload f) a = (Inr ph', sent, a')" "frame_debt D C f"
      by (auto simp: session_turn_def)
    with f on_state_debt [OF this(1), of D] show ?thesis
      by (auto simp: owed_after_turn_def AwaitingState frame_debt_def)
  next
    case False
    with assms(1) AwaitingState show ?thesis
      by (auto simp: session_turn_def owed_after_turn_def split: ChatSessionEvent.splits option.splits if_splits)
  qed
next
  case (Fetching st gen fl buf)
  show ?thesis
  proof (cases "\<exists>bs. ev = EvFetched bs")
    case True
    then obtain bs where bs: "ev = EvFetched bs" by blast
    from assms(4) [OF Fetching bs] assms(2) Fetching have "D \<le> q" by simp
    with on_fetched_debt [OF _ this, of S "acc 0" inst st gen fl buf bs a ph' sent a'] assms(1) bs show ?thesis
      by (simp add: session_turn_def owed_after_turn_def Fetching)
  next
    case False
    with assms(1,2) Fetching show ?thesis
      by (auto simp: session_turn_def owed_after_turn_def split: ChatSessionEvent.splits option.splits if_splits)
  qed
next
  case (Backfilling fl)
  with assms(1,2) show ?thesis
    by (auto simp: session_turn_def owed_after_turn_def on_backfill_def split: ChatSessionEvent.splits option.splits if_splits prod.splits
        dest: finish_phase)
next
  case (Steady v)
  with assms(1,2) show ?thesis
    by (auto simp: session_turn_def owed_after_turn_def on_steady_def split: ChatSessionEvent.splits option.splits if_splits prod.splits bool.splits)
qed

lemma turn_owed_bound:
  assumes "\<And>f. ev = EvBytes (Some f) \<Longrightarrow> ph = AwaitingState \<Longrightarrow> frame_debt D C f" "D \<le> C"
  shows "owed_after_turn S q ev ph a D \<le> C"
  using assms by (auto simp: owed_after_turn_def owed_after_state_def owed_after_import_def frame_debt_def
      split: Phase.splits ChatSessionEvent.splits option.splits sum.splits if_splits)

lemma http_owed_less: "owed_after_http S q ev ph a D \<le> D"
  by (auto simp: owed_after_http_def owed_after_body_def owed_after_import_def
      split: HttpPhase.splits HttpEvent.splits option.splits sum.splits list.splits if_splits)


lemma append_checkpoint: "appendRow d b bs l = (r, l') \<Longrightarrow> cl_checkpoint_seq l' = cl_checkpoint_seq l"
  by (auto simp: appendRow_def Let_def split: if_splits option.splits)

lemma post_rows_checkpoint:
  "post_rows now d b bs R = (r, out, R') \<Longrightarrow> cl_checkpoint_seq (cr_log R') = cl_checkpoint_seq (cr_log R)"
  by (auto simp: post_rows_def split: if_splits prod.splits bool.splits sum.splits dest!: append_checkpoint quota_log)

lemma message_checkpoint:
  "room_message now k (Some f) R = (out, R') \<Longrightarrow> cl_checkpoint_seq (cr_log R') = cl_checkpoint_seq (cr_log R)"
  by (auto simp: room_message_def room_hello_def room_push_def Let_def
      split: if_splits prod.splits bool.splits sum.splits dest!: append_checkpoint quota_log)

lemma post_rows_frames:
  "post_rows now d b bs R = (r, out, R') \<Longrightarrow> (j, f) \<in> set out \<Longrightarrow> wf_kind f \<noteq> FT_STATE"
  by (auto simp: post_rows_def chat_relay_def split: if_splits prod.splits bool.splits sum.splits)

lemma message_frames:
  assumes "room_message now k (Some g) R = (out, R')" "(j, f) \<in> set out"
  shows "wf_kind f \<noteq> FT_STATE \<or> f = stateFrame (cr_log R)"
  using assms
  by (auto simp: room_message_def room_hello_def room_rows_req_def room_push_def room_presence_def chat_relay_def Let_def
      split: if_splits prod.splits bool.splits sum.splits)

lemma state_frame_debt:
  assumes "room_ok E covers log marks l" "D \<le> cl_checkpoint_seq l"
  shows "frame_debt D (cl_checkpoint_seq l) (stateFrame l)"
proof -
  have "sh_checkpoint_seq st = 0" if "state_header (logStats l) = Some st" "sh_checkpoint_size st = 0" for st
    using state_header_stats [OF that(1)] that(2) assms(1) by (auto simp: room_ok_def unat_eq_zero)
  with assms(2) show ?thesis
    by (auto simp: frame_debt_def stateFrame_def dest: state_header_stats)
qed

lemma debt_turn_in:
  assumes "debt_ok n" "cn_phase n = Some ph"
    "\<And>f. ev = EvBytes (Some f) \<Longrightarrow> ph = AwaitingState \<Longrightarrow> frame_debt (cn_owed n) (cl_checkpoint_seq (cr_log (cn_room n))) f"
    "\<And>st gen fl buf bs. ph = Fetching st gen fl buf \<Longrightarrow> ev = EvFetched bs \<Longrightarrow> unat (sh_checkpoint_seq st) \<le> q"
  shows "debt_ok (turn_in E now acc q ev ph n)"
proof -
  obtain r sent a' where t: "session_turn (sink_at E now) acc now ev ph (cn_actor n) = (r, sent, a')"
    using prod_cases3 by blast
  obtain C where C: "C = cl_checkpoint_seq (cr_log (cn_room n))" by blast
  obtain D' where D': "D' = owed_after_turn (sink_at E now) q ev ph (cn_actor n) (cn_owed n)" by blast
  have d: "cn_owed n \<le> C" "phase_debt (cn_owed n) ph"
    "ph = AwaitingState \<Longrightarrow> f \<in> set (cn_down n) \<Longrightarrow> frame_debt (cn_owed n) C f" for f
    using assms(1,2) by (auto simp: debt_ok_def Let_def C)
  have b: "D' \<le> C" unfolding D' by (rule turn_owed_bound) (use assms(3) d(1) C in auto)
  show ?thesis
  proof (cases r)
    case (Inl x)
    with b show ?thesis by (simp add: turn_in_def t absorb_def debt_ok_def Let_def D' C)
  next
    case (Inr ph')
    from turn_debt [OF t [unfolded Inr] d(2), of C q] assms(3,4)
    have "phase_debt D' ph'" "ph' = AwaitingState \<Longrightarrow> ph = AwaitingState \<and> D' = cn_owed n" by (auto simp: D' C)
    with b d(3) show ?thesis by (auto simp: turn_in_def t Inr absorb_def debt_ok_def Let_def D' C)
  qed
qed

lemma debt_same:
  assumes "debt_ok n" "cn_phase n' = cn_phase n" "cn_owed n' \<le> cn_owed n"
    "cl_checkpoint_seq (cr_log (cn_room n)) \<le> cl_checkpoint_seq (cr_log (cn_room n'))"
    "\<And>f. f \<in> set (cn_down n') \<Longrightarrow> f \<in> set (cn_down n) \<or>
       frame_debt (cn_owed n) (cl_checkpoint_seq (cr_log (cn_room n'))) f"
  shows "debt_ok n'"
  unfolding debt_ok_def Let_def
proof (intro conjI allI impI ballI)
  show "cn_owed n' \<le> cl_checkpoint_seq (cr_log (cn_room n'))"
    using assms(1,3,4) by (simp add: debt_ok_def Let_def)
  show "phase_debt (cn_owed n') ph" if "cn_phase n' = Some ph" for ph
    using assms(1,2) that phase_debt_less [OF _ assms(3)] by (simp add: debt_ok_def Let_def)
  show "frame_debt (cn_owed n') (cl_checkpoint_seq (cr_log (cn_room n'))) f"
    if "cn_phase n' = Some AwaitingState" "f \<in> set (cn_down n')" for f
    using assms(5) [OF that(2)]
  proof
    assume "f \<in> set (cn_down n)"
    with assms(1,2) that(1) have "frame_debt (cn_owed n) (cl_checkpoint_seq (cr_log (cn_room n))) f"
      by (simp add: debt_ok_def Let_def)
    from frame_debt_less [OF this assms(3,4)] show ?thesis .
  next
    assume "frame_debt (cn_owed n) (cl_checkpoint_seq (cr_log (cn_room n'))) f"
    from frame_debt_less [OF this assms(3) le_refl] show ?thesis .
  qed
qed

lemma not_state_debt: "wf_kind f \<noteq> FT_STATE \<Longrightarrow> frame_debt D C f"
  by (simp add: frame_debt_def)

lemma post_checkpoint_floor:
  "post_checkpoint q f k R = (Inr v, R') \<Longrightarrow> room_ok E covers log marks (cr_log R) \<Longrightarrow>
   cl_checkpoint_seq (cr_log R) \<le> cl_checkpoint_seq (cr_log R')"
  by (auto simp: post_checkpoint_def commitCheckpoint_def room_ok_def split: if_splits prod.splits)

lemma http_in_debt: "debt_ok n \<Longrightarrow> debt_ok (http_in E now q ev ph n)"
  by (rule debt_same, assumption) (auto simp: http_in_def http_owed_less split: prod.splits)

lemma debt_step:
  assumes "net_ok E covers n" "debt_ok n" "chat_allowed E covers n ev" "chat_step E ev n = Some n'"
  shows "debt_ok n'"
proof (cases ev)
  case (NDial acc)
  with assms(2,4) show ?thesis
    by (auto simp: chat_step_def Let_def start_session_def absorb_def debt_ok_def accept_socket_def close_socket_def
        split: if_splits)
next
  case (NUp now)
  then obtain g fs where up: "cn_up n = g # fs" using assms(4) by (auto simp: chat_step_def split: list.splits)
  show ?thesis
  proof (cases "find (\<lambda>k. so_id k = cn_sock n) (cr_sockets (cn_room n))")
    case None
    with assms(4) up NUp have "n' = n\<lparr>cn_up := fs\<rparr>" by (simp add: chat_step_def)
    with assms(2) show ?thesis by (simp add: debt_ok_def)
  next
    case (Some k)
    obtain out R where m: "room_message now k (Some g) (cn_room n) = (out, R)" by force
    have n': "n' = n\<lparr>cn_room := R, cn_up := fs, cn_down := cn_down n @ routed out n,
        cn_log := log_after (cn_room n) R (wf_payload g) (cn_log n)\<rparr>"
      using assms(4) up Some m NUp by (auto simp: chat_step_def split: if_splits)
    have "frame_debt (cn_owed n) (cl_checkpoint_seq (cr_log R)) f" if "f \<in> set (routed out n)" for f
    proof -
      from routed_subset [OF that] obtain j where "(j, f) \<in> set out" by blast
      from message_frames [OF m this] show ?thesis
      proof
        assume "f = stateFrame (cr_log (cn_room n))"
        with state_frame_debt [OF net_okD(1) [OF assms(1)], of "cn_owed n"] assms(2) message_checkpoint [OF m]
        show ?thesis by (simp add: debt_ok_def Let_def)
      qed (rule not_state_debt)
    qed
    with message_checkpoint [OF m] show ?thesis unfolding n' by (intro debt_same [OF assms(2)]) auto
  qed
next
  case (NDown now acc)
  then obtain ph f fs where p: "cn_phase n = Some ph" "cn_down n = f # fs"
    using assms(4) by (auto simp: chat_step_def split: list.splits option.splits)
  with assms(4) NDown have n': "n' = turn_in E now acc 0 (EvBytes (Some f)) ph (n\<lparr>cn_down := fs\<rparr>)"
    by (simp add: chat_step_def)
  have "debt_ok (n\<lparr>cn_down := fs\<rparr>)" by (rule debt_same [OF assms(2)]) (auto simp: p(2))
  then show ?thesis unfolding n' using p assms(2) by (intro debt_turn_in) (auto simp: debt_ok_def Let_def)
next
  case (NSession now acc e)
  then obtain ph where p: "cn_phase n = Some ph" "own_event e" "n' = turn_in E now acc 0 e ph n"
    using assms(4) by (auto simp: chat_step_def split: option.splits if_splits)
  show ?thesis unfolding p(3) by (rule debt_turn_in [OF assms(2) p(1)]) (use p(2) in auto)
next
  case (NFetched now acc i)
  then obtain st gen fl buf where p: "cn_phase n = Some (Fetching st gen fl buf)"
      "unat (sh_checkpoint_seq st) \<le> fst (cn_marks n ! i)"
      "n' = turn_in E now acc (fst (cn_marks n ! i)) (EvFetched (snd (snd (cn_marks n ! i)))) (Fetching st gen fl buf) n"
    using assms(4) by (auto simp: chat_step_def split: option.splits Phase.splits if_splits)
  show ?thesis unfolding p(3) by (rule debt_turn_in [OF assms(2) p(1)]) (use p(2) in auto)
next
  case (NOther now d b)
  then obtain r out R where p: "post_rows now d b (ne_content E b) (cn_room n) = (r, out, R)" using prod_cases3 by blast
  with assms(4) NOther have n': "n' = n\<lparr>cn_room := R, cn_down := cn_down n @ routed out n,
      cn_log := log_after (cn_room n) R (ne_content E b) (cn_log n)\<rparr>" by (auto simp: chat_step_def split: if_splits)
  show ?thesis unfolding n'
    by (rule debt_same [OF assms(2)])
      (use post_rows_checkpoint [OF p] post_rows_frames [OF p] in \<open>auto dest!: routed_subset intro: not_state_debt\<close>)
next
  case (NOtherPost q f k)
  then obtain v R where p: "post_checkpoint q f k (cn_room n) = (Inr v, R)"
      "n' = n\<lparr>cn_room := R, cn_marks := cn_marks n @ [(q, f, k)]\<rparr>"
    using assms(4) by (auto simp: chat_step_def split: prod.splits sum.splits)
  show ?thesis unfolding p(2)
    by (rule debt_same [OF assms(2)]) (use post_checkpoint_floor [OF p(1) net_okD(1) [OF assms(1)]] in auto)
next
  case (NHttpServe now)
  show ?thesis
  proof (cases "cn_http n")
    case (Some h)
    show ?thesis
    proof (cases h)
      case (HttpPosting p ps)
      obtain r out R where t: "post_rows now (ca_device_id (cn_actor n)) (pp_batch_id p) (pp_bytes p) (cn_room n) = (r, out, R)"
        using prod_cases3 by blast
      from assms(4) NHttpServe Some HttpPosting t have
        "cn_phase n' = cn_phase n \<and> cn_owed n' = cn_owed n \<and> cn_room n' = R \<and> cn_down n' = cn_down n @ routed out n"
        by (auto simp: chat_step_def split: if_splits)
      then show ?thesis
        by (intro debt_same [OF assms(2)])
          (use post_rows_checkpoint [OF t] post_rows_frames [OF t] in \<open>auto dest!: routed_subset intro: not_state_debt\<close>)
    qed (use assms(2,4) NHttpServe Some in \<open>auto simp: chat_step_def debt_ok_def split: if_splits\<close>)
  qed (use assms(4) NHttpServe in \<open>simp add: chat_step_def split: if_splits\<close>)
next
  case (NPostServe heard)
  then obtain p where p: "cn_post n = Some p" using assms(4) by (auto simp: chat_step_def split: option.splits)
  obtain x R where t: "post_checkpoint (unat (pt_seq_covered p)) (pt_frontier p) (pt_snapshot p) (cn_room n) = (x, R)" by force
  show ?thesis
  proof (cases x)
    case (Inl y)
    with assms(2,4) p t NPostServe show ?thesis by (auto simp: chat_step_def debt_ok_def)
  next
    case (Inr v)
    with assms(4) p t NPostServe have
      "cn_phase n' = cn_phase n \<and> cn_owed n' = cn_owed n \<and> cn_room n' = R \<and> cn_down n' = cn_down n"
      by (auto simp: chat_step_def)
    then show ?thesis
      by (intro debt_same [OF assms(2)]) (use post_checkpoint_floor [OF t [unfolded Inr] net_okD(1) [OF assms(1)]] in auto)
  qed
next
  case (NHttpReply now)
  with assms(4) obtain ph r where "n' = http_in E now 0 r ph n" by (auto simp: chat_step_def split: option.splits)
  with http_in_debt [OF assms(2)] show ?thesis by simp
next
  case (NHttpLost now)
  with assms(4) obtain ph r where "n' = http_in E now 0 r ph n" by (auto simp: chat_step_def split: option.splits)
  with http_in_debt [OF assms(2)] show ?thesis by simp
next
  case (NHttpFetched now i)
  with assms(4) obtain q ph r where "n' = http_in E now q r ph n"
    by (auto simp: chat_step_def split: option.splits HttpPhase.splits if_splits)
  with http_in_debt [OF assms(2)] show ?thesis by simp
next
  case NReset
  with assms(3) show ?thesis by simp
qed (use assms(2,4) in \<open>auto simp: chat_step_def debt_ok_def split: if_splits prod.splits\<close>)

lemma debt_run:
  assumes "loro_ok (ne_loro E) covers"
  shows "net_ok E covers n \<Longrightarrow> debt_ok n \<Longrightarrow> allowed_run E covers evs n \<Longrightarrow> chat_run E evs n = Some n' \<Longrightarrow> debt_ok n'"
proof (induction evs arbitrary: n)
  case (Cons ev evs)
  then obtain n1 where "chat_step E ev n = Some n1" "chat_run E evs n1 = Some n'" by (auto split: option.splits)
  with Cons.prems(3) net_step [OF assms Cons.prems(1)] debt_step [OF Cons.prems(1,2)] Cons.IH [of n1] show ?case by auto
qed simp

lemma debt_fresh: "debt_ok (fresh_net a)"
  by (simp add: debt_ok_def fresh_net_def)

end
