(* ===== verification/Chat_Durability.thy ===== *)
theory Chat_Durability
  imports Chat_Host Chat_Room
begin

text \<open>
  The checkpoint's resumable download, the snapshot the persister stores with its cursor, and the division of
  a legacy document into rows: theorems on the operations of \<open>Chat_Host\<close>.

  The witnesses use a concrete document, \<open>toy_loro\<close>: an update is a string of bytes, which are its operations.
\<close>

section \<open>The download\<close>

text \<open>An answer of a server that holds the checkpoints \<open>B v\<close>, each under its sequence header \<open>v\<close>: the body is a
  part of one of them from the byte that was asked for, up to its end when the body ends.\<close>

fun honest_answers :: "(string \<Rightarrow> bytes) \<Rightarrow> FetchAttempt list \<Rightarrow> bytes \<Rightarrow> string option \<Rightarrow> bool" where
  "honest_answers B [] got seen \<longleftrightarrow> True"
| "honest_answers B (NoBearer # atts) got seen \<longleftrightarrow> honest_answers B atts got seen"
| "honest_answers B (NoAnswer # atts) got seen \<longleftrightarrow> honest_answers B atts got seen"
| "honest_answers B (Answer seq status body ended # atts) got seen \<longleftrightarrow>
     (\<exists>v. seq = Some v \<and>
        (let start = (if status = 200 then 0 else length got); rest = drop start (B v) in
         status \<in> {200, 206} \<longrightarrow> prefix body rest \<and> (ended \<longrightarrow> body = rest))) \<and>
     (if seen \<noteq> None \<and> seq \<noteq> seen then honest_answers B atts [] seq
      else honest_answers B atts ((if status = 200 then [] else got) @ body) seq)"

lemma fetch_loop_whole:
  assumes "fetch_loop n atts got seen = Inr bs" "honest_answers B atts got seen"
    "got = [] \<or> (\<exists>v. seen = Some v \<and> prefix got (B v))"
  shows "\<exists>v. bs = B v"
  using assms
proof (induction n atts got seen rule: fetch_loop.induct)
  case (5 n seq status body ended atts got seen)
  from 5(4) obtain v where v: "seq = Some v" by auto
  show ?case
  proof (cases "seen \<noteq> None \<and> seq \<noteq> seen")
    case True
    with 5 v show ?thesis by auto
  next
    case False
    obtain got' where g: "got' = (if status = 200 then [] else got) @ body" by blast
    from 5(3) False v have s: "status \<in> {200, 206}" by (auto split: if_splits)
    from 5(5) False v have base: "got = [] \<or> prefix got (B v)" by auto
    have body: "prefix body (drop (if status = 200 then 0 else length got) (B v))"
      "ended \<Longrightarrow> body = drop (if status = 200 then 0 else length got) (B v)"
      using 5(4) v s by (auto simp: Let_def)
    have whole: "(if status = 200 then [] else got) @ drop (if status = 200 then 0 else length got) (B v) = B v"
      using base by (auto simp: prefix_def)
    with body have p: "prefix got' (B v)" "ended \<Longrightarrow> got' = B v"
      unfolding g by (metis same_prefix_prefix, metis)
    show ?thesis
    proof (cases ended)
      case True
      with 5(3) False v s p(2) show ?thesis by (auto simp: g Let_def split: if_splits)
    next
      case e: False
      have h: "honest_answers B atts got' seq" using 5(4) False v by (auto simp: g)
      have "fetch_loop n atts got' seq = Inr bs" using 5(3) False v s e by (auto simp: g Let_def split: if_splits)
      with 5(2)[OF _ refl _ refl] False v s e h p(1) show ?thesis by (auto simp: g)
    qed
  qed
qed auto

text \<open>C32: a download that is resumed, restarted or answered by a newer checkpoint midway never mixes two of
  them: what it returns is one checkpoint of the server, whole.\<close>

theorem download_never_splices:
  assumes "checkpoint_fetch atts = Inr bs" "honest_answers B atts [] None"
  shows "\<exists>v. bs = B v"
  by (rule fetch_loop_whole [OF assms(1) [unfolded checkpoint_fetch_def] assms(2)]) simp

theorem download_never_splices_witness:
  "\<exists>v. [3, 4] = (\<lambda>v. if v = ''1'' then [1, 2 :: byte] else [3, 4]) v"
  by (rule download_never_splices [where atts = "[Answer (Some ''1'') 200 [1] False, Answer (Some ''2'') 206 [4] True,
      NoAnswer, Answer (Some ''2'') 200 [3, 4] True]"])
    (simp_all add: checkpoint_fetch_def numeral_eq_Suc)


text \<open>The header does not tell two checkpoints of the same sequence number apart, and the room accepts a
  second one under the number of the first: a download that is resumed across such a post returns a
  mixture of both.\<close>

theorem equal_sequence_is_spliced:
  "\<exists>R R1 R2. post_checkpoint 1 [9] [1, 2] R = (Inr 1, R1) \<and> post_checkpoint 1 [9] [3, 4] R1 = (Inr 1, R2) \<and>
     checkpoint_fetch [Answer (Some ''1'') 200 (take 1 [1, 2]) False, Answer (Some ''1'') 206 (drop 1 [3, 4]) True] =
       Inr [1, 4]"
proof -
  obtain R where R: "R = \<lparr>cr_log = ensureChatLog\<lparr>cl_head := 1\<rparr>, cr_sockets = [], cr_quotas = []\<rparr>" by blast
  obtain R1 where R1: "R1 = snd (post_checkpoint 1 [9] [1, 2] R)" by blast
  have "post_checkpoint 1 [9] [1, 2] R = (Inr 1, R1)" unfolding R1 R
    by (simp add: post_checkpoint_def commitCheckpoint_def ensureChatLog_def MAX_CHECKPOINT_BYTES_def)
  moreover have "\<exists>R2. post_checkpoint 1 [9] [3, 4] R1 = (Inr 1, R2)" unfolding R1 R
    by (simp add: post_checkpoint_def commitCheckpoint_def ensureChatLog_def MAX_CHECKPOINT_BYTES_def)
  moreover have "checkpoint_fetch [Answer (Some ''1'') 200 (take 1 [1, 2]) False, Answer (Some ''1'') 206 (drop 1 [3, 4]) True] =
       Inr [1, 4]" by (simp add: checkpoint_fetch_def numeral_eq_Suc)
  ultimately show ?thesis by blast
qed

section \<open>The snapshot\<close>

section \<open>The rows of a legacy document\<close>

text \<open>Consecutive ranges from \<open>start\<close> to \<open>stop\<close>.\<close>

fun tiles :: "int \<Rightarrow> int \<Rightarrow> (int \<times> int) list \<Rightarrow> bool" where
  "tiles start stop [] \<longleftrightarrow> start = stop"
| "tiles start stop ((a, b) # rs) \<longleftrightarrow> a = start \<and> a < b \<and> tiles b stop rs"

lemma tiles_append: "tiles a b rs \<Longrightarrow> tiles b c rs' \<Longrightarrow> tiles a c (rs @ rs')"
  by (induction rs arbitrary: a) auto

definition row_sized :: "(int \<Rightarrow> int \<Rightarrow> bytes option) \<Rightarrow> int \<times> int \<Rightarrow> bytes \<Rightarrow> bool" where
  "row_sized export = (\<lambda>(a, b) x. export a b = Some x \<and> (length x \<le> MAX_PUSH_BYTES \<or> b - a \<le> 1))"

text \<open>C34: the division of a peer's operations ends and loses none: the rows are the exports of consecutive
  ranges from the first operation to the last, each small enough to push or a single operation.\<close>

theorem split_covers_history:
  assumes "split_range export start stop = Some xs" "start < stop"
  shows "\<exists>rs. tiles start stop rs \<and> list_all2 (row_sized export) rs xs"
  using assms
proof (induction export start stop arbitrary: xs rule: split_range.induct)
  case (1 export start stop)
  obtain bs where e: "export start stop = Some bs"
    using 1(3) by (subst (asm) split_range.simps) (auto split: option.splits)
  show ?case
  proof (cases "length bs \<le> MAX_PUSH_BYTES \<or> stop - start \<le> 1")
    case True
    with 1(3) e have "xs = [bs]" by (subst (asm) split_range.simps) auto
    with e True 1(4) have "tiles start stop [(start, stop)] \<and> list_all2 (row_sized export) [(start, stop)] xs"
      by (auto simp: row_sized_def)
    then show ?thesis by blast
  next
    case False
    obtain middle where m: "middle = start + (stop - start) div 2" by blast
    with 1(3) e False obtain ys zs where s: "split_range export start middle = Some ys"
      "split_range export middle stop = Some zs" "xs = ys @ zs"
      by (subst (asm) split_range.simps) (auto simp: Let_def split: option.splits)
    from False m have "start < middle" "middle < stop" by auto
    with 1(1) [OF e False m s(1)] 1(2) [OF e False m s(1,2)] obtain rs rs' where
      "tiles start middle rs" "list_all2 (row_sized export) rs ys" "tiles middle stop rs'" "list_all2 (row_sized export) rs' zs"
      by blast
    then have "tiles start stop (rs @ rs') \<and> list_all2 (row_sized export) (rs @ rs') xs"
      unfolding s(3) using tiles_append list_all2_appendI by blast
    then show ?thesis by blast
  qed
qed

section \<open>A concrete document\<close>

definition covers_bytes :: "bytes \<Rightarrow> bytes \<Rightarrow> bool" where
  "covers_bytes k b \<longleftrightarrow> set b \<subseteq> set k"

definition held_bytes :: "loro_doc \<Rightarrow> bytes" where
  "held_bytes h = concat (map fst (filter (\<lambda>(_, st). st \<noteq> Parked) h))"

definition toy_loro :: "bytes Loro" where
  "toy_loro = \<lparr>lo_import = \<lambda>_ _. Imported, lo_export = held_bytes, lo_decode_vv = Some, lo_vv_empty = \<lambda>v. v = [],
     lo_includes = \<lambda>h v. set v \<subseteq> set (held_bytes h), lo_blob_end = Some, lo_encode_vv = \<lambda>v. v,
     lo_vv_includes = \<lambda>v w. set w \<subseteq> set v\<rparr>"

lemma toy_loro_ok: "loro_ok toy_loro covers_bytes"
  by (force simp: loro_ok_def toy_loro_def covers_bytes_def held_bytes_def)


section \<open>Witnesses\<close>


theorem split_covers_history_witness:
  "\<exists>rs. tiles 0 2 rs \<and> list_all2 (row_sized (\<lambda>a b. Some [0])) rs [[0]]"
  by (rule split_covers_history) (subst split_range.simps, simp_all add: MAX_PUSH_BYTES_def)

end
