(* ===== verification/Queue.thy ===== *)
theory Queue
  imports Text
begin

text \<open>
  The messages that wait for their turn, in the session document (\<^verbatim>\<open>src/crates/doc/src/queue.rs\<close>).

  The container is Loro's movable list of maps, which is not part of the repository: the record \<open>MovableList\<close>
  holds the operations the code calls, and \<open>movable_list_ok\<close> what Loro documents of them. Any device may
  write any value into it. A map's entries are JSON values; a delivery gate is read from an object.
\<close>

section \<open>The container\<close>

datatype RawRow = MapRow "(string \<times> json) list" | ValueRow json

record 'q MovableList =
  ml_rows :: "'q \<Rightarrow> RawRow list"
  ml_insert_map :: "nat \<Rightarrow> 'q \<Rightarrow> 'q"
  ml_delete :: "nat \<Rightarrow> 'q \<Rightarrow> 'q"
  ml_mov :: "nat \<Rightarrow> nat \<Rightarrow> 'q \<Rightarrow> 'q"
  ml_put :: "nat \<Rightarrow> string \<Rightarrow> json \<Rightarrow> 'q \<Rightarrow> 'q"
  ml_unset :: "nat \<Rightarrow> string \<Rightarrow> 'q \<Rightarrow> 'q"

definition remove_at :: "nat \<Rightarrow> 'a list \<Rightarrow> 'a list" where
  "remove_at i xs = take i xs @ drop (Suc i) xs"

definition insert_row :: "nat \<Rightarrow> 'a \<Rightarrow> 'a list \<Rightarrow> 'a list" where
  "insert_row i x xs = take i xs @ x # drop i xs"

definition movable_list_ok :: "'q MovableList \<Rightarrow> bool" where
  "movable_list_ok M \<longleftrightarrow>
     (\<forall>q i. i \<le> length (ml_rows M q) \<longrightarrow> ml_rows M (ml_insert_map M i q) = insert_row i (MapRow []) (ml_rows M q)) \<and>
     (\<forall>q i. i < length (ml_rows M q) \<longrightarrow> ml_rows M (ml_delete M i q) = remove_at i (ml_rows M q)) \<and>
     (\<forall>q i j. i < length (ml_rows M q) \<longrightarrow> j < length (ml_rows M q) \<longrightarrow>
        ml_rows M (ml_mov M i j q) = insert_row j (ml_rows M q ! i) (remove_at i (ml_rows M q))) \<and>
     (\<forall>q i k v m. i < length (ml_rows M q) \<longrightarrow> ml_rows M q ! i = MapRow m \<longrightarrow>
        ml_rows M (ml_put M i k v q) = (ml_rows M q)[i := MapRow (AList.update k v m)]) \<and>
     (\<forall>q i k m. i < length (ml_rows M q) \<longrightarrow> ml_rows M q ! i = MapRow m \<longrightarrow>
        ml_rows M (ml_unset M i k q) = (ml_rows M q)[i := MapRow (AList.delete k m)])"

section \<open>Messages\<close>

datatype QueueDeliveryGate =
    Editing (lease_id: string) (owner_device_id: string) (owner_instance_id: string)
      (acquired_at_ms: int) (expires_at_ms: int) (base_txthash: string)
  | ReviewRequired (previous_lease_id: string) (owner_device_id: string) (since_ms: int) (base_txthash: string)

record QueuedMessage =
  qm_id :: string
  qm_text :: string
  qm_attachments :: "string list"
  qm_hold_for_turn_end :: bool
  qm_issued_by :: string
  qm_issued_at :: int
  qm_edited_at :: "int option"
  qm_delivery_gate :: "QueueDeliveryGate option"

definition queued_message_new :: "string \<Rightarrow> string \<Rightarrow> string \<Rightarrow> QueuedMessage" where
  "queued_message_new qid txt issued_by =
     \<lparr>qm_id = qid, qm_text = txt, qm_attachments = [], qm_hold_for_turn_end = False, qm_issued_by = issued_by,
      qm_issued_at = 0, qm_edited_at = None, qm_delivery_gate = None\<rparr>"

text \<open>The derived serializer of a gate and its deserializer.\<close>

definition gate_to_json :: "QueueDeliveryGate \<Rightarrow> json" where
  "gate_to_json g =
     (case g of
        Editing l d inst acq ex h \<Rightarrow> JObj
          [(''kind'', JStr ''editing''), (''leaseId'', JStr l), (''ownerDeviceId'', JStr d), (''ownerInstanceId'', JStr inst),
           (''acquiredAtMs'', JInt acq), (''expiresAtMs'', JInt ex), (''baseTextHash'', JStr h)]
      | ReviewRequired l d since h \<Rightarrow> JObj
          [(''kind'', JStr ''reviewRequired''), (''previousLeaseId'', JStr l), (''ownerDeviceId'', JStr d),
           (''sinceMs'', JInt since), (''baseTextHash'', JStr h)])"

definition str_member :: "json \<Rightarrow> string \<Rightarrow> string option" where
  "str_member v k = Option.bind (json_get v k) as_str"

definition int_member :: "json \<Rightarrow> string \<Rightarrow> int option" where
  "int_member v k = Option.bind (json_get v k) as_i64"

definition gate_from_json :: "json \<Rightarrow> QueueDeliveryGate option" where
  "gate_from_json v =
     (if str_member v ''kind'' = Some ''editing'' then
        (case (str_member v ''leaseId'', str_member v ''ownerDeviceId'', str_member v ''ownerInstanceId'',
               int_member v ''acquiredAtMs'', int_member v ''expiresAtMs'', str_member v ''baseTextHash'') of
           (Some l, Some d, Some inst, Some acq, Some ex, Some h) \<Rightarrow> Some (Editing l d inst acq ex h)
         | _ \<Rightarrow> None)
      else if str_member v ''kind'' = Some ''reviewRequired'' then
        (case (str_member v ''previousLeaseId'', str_member v ''ownerDeviceId'', int_member v ''sinceMs'',
               str_member v ''baseTextHash'') of
           (Some l, Some d, Some since, Some h) \<Rightarrow> Some (ReviewRequired l d since h)
         | _ \<Rightarrow> None)
      else None)"

section \<open>Reading and writing a row\<close>

fun strings_of :: "json list \<Rightarrow> string list option" where
  "strings_of [] = Some []"
| "strings_of (JStr s # vs) = map_option (\<lambda>ss. s # ss) (strings_of vs)"
| "strings_of (_ # vs) = None"

definition read_strings :: "json \<Rightarrow> string list option" where
  "read_strings v = (case v of JArr vs \<Rightarrow> strings_of vs | _ \<Rightarrow> None)"

text \<open>A gate of a kind that is not known blocks the row as one to review.\<close>

definition read_gate :: "json option \<Rightarrow> QueueDeliveryGate option" where
  "read_gate v =
     (case v of
        None \<Rightarrow> None
      | Some JNull \<Rightarrow> None
      | Some g \<Rightarrow> (case gate_from_json g of Some gate \<Rightarrow> Some gate | None \<Rightarrow> Some (ReviewRequired [] [] 0 [])))"

definition queued_from_json :: "json \<Rightarrow> QueuedMessage option" where
  "queued_from_json v =
     (case (map_option trim (str_member v ''id''), str_member v ''text'') of
        (Some qid, Some txt) \<Rightarrow>
          if qid = [] \<or> trim txt = [] then None
          else Some
            \<lparr>qm_id = qid, qm_text = txt,
             qm_attachments = (case Option.bind (json_get v ''attachments'') read_strings of None \<Rightarrow> [] | Some ss \<Rightarrow> ss),
             qm_hold_for_turn_end = (case Option.bind (json_get v ''holdForTurnEnd'') as_bool of None \<Rightarrow> False | Some b \<Rightarrow> b),
             qm_issued_by = (case str_member v ''issuedBy'' of None \<Rightarrow> [] | Some d \<Rightarrow> d),
             qm_issued_at = (case int_member v ''issuedAt'' of None \<Rightarrow> 0 | Some t \<Rightarrow> t),
             qm_edited_at = int_member v ''editedAt'',
             qm_delivery_gate = read_gate (json_get v ''deliveryGate'')\<rparr>
      | _ \<Rightarrow> None)"

fun row_value :: "RawRow \<Rightarrow> json" where
  "row_value (MapRow m) = JObj m"
| "row_value (ValueRow v) = v"

definition read_queue :: "'q MovableList \<Rightarrow> 'q \<Rightarrow> QueuedMessage list" where
  "read_queue M q = List.map_filter (\<lambda>r. queued_from_json (row_value r)) (ml_rows M q)"

definition queued_entries :: "QueuedMessage \<Rightarrow> (string \<times> json) list" where
  "queued_entries item =
     [(''id'', JStr (qm_id item)), (''text'', JStr (qm_text item)), (''issuedBy'', JStr (qm_issued_by item)),
      (''issuedAt'', JInt (qm_issued_at item))] @
     (if qm_attachments item = [] then [] else [(''attachments'', JArr (map JStr (qm_attachments item)))]) @
     (if qm_hold_for_turn_end item then [(''holdForTurnEnd'', JBool True)] else []) @
     (case qm_edited_at item of None \<Rightarrow> [] | Some t \<Rightarrow> [(''editedAt'', JInt t)]) @
     (case qm_delivery_gate item of None \<Rightarrow> [] | Some g \<Rightarrow> [(''deliveryGate'', gate_to_json g)])"

definition write_queued_map :: "'q MovableList \<Rightarrow> nat \<Rightarrow> QueuedMessage \<Rightarrow> 'q \<Rightarrow> 'q" where
  "write_queued_map M i item q = fold (\<lambda>(k, v). ml_put M i k v) (queued_entries item) q"

section \<open>Operations\<close>

definition has_id :: "string \<Rightarrow> RawRow \<Rightarrow> bool" where
  "has_id qid r \<longleftrightarrow> (case r of MapRow m \<Rightarrow> map_of m ''id'' = Some (JStr qid) | ValueRow _ \<Rightarrow> False)"

fun position_where :: "('a \<Rightarrow> bool) \<Rightarrow> 'a list \<Rightarrow> nat option" where
  "position_where P [] = None"
| "position_where P (x # xs) = (if P x then Some 0 else map_option Suc (position_where P xs))"

definition index_of :: "'q MovableList \<Rightarrow> string \<Rightarrow> 'q \<Rightarrow> nat option" where
  "index_of M qid q = position_where (has_id qid) (ml_rows M q)"

definition row_member :: "'q MovableList \<Rightarrow> nat \<Rightarrow> string \<Rightarrow> 'q \<Rightarrow> json option" where
  "row_member M i k q = (case ml_rows M q ! i of MapRow m \<Rightarrow> map_of m k | ValueRow _ \<Rightarrow> None)"

definition insert_queued :: "'q MovableList \<Rightarrow> nat \<Rightarrow> QueuedMessage \<Rightarrow> 'q \<Rightarrow> (string + unit) \<times> 'q" where
  "insert_queued M index item q =
     (if trim (qm_id item) = [] then (Inl ''queued message id required'', q)
      else if trim (qm_text item) = [] then (Inl ''queued message text required'', q)
      else let i = min index (length (ml_rows M q)) in
           (Inr (), write_queued_map M i item (ml_insert_map M i q)))"

definition push_queued :: "'q MovableList \<Rightarrow> QueuedMessage \<Rightarrow> 'q \<Rightarrow> (string + unit) \<times> 'q" where
  "push_queued M item q =
     (if trim (qm_id item) = [] then (Inl ''queued message id required'', q)
      else if trim (qm_text item) = [] then (Inl ''queued message text required'', q)
      else let i = length (ml_rows M q) in (Inr (), write_queued_map M i item (ml_insert_map M i q)))"

definition remove_queued :: "'q MovableList \<Rightarrow> string \<Rightarrow> 'q \<Rightarrow> bool \<times> 'q" where
  "remove_queued M qid q = (case index_of M qid q of None \<Rightarrow> (False, q) | Some i \<Rightarrow> (True, ml_delete M i q))"

definition set_text :: "'q MovableList \<Rightarrow> nat \<Rightarrow> string \<Rightarrow> int \<Rightarrow> 'q \<Rightarrow> 'q" where
  "set_text M i txt now q = ml_put M i ''editedAt'' (JInt now) (ml_put M i ''text'' (JStr txt) q)"

definition set_queued_text :: "'q MovableList \<Rightarrow> string \<Rightarrow> string \<Rightarrow> int \<Rightarrow> 'q \<Rightarrow> bool \<times> 'q" where
  "set_queued_text M qid txt now q =
     (if trim txt = [] then remove_queued M qid q
      else case index_of M qid q of
             None \<Rightarrow> (False, q)
           | Some i \<Rightarrow>
               if row_member M i ''text'' q = Some (JStr txt) then (False, q) else (True, set_text M i txt now q))"

definition set_queued_delivery_gate :: "'q MovableList \<Rightarrow> string \<Rightarrow> QueueDeliveryGate option \<Rightarrow> 'q \<Rightarrow> bool \<times> 'q" where
  "set_queued_delivery_gate M qid gate q =
     (case index_of M qid q of
        None \<Rightarrow> (False, q)
      | Some i \<Rightarrow>
          (True, case gate of Some g \<Rightarrow> ml_put M i ''deliveryGate'' (gate_to_json g) q
                 | None \<Rightarrow> ml_unset M i ''deliveryGate'' q))"

definition finish_queued_edit ::
  "'q MovableList \<Rightarrow> string \<Rightarrow> string option \<Rightarrow> string list option \<Rightarrow> int \<Rightarrow> 'q \<Rightarrow> bool \<times> 'q" where
  "finish_queued_edit M qid replacement attachments now q =
     (if (case replacement of Some txt \<Rightarrow> trim txt = [] | None \<Rightarrow> False) then remove_queued M qid q
      else case index_of M qid q of
             None \<Rightarrow> (False, q)
           | Some i \<Rightarrow>
               let q = (case replacement of
                          Some txt \<Rightarrow> if row_member M i ''text'' q = Some (JStr txt) then q else set_text M i txt now q
                        | None \<Rightarrow> q);
                   q = (case attachments of
                          Some atts \<Rightarrow> ml_put M i ''editedAt'' (JInt now) (ml_put M i ''attachments'' (JArr (map JStr atts)) q)
                        | None \<Rightarrow> q)
               in (True, ml_unset M i ''deliveryGate'' q))"

definition move_queued :: "'q MovableList \<Rightarrow> string \<Rightarrow> nat \<Rightarrow> 'q \<Rightarrow> bool \<times> 'q" where
  "move_queued M qid to q =
     (case index_of M qid q of
        None \<Rightarrow> (False, q)
      | Some src \<Rightarrow>
          let to = min to (length (ml_rows M q) - 1) in
          if src = to then (False, q) else (True, ml_mov M src to q))"

definition take_queued :: "'q MovableList \<Rightarrow> string \<Rightarrow> 'q \<Rightarrow> QueuedMessage option \<times> 'q" where
  "take_queued M qid q =
     (case index_of M qid q of
        None \<Rightarrow> (None, q)
      | Some i \<Rightarrow>
          let item = find (\<lambda>m. qm_id m = qid) (read_queue M q) in
          if (case item of Some m \<Rightarrow> qm_delivery_gate m \<noteq> None | None \<Rightarrow> False) then (None, q)
          else (item, ml_delete M i q))"

definition take_queue_head :: "'q MovableList \<Rightarrow> 'q \<Rightarrow> QueuedMessage option \<times> 'q" where
  "take_queue_head M q = (case read_queue M q of [] \<Rightarrow> (None, q) | m # _ \<Rightarrow> take_queued M (qm_id m) q)"

end
