(* ===== verification/Queue_Host.thy ===== *)
theory Queue_Host
  imports Queue Agent
begin

text \<open>
  The queue of a chat at its host (\<^verbatim>\<open>src/crates/engine/src/doc_host.rs\<close>): queueing, retyping, moving and
  removing a message, the edit lease with its renewal, expiry and resolution, and the deliveries:
  the drain at the end of a turn, Send now, Steer now, and Cancel.

  One call is one step, since \<^verbatim>\<open>drain_lock\<close> serialises everything that takes a row. What the sessions
  engine and the chat's row answer, the clock and fresh ids are arguments. While a delivery is awaited the
  document may change under it (\<open>meanwhile\<close>): retyping, moving and imports do not take the lock.
  The text hash is SHA-256 in hexadecimal, an argument.
\<close>

section \<open>The prompt of a row\<close>

definition ATTACHMENT_ONLY_PROMPT :: string where "ATTACHMENT_ONLY_PROMPT = ''See the attached image(s).''"

text \<open>The dash of the header is the three bytes of U+2014.\<close>

definition ATTACHMENT_PROMPT_HEADER :: string where
  "ATTACHMENT_PROMPT_HEADER = ''Attached images (local files '' @ map char_of [0xE2, 0x80, 0x94 :: nat] @ '' open them to view):''"

definition strip_suffix :: "string \<Rightarrow> string \<Rightarrow> string option" where
  "strip_suffix suf s =
     (if length suf \<le> length s \<and> drop (length s - length suf) s = suf then Some (take (length s - length suf) s) else None)"

definition attachment_trailer :: "string list \<Rightarrow> string" where
  "attachment_trailer attachments =
     [CHR 0x0A, CHR 0x0A] @ ATTACHMENT_PROMPT_HEADER @ [CHR 0x0A] @ join_with [CHR 0x0A] (map (\<lambda>path. ''- '' @ path) attachments)"

definition queued_message_prompt :: "string \<Rightarrow> string list \<Rightarrow> string" where
  "queued_message_prompt txt attachments =
     (if attachments = [] then txt
      else let trailer = attachment_trailer attachments;
               body = (case strip_suffix trailer txt of Some b \<Rightarrow> b | None \<Rightarrow> txt);
               body = (if trim body = [] then ATTACHMENT_ONLY_PROMPT else body)
           in body @ trailer)"

section \<open>The host of a chat\<close>

datatype QueueSend = NextTurn | Steer | Interrupt

text \<open>What the sessions engine and the chat's row answer to one delivery.\<close>

record AgentWorld =
  aw_in_flight :: bool
  aw_steers_mid_turn :: bool
  aw_steer :: "string + bool"
  aw_interrupt :: "string + bool"
  aw_last_request :: "RunRequest option"
  aw_chat :: "Chat option"
  aw_dispatch :: "string + string"

datatype AgentCall =
    CallSteer string "string option"
  | CallInterrupt
  | CallDispatch HarnessId RunRequest "string option"

record HostConfig =
  hc_device :: string
  hc_default_harness :: HarnessId
  hc_hash :: "string \<Rightarrow> string"
  hc_wired :: bool
  hc_is_host :: bool

record 'q QueueHost =
  qh_doc :: 'q
  qh_paused :: bool
  qh_published :: "QueuedMessage list"
  qh_timers :: "(string \<times> string \<times> int) list"
  qh_saved :: "'q option"
  qh_calls :: "AgentCall list"

definition QUEUE_EDIT_LEASE_MS :: int where "QUEUE_EDIT_LEASE_MS = 60000"

definition on_doc :: "('q \<Rightarrow> 'q) \<Rightarrow> 'q QueueHost \<Rightarrow> 'q QueueHost" where
  "on_doc f h = h\<lparr>qh_doc := f (qh_doc h)\<rparr>"

definition publish_queue :: "'q MovableList \<Rightarrow> 'q QueueHost \<Rightarrow> 'q QueueHost" where
  "publish_queue M h = h\<lparr>qh_published := read_queue M (qh_doc h)\<rparr>"

definition host_save :: "'q QueueHost \<Rightarrow> 'q QueueHost" where
  "host_save h = h\<lparr>qh_saved := Some (qh_doc h)\<rparr>"

definition arm_queue_edit_expiry :: "string \<Rightarrow> string \<Rightarrow> int \<Rightarrow> 'q QueueHost \<Rightarrow> 'q QueueHost" where
  "arm_queue_edit_expiry qid lease expires h = h\<lparr>qh_timers := qh_timers h @ [(qid, lease, expires)]\<rparr>"

definition arm_existing_queue_edit_expiries :: "'q MovableList \<Rightarrow> 'q QueueHost \<Rightarrow> 'q QueueHost" where
  "arm_existing_queue_edit_expiries M h =
     fold (\<lambda>item h. case qm_delivery_gate item of
                      Some (Editing lease _ _ _ expires _) \<Rightarrow> arm_queue_edit_expiry (qm_id item) lease expires h
                    | _ \<Rightarrow> h) (read_queue M (qh_doc h)) h"

text \<open>A handle opened on a document that already has queued rows starts frozen.\<close>

definition open_queue :: "'q MovableList \<Rightarrow> 'q \<Rightarrow> 'q QueueHost" where
  "open_queue M q =
     arm_existing_queue_edit_expiries M
       \<lparr>qh_doc = q, qh_paused = (read_queue M q \<noteq> []), qh_published = read_queue M q, qh_timers = [], qh_saved = None,
        qh_calls = []\<rparr>"

definition pause_all_queues :: "'q QueueHost list \<Rightarrow> 'q QueueHost list" where
  "pause_all_queues hs = map (\<lambda>h. h\<lparr>qh_paused := True\<rparr>) hs"

definition find_queued :: "'q MovableList \<Rightarrow> string \<Rightarrow> 'q QueueHost \<Rightarrow> QueuedMessage option" where
  "find_queued M qid h = find (\<lambda>item. qm_id item = qid) (read_queue M (qh_doc h))"

section \<open>Writes without the lock\<close>

definition queue_message_with_behavior ::
  "'q MovableList \<Rightarrow> HostConfig \<Rightarrow> int \<Rightarrow> string \<Rightarrow> string \<Rightarrow> string list \<Rightarrow> bool \<Rightarrow> 'q QueueHost \<Rightarrow>
   (string + string) \<times> 'q QueueHost" where
  "queue_message_with_behavior M cfg now new_id txt attachments hold h =
     (case push_queued M
             \<lparr>qm_id = new_id, qm_text = txt, qm_attachments = attachments, qm_hold_for_turn_end = hold,
              qm_issued_by = hc_device cfg, qm_issued_at = now, qm_edited_at = None, qm_delivery_gate = None\<rparr> (qh_doc h) of
        (Inl e, _) \<Rightarrow> (Inl e, h)
      | (Inr _, q) \<Rightarrow> (Inr new_id, publish_queue M (h\<lparr>qh_doc := q\<rparr>)))"

definition update_queued_message ::
  "'q MovableList \<Rightarrow> int \<Rightarrow> string \<Rightarrow> string \<Rightarrow> 'q QueueHost \<Rightarrow> bool \<times> 'q QueueHost" where
  "update_queued_message M now qid txt h =
     (case set_queued_text M qid txt now (qh_doc h) of
        (changed, q) \<Rightarrow>
          let h = h\<lparr>qh_doc := q\<rparr> in (changed, if changed then publish_queue M h else h))"

definition move_queued_message :: "'q MovableList \<Rightarrow> string \<Rightarrow> nat \<Rightarrow> 'q QueueHost \<Rightarrow> bool \<times> 'q QueueHost" where
  "move_queued_message M qid to h =
     (case move_queued M qid to (qh_doc h) of
        (changed, q) \<Rightarrow>
          let h = h\<lparr>qh_doc := q\<rparr> in (changed, if changed then publish_queue M h else h))"

section \<open>Deliveries\<close>

definition harness_for :: "HostConfig \<Rightarrow> AgentWorld \<Rightarrow> HarnessId" where
  "harness_for cfg w =
     (case Option.bind (aw_chat w) chat_config of Some c \<Rightarrow> cc_harness c | None \<Rightarrow> hc_default_harness cfg)"

definition harness_for_request :: "HostConfig \<Rightarrow> AgentWorld \<Rightarrow> RunRequest \<Rightarrow> HarnessId" where
  "harness_for_request cfg w request =
     (case rr_harness request of Some harness \<Rightarrow> harness | None \<Rightarrow> harness_for cfg w)"

definition request_from_chat_row :: "AgentWorld \<Rightarrow> string \<Rightarrow> RunRequest option" where
  "request_from_chat_row w prompt =
     map_option (\<lambda>chat. let config = chat_config chat in
       \<lparr>rr_prompt = prompt, rr_harness = map_option cc_harness config, rr_model = Option.bind config cc_model,
        rr_reasoning = Option.bind config cc_reasoning,
        rr_model_options = (case config of Some c \<Rightarrow> cc_model_options c | None \<Rightarrow> []),
        rr_cwd = (case chat_cwd chat of Some d \<Rightarrow> d | None \<Rightarrow> []),
        rr_sandbox = (case config of Some c \<Rightarrow> cc_sandbox c | None \<Rightarrow> WorkspaceWrite),
        rr_auto_approve = False, rr_resume = None, rr_attachments = [], rr_worktree = None\<rparr>) (aw_chat w)"

definition queued_request :: "AgentWorld \<Rightarrow> string \<Rightarrow> string list \<Rightarrow> RunRequest option" where
  "queued_request w prompt attachments =
     (let previous = aw_last_request w;
          current = map_option
            (\<lambda>c. case previous of
                   Some p \<Rightarrow> c\<lparr>rr_auto_approve := rr_auto_approve p, rr_worktree := rr_worktree p\<rparr>
                 | None \<Rightarrow> c) (request_from_chat_row w prompt)
      in map_option (\<lambda>r. r\<lparr>rr_prompt := prompt, rr_resume := None, rr_attachments := attachments\<rparr>)
           (case current of Some c \<Rightarrow> Some c | None \<Rightarrow> previous))"

definition start_turn :: "HostConfig \<Rightarrow> AgentWorld \<Rightarrow> QueuedMessage \<Rightarrow> (string + unit) \<times> AgentCall list" where
  "start_turn cfg w item =
     (case queued_request w (queued_message_prompt (qm_text item) (qm_attachments item)) (qm_attachments item) of
        None \<Rightarrow> (Inl ''no live run and no prior run config'', [])
      | Some request \<Rightarrow>
          (case aw_dispatch w of Inl e \<Rightarrow> Inl e | Inr _ \<Rightarrow> Inr (),
           [CallDispatch (harness_for_request cfg w request) request (Some (qm_id item))]))"

definition dispatch_queued ::
  "HostConfig \<Rightarrow> AgentWorld \<Rightarrow> QueuedMessage \<Rightarrow> QueueSend \<Rightarrow> (string + unit) \<times> AgentCall list" where
  "dispatch_queued cfg w item send =
     (if \<not> hc_wired cfg then (Inl ''sessions engine not wired'', [])
      else let prompt = queued_message_prompt (qm_text item) (qm_attachments item) in
        case send of
          Steer \<Rightarrow>
            (case aw_steer w of
               Inl e \<Rightarrow> (Inl e, [CallSteer prompt (Some (qm_id item))])
             | Inr True \<Rightarrow> (Inr (), [CallSteer prompt (Some (qm_id item))])
             | Inr False \<Rightarrow>
                 (case start_turn cfg w item of (r, cs) \<Rightarrow> (r, CallSteer prompt (Some (qm_id item)) # cs)))
        | Interrupt \<Rightarrow>
            if aw_in_flight w then
              (case aw_interrupt w of
                 Inl e \<Rightarrow> (Inl e, [CallInterrupt])
               | Inr _ \<Rightarrow> (case start_turn cfg w item of (r, cs) \<Rightarrow> (r, CallInterrupt # cs)))
            else start_turn cfg w item
        | NextTurn \<Rightarrow> start_turn cfg w item)"

text \<open>A row that was taken is sent; while that is awaited the document may change.\<close>

definition send_taken ::
  "'q MovableList \<Rightarrow> HostConfig \<Rightarrow> AgentWorld \<Rightarrow> ('q \<Rightarrow> 'q) \<Rightarrow> QueuedMessage \<Rightarrow> QueueSend \<Rightarrow> 'q QueueHost \<Rightarrow>
   (string + unit) \<times> 'q QueueHost" where
  "send_taken M cfg w meanwhile item send h =
     (case dispatch_queued cfg w item send of
        (r, cs) \<Rightarrow> (r, on_doc meanwhile ((publish_queue M h)\<lparr>qh_calls := qh_calls h @ cs\<rparr>)))"

text \<open>A row whose delivery failed goes back to the head.\<close>

definition put_back :: "'q MovableList \<Rightarrow> QueuedMessage \<Rightarrow> 'q QueueHost \<Rightarrow> 'q QueueHost" where
  "put_back M item h = publish_queue M (on_doc (\<lambda>q. snd (insert_queued M 0 item q)) h)"

text \<open>One turn of the drain's loop: the clock at its two readings and what the delivery meets.\<close>

record 'q DrainRound =
  dr_now :: int
  dr_later :: int
  dr_world :: AgentWorld
  dr_meanwhile :: "'q \<Rightarrow> 'q"

fun drain_heads :: "'q MovableList \<Rightarrow> HostConfig \<Rightarrow> 'q DrainRound list \<Rightarrow> 'q QueueHost \<Rightarrow> 'q QueueHost" where
  "drain_heads M cfg [] h = h"
| "drain_heads M cfg (r # rs) h =
     (case read_queue M (qh_doc h) of
        [] \<Rightarrow> h
      | front # _ \<Rightarrow>
          (case qm_delivery_gate front of
             Some (Editing lease owner inst acquired expires hash) \<Rightarrow>
               if expires \<le> dr_now r then
                 host_save (publish_queue M (on_doc (\<lambda>q. snd (set_queued_delivery_gate M (qm_id front)
                   (Some (ReviewRequired lease owner (dr_later r) hash)) q)) h))
               else arm_queue_edit_expiry (qm_id front) lease expires h
           | Some (ReviewRequired _ _ _ _) \<Rightarrow> h
           | None \<Rightarrow>
               if aw_in_flight (dr_world r) then h
               else (case take_queued M (qm_id front) (qh_doc h) of
                       (None, q) \<Rightarrow> h\<lparr>qh_doc := q\<rparr>
                     | (Some item, q) \<Rightarrow>
                         (case send_taken M cfg (dr_world r) (dr_meanwhile r) item NextTurn (h\<lparr>qh_doc := q\<rparr>) of
                            (Inr _, h) \<Rightarrow> drain_heads M cfg rs h
                          | (Inl _, h) \<Rightarrow> put_back M item (h\<lparr>qh_paused := True\<rparr>)))))"

definition drain_queue :: "'q MovableList \<Rightarrow> HostConfig \<Rightarrow> 'q DrainRound list \<Rightarrow> 'q QueueHost \<Rightarrow> 'q QueueHost" where
  "drain_queue M cfg rounds h =
     (if \<not> hc_wired cfg \<or> \<not> hc_is_host cfg \<or> qh_paused h then h else drain_heads M cfg rounds h)"

definition promote ::
  "'q MovableList \<Rightarrow> HostConfig \<Rightarrow> AgentWorld \<Rightarrow> ('q \<Rightarrow> 'q) \<Rightarrow> string \<Rightarrow> QueueSend \<Rightarrow> 'q QueueHost \<Rightarrow>
   (string + bool) \<times> 'q QueueHost" where
  "promote M cfg w meanwhile qid send h =
     (case take_queued M qid (qh_doc h) of
        (None, q) \<Rightarrow> (Inr False, h\<lparr>qh_doc := q\<rparr>)
      | (Some item, q) \<Rightarrow>
          (case send_taken M cfg w meanwhile item send (h\<lparr>qh_doc := q, qh_paused := False\<rparr>) of
             (Inr _, h') \<Rightarrow> (Inr True, h')
           | (Inl e, h') \<Rightarrow> (Inl e, put_back M item (if qh_paused h then h'\<lparr>qh_paused := True\<rparr> else h'))))"

definition send_queued_now ::
  "'q MovableList \<Rightarrow> HostConfig \<Rightarrow> AgentWorld \<Rightarrow> ('q \<Rightarrow> 'q) \<Rightarrow> string \<Rightarrow> 'q QueueHost \<Rightarrow> (string + bool) \<times> 'q QueueHost" where
  "send_queued_now M cfg w meanwhile qid h =
     (if \<not> hc_is_host cfg then (Inl ''device does not host chat'', h)
      else case find_queued M qid h of
             None \<Rightarrow> (Inr False, h)
           | Some candidate \<Rightarrow>
               if qm_delivery_gate candidate \<noteq> None
               then (Inl ''queued message is blocked for editing or review'', h)
               else promote M cfg w meanwhile qid Interrupt h)"

definition steer_queued_now ::
  "'q MovableList \<Rightarrow> HostConfig \<Rightarrow> AgentWorld \<Rightarrow> ('q \<Rightarrow> 'q) \<Rightarrow> string \<Rightarrow> 'q QueueHost \<Rightarrow> (string + bool) \<times> 'q QueueHost" where
  "steer_queued_now M cfg w meanwhile qid h =
     (if \<not> hc_is_host cfg then (Inl ''device does not host chat'', h)
      else if \<not> hc_wired cfg then (Inl ''sessions engine not wired'', h)
      else if \<not> aw_steers_mid_turn w then (Inl ''the selected agent cannot accept mid-turn steering'', h)
      else case find_queued M qid h of
             None \<Rightarrow> (Inr False, h)
           | Some candidate \<Rightarrow>
               if qm_attachments candidate \<noteq> []
               then (Inl ''messages with attachments cannot be steered mid-turn'', h)
               else if qm_delivery_gate candidate \<noteq> None
               then (Inl ''queued message is blocked for editing or review'', h)
               else promote M cfg w meanwhile qid Steer h)"

text \<open>Cancel.\<close>

definition interrupt_and_pause_queue :: "AgentWorld \<Rightarrow> 'q QueueHost \<Rightarrow> (string + bool) \<times> 'q QueueHost" where
  "interrupt_and_pause_queue w h =
     (if \<not> aw_in_flight w then (Inr False, h)
      else let h = h\<lparr>qh_paused := True, qh_calls := qh_calls h @ [CallInterrupt]\<rparr> in
           case aw_interrupt w of
             Inr True \<Rightarrow> (Inr True, h)
           | Inr False \<Rightarrow> (Inr False, h\<lparr>qh_paused := False\<rparr>)
           | Inl e \<Rightarrow> (Inl e, h\<lparr>qh_paused := False\<rparr>))"

text \<open>An explicit prompt: it is queued when the agent takes prompts at a turn's end only, otherwise it is steered or
  starts a turn, and thaws the queue. The user message it writes to the transcript first, and the rewriting of its attachment references, are not part
  of the queue.\<close>

definition held_until_turn_end ::
  "'q MovableList \<Rightarrow> HostConfig \<Rightarrow> AgentWorld \<Rightarrow> int \<Rightarrow> string \<Rightarrow> string \<Rightarrow> string option \<Rightarrow> 'q QueueHost \<Rightarrow>
   (string + bool) \<times> 'q QueueHost" where
  "held_until_turn_end M cfg w now new_id prompt message_id h =
     (if \<not> aw_in_flight w \<or> trim prompt = [] \<or> aw_steers_mid_turn w then (Inr False, h)
      else case queue_message_with_behavior M cfg now (case message_id of Some m \<Rightarrow> m | None \<Rightarrow> new_id) prompt [] False h of
             (Inl e, h) \<Rightarrow> (Inl e, h)
           | (Inr _, h) \<Rightarrow> (Inr True, h))"

definition thaw :: "'q QueueHost \<Rightarrow> 'q QueueHost" where
  "thaw h = h\<lparr>qh_paused := False\<rparr>"

definition prompt_request :: "AgentWorld \<Rightarrow> string \<Rightarrow> RunRequest option" where
  "prompt_request w prompt =
     map_option (\<lambda>r. r\<lparr>rr_prompt := prompt, rr_resume := None, rr_attachments := []\<rparr>)
       (case aw_last_request w of Some r \<Rightarrow> Some r | None \<Rightarrow> request_from_chat_row w prompt)"

datatype Delivered = Held | Steered | NewTurn | NoConfig

definition deliver_prompt ::
  "'q MovableList \<Rightarrow> HostConfig \<Rightarrow> AgentWorld \<Rightarrow> int \<Rightarrow> string \<Rightarrow> string \<Rightarrow> string option \<Rightarrow> 'q QueueHost \<Rightarrow>
   (string + Delivered) \<times> 'q QueueHost" where
  "deliver_prompt M cfg w now new_id prompt message_id h =
     (case held_until_turn_end M cfg w now new_id prompt message_id h of
        (Inl e, h) \<Rightarrow> (Inl e, h)
      | (Inr True, h) \<Rightarrow> (Inr Held, h)
      | (Inr False, h) \<Rightarrow>
          let h = h\<lparr>qh_calls := qh_calls h @ [CallSteer prompt message_id]\<rparr> in
          case aw_steer w of
            Inl e \<Rightarrow> (Inl e, h)
          | Inr True \<Rightarrow> (Inr Steered, thaw h)
          | Inr False \<Rightarrow>
              (case prompt_request w prompt of
                 None \<Rightarrow> (Inr NoConfig, h)
               | Some request \<Rightarrow>
                   let h = h\<lparr>qh_calls := qh_calls h @ [CallDispatch (harness_for_request cfg w request) request message_id]\<rparr>
                   in case aw_dispatch w of Inl e \<Rightarrow> (Inl e, h) | Inr _ \<Rightarrow> (Inr NewTurn, thaw h)))"

section \<open>The edit lease\<close>

definition remove_queued_message :: "'q MovableList \<Rightarrow> HostConfig \<Rightarrow> string \<Rightarrow> 'q QueueHost \<Rightarrow> (string + bool) \<times> 'q QueueHost" where
  "remove_queued_message M cfg qid h =
     (if \<not> hc_is_host cfg then (Inl ''device does not host chat'', h)
      else case remove_queued M qid (qh_doc h) of
             (removed, q) \<Rightarrow>
               let h = h\<lparr>qh_doc := q\<rparr> in (Inr removed, if removed then publish_queue M h else h))"

datatype BeginQueueEditOutcome =
    Acquired string string "string list" string int
  | Locked string int
  | BeginMissing

definition live_lease :: "int \<Rightarrow> QueueDeliveryGate option \<Rightarrow> (string \<times> int) option" where
  "live_lease now gate =
     (case gate of
        Some (Editing _ owner _ _ expires _) \<Rightarrow> if expires > now then Some (owner, expires) else None
      | _ \<Rightarrow> None)"

definition begin_queued_message_edit ::
  "'q MovableList \<Rightarrow> HostConfig \<Rightarrow> int \<Rightarrow> string \<Rightarrow> string \<Rightarrow> string \<Rightarrow> string \<Rightarrow> 'q QueueHost \<Rightarrow>
   (string + BeginQueueEditOutcome) \<times> 'q QueueHost" where
  "begin_queued_message_edit M cfg now new_id qid owner inst h =
     (if \<not> hc_is_host cfg then (Inl ''device does not host chat'', h)
      else case find_queued M qid h of
             None \<Rightarrow> (Inr BeginMissing, h)
           | Some item \<Rightarrow>
               (case live_lease now (qm_delivery_gate item) of
                  Some (owner, expires) \<Rightarrow> (Inr (Locked owner expires), h)
                | None \<Rightarrow>
                    let expires = now + QUEUE_EDIT_LEASE_MS;
                        base = hc_hash cfg (qm_text item)
                    in case set_queued_delivery_gate M qid (Some (Editing new_id owner inst now expires base)) (qh_doc h) of
                         (False, q) \<Rightarrow> (Inr BeginMissing, h\<lparr>qh_doc := q\<rparr>)
                       | (True, q) \<Rightarrow>
                           (Inr (Acquired new_id (qm_text item) (qm_attachments item) base expires),
                            arm_queue_edit_expiry qid new_id expires (host_save (publish_queue M (h\<lparr>qh_doc := q\<rparr>))))))"

datatype RenewQueueEditOutcome = Renewed int | RenewLost | RenewMissing

definition renew_queued_message_edit ::
  "'q MovableList \<Rightarrow> HostConfig \<Rightarrow> int \<Rightarrow> string \<Rightarrow> string \<Rightarrow> 'q QueueHost \<Rightarrow>
   (string + RenewQueueEditOutcome) \<times> 'q QueueHost" where
  "renew_queued_message_edit M cfg now qid lease h =
     (if \<not> hc_is_host cfg then (Inl ''device does not host chat'', h)
      else case find_queued M qid h of
             None \<Rightarrow> (Inr RenewMissing, h)
           | Some item \<Rightarrow>
               (case qm_delivery_gate item of
                  Some (Editing current owner inst acquired expires base) \<Rightarrow>
                    if current \<noteq> lease then (Inr RenewLost, h)
                    else if expires \<le> now then
                      (Inr RenewLost, host_save (publish_queue M (on_doc (\<lambda>q. snd (set_queued_delivery_gate M qid
                        (Some (ReviewRequired current owner now base)) q)) h)))
                    else
                      let expires = now + QUEUE_EDIT_LEASE_MS in
                      (case set_queued_delivery_gate M qid (Some (Editing current owner inst acquired expires base)) (qh_doc h) of
                         (False, q) \<Rightarrow> (Inr RenewMissing, h\<lparr>qh_doc := q\<rparr>)
                       | (True, q) \<Rightarrow>
                           (Inr (Renewed expires), arm_queue_edit_expiry qid lease expires (publish_queue M (h\<lparr>qh_doc := q\<rparr>))))
                | _ \<Rightarrow> (Inr RenewLost, h)))"

datatype FinishQueueEditAction = Commit | CancelEdit | Discard | ReleaseUnchanged

datatype FinishQueueEditOutcome =
    Committed | Cancelled | Discarded | Released
  | Conflict string
  | FinishLost
  | FinishMissing

fun finished :: "FinishQueueEditAction \<Rightarrow> FinishQueueEditOutcome" where
  "finished Commit = Committed"
| "finished CancelEdit = Cancelled"
| "finished Discard = Discarded"
| "finished ReleaseUnchanged = Released"

fun replacement_text :: "FinishQueueEditAction \<Rightarrow> string option \<Rightarrow> string option" where
  "replacement_text Commit txt = Some (case txt of Some t \<Rightarrow> t | None \<Rightarrow> [])"
| "replacement_text Discard txt = Some []"
| "replacement_text _ txt = None"

fun gate_lease :: "QueueDeliveryGate \<Rightarrow> string" where
  "gate_lease (Editing lease _ _ _ _ _) = lease"
| "gate_lease (ReviewRequired lease _ _ _) = lease"

fun gate_base :: "QueueDeliveryGate \<Rightarrow> string" where
  "gate_base (Editing _ _ _ _ _ base) = base"
| "gate_base (ReviewRequired _ _ _ base) = base"

text \<open>The part under the lock; a drain follows a resolved edit.\<close>

definition resolve_edit ::
  "'q MovableList \<Rightarrow> HostConfig \<Rightarrow> int \<Rightarrow> string \<Rightarrow> string \<Rightarrow> FinishQueueEditAction \<Rightarrow> string option \<Rightarrow> string option \<Rightarrow>
   string list option \<Rightarrow> 'q QueueHost \<Rightarrow> FinishQueueEditOutcome \<times> 'q QueueHost" where
  "resolve_edit M cfg now qid lease action txt expected attachments h =
     (case find_queued M qid h of
        None \<Rightarrow> (FinishMissing, h)
      | Some item \<Rightarrow>
          (case qm_delivery_gate item of
             None \<Rightarrow> (FinishLost, h)
           | Some gate \<Rightarrow>
               if gate_lease gate \<noteq> lease then (FinishLost, h)
               else if action = Commit \<and> (expected \<noteq> Some (gate_base gate) \<or> hc_hash cfg (qm_text item) \<noteq> gate_base gate)
               then (Conflict (qm_text item), h)
               else (case finish_queued_edit M qid (replacement_text action txt)
                            (if action = Commit then attachments else None) now (qh_doc h) of
                       (False, q) \<Rightarrow> (FinishMissing, h\<lparr>qh_doc := q\<rparr>)
                     | (True, q) \<Rightarrow> (finished action, host_save (publish_queue M (h\<lparr>qh_doc := q\<rparr>))))))"

definition finish_queued_message_edit ::
  "'q MovableList \<Rightarrow> HostConfig \<Rightarrow> int \<Rightarrow> string \<Rightarrow> string \<Rightarrow> FinishQueueEditAction \<Rightarrow> string option \<Rightarrow> string option \<Rightarrow>
   string list option \<Rightarrow> 'q DrainRound list \<Rightarrow> 'q QueueHost \<Rightarrow> (string + FinishQueueEditOutcome) \<times> 'q QueueHost" where
  "finish_queued_message_edit M cfg now qid lease action txt expected attachments rounds h =
     (if \<not> hc_is_host cfg then (Inl ''device does not host chat'', h)
      else if action = Commit \<and> (txt = None \<or> expected = None) then (Inl ''commit requires text and expectedTextHash'', h)
      else case resolve_edit M cfg now qid lease action txt expected attachments h of
             (outcome, h) \<Rightarrow>
               (Inr outcome, if outcome = finished action then drain_queue M cfg rounds h else h))"

definition expire_queued_message_edit ::
  "'q MovableList \<Rightarrow> HostConfig \<Rightarrow> int \<Rightarrow> int \<Rightarrow> string \<Rightarrow> string \<Rightarrow> int \<Rightarrow> 'q DrainRound list \<Rightarrow> 'q QueueHost \<Rightarrow> 'q QueueHost" where
  "expire_queued_message_edit M cfg now later qid lease scheduled rounds h =
     (case Option.bind (find_queued M qid h) qm_delivery_gate of
        Some (Editing current owner _ _ expires base) \<Rightarrow>
          if current \<noteq> lease \<or> expires \<noteq> scheduled \<or> expires > now then h
          else (case set_queued_delivery_gate M qid (Some (ReviewRequired current owner later base)) (qh_doc h) of
                  (False, q) \<Rightarrow> h\<lparr>qh_doc := q\<rparr>
                | (True, q) \<Rightarrow> drain_queue M cfg rounds (host_save (publish_queue M (h\<lparr>qh_doc := q\<rparr>))))
      | _ \<Rightarrow> h)"

section \<open>A run of the host\<close>

datatype 'q HostEvent =
    EvQueue int string string "string list" bool
  | EvDeliver AgentWorld int string string "string option"
  | EvUpdate int string string
  | EvMove string nat
  | EvRemove string
  | EvBegin int string string string string
  | EvRenew int string string
  | EvFinish int string string FinishQueueEditAction "string option" "string option" "string list option" "'q DrainRound list"
  | EvExpire int int string string int "'q DrainRound list"
  | EvSend AgentWorld "'q \<Rightarrow> 'q" string
  | EvSteer AgentWorld "'q \<Rightarrow> 'q" string
  | EvDrain "'q DrainRound list"
  | EvInterrupt AgentWorld
  | EvPause
  | EvImport "'q \<Rightarrow> 'q"

datatype HostReply =
    NoReply
  | BeginReply "string + BeginQueueEditOutcome"
  | FinishReply "string + FinishQueueEditOutcome"

fun host_step :: "'q MovableList \<Rightarrow> HostConfig \<Rightarrow> 'q HostEvent \<Rightarrow> 'q QueueHost \<Rightarrow> HostReply \<times> 'q QueueHost" where
  "host_step M cfg (EvQueue now new_id txt atts hold) h =
     (NoReply, snd (queue_message_with_behavior M cfg now new_id txt atts hold h))"
| "host_step M cfg (EvDeliver w now new_id prompt message_id) h =
     (NoReply, snd (deliver_prompt M cfg w now new_id prompt message_id h))"
| "host_step M cfg (EvUpdate now qid txt) h = (NoReply, snd (update_queued_message M now qid txt h))"
| "host_step M cfg (EvMove qid to) h = (NoReply, snd (move_queued_message M qid to h))"
| "host_step M cfg (EvRemove qid) h = (NoReply, snd (remove_queued_message M cfg qid h))"
| "host_step M cfg (EvBegin now new_id qid owner inst) h =
     (case begin_queued_message_edit M cfg now new_id qid owner inst h of (r, h) \<Rightarrow> (BeginReply r, h))"
| "host_step M cfg (EvRenew now qid lease) h = (NoReply, snd (renew_queued_message_edit M cfg now qid lease h))"
| "host_step M cfg (EvFinish now qid lease action txt expected atts rounds) h =
     (case finish_queued_message_edit M cfg now qid lease action txt expected atts rounds h of (r, h) \<Rightarrow> (FinishReply r, h))"
| "host_step M cfg (EvExpire now later qid lease scheduled rounds) h =
     (NoReply, expire_queued_message_edit M cfg now later qid lease scheduled rounds h)"
| "host_step M cfg (EvSend w meanwhile qid) h = (NoReply, snd (send_queued_now M cfg w meanwhile qid h))"
| "host_step M cfg (EvSteer w meanwhile qid) h = (NoReply, snd (steer_queued_now M cfg w meanwhile qid h))"
| "host_step M cfg (EvDrain rounds) h = (NoReply, drain_queue M cfg rounds h)"
| "host_step M cfg (EvInterrupt w) h = (NoReply, snd (interrupt_and_pause_queue w h))"
| "host_step M cfg EvPause h = (NoReply, h\<lparr>qh_paused := True\<rparr>)"
| "host_step M cfg (EvImport f) h = (NoReply, on_doc f h)"

fun host_run :: "'q MovableList \<Rightarrow> HostConfig \<Rightarrow> 'q HostEvent list \<Rightarrow> 'q QueueHost \<Rightarrow> HostReply list \<times> 'q QueueHost" where
  "host_run M cfg [] h = ([], h)"
| "host_run M cfg (ev # evs) h =
     (case host_step M cfg ev h of (r, h) \<Rightarrow> case host_run M cfg evs h of (rs, h) \<Rightarrow> (r # rs, h))"

end
