(* ===== verification/Queue_Rows.thy ===== *)
theory Queue_Rows
  imports Queue_Host
begin

text \<open>
  The rows of a queue under its operations: what is written is read back, and a condition on the gates of the rows
  that carry an identity is kept by every operation that does not rewrite such a gate.
\<close>

section \<open>Rows\<close>

definition row_id :: "RawRow \<Rightarrow> string option" where
  "row_id r = map_option trim (str_member (row_value r) ''id'')"

definition row_gate :: "RawRow \<Rightarrow> QueueDeliveryGate option" where
  "row_gate r = read_gate (json_get (row_value r) ''deliveryGate'')"

definition guarded :: "(QueueDeliveryGate option \<Rightarrow> bool) \<Rightarrow> string \<Rightarrow> RawRow \<Rightarrow> bool" where
  "guarded P qid r \<longleftrightarrow> (row_id r = Some qid \<longrightarrow> P (row_gate r))"

definition all_rows :: "'q MovableList \<Rightarrow> (RawRow \<Rightarrow> bool) \<Rightarrow> 'q \<Rightarrow> bool" where
  "all_rows M Q q \<longleftrightarrow> (\<forall>r \<in> set (ml_rows M q). Q r)"

lemma movableD:
  assumes "movable_list_ok M"
  shows "i \<le> length (ml_rows M q) \<Longrightarrow> ml_rows M (ml_insert_map M i q) = insert_row i (MapRow []) (ml_rows M q)"
    and "i < length (ml_rows M q) \<Longrightarrow> ml_rows M (ml_delete M i q) = remove_at i (ml_rows M q)"
    and "i < length (ml_rows M q) \<Longrightarrow> j < length (ml_rows M q) \<Longrightarrow>
        ml_rows M (ml_mov M i j q) = insert_row j (ml_rows M q ! i) (remove_at i (ml_rows M q))"
    and "i < length (ml_rows M q) \<Longrightarrow> ml_rows M q ! i = MapRow m \<Longrightarrow>
        ml_rows M (ml_put M i k v q) = (ml_rows M q)[i := MapRow (AList.update k v m)]"
    and "i < length (ml_rows M q) \<Longrightarrow> ml_rows M q ! i = MapRow m \<Longrightarrow>
        ml_rows M (ml_unset M i k q) = (ml_rows M q)[i := MapRow (AList.delete k m)]"
  using assms unfolding movable_list_ok_def by blast+

lemma set_remove_at: "set (remove_at i xs) \<subseteq> set xs"
  by (auto simp: remove_at_def dest: in_set_takeD in_set_dropD)

lemma set_insert_row: "set (insert_row i x xs) = insert x (set xs)"
  by (metis insert_row_def append_take_drop_id set_append list.set(2) Un_insert_right)

lemma position_where_Some:
  "position_where P xs = Some i \<Longrightarrow> i < length xs \<and> P (xs ! i) \<and> (\<forall>j < i. \<not> P (xs ! j))"
  by (induction xs arbitrary: i) (auto simp: less_Suc_eq_0_disj split: if_splits)

lemma position_where_None: "position_where P xs = None \<longleftrightarrow> (\<forall>x \<in> set xs. \<not> P x)"
  by (induction xs) auto

lemma index_of_Some:
  assumes "index_of M qid q = Some i"
  obtains m where "i < length (ml_rows M q)" "ml_rows M q ! i = MapRow m" "map_of m ''id'' = Some (JStr qid)"
  using position_where_Some [OF assms [unfolded index_of_def]] by (auto simp: has_id_def split: RawRow.splits)

text \<open>The instants of a message fit the code's \<^verbatim>\<open>i64\<close>.\<close>

fun gate_times_ok :: "QueueDeliveryGate \<Rightarrow> bool" where
  "gate_times_ok (Editing _ _ _ acquired expires _) \<longleftrightarrow> in_i64 acquired \<and> in_i64 expires"
| "gate_times_ok (ReviewRequired _ _ since _) \<longleftrightarrow> in_i64 since"

definition message_ok :: "QueuedMessage \<Rightarrow> bool" where
  "message_ok item \<longleftrightarrow> trim (qm_id item) \<noteq> [] \<and> trim (qm_text item) \<noteq> [] \<and> in_i64 (qm_issued_at item) \<and>
     pred_option in_i64 (qm_edited_at item) \<and> pred_option gate_times_ok (qm_delivery_gate item)"

lemma gate_roundtrip: "gate_times_ok g \<Longrightarrow> gate_from_json (gate_to_json g) = Some g"
  by (cases g) (simp_all add: gate_to_json_def gate_from_json_def str_member_def int_member_def)

lemma read_gate_blocks [simp]: "read_gate (Some (gate_to_json g)) \<noteq> None"
  by (cases g) (auto simp: read_gate_def gate_to_json_def split: option.splits)

lemma read_gate_None [simp]: "read_gate None = None"
  by (simp add: read_gate_def)

lemma read_gate_written: "gate_times_ok g \<Longrightarrow> read_gate (Some (gate_to_json g)) = Some g"
  by (cases g) (simp_all add: read_gate_def gate_to_json_def gate_from_json_def str_member_def int_member_def)

lemma strings_of_map [simp]: "strings_of (map JStr ss) = Some ss"
  by (induction ss) auto

text \<open>What is written is read back, with its identity trimmed.\<close>

lemma read_written:
  assumes "message_ok item"
  shows "queued_from_json (JObj (queued_entries item)) = Some (item\<lparr>qm_id := trim (qm_id item)\<rparr>)"
proof -
  have g: "read_gate (json_get (JObj (queued_entries item)) ''deliveryGate'') = qm_delivery_gate item"
    using assms by (cases "qm_delivery_gate item")
      (auto simp: queued_entries_def message_ok_def read_gate_written map_of_eq_None_iff split: option.splits)
  have e: "int_member (JObj (queued_entries item)) ''editedAt'' = qm_edited_at item"
    using assms by (cases "qm_edited_at item")
      (auto simp: queued_entries_def message_ok_def int_member_def split: option.splits)
  show ?thesis
    using assms unfolding queued_from_json_def g e
    by (cases item) (auto simp: queued_entries_def message_ok_def str_member_def int_member_def read_strings_def
        split: option.splits)
qed

lemma update_new: "k \<notin> fst ` set m \<Longrightarrow> AList.update k v m = m @ [(k, v)]"
  by (induction m) auto

lemma fold_updates:
  "distinct (map fst (m @ kvs)) \<Longrightarrow> fold (\<lambda>(k, v). AList.update k v) kvs m = m @ kvs"
proof (induction kvs arbitrary: m)
  case (Cons kv kvs)
  obtain k v where kv: "kv = (k, v)" by (cases kv)
  have "AList.update k v m = m @ [(k, v)]" using Cons.prems by (auto simp: kv update_new) 
  then show ?case using Cons by (simp add: kv)
qed simp

lemma fold_put_rows:
  assumes "movable_list_ok M"
  shows "i < length (ml_rows M q) \<Longrightarrow> ml_rows M q ! i = MapRow m \<Longrightarrow>
    ml_rows M (fold (\<lambda>(k, v). ml_put M i k v) kvs q) = (ml_rows M q)[i := MapRow (fold (\<lambda>(k, v). AList.update k v) kvs m)]"
proof (induction kvs arbitrary: q m)
  case Nil
  then show ?case by (metis fold_Nil id_apply list_update_id)
next
  case (Cons kv kvs)
  obtain k v where kv: "kv = (k, v)" by (cases kv)
  from movableD(4) [OF assms Cons.prems] Cons.prems Cons.IH [of "ml_put M i k v q" "AList.update k v m"]
  show ?case by (simp add: kv)
qed

lemma written_rows:
  assumes "movable_list_ok M" "i \<le> length (ml_rows M q)"
  shows "ml_rows M (write_queued_map M i item (ml_insert_map M i q)) = insert_row i (MapRow (queued_entries item)) (ml_rows M q)"
proof -
  have d: "distinct (map fst (queued_entries item))"
    by (auto simp: queued_entries_def split: option.splits)
  have r: "ml_rows M (ml_insert_map M i q) = insert_row i (MapRow []) (ml_rows M q)" by (rule movableD(1) [OF assms])
  then have "i < length (ml_rows M (ml_insert_map M i q))" "ml_rows M (ml_insert_map M i q) ! i = MapRow []"
    using assms(2) by (auto simp: insert_row_def nth_append)
  from fold_put_rows [OF assms(1) this] r assms(2) d fold_updates [of "[]" "queued_entries item"]
  show ?thesis by (simp add: write_queued_map_def insert_row_def list_update_append)
qed

section \<open>What every row keeps\<close>

lemma all_rows_subset: "all_rows M Q q \<Longrightarrow> set (ml_rows M q') \<subseteq> set (ml_rows M q) \<Longrightarrow> all_rows M Q q'"
  by (auto simp: all_rows_def)

lemma set_list_update_rows:
  "all_rows M Q q \<Longrightarrow> ml_rows M q' = (ml_rows M q)[i := r] \<Longrightarrow> Q r \<Longrightarrow> all_rows M Q q'"
  by (auto simp: all_rows_def dest!: set_update_subset_insert [THEN subsetD])

lemma all_rows_delete:
  assumes "movable_list_ok M" "all_rows M Q q" "index_of M qid q = Some i"
  shows "all_rows M Q (ml_delete M i q)"
proof (rule all_rows_subset [OF assms(2)])
  from assms(3) have "i < length (ml_rows M q)" by (rule index_of_Some)
  then show "set (ml_rows M (ml_delete M i q)) \<subseteq> set (ml_rows M q)" by (simp add: movableD(2) [OF assms(1)] set_remove_at)
qed

lemma remove_queued_rows:
  "movable_list_ok M \<Longrightarrow> all_rows M Q q \<Longrightarrow> all_rows M Q (snd (remove_queued M qid q))"
  by (auto simp: remove_queued_def all_rows_delete split: option.splits)

lemma take_queued_rows:
  "movable_list_ok M \<Longrightarrow> all_rows M Q q \<Longrightarrow> all_rows M Q (snd (take_queued M qid q))"
  by (auto simp: take_queued_def Let_def all_rows_delete split: option.splits)

lemma move_queued_rows:
  assumes "movable_list_ok M" "all_rows M Q q"
  shows "all_rows M Q (snd (move_queued M qid to q))"
proof (cases "index_of M qid q")
  case (Some i)
  then obtain m where i: "i < length (ml_rows M q)" by (rule index_of_Some)
  then have "min to (length (ml_rows M q) - 1) < length (ml_rows M q)" by linarith
  from movableD(3) [OF assms(1) i this] i set_remove_at [of i "ml_rows M q"]
  have "set (ml_rows M (ml_mov M i (min to (length (ml_rows M q) - 1)) q)) \<subseteq> set (ml_rows M q)"
    by (auto simp: set_insert_row)
  with assms(2) Some show ?thesis by (auto simp: move_queued_def Let_def intro: all_rows_subset)
qed (use assms in \<open>simp add: move_queued_def\<close>)

text \<open>A row is guarded for an identity when it does not carry it or its gate satisfies the condition.\<close>

lemma guarded_written:
  assumes "trim (qm_id item) \<noteq> qid"
  shows "guarded P qid (MapRow (queued_entries item))"
  using assms by (simp add: guarded_def row_id_def queued_entries_def str_member_def)

lemma insert_queued_rows:
  assumes "movable_list_ok M" "all_rows M (guarded P qid) q" "trim (qm_id item) \<noteq> qid"
  shows "all_rows M (guarded P qid) (snd (insert_queued M n item q))"
  using assms(2) guarded_written [OF assms(3)]
  by (auto simp: insert_queued_def Let_def all_rows_def written_rows [OF assms(1)] set_insert_row)

lemma push_queued_rows:
  assumes "movable_list_ok M" "all_rows M (guarded P qid) q" "trim (qm_id item) \<noteq> qid"
  shows "all_rows M (guarded P qid) (snd (push_queued M item q))"
  using assms(2) guarded_written [OF assms(3)]
  by (auto simp: push_queued_def Let_def all_rows_def written_rows [OF assms(1)] set_insert_row)

lemma guarded_update:
  "guarded P qid (MapRow m) \<Longrightarrow> k \<noteq> ''id'' \<Longrightarrow> k \<noteq> ''deliveryGate'' \<Longrightarrow> guarded P qid (MapRow (AList.update k v m))"
  by (simp add: guarded_def row_id_def row_gate_def str_member_def update_conv')

lemma guarded_other:
  "map_of m ''id'' = Some (JStr other) \<Longrightarrow> trim other \<noteq> qid \<Longrightarrow> guarded P qid (MapRow m)"
  by (simp add: guarded_def row_id_def str_member_def)

lemma put_rows:
  assumes "movable_list_ok M" "all_rows M (guarded P qid) q" "i < length (ml_rows M q)" "ml_rows M q ! i = MapRow m"
    "k \<noteq> ''id''" "k \<noteq> ''deliveryGate''"
  shows "all_rows M (guarded P qid) (ml_put M i k v q) \<and> i < length (ml_rows M (ml_put M i k v q)) \<and>
    ml_rows M (ml_put M i k v q) ! i = MapRow (AList.update k v m)"
proof -
  have "guarded P qid (MapRow m)" using assms(2-4) nth_mem by (fastforce simp: all_rows_def)
  with assms guarded_update [OF this assms(5,6)] show ?thesis
    by (auto simp: movableD(4) intro: set_list_update_rows)
qed

lemma set_text_rows:
  assumes "movable_list_ok M" "all_rows M (guarded P qid) q" "i < length (ml_rows M q)" "ml_rows M q ! i = MapRow m"
  shows "all_rows M (guarded P qid) (set_text M i txt now q) \<and> i < length (ml_rows M (set_text M i txt now q)) \<and>
    ml_rows M (set_text M i txt now q) ! i =
      MapRow (AList.update ''editedAt'' (JInt now) (AList.update ''text'' (JStr txt) m))"
  using put_rows [OF assms, of "''text''" "JStr txt"]
    put_rows [OF assms(1), of P qid "ml_put M i ''text'' (JStr txt) q" i "AList.update ''text'' (JStr txt) m" "''editedAt''" "JInt now"]
  by (simp add: set_text_def)

lemma set_queued_text_rows:
  assumes "movable_list_ok M" "all_rows M (guarded P qid) q"
  shows "all_rows M (guarded P qid) (snd (set_queued_text M other t now q))"
proof (cases "index_of M other q")
  case (Some i)
  then obtain m where "i < length (ml_rows M q)" "ml_rows M q ! i = MapRow m" by (rule index_of_Some)
  from set_text_rows [OF assms this] Some assms(2) remove_queued_rows [OF assms] show ?thesis
    by (simp add: set_queued_text_def)
qed (use assms remove_queued_rows [OF assms] in \<open>simp add: set_queued_text_def\<close>)

lemma set_gate_rows:
  assumes "movable_list_ok M" "all_rows M (guarded P qid) q"
    and "trim other \<noteq> qid \<or> (\<exists>g. gate = Some g \<and> P (read_gate (Some (gate_to_json g))))"
  shows "all_rows M (guarded P qid) (snd (set_queued_delivery_gate M other gate q))"
proof (cases "index_of M other q")
  case (Some i)
  then obtain m where m: "i < length (ml_rows M q)" "ml_rows M q ! i = MapRow m" "map_of m ''id'' = Some (JStr other)"
    by (rule index_of_Some)
  show ?thesis
  proof (cases gate)
    case None
    with assms(3) m(3) have "guarded P qid (MapRow (AList.delete ''deliveryGate'' m))"
      by (intro guarded_other) (auto simp: delete_conv')
    with set_list_update_rows [OF assms(2) movableD(5) [OF assms(1) m(1,2)]] Some None show ?thesis
      by (simp add: set_queued_delivery_gate_def)
  next
    case (Some g)
    have "guarded P qid (MapRow (AList.update ''deliveryGate'' (gate_to_json g) m))"
      using assms(3) m(3) by (simp add: Some guarded_def row_id_def row_gate_def str_member_def update_conv')
    with set_list_update_rows [OF assms(2) movableD(4) [OF assms(1) m(1,2)]] \<open>index_of M other q = Some i\<close> Some show ?thesis
      by (simp add: set_queued_delivery_gate_def)
  qed
qed (use assms in \<open>simp add: set_queued_delivery_gate_def\<close>)

definition held_at :: "'q MovableList \<Rightarrow> (QueueDeliveryGate option \<Rightarrow> bool) \<Rightarrow> string \<Rightarrow> string \<Rightarrow> nat \<Rightarrow> 'q \<Rightarrow> bool" where
  "held_at M P qid other i q \<longleftrightarrow> all_rows M (guarded P qid) q \<and> i < length (ml_rows M q) \<and>
     (\<exists>m. ml_rows M q ! i = MapRow m \<and> map_of m ''id'' = Some (JStr other))"

lemma held_put:
  assumes "movable_list_ok M" "held_at M P qid other i q" "k \<noteq> ''id''" "k \<noteq> ''deliveryGate''"
  shows "held_at M P qid other i (ml_put M i k v q)"
proof -
  from assms(2) obtain m where m: "all_rows M (guarded P qid) q" "i < length (ml_rows M q)" "ml_rows M q ! i = MapRow m"
    "map_of m ''id'' = Some (JStr other)" by (auto simp: held_at_def)
  from put_rows [OF assms(1) m(1-3) assms(3,4), of v] m(4) assms(3) show ?thesis
    by (simp add: held_at_def update_conv')
qed

lemma held_unset:
  assumes "movable_list_ok M" "held_at M P qid other i q" "trim other \<noteq> qid"
  shows "all_rows M (guarded P qid) (ml_unset M i ''deliveryGate'' q)"
proof -
  from assms(2) obtain m where m: "all_rows M (guarded P qid) q" "i < length (ml_rows M q)" "ml_rows M q ! i = MapRow m"
    "map_of m ''id'' = Some (JStr other)" by (auto simp: held_at_def)
  have "guarded P qid (MapRow (AList.delete ''deliveryGate'' m))"
    using m(4) assms(3) by (intro guarded_other) (auto simp: delete_conv')
  then show ?thesis by (rule set_list_update_rows [OF m(1) movableD(5) [OF assms(1) m(2,3)]])
qed

lemma finish_rows:
  assumes "movable_list_ok M" "all_rows M (guarded P qid) q" "trim other \<noteq> qid"
  shows "all_rows M (guarded P qid) (snd (finish_queued_edit M other replacement atts now q))"
proof (cases "index_of M other q")
  case (Some i)
  then have "held_at M P qid other i q" using assms(2) by (auto simp: held_at_def elim!: index_of_Some)
  then show ?thesis using Some remove_queued_rows [OF assms(1,2)]
    by (simp add: finish_queued_edit_def Let_def set_text_def held_put [OF assms(1)] held_unset [OF assms(1) _ assms(3)]
        split: option.split)
qed (use remove_queued_rows [OF assms(1,2)] assms(2) in \<open>simp add: finish_queued_edit_def split: option.split\<close>)

text \<open>A row that is read is one of the rows, under its trimmed identity and with its gate.\<close>

lemma read_queue_row:
  assumes "item \<in> set (read_queue M q)"
  obtains r where "r \<in> set (ml_rows M q)" "queued_from_json (row_value r) = Some item" "row_id r = Some (qm_id item)" "row_gate r = qm_delivery_gate item"
    "trim (qm_id item) = qm_id item" "qm_id item \<noteq> []" "trim (qm_text item) \<noteq> []"
proof -
  from assms obtain r where r: "r \<in> set (ml_rows M q)" "queued_from_json (row_value r) = Some item"
    by (auto simp: read_queue_def List.map_filter_def)
  then show thesis
    by (auto simp: queued_from_json_def row_id_def row_gate_def split: option.splits if_splits intro!: that)
qed

lemma guarded_item:
  assumes "all_rows M (guarded P qid) q" "item \<in> set (read_queue M q)" "\<not> P (qm_delivery_gate item)"
  shows "qm_id item \<noteq> qid \<and> trim (qm_id item) = qm_id item"
  using assms(2)
proof (rule read_queue_row)
  fix r assume "r \<in> set (ml_rows M q)" "row_id r = Some (qm_id item)" "row_gate r = qm_delivery_gate item"
    "trim (qm_id item) = qm_id item"
  with assms(1,3) show ?thesis by (auto simp: all_rows_def guarded_def)
qed

lemma find_SomeD: "find Q xs = Some x \<Longrightarrow> x \<in> set xs \<and> Q x"
  by (induction xs) (auto split: if_splits)

lemma take_queued_item:
  assumes "take_queued M qid q = (Some item, q')"
  shows "item \<in> set (read_queue M q) \<and> qm_delivery_gate item = None \<and> qm_id item = qid"
proof -
  from assms have "find (\<lambda>m. qm_id m = qid) (read_queue M q) = Some item" "qm_delivery_gate item = None"
    by (auto simp: take_queued_def Let_def split: option.splits if_splits)
  then show ?thesis by (auto dest: find_SomeD)
qed

end
