(* ===== verification/Queue_Safety.thy ===== *)
theory Queue_Safety
  imports Queue_Rows
begin

text \<open>
  What a step of the host keeps: a row whose gate blocks it stays blocked and no call to the agent carries its identity,
  until its edit is resolved.
\<close>

section \<open>What one step keeps\<close>

fun call_message :: "AgentCall \<Rightarrow> string option" where
  "call_message (CallSteer _ m) = m"
| "call_message CallInterrupt = None"
| "call_message (CallDispatch _ _ m) = m"

definition blocked :: "'q MovableList \<Rightarrow> string \<Rightarrow> 'q \<Rightarrow> bool" where
  "blocked M qid q \<longleftrightarrow> all_rows M (guarded (\<lambda>g. g \<noteq> None) qid) q"

definition keeps_blocked :: "'q MovableList \<Rightarrow> string \<Rightarrow> 'q QueueHost \<Rightarrow> 'q QueueHost \<Rightarrow> bool" where
  "keeps_blocked M qid h h' \<longleftrightarrow> blocked M qid (qh_doc h') \<and>
     (\<exists>cs. qh_calls h' = qh_calls h @ cs \<and> (\<forall>c \<in> set cs. call_message c \<noteq> Some qid))"

lemma keeps_doc: "blocked M qid (qh_doc h') \<Longrightarrow> qh_calls h' = qh_calls h \<Longrightarrow> keeps_blocked M qid h h'"
  by (simp add: keeps_blocked_def)

lemma keeps_trans: "keeps_blocked M qid h h' \<Longrightarrow> keeps_blocked M qid h' h'' \<Longrightarrow> keeps_blocked M qid h h''"
  by (fastforce simp: keeps_blocked_def)

lemma keeps_frame:
  "keeps_blocked M qid h h' \<Longrightarrow> qh_doc h'' = qh_doc h' \<Longrightarrow> qh_calls h'' = qh_calls h' \<Longrightarrow> keeps_blocked M qid h h''"
  by (simp add: keeps_blocked_def)

lemma host_frames [simp]:
  "qh_doc (publish_queue M h) = qh_doc h" "qh_calls (publish_queue M h) = qh_calls h"
  "qh_doc (host_save h) = qh_doc h" "qh_calls (host_save h) = qh_calls h"
  "qh_doc (arm_queue_edit_expiry i l e h) = qh_doc h" "qh_calls (arm_queue_edit_expiry i l e h) = qh_calls h"
  "qh_doc (on_doc f h) = f (qh_doc h)" "qh_calls (on_doc f h) = qh_calls h"
  "qh_paused (publish_queue M h) = qh_paused h" "qh_paused (on_doc f h) = qh_paused h"
  "qh_paused (host_save h) = qh_paused h" "qh_paused (arm_queue_edit_expiry i l e h) = qh_paused h"
  by (simp_all add: publish_queue_def host_save_def arm_queue_edit_expiry_def on_doc_def)

lemma start_turn_message: "start_turn cfg w item = (r, cs) \<Longrightarrow> c \<in> set cs \<Longrightarrow> call_message c = Some (qm_id item)"
  by (auto simp: start_turn_def split: option.splits)

lemma dispatch_message:
  "dispatch_queued cfg w item send = (r, cs) \<Longrightarrow> c \<in> set cs \<Longrightarrow> call_message c \<in> {None, Some (qm_id item)}"
  by (auto simp: dispatch_queued_def Let_def dest: start_turn_message
      split: if_splits QueueSend.splits sum.splits bool.splits prod.splits)

definition import_ok :: "'q MovableList \<Rightarrow> string \<Rightarrow> ('q \<Rightarrow> 'q) \<Rightarrow> bool" where
  "import_ok M qid f \<longleftrightarrow> (\<forall>q. blocked M qid q \<longrightarrow> blocked M qid (f q))"

lemma send_taken_keeps:
  assumes "send_taken M cfg w meanwhile item send h = (r, h')" "blocked M qid (qh_doc h)" "import_ok M qid meanwhile"
    "qm_id item \<noteq> qid"
  shows "keeps_blocked M qid h h'"
proof -
  obtain r' cs where d: "dispatch_queued cfg w item send = (r', cs)" by fastforce
  with assms(1) have "qh_doc h' = meanwhile (qh_doc h)" "qh_calls h' = qh_calls h @ cs"
    by (auto simp: send_taken_def)
  with assms(2-4) dispatch_message [OF d] show ?thesis
    by (fastforce simp: keeps_blocked_def import_ok_def)
qed

lemma put_back_keeps:
  assumes "movable_list_ok M" "blocked M qid (qh_doc h)" "trim (qm_id item) \<noteq> qid"
  shows "keeps_blocked M qid h (put_back M item h)"
  using assms insert_queued_rows [OF assms(1) _ assms(3)] by (auto simp: put_back_def blocked_def intro!: keeps_doc)

lemma review_keeps:
  assumes "movable_list_ok M" "blocked M qid (qh_doc h)"
  shows "blocked M qid (snd (set_queued_delivery_gate M other (Some g) (qh_doc h)))"
  using set_gate_rows [OF assms(1), of "\<lambda>g. g \<noteq> None" qid] assms(2) by (simp add: blocked_def)

lemma blocked_item:
  "blocked M qid q \<Longrightarrow> item \<in> set (read_queue M q) \<Longrightarrow> qm_delivery_gate item = None \<Longrightarrow>
   qm_id item \<noteq> qid \<and> trim (qm_id item) = qm_id item"
  unfolding blocked_def by (rule guarded_item) auto

lemma take_blocked:
  assumes "movable_list_ok M" "blocked M qid q" "take_queued M other q = (got, q')"
  shows "blocked M qid q' \<and> (\<forall>item. got = Some item \<longrightarrow> qm_id item \<noteq> qid \<and> trim (qm_id item) \<noteq> qid)"
  using take_queued_rows [OF assms(1), of "guarded (\<lambda>g. g \<noteq> None) qid" q other] assms(2,3)
    take_queued_item [of M other q] blocked_item [OF assms(2)]
  by (fastforce simp: blocked_def)

lemma drain_loop_keeps:
  assumes "movable_list_ok M"
  shows "blocked M qid (qh_doc h) \<Longrightarrow> \<forall>r \<in> set rounds. import_ok M qid (dr_meanwhile r) \<Longrightarrow>
    keeps_blocked M qid h (drain_heads M cfg rounds h)"
proof (induction rounds arbitrary: h)
  case Nil
  then show ?case by (auto intro: keeps_doc)
next
  case (Cons r rs)
  show ?case
  proof (cases "read_queue M (qh_doc h)")
    case Nil
    then show ?thesis using Cons.prems(1) by (auto intro: keeps_doc)
  next
    case q: (Cons front rest)
    show ?thesis
    proof (cases "qm_delivery_gate front")
      case (Some g)
      then show ?thesis using q Cons.prems(1) review_keeps [OF assms Cons.prems(1)]
        by (cases g) (auto intro!: keeps_doc)
    next
      case None
      obtain got q' where t: "take_queued M (qm_id front) (qh_doc h) = (got, q')" by fastforce
      note tk = take_blocked [OF assms Cons.prems(1) t]
      show ?thesis
      proof (cases "aw_in_flight (dr_world r) \<or> got = None")
        case True
        then show ?thesis using q None t tk Cons.prems(1) by (auto intro!: keeps_doc)
      next
        case False
        then obtain item where i: "got = Some item" by blast
        obtain res h1 where s: "send_taken M cfg (dr_world r) (dr_meanwhile r) item NextTurn (h\<lparr>qh_doc := q'\<rparr>) = (res, h1)"
          by fastforce
        have k: "keeps_blocked M qid (h\<lparr>qh_doc := q'\<rparr>) h1"
          using send_taken_keeps [OF s] tk i Cons.prems(2) by simp
        then have k1: "keeps_blocked M qid h h1" and b: "blocked M qid (qh_doc h1)" by (simp_all add: keeps_blocked_def)
        have "keeps_blocked M qid h1 (put_back M item (h1\<lparr>qh_paused := True\<rparr>))"
          using put_back_keeps [OF assms, of qid "h1\<lparr>qh_paused := True\<rparr>" item] b tk i by (simp add: keeps_blocked_def)
        moreover have "keeps_blocked M qid h1 (drain_heads M cfg rs h1)" using Cons.IH [OF b] Cons.prems(2) by simp
        ultimately show ?thesis using q None t i s False keeps_trans [OF k1] by (cases res) auto
      qed
    qed
  qed
qed

lemma drain_queue_keeps:
  "movable_list_ok M \<Longrightarrow> blocked M qid (qh_doc h) \<Longrightarrow> \<forall>r \<in> set rounds. import_ok M qid (dr_meanwhile r) \<Longrightarrow>
    keeps_blocked M qid h (drain_queue M cfg rounds h)"
  by (auto simp: drain_queue_def intro: keeps_doc drain_loop_keeps)

lemma promote_keeps:
  assumes "movable_list_ok M" "blocked M qid (qh_doc h)" "import_ok M qid meanwhile"
  shows "keeps_blocked M qid h (snd (promote M cfg w meanwhile other send h))"
proof -
  obtain got q' where t: "take_queued M other (qh_doc h) = (got, q')" by fastforce
  note tk = take_blocked [OF assms(1,2) t]
  show ?thesis
  proof (cases got)
    case None
    then show ?thesis using t tk by (auto simp: promote_def intro!: keeps_doc)
  next
    case (Some item)
    obtain res h1 where s: "send_taken M cfg w meanwhile item send (h\<lparr>qh_doc := q', qh_paused := False\<rparr>) = (res, h1)"
      by fastforce
    have k: "keeps_blocked M qid h h1" using send_taken_keeps [OF s _ assms(3)] tk Some by (simp add: keeps_blocked_def)
    have "keeps_blocked M qid h1 (put_back M item h2)" if "qh_doc h2 = qh_doc h1" "qh_calls h2 = qh_calls h1" for h2
      using put_back_keeps [OF assms(1), of qid h2 item] that k tk Some by (simp add: keeps_blocked_def)
    with keeps_trans [OF k] k t Some s show ?thesis
      by (cases res) (auto simp: promote_def)
  qed
qed


section \<open>A blocked row is not delivered\<close>

fun innocent :: "'q MovableList \<Rightarrow> string \<Rightarrow> 'q HostEvent \<Rightarrow> bool" where
  "innocent M qid (EvQueue _ new_id _ _ _) \<longleftrightarrow> trim new_id \<noteq> qid"
| "innocent M qid (EvDeliver _ _ new_id _ m) \<longleftrightarrow> trim new_id \<noteq> qid \<and> m \<noteq> Some qid \<and> map_option trim m \<noteq> Some qid"
| "innocent M qid (EvFinish _ _ _ _ _ _ _ rounds) \<longleftrightarrow> (\<forall>r \<in> set rounds. import_ok M qid (dr_meanwhile r))"
| "innocent M qid (EvExpire _ _ _ _ _ rounds) \<longleftrightarrow> (\<forall>r \<in> set rounds. import_ok M qid (dr_meanwhile r))"
| "innocent M qid (EvDrain rounds) \<longleftrightarrow> (\<forall>r \<in> set rounds. import_ok M qid (dr_meanwhile r))"
| "innocent M qid (EvSend _ f _) \<longleftrightarrow> import_ok M qid f"
| "innocent M qid (EvSteer _ f _) \<longleftrightarrow> import_ok M qid f"
| "innocent M qid (EvImport f) \<longleftrightarrow> import_ok M qid f"
| "innocent M qid _ \<longleftrightarrow> True"

fun resolves :: "string \<Rightarrow> 'q HostEvent \<times> HostReply \<Rightarrow> bool" where
  "resolves qid (EvFinish _ other _ action _ _ _ _, FinishReply r) \<longleftrightarrow> other = qid \<and> r = Inr (finished action)"
| "resolves qid _ \<longleftrightarrow> False"

lemma find_queued_trim: "find_queued M other h = Some item \<Longrightarrow> trim other = other"
  by (auto simp: find_queued_def elim!: read_queue_row dest!: find_SomeD)

lemma queue_message_keeps:
  assumes "movable_list_ok M" "blocked M qid (qh_doc h)" "trim new_id \<noteq> qid"
  shows "keeps_blocked M qid h (snd (queue_message_with_behavior M cfg now new_id t atts hold h))"
proof -
  let ?item = "\<lparr>qm_id = new_id, qm_text = t, qm_attachments = atts, qm_hold_for_turn_end = hold,
    qm_issued_by = hc_device cfg, qm_issued_at = now, qm_edited_at = None, qm_delivery_gate = None\<rparr>"
  obtain res q where p: "push_queued M ?item (qh_doc h) = (res, q)" by fastforce
  with push_queued_rows [OF assms(1), of "\<lambda>g. g \<noteq> None" qid "qh_doc h" ?item] assms(2,3) have "blocked M qid q"
    by (simp add: blocked_def)
  with assms(2) p show ?thesis
    by (auto simp: queue_message_with_behavior_def split: sum.split intro!: keeps_doc)
qed

lemma deliver_prompt_keeps:
  assumes "movable_list_ok M" "blocked M qid (qh_doc h)" "innocent M qid (EvDeliver w now new_id prompt m)"
  shows "keeps_blocked M qid h (snd (deliver_prompt M cfg w now new_id prompt m h))"
proof -
  have held: "keeps_blocked M qid h (snd (held_until_turn_end M cfg w now new_id prompt m h))"
    using assms(2,3) queue_message_keeps [OF assms(1,2)]
    by (auto simp: held_until_turn_end_def split: sum.splits option.splits prod.splits intro: keeps_doc)
       (metis snd_conv)+
  have calls: "keeps_blocked M qid h h''"
    if "keeps_blocked M qid h h'" "qh_doc h'' = qh_doc h'" "qh_calls h'' = qh_calls h' @ cs" "\<forall>c \<in> set cs. call_message c = m" for h' h'' cs
    using that assms(3) by (fastforce simp: keeps_blocked_def)
  obtain r h1 where r: "held_until_turn_end M cfg w now new_id prompt m h = (r, h1)" by fastforce
  with held have k: "keeps_blocked M qid h h1" by simp
  note steered = calls [OF k, where cs = "[CallSteer prompt m]"]
  have sent: "keeps_blocked M qid h h''"
    if "qh_doc h'' = qh_doc h1" "qh_calls h'' = qh_calls h1 @ [CallSteer prompt m, CallDispatch harness rq m]" for h'' harness rq
    using calls [OF k that] by simp
  show ?thesis
  proof (cases "r = Inr False")
    case True
    show ?thesis unfolding deliver_prompt_def r True
      by (auto simp: thaw_def Let_def split: sum.split bool.split option.split intro: steered sent)
  next
    case False
    with k show ?thesis by (auto simp: deliver_prompt_def r split: sum.split bool.split)
  qed
qed

lemma gate_set_blocked:
  assumes "movable_list_ok M" "blocked M qid (qh_doc h)" "set_queued_delivery_gate M other (Some g) (qh_doc h) = (ok, q)"
  shows "blocked M qid q"
  using review_keeps [OF assms(1,2), of other g] assms(3) by simp

lemma begin_keeps:
  assumes "movable_list_ok M" "blocked M qid (qh_doc h)"
  shows "keeps_blocked M qid h (snd (begin_queued_message_edit M cfg now new_id other owner inst h))"
  using assms(2) by (auto simp: begin_queued_message_edit_def Let_def split: option.split prod.split bool.split
      intro!: keeps_doc dest: gate_set_blocked [OF assms])

lemma renew_keeps:
  assumes "movable_list_ok M" "blocked M qid (qh_doc h)"
  shows "keeps_blocked M qid h (snd (renew_queued_message_edit M cfg now other lease h))"
  using assms(2) by (auto simp: renew_queued_message_edit_def Let_def split: option.split prod.split bool.split QueueDeliveryGate.split
      intro!: keeps_doc review_keeps [OF assms] dest: gate_set_blocked [OF assms])

lemma expire_keeps:
  assumes "movable_list_ok M" "blocked M qid (qh_doc h)" "\<forall>r \<in> set rounds. import_ok M qid (dr_meanwhile r)"
  shows "keeps_blocked M qid h (expire_queued_message_edit M cfg now later other lease scheduled rounds h)"
proof (cases "Option.bind (find_queued M other h) qm_delivery_gate")
  case None
  then show ?thesis using assms(2) by (simp add: expire_queued_message_edit_def keeps_doc)
next
  case (Some g)
  show ?thesis
  proof (cases g)
    case (Editing current owner inst acquired expires base)
    obtain ok q where s: "set_queued_delivery_gate M other (Some (ReviewRequired current owner later base)) (qh_doc h) = (ok, q)"
      by fastforce
    have b: "blocked M qid q" by (rule gate_set_blocked [OF assms(1,2) s])
    have k: "keeps_blocked M qid h (host_save (publish_queue M (h\<lparr>qh_doc := q\<rparr>)))" using b by (intro keeps_doc) simp_all
    have "keeps_blocked M qid h (drain_queue M cfg rounds (host_save (publish_queue M (h\<lparr>qh_doc := q\<rparr>))))"
      by (rule keeps_trans [OF k drain_queue_keeps [OF assms(1) _ assms(3)]]) (use b in simp)
    then show ?thesis using keeps_doc [of M qid h h] keeps_doc [of M qid "h\<lparr>qh_doc := q\<rparr>" h] b assms(2) s
      by (auto simp: expire_queued_message_edit_def Some Editing keeps_blocked_def split: bool.split)
  qed (use assms(2) Some in \<open>simp add: expire_queued_message_edit_def keeps_doc\<close>)
qed

lemma resolve_edit_keeps:
  assumes "movable_list_ok M" "blocked M qid (qh_doc h)" "resolve_edit M cfg now other lease action t expected atts h = (outcome, h')"
    "other = qid \<Longrightarrow> outcome \<noteq> finished action"
  shows "keeps_blocked M qid h h'"
proof (cases "find_queued M other h")
  case None
  then show ?thesis using assms(2,3) by (auto simp: resolve_edit_def intro: keeps_doc)
next
  case (Some item)
  note find_queued_trim [OF this]
  with assms(1,2) finish_rows [OF assms(1), of "\<lambda>g. g \<noteq> None" qid "qh_doc h" other]
  have "other \<noteq> qid \<Longrightarrow> blocked M qid (snd (finish_queued_edit M other r a now (qh_doc h)))" for r a
    by (simp add: blocked_def)
  moreover have "finish_queued_edit M other r a now q = (False, q') \<Longrightarrow> q' = q" for r a q q'
    by (auto simp: finish_queued_edit_def remove_queued_def Let_def split: if_splits option.splits)
  ultimately show ?thesis using assms(2-4) Some
    by (auto simp: resolve_edit_def Let_def split: option.splits prod.splits bool.splits if_splits intro!: keeps_doc)
      (metis snd_conv)+
qed

lemma finish_edit_keeps:
  assumes "movable_list_ok M" "blocked M qid (qh_doc h)" "\<forall>r \<in> set rounds. import_ok M qid (dr_meanwhile r)"
    "finish_queued_message_edit M cfg now other lease action t expected atts rounds h = (r, h')"
    "\<not> (other = qid \<and> r = Inr (finished action))"
  shows "keeps_blocked M qid h h'"
proof -
  obtain outcome h1 where r: "resolve_edit M cfg now other lease action t expected atts h = (outcome, h1)" by fastforce
  show ?thesis
  proof (cases "hc_is_host cfg \<and> \<not> (action = Commit \<and> (t = None \<or> expected = None))")
    case True
    with assms(4) r have h: "r = Inr outcome" "h' = (if outcome = finished action then drain_queue M cfg rounds h1 else h1)"
      by (auto simp: finish_queued_message_edit_def)
    have k: "keeps_blocked M qid h h1" using resolve_edit_keeps [OF assms(1,2) r] assms(5) h(1) by blast
    then have "keeps_blocked M qid h1 (drain_queue M cfg rounds h1)"
      by (intro drain_queue_keeps [OF assms(1) _ assms(3)]) (simp add: keeps_blocked_def)
    with keeps_trans [OF k] k h(2) show ?thesis by simp
  qed (use assms(2,4) in \<open>auto simp: finish_queued_message_edit_def intro: keeps_doc split: if_splits\<close>)
qed

lemma host_step_keeps:
  assumes "movable_list_ok M" "blocked M qid (qh_doc h)" "innocent M qid ev" "host_step M cfg ev h = (r, h')"
    "\<not> resolves qid (ev, r)"
  shows "keeps_blocked M qid h h'"
proof -
  note promoted = promote_keeps [OF assms(1,2)]
  show ?thesis
  proof (cases ev)
    case (EvQueue now new_id t atts hold)
    then show ?thesis using assms queue_message_keeps [OF assms(1,2)] by auto
  next
    case (EvDeliver w now new_id prompt m)
    then show ?thesis using assms deliver_prompt_keeps [OF assms(1,2)] by auto
  next
    case (EvUpdate now other t)
    then show ?thesis using assms set_queued_text_rows [OF assms(1), of "\<lambda>g. g \<noteq> None" qid "qh_doc h"]
      by (auto simp: update_queued_message_def blocked_def Let_def split_def intro!: keeps_doc)
  next
    case (EvMove other to)
    then show ?thesis using assms move_queued_rows [OF assms(1), of "guarded (\<lambda>g. g \<noteq> None) qid" "qh_doc h"]
      by (auto simp: move_queued_message_def blocked_def Let_def split_def intro!: keeps_doc)
  next
    case (EvRemove other)
    then show ?thesis using assms remove_queued_rows [OF assms(1), of "guarded (\<lambda>g. g \<noteq> None) qid" "qh_doc h"]
      by (auto simp: remove_queued_message_def blocked_def Let_def split_def intro!: keeps_doc)
  next
    case (EvBegin now new_id other owner inst)
    with assms(4) have "h' = snd (begin_queued_message_edit M cfg now new_id other owner inst h)" by (auto split: prod.splits)
    with begin_keeps [OF assms(1,2)] show ?thesis by simp
  next
    case (EvRenew now other lease)
    then show ?thesis using assms renew_keeps [OF assms(1,2)] by auto
  next
    case (EvFinish now other lease action t expected atts rounds)
    obtain r1 where f: "finish_queued_message_edit M cfg now other lease action t expected atts rounds h = (r1, h')" "r = FinishReply r1"
      using assms(4) EvFinish by (auto split: prod.splits)
    show ?thesis using finish_edit_keeps [OF assms(1,2) _ f(1)] assms(3,5) EvFinish f(2) by simp
  next
    case (EvExpire now later other lease scheduled rounds)
    then show ?thesis using assms expire_keeps [OF assms(1,2)] by auto
  next
    case (EvSend w f other)
    then show ?thesis using assms promoted by (auto simp: send_queued_now_def split: option.splits intro: keeps_doc)
  next
    case (EvSteer w f other)
    then show ?thesis using assms promoted by (auto simp: steer_queued_now_def split: option.splits intro: keeps_doc)
  next
    case (EvDrain rounds)
    then show ?thesis using assms drain_queue_keeps [OF assms(1,2)] by auto
  next
    case (EvInterrupt w)
    then show ?thesis using assms(2,4)
      by (auto simp: interrupt_and_pause_queue_def keeps_blocked_def Let_def split: sum.splits bool.splits)
  next
    case EvPause
    then show ?thesis using assms(2,4) by (auto intro: keeps_doc)
  next
    case (EvImport f)
    then show ?thesis using assms(2-4) by (auto simp: import_ok_def intro!: keeps_doc)
  qed
qed

lemma host_run_keeps:
  assumes "movable_list_ok M"
  shows "blocked M qid (qh_doc h) \<Longrightarrow> \<forall>ev \<in> set evs. innocent M qid ev \<Longrightarrow> host_run M cfg evs h = (rs, h') \<Longrightarrow>
    \<forall>p \<in> set (zip evs rs). \<not> resolves qid p \<Longrightarrow> keeps_blocked M qid h h'"
proof (induction evs arbitrary: h rs)
  case Nil
  then show ?case by (auto intro: keeps_doc)
next
  case (Cons ev evs)
  obtain r h1 rs1 where s: "host_step M cfg ev h = (r, h1)" "host_run M cfg evs h1 = (rs1, h')" "rs = r # rs1"
    using Cons.prems(3) by (auto split: prod.splits)
  have k: "keeps_blocked M qid h h1" using host_step_keeps [OF assms Cons.prems(1) _ s(1)] Cons.prems(2,4) s(3) by simp
  then have "keeps_blocked M qid h1 h'"
    using Cons.IH [OF _ _ s(2)] Cons.prems(2,4) s(3) by (simp add: keeps_blocked_def)
  with k show ?case by (rule keeps_trans)
qed

end
