(* ===== verification/Queue_Delivery.thy ===== *)
theory Queue_Delivery
  imports Queue_Safety
begin

text \<open>
  Deliveries from a queue whose identities are as the clients mint them: the head can be taken, a drain sends the rows
  in order, a row whose delivery failed is put back, and what acquiring and resolving an edit do to its row.
\<close>

section \<open>Queues whose identities are as the clients mint them\<close>

fun row_name :: "RawRow \<Rightarrow> string option" where
  "row_name (MapRow m) = (case map_of m ''id'' of Some (JStr s) \<Rightarrow> Some s | _ \<Rightarrow> None)"
| "row_name (ValueRow v) = None"

definition row_names :: "RawRow list \<Rightarrow> string list" where
  "row_names rs = List.map_filter row_name rs"

definition rows_ok :: "RawRow list \<Rightarrow> bool" where
  "rows_ok rs \<longleftrightarrow> distinct (row_names rs) \<and>
     (\<forall>r \<in> set rs. (\<exists>m. r = MapRow m) \<and> (\<forall>s. row_name r = Some s \<longrightarrow> trim s = s))"

definition queue_ok :: "'q MovableList \<Rightarrow> 'q \<Rightarrow> bool" where
  "queue_ok M q \<longleftrightarrow> rows_ok (ml_rows M q)"

definition read_rows :: "RawRow list \<Rightarrow> QueuedMessage list" where
  "read_rows rs = List.map_filter (\<lambda>r. queued_from_json (row_value r)) rs"

lemma read_rows_append [simp]: "read_rows (rs @ rs') = read_rows rs @ read_rows rs'"
  by (simp add: read_rows_def map_filter_def)

lemma read_rows_Cons:
  "read_rows (r # rs) = (case queued_from_json (row_value r) of Some m \<Rightarrow> m # read_rows rs | None \<Rightarrow> read_rows rs)"
  by (simp add: read_rows_def map_filter_simps split: option.split)

lemma row_names_simps [simp]:
  "row_names [] = []" "row_names (rs @ rs') = row_names rs @ row_names rs'"
  "row_names (r # rs) = (case row_name r of Some s \<Rightarrow> s # row_names rs | None \<Rightarrow> row_names rs)"
  by (simp_all add: row_names_def map_filter_simps map_filter_def split: option.split)

lemma in_row_names: "s \<in> set (row_names rs) \<longleftrightarrow> (\<exists>r \<in> set rs. row_name r = Some s)"
  by (induction rs) (auto split: option.split)

lemma has_id_name: "has_id qid r \<longleftrightarrow> row_name r = Some qid"
  by (cases r) (auto simp: has_id_def split: option.splits json.splits)

lemma row_id_name: "\<exists>m. r = MapRow m \<Longrightarrow> row_id r = map_option trim (row_name r)"
  by (auto simp: row_id_def str_member_def split: option.splits json.splits)

lemma rows_ok_unique:
  assumes "rows_ok (us @ r # vs)" "row_name r = Some s" "x \<in> set us \<union> set vs"
  shows "row_name x \<noteq> Some s"
  using assms(1,3) by (auto simp: rows_ok_def assms(2) in_row_names simp del: row_name.simps)

lemma rows_ok_split:
  assumes "rows_ok rs" "read_rows rs = m # rest"
  obtains us r vs where "rs = us @ r # vs" "read_rows us = []" "queued_from_json (row_value r) = Some m"
    "read_rows vs = rest" "row_name r = Some (qm_id m)"
proof -
  have "\<exists>us r vs. rs = us @ r # vs \<and> read_rows us = [] \<and> queued_from_json (row_value r) = Some m \<and> read_rows vs = rest"
    using assms(2)
  proof (induction rs)
    case (Cons r rs)
    show ?case
    proof (cases "queued_from_json (row_value r)")
      case None
      with Cons obtain us r' vs where "rs = us @ r' # vs" "read_rows us = []" "queued_from_json (row_value r') = Some m" "read_rows vs = rest"
        by (auto simp: read_rows_Cons)
      with None show ?thesis by (intro exI [of _ "r # us"] exI [of _ r'] exI [of _ vs]) (simp add: read_rows_Cons)
    next
      case (Some m')
      with Cons.prems show ?thesis
        by (intro exI [of _ "[]"] exI [of _ r] exI [of _ rs]) (simp add: read_rows_Cons, simp add: read_rows_def map_filter_simps)
    qed
  qed (simp add: read_rows_def map_filter_simps)
  then obtain us r vs where s: "rs = us @ r # vs" "read_rows us = []" "queued_from_json (row_value r) = Some m" "read_rows vs = rest"
    by blast
  have "row_name r = Some (qm_id m)"
  proof -
    from assms(1) s(1) obtain x where r: "r = MapRow x" "\<And>s. row_name r = Some s \<Longrightarrow> trim s = s" by (auto simp: rows_ok_def)
    from s(3) have "row_id r = Some (qm_id m)"
      by (auto simp: queued_from_json_def row_id_def split: option.splits if_splits)
    with r row_id_name [of r] show ?thesis by auto
  qed
  with s show thesis by (rule that)
qed

lemma position_where_append:
  "\<forall>u \<in> set us. \<not> P u \<Longrightarrow> P r \<Longrightarrow> position_where P (us @ r # vs) = Some (length us)"
  by (induction us) auto

lemma remove_at_length [simp]: "remove_at (length us) (us @ r # vs) = us @ vs"
  by (simp add: remove_at_def)

lemma rows_ok_remove: "rows_ok (us @ r # vs) \<Longrightarrow> rows_ok (us @ vs)"
  by (auto simp: rows_ok_def simp del: row_name.simps split: option.splits)

lemma read_queue_rows: "read_queue M q = read_rows (ml_rows M q)"
  by (simp add: read_queue_def read_rows_def)

text \<open>The head of such a queue can be taken.\<close>

lemma take_head:
  assumes "movable_list_ok M" "queue_ok M q" "read_queue M q = m # rest" "qm_delivery_gate m = None"
  obtains q' where "take_queued M (qm_id m) q = (Some m, q')" "read_queue M q' = rest" "queue_ok M q'"
    "\<forall>r \<in> set (ml_rows M q'). row_name r \<noteq> Some (qm_id m)"
proof -
  from assms(2,3) obtain us r vs where s: "ml_rows M q = us @ r # vs" "read_rows us = []"
    "queued_from_json (row_value r) = Some m" "read_rows vs = rest" "row_name r = Some (qm_id m)"
    by (auto simp: queue_ok_def read_queue_rows elim!: rows_ok_split)
  have u: "\<And>x. x \<in> set us \<union> set vs \<Longrightarrow> row_name x \<noteq> Some (qm_id m)"
    using rows_ok_unique [of us r vs] assms(2) s(1,5) by (auto simp: queue_ok_def)
  have i: "index_of M (qm_id m) q = Some (length us)"
    using u s(1,5) by (auto simp: index_of_def has_id_name intro!: position_where_append)
  have d: "ml_rows M (ml_delete M (length us) q) = us @ vs"
    using movableD(2) [OF assms(1), of "length us" q] s(1) by simp
  show thesis
  proof (rule that)
    show "take_queued M (qm_id m) q = (Some m, ml_delete M (length us) q)"
      using i assms(3,4) by (simp add: take_queued_def Let_def)
    show "read_queue M (ml_delete M (length us) q) = rest" using d s(2,4) by (simp add: read_queue_rows)
    show "queue_ok M (ml_delete M (length us) q)" using d assms(2) s(1) rows_ok_remove by (simp add: queue_ok_def)
    show "\<forall>r \<in> set (ml_rows M (ml_delete M (length us) q)). row_name r \<noteq> Some (qm_id m)" using u d by auto
  qed
qed

section \<open>Deliveries of a drain\<close>

text \<open>A round in which the agent is free and takes what it is given, and nobody else writes.\<close>

definition ready :: "'q DrainRound \<Rightarrow> bool" where
  "ready r \<longleftrightarrow> \<not> aw_in_flight (dr_world r) \<and> (aw_chat (dr_world r) \<noteq> None \<or> aw_last_request (dr_world r) \<noteq> None) \<and>
     (\<exists>run. aw_dispatch (dr_world r) = Inr run) \<and> dr_meanwhile r = id"

definition delivered :: "QueuedMessage \<Rightarrow> AgentCall \<Rightarrow> bool" where
  "delivered item c \<longleftrightarrow> (\<exists>harness rq. c = CallDispatch harness rq (Some (qm_id item)) \<and>
     rr_prompt rq = queued_message_prompt (qm_text item) (qm_attachments item) \<and> rr_attachments rq = qm_attachments item \<and>
     rr_resume rq = None)"

lemma queued_request_some:
  assumes "aw_chat w \<noteq> None \<or> aw_last_request w \<noteq> None"
  obtains rq where "queued_request w prompt atts = Some rq" "rr_prompt rq = prompt" "rr_attachments rq = atts" "rr_resume rq = None"
proof -
  from assms obtain rq where "queued_request w prompt atts = Some rq"
    by (cases "aw_chat w"; cases "aw_last_request w") (simp_all add: queued_request_def request_from_chat_row_def Let_def)
  moreover from this have "rr_prompt rq = prompt \<and> rr_attachments rq = atts \<and> rr_resume rq = None"
    by (auto simp: queued_request_def Let_def)
  ultimately show thesis using that by blast
qed

lemma dispatch_ready:
  assumes "hc_wired cfg" "ready r"
  obtains c where "dispatch_queued cfg (dr_world r) item NextTurn = (Inr (), [c])" "delivered item c"
proof -
  obtain rq where "queued_request (dr_world r) (queued_message_prompt (qm_text item) (qm_attachments item)) (qm_attachments item) = Some rq"
    "rr_prompt rq = queued_message_prompt (qm_text item) (qm_attachments item)" "rr_attachments rq = qm_attachments item" "rr_resume rq = None"
    using assms(2) queued_request_some by (metis ready_def)
  with assms show thesis
    by (intro that [of "CallDispatch (harness_for_request cfg (dr_world r) rq) rq (Some (qm_id item))"])
       (auto simp: dispatch_queued_def start_turn_def delivered_def ready_def)
qed

lemma drain_round:
  assumes "movable_list_ok M" "hc_wired cfg" "queue_ok M (qh_doc h)" "read_queue M (qh_doc h) = item # rest"
    "qm_delivery_gate item = None" "ready r"
  obtains h' c where "drain_heads M cfg (r # rs) h = drain_heads M cfg rs h'" "queue_ok M (qh_doc h')"
    "read_queue M (qh_doc h') = rest" "qh_calls h' = qh_calls h @ [c]" "delivered item c" "qh_paused h' = qh_paused h"
proof -
  obtain q' where t: "take_queued M (qm_id item) (qh_doc h) = (Some item, q')" "read_queue M q' = rest" "queue_ok M q'"
    by (rule take_head [OF assms(1,3,4,5)])
  obtain c where d: "dispatch_queued cfg (dr_world r) item NextTurn = (Inr (), [c])" "delivered item c"
    by (rule dispatch_ready [OF assms(2,6)])
  let ?h = "on_doc id ((publish_queue M (h\<lparr>qh_doc := q'\<rparr>))\<lparr>qh_calls := qh_calls h @ [c]\<rparr>)"
  have "drain_heads M cfg (r # rs) h = drain_heads M cfg rs ?h"
    using assms(4-6) t d by (simp add: send_taken_def ready_def)
  then show thesis by (rule that [where c = c]) (simp_all add: t d)
qed

lemma drain_rounds:
  assumes "movable_list_ok M" "hc_wired cfg"
  shows "queue_ok M (qh_doc h) \<Longrightarrow> \<forall>r \<in> set rounds. ready r \<Longrightarrow>
    length rounds \<le> length (takeWhile (\<lambda>m. qm_delivery_gate m = None) (read_queue M (qh_doc h))) \<Longrightarrow>
    \<exists>h' cs. drain_heads M cfg (rounds @ rs) h = drain_heads M cfg rs h' \<and> queue_ok M (qh_doc h') \<and>
      read_queue M (qh_doc h') = drop (length rounds) (read_queue M (qh_doc h)) \<and> qh_calls h' = qh_calls h @ cs \<and>
      list_all2 delivered (take (length rounds) (read_queue M (qh_doc h))) cs \<and> qh_paused h' = qh_paused h"
proof (induction rounds arbitrary: h)
  case Nil
  then show ?case by auto
next
  case (Cons r rounds)
  then obtain item rest where q: "read_queue M (qh_doc h) = item # rest" "qm_delivery_gate item = None"
    by (cases "read_queue M (qh_doc h)") (auto split: if_splits)
  obtain h1 c where h1: "drain_heads M cfg (r # rounds @ rs) h = drain_heads M cfg (rounds @ rs) h1" "queue_ok M (qh_doc h1)"
    "read_queue M (qh_doc h1) = rest" "qh_calls h1 = qh_calls h @ [c]" "delivered item c" "qh_paused h1 = qh_paused h"
    using drain_round [OF assms Cons.prems(1) q] Cons.prems(2) by (metis list.set_intros(1))
  have "length rounds \<le> length (takeWhile (\<lambda>m. qm_delivery_gate m = None) (read_queue M (qh_doc h1)))"
    using Cons.prems(3) q h1(3) by simp
  from Cons.IH [OF h1(2) _ this] Cons.prems(2) obtain h' cs where "drain_heads M cfg (rounds @ rs) h1 = drain_heads M cfg rs h'"
    "queue_ok M (qh_doc h')" "read_queue M (qh_doc h') = drop (length rounds) rest" "qh_calls h' = qh_calls h1 @ cs"
    "list_all2 delivered (take (length rounds) rest) cs" "qh_paused h' = qh_paused h1"
    using h1(3) by auto
  with h1 q show ?case by (intro exI [of _ h'] exI [of _ "c # cs"]) auto
qed

section \<open>A failed delivery\<close>

lemma read_gate_some: "\<exists>g'. read_gate (Some (gate_to_json g)) = Some g'"
  using read_gate_blocks [of g] by (cases "read_gate (Some (gate_to_json g))") simp_all

lemma read_gate_times: "read_gate v = Some g \<Longrightarrow> gate_times_ok g"
  by (auto simp: read_gate_def gate_from_json_def int_member_def in_i64_def as_i64.simps
      split: option.splits json.splits if_splits Option.bind_splits elim!: as_i64.elims)

lemma read_message_ok:
  assumes "queued_from_json v = Some item"
  shows "message_ok item \<and> trim (qm_id item) = qm_id item"
proof -
  have i: "in_i64 t" if "int_member v k = Some t" for k t
    using that by (cases "json_get v k") (auto simp: int_member_def elim!: as_i64.elims split: if_splits)
  have z: "in_i64 0" by (simp add: in_i64_def)
  show ?thesis using assms i z read_gate_times [of "json_get v ''deliveryGate''"]
    by (auto simp: queued_from_json_def message_ok_def option.pred_set
        split: option.splits if_splits)
qed

lemma put_back_read:
  assumes "movable_list_ok M" "queue_ok M q" "message_ok item" "trim (qm_id item) = qm_id item"
    "\<forall>r \<in> set (ml_rows M q). row_name r \<noteq> Some (qm_id item)"
  shows "read_queue M (snd (insert_queued M 0 item q)) = item # read_queue M q"
proof -
  have "ml_rows M (snd (insert_queued M 0 item q)) = MapRow (queued_entries item) # ml_rows M q"
    using assms(3) written_rows [OF assms(1), of 0 q item]
    by (simp add: insert_queued_def message_ok_def insert_row_def)
  with read_written [OF assms(3)] assms(4) show ?thesis by (simp add: read_queue_rows read_rows_Cons)
qed

definition refused :: "'q DrainRound \<Rightarrow> bool" where
  "refused r \<longleftrightarrow> \<not> aw_in_flight (dr_world r) \<and> (\<exists>e. aw_dispatch (dr_world r) = Inl e) \<and> dr_meanwhile r = id"

lemma drain_refused:
  assumes "movable_list_ok M" "queue_ok M (qh_doc h)" "read_queue M (qh_doc h) = item # rest"
    "qm_delivery_gate item = None" "refused r"
  shows "read_queue M (qh_doc (drain_heads M cfg (r # rs) h)) = item # rest \<and> qh_paused (drain_heads M cfg (r # rs) h) \<and>
    qh_published (drain_heads M cfg (r # rs) h) = item # rest"
proof -
  obtain q' where t: "take_queued M (qm_id item) (qh_doc h) = (Some item, q')" "read_queue M q' = rest" "queue_ok M q'"
    "\<forall>r \<in> set (ml_rows M q'). row_name r \<noteq> Some (qm_id item)" by (rule take_head [OF assms(1-4)])
  have "\<exists>e. fst (dispatch_queued cfg (dr_world r) item NextTurn) = Inl e"
    using assms(5) by (auto simp: dispatch_queued_def start_turn_def refused_def split: option.split)
  then obtain e cs where d: "dispatch_queued cfg (dr_world r) item NextTurn = (Inl e, cs)" by (metis prod.collapse)
  have "item \<in> set (read_queue M (qh_doc h))" using assms(3) by simp
  then obtain v where "queued_from_json v = Some item" by (rule read_queue_row)
  then have "message_ok item" "trim (qm_id item) = qm_id item" using read_message_ok by blast+
  note put = put_back_read [OF assms(1) t(3) this t(4)]
  have "drain_heads M cfg (r # rs) h =
      put_back M item ((on_doc id ((publish_queue M (h\<lparr>qh_doc := q'\<rparr>))\<lparr>qh_calls := qh_calls h @ cs\<rparr>))\<lparr>qh_paused := True\<rparr>)"
    using assms(3-5) t(1) d by (simp add: send_taken_def refused_def)
  then show ?thesis using put t(2) by (simp add: put_back_def on_doc_def publish_queue_def)
qed

section \<open>Acquiring and resolving\<close>

lemma queue_row:
  assumes "queue_ok M q" "item \<in> set (read_queue M q)"
  obtains us x vs where "ml_rows M q = us @ MapRow x # vs" "queued_from_json (JObj x) = Some item"
    "map_of x ''id'' = Some (JStr (qm_id item))" "\<forall>r \<in> set us \<union> set vs. row_name r \<noteq> Some (qm_id item)"
    "index_of M (qm_id item) q = Some (length us)"
proof -
  from assms(2) obtain r where r: "r \<in> set (ml_rows M q)" "queued_from_json (row_value r) = Some item" "row_id r = Some (qm_id item)"
    by (rule read_queue_row)
  with assms(1) obtain x where x: "r = MapRow x" "\<And>s. row_name r = Some s \<Longrightarrow> trim s = s" by (auto simp: queue_ok_def rows_ok_def)
  with r(3) row_id_name [of r] have n: "row_name r = Some (qm_id item)"
    by (cases "row_name r") (auto simp del: row_name.simps)
  from r(1) obtain us vs where s: "ml_rows M q = us @ r # vs" by (auto simp: in_set_conv_decomp)
  have u: "\<forall>y \<in> set us \<union> set vs. row_name y \<noteq> Some (qm_id item)"
    using rows_ok_unique [of us r vs, OF _ n] assms(1) s by (simp add: queue_ok_def)
  show thesis
  proof (rule that)
    show "ml_rows M q = us @ MapRow x # vs" using s x by simp
    show "queued_from_json (JObj x) = Some item" using r(2) x by simp
    show "map_of x ''id'' = Some (JStr (qm_id item))" using n x(1) has_id_name [of "qm_id item" r] by (simp add: has_id_def)
    show "\<forall>r \<in> set us \<union> set vs. row_name r \<noteq> Some (qm_id item)" by (rule u)
    show "index_of M (qm_id item) q = Some (length us)"
      using u n s by (auto simp: index_of_def has_id_name intro!: position_where_append)
  qed
qed

lemma find_queued_row:
  assumes "queue_ok M (qh_doc h)" "find_queued M qid h = Some item"
  obtains us x vs where "ml_rows M (qh_doc h) = us @ MapRow x # vs" "queued_from_json (JObj x) = Some item"
    "map_of x ''id'' = Some (JStr qid)" "\<forall>r \<in> set us \<union> set vs. row_name r \<noteq> Some qid"
    "index_of M qid (qh_doc h) = Some (length us)" "qm_id item = qid"
proof -
  from assms(2) have "item \<in> set (read_queue M (qh_doc h))" "qm_id item = qid"
    by (auto simp: find_queued_def dest: find_SomeD)
  with queue_row [OF assms(1) this(1)] show thesis using that by metis
qed

lemma begin_blocks:
  assumes "movable_list_ok M" "queue_ok M (qh_doc h)"
    "begin_queued_message_edit M cfg now new_id qid owner inst h = (Inr (Acquired lease t atts base expires), h')"
  shows "blocked M qid (qh_doc h') \<and> qh_calls h' = qh_calls h"
proof -
  obtain item where f: "find_queued M qid h = Some item"
    using assms(3) by (auto simp: begin_queued_message_edit_def split: if_splits option.splits)
  obtain us x vs where r: "ml_rows M (qh_doc h) = us @ MapRow x # vs" "map_of x ''id'' = Some (JStr qid)"
    "\<forall>r \<in> set us \<union> set vs. row_name r \<noteq> Some qid" "index_of M qid (qh_doc h) = Some (length us)"
    using find_queued_row [OF assms(2) f] by metis
  have other: "row_id y \<noteq> Some qid" if "y \<in> set us \<union> set vs" for y
  proof -
    from assms(2) r(1) that have "\<exists>m. y = MapRow m" "\<forall>s. row_name y = Some s \<longrightarrow> trim s = s"
      by (auto simp: queue_ok_def rows_ok_def)
    with row_id_name [of y] r(3) that show ?thesis by auto
  qed
  have "blocked M qid (ml_put M (length us) ''deliveryGate'' (gate_to_json g) (qh_doc h))" for g
    using movableD(4) [OF assms(1), of "length us" "qh_doc h" x] r(1) other
    by (auto simp: blocked_def all_rows_def guarded_def row_gate_def update_conv' read_gate_some)
  then show ?thesis using assms(3) f r(4)
    by (auto simp: begin_queued_message_edit_def Let_def set_queued_delivery_gate_def split: if_splits option.splits)
qed

definition edited :: "string \<Rightarrow> string list option \<Rightarrow> int \<Rightarrow> QueuedMessage \<Rightarrow> QueuedMessage" where
  "edited t atts now m = m\<lparr>qm_text := t, qm_attachments := (case atts of Some a \<Rightarrow> a | None \<Rightarrow> qm_attachments m),
     qm_edited_at := (if qm_text m \<noteq> t \<or> atts \<noteq> None then Some now else qm_edited_at m), qm_delivery_gate := None\<rparr>"

lemma finish_queued_edit_row:
  assumes "index_of M qid q = Some i"
  shows "fst (finish_queued_edit M qid replacement atts now q)"
  using assms by (auto simp: finish_queued_edit_def remove_queued_def Let_def split: option.split)

end
