(* ===== verification/Queue_Properties.thy ===== *)
theory Queue_Properties
  imports Queue_Delivery
begin

text \<open>
  The properties of the queue and its host, with their witnesses on a queue kept as a list.
\<close>

section \<open>Properties\<close>


text \<open>C9: an edit is resolved by the holder of the row's lease only, and a commit only when the row still has the
  text the lease was taken on; any other answer leaves the host as it was.\<close>

theorem edit_resolved_by_holder:
  assumes "movable_list_ok M" "queue_ok M (qh_doc h)" "hc_is_host cfg" "find_queued M qid h = Some item"
    "action = Commit \<longrightarrow> txt0 \<noteq> None \<and> expected \<noteq> None"
    "finish_queued_message_edit M cfg now qid lease action txt0 expected atts rounds h = (r, h')"
  shows "(r = Inr (finished action) \<longleftrightarrow>
      (\<exists>g. qm_delivery_gate item = Some g \<and> gate_lease g = lease \<and>
         (action = Commit \<longrightarrow> expected = Some (gate_base g) \<and> hc_hash cfg (qm_text item) = gate_base g))) \<and>
    (r \<noteq> Inr (finished action) \<longrightarrow> h' = h \<and> r \<in> {Inr FinishLost, Inr (Conflict (qm_text item))})"
proof -
  obtain us :: "RawRow list" where i: "index_of M qid (qh_doc h) = Some (length us)"
    using find_queued_row [OF assms(2,4)] by metis
  have distinct: "finished action \<noteq> FinishLost" "finished action \<noteq> Conflict (qm_text item)" by (cases action; simp)+
  show ?thesis
  proof (cases "qm_delivery_gate item")
    case None
    with assms(3-6) distinct show ?thesis
      by (auto simp: finish_queued_message_edit_def resolve_edit_def)
  next
    case (Some g)
    let ?bad = "action = Commit \<and> (expected \<noteq> Some (gate_base g) \<or> hc_hash cfg (qm_text item) \<noteq> gate_base g)"
    show ?thesis
    proof (cases "gate_lease g \<noteq> lease \<or> ?bad")
      case True
      with assms(3-6) Some distinct show ?thesis
        by (auto simp: finish_queued_message_edit_def resolve_edit_def split: if_splits)
    next
      case False
      obtain q where "finish_queued_edit M qid (replacement_text action txt0) (if action = Commit then atts else None) now (qh_doc h) = (True, q)"
        using finish_queued_edit_row [OF i] by (metis (full_types) prod.collapse)
      then have "resolve_edit M cfg now qid lease action txt0 expected atts h = (finished action, host_save (publish_queue M (h\<lparr>qh_doc := q\<rparr>)))"
        unfolding resolve_edit_def assms(4) using Some False by auto
      with assms(3,5,6) have "r = Inr (finished action)" by (auto simp: finish_queued_message_edit_def split: if_splits)
      with Some False show ?thesis by simp
    qed
  qed
qed


text \<open>C8: a delivery that fails loses nothing: the row is at the head again, the rows read as before it, the watchers
  see them, and the queue is frozen, so that no later drain delivers anything.\<close>

theorem failed_delivery_freezes:
  assumes "movable_list_ok M" "queue_ok M (qh_doc h)" "hc_wired cfg" "hc_is_host cfg" "\<not> qh_paused h"
    "\<forall>r \<in> set rounds. ready r" "refused bad"
    "length rounds < length (takeWhile (\<lambda>m. qm_delivery_gate m = None) (read_queue M (qh_doc h)))"
    "h' = drain_queue M cfg (rounds @ bad # left) h"
  shows "read_queue M (qh_doc h') = drop (length rounds) (read_queue M (qh_doc h)) \<and>
    qh_published h' = read_queue M (qh_doc h') \<and> qh_paused h' \<and> drain_queue M cfg later h' = h'"
proof -
  from assms(8) have "length rounds \<le> length (takeWhile (\<lambda>m. qm_delivery_gate m = None) (read_queue M (qh_doc h)))" by simp
  from drain_rounds [OF assms(1,3,2,6) this, of "bad # left"] obtain h1 where
    h1: "drain_heads M cfg (rounds @ bad # left) h = drain_heads M cfg (bad # left) h1" "queue_ok M (qh_doc h1)"
    "read_queue M (qh_doc h1) = drop (length rounds) (read_queue M (qh_doc h))" by blast
  let ?front = "read_queue M (qh_doc h) ! length rounds"
  have "length rounds < length (read_queue M (qh_doc h))"
    using assms(8) length_takeWhile_le [of "\<lambda>m. qm_delivery_gate m = None" "read_queue M (qh_doc h)"] by linarith
  then have r: "read_queue M (qh_doc h1) = ?front # drop (Suc (length rounds)) (read_queue M (qh_doc h))"
    by (simp add: h1(3) Cons_nth_drop_Suc)
  have "takeWhile (\<lambda>m. qm_delivery_gate m = None) (read_queue M (qh_doc h)) ! length rounds = ?front"
    by (rule takeWhile_nth [OF assms(8)])
  then have "qm_delivery_gate ?front = None" using nth_mem [OF assms(8)] by (auto dest: set_takeWhileD)
  from drain_refused [OF assms(1) h1(2) r this assms(7), of cfg left] h1(1,3) r assms(3-5,9)
  show ?thesis by (auto simp: drain_queue_def)
qed

text \<open>What one device queues is what every device reads, field by field, at the end of the queue.\<close>

theorem queued_message_roundtrip:
  assumes "movable_list_ok M" "message_ok item" "push_queued M item q = (r, q')"
  shows "r = Inr () \<and> read_queue M q' = read_queue M q @ [item\<lparr>qm_id := trim (qm_id item)\<rparr>]"
proof -
  have "ml_rows M q' = ml_rows M q @ [MapRow (queued_entries item)]" "r = Inr ()"
    using assms(2,3) written_rows [OF assms(1), of "length (ml_rows M q)" q item]
    by (auto simp: push_queued_def message_ok_def Let_def insert_row_def)
  with read_written [OF assms(2)] show ?thesis by (simp add: read_queue_rows read_rows_Cons)
     (simp add: read_rows_def map_filter_simps)
qed

text \<open>C38: a second Cancel can thaw a frozen queue. If it comes when the run has gone but the chat still reads as
  working, it finds nothing to interrupt and clears the flag the first one set, and the next drain
  delivers the head, which Cancel was to prevent.\<close>

theorem second_cancel_sends:
  assumes "movable_list_ok M" "queue_ok M (qh_doc h)" "hc_wired cfg" "hc_is_host cfg"
    "read_queue M (qh_doc h) = item # rest" "qm_delivery_gate item = None"
    "aw_in_flight w" "aw_interrupt w = Inr True" "aw_in_flight w'" "aw_interrupt w' = Inr False" "ready r"
  shows "qh_paused (snd (host_run M cfg [EvInterrupt w] h)) \<and>
    (\<exists>c. last (qh_calls (snd (host_run M cfg [EvInterrupt w, EvInterrupt w', EvDrain [r]] h))) = c \<and> delivered item c)"
proof -
  let ?h = "snd (interrupt_and_pause_queue w' (snd (interrupt_and_pause_queue w h)))"
  have f: "qh_doc ?h = qh_doc h" "\<not> qh_paused ?h"
    using assms(7-10) by (simp_all add: interrupt_and_pause_queue_def Let_def)
  obtain h' c where "drain_heads M cfg [r] ?h = drain_heads M cfg [] h'" "qh_calls h' = qh_calls ?h @ [c]" "delivered item c"
    using drain_round [OF assms(1,3), of ?h item rest r "[]"] assms(2,5,6,11) unfolding f(1) by metis
  then have "last (qh_calls (drain_queue M cfg [r] ?h)) = c" using f(2) assms(3,4) by (simp add: drain_queue_def)
  moreover have "qh_paused (snd (interrupt_and_pause_queue w h))"
    using assms(7,8) by (simp add: interrupt_and_pause_queue_def Let_def)
  ultimately show ?thesis using \<open>delivered item c\<close> by simp
qed

lemma strip_suffix_append [simp]: "strip_suffix suf (s @ suf) = Some s"
  by (simp add: strip_suffix_def)

lemma attachment_only_kept: "trim ATTACHMENT_ONLY_PROMPT \<noteq> []"
  by (subst trim_graphic) (simp_all add: ATTACHMENT_ONLY_PROMPT_def graphic_def)

text \<open>A row that an older client stored with its prompt already expanded is sent with the attachments listed
  once: expanding an expanded prompt changes nothing, and the prompt that is sent is never blank.\<close>

theorem prompt_expanded_once:
  "queued_message_prompt (queued_message_prompt t atts) atts = queued_message_prompt t atts \<and>
   (atts = [] \<or> (\<exists>body. queued_message_prompt t atts = body @ attachment_trailer atts \<and> trim body \<noteq> []))"
  using attachment_only_kept by (auto simp: queued_message_prompt_def Let_def split: option.split)

section \<open>Witnesses\<close>

definition list_ops :: "RawRow list MovableList" where
  "list_ops = \<lparr>ml_rows = (\<lambda>q. q), ml_insert_map = (\<lambda>i q. insert_row i (MapRow []) q), ml_delete = remove_at,
     ml_mov = (\<lambda>i j q. insert_row j (q ! i) (remove_at i q)),
     ml_put = (\<lambda>i k v q. case q ! i of MapRow m \<Rightarrow> q[i := MapRow (AList.update k v m)] | ValueRow _ \<Rightarrow> q),
     ml_unset = (\<lambda>i k q. case q ! i of MapRow m \<Rightarrow> q[i := MapRow (AList.delete k m)] | ValueRow _ \<Rightarrow> q)\<rparr>"

lemma list_ops_ok: "movable_list_ok list_ops"
  by (simp add: movable_list_ok_def list_ops_def)

lemma toy_trims [simp]:
  "trim ''a'' = ''a''" "trim ''b'' = ''b''" "trim ''c'' = ''c''" "trim ''one'' = ''one''" "trim ''two'' = ''two''" "trim ''three'' = ''three''"
  by (rule trim_graphic; simp add: graphic_def)+

definition toy_host :: HostConfig where
  "toy_host = \<lparr>hc_device = ''laptop'', hc_default_harness = ClaudeCode, hc_hash = (\<lambda>t. t), hc_wired = True, hc_is_host = True\<rparr>"

definition toy_request :: RunRequest where
  "toy_request = \<lparr>rr_prompt = [], rr_harness = None, rr_model = None, rr_reasoning = None, rr_model_options = [], rr_cwd = [],
     rr_sandbox = WorkspaceWrite, rr_auto_approve = False, rr_resume = None, rr_attachments = [], rr_worktree = None\<rparr>"

definition toy_world :: "bool \<Rightarrow> string + bool \<Rightarrow> string + string \<Rightarrow> AgentWorld" where
  "toy_world busy interrupted run = \<lparr>aw_in_flight = busy, aw_steers_mid_turn = False, aw_steer = Inr False,
     aw_interrupt = interrupted, aw_last_request = Some toy_request, aw_chat = None, aw_dispatch = run\<rparr>"

definition toy_round :: "string + string \<Rightarrow> RawRow list DrainRound" where
  "toy_round run = \<lparr>dr_now = 0, dr_later = 0, dr_world = toy_world False (Inr True) run, dr_meanwhile = id\<rparr>"

definition toy_row :: "string \<Rightarrow> string \<Rightarrow> RawRow" where
  "toy_row qid t = MapRow [(''id'', JStr qid), (''text'', JStr t)]"

definition toy_queue :: "RawRow list QueueHost" where
  "toy_queue = \<lparr>qh_doc = [toy_row ''a'' ''one'', toy_row ''b'' ''two''], qh_paused = False, qh_published = [], qh_timers = [],
     qh_saved = None, qh_calls = []\<rparr>"

definition toy_message :: "string \<Rightarrow> string \<Rightarrow> QueuedMessage" where
  "toy_message qid t = queued_message_new qid t []"

lemma toy_queue_read: "read_queue list_ops (qh_doc toy_queue) = [toy_message ''a'' ''one'', toy_message ''b'' ''two'']"
  by (simp add: toy_queue_def toy_row_def list_ops_def read_queue_def map_filter_simps queued_from_json_def str_member_def int_member_def
      read_gate_def toy_message_def queued_message_new_def)

lemma toy_queue_ok: "queue_ok list_ops (qh_doc toy_queue)"
  by (simp add: queue_ok_def rows_ok_def toy_queue_def toy_row_def list_ops_def)

lemma toy_ready: "ready (toy_round (Inr run))" "refused (toy_round (Inl e))"
  by (simp_all add: ready_def refused_def toy_round_def toy_world_def)

lemma toy_flags: "hc_wired toy_host" "hc_is_host toy_host" "\<not> qh_paused toy_queue"
  by (simp_all add: toy_host_def toy_queue_def)

definition toy_leased :: "RawRow list QueueHost" where
  "toy_leased = snd (begin_queued_message_edit list_ops toy_host 0 ''lease'' ''a'' ''tablet'' ''ui'' toy_queue)"

definition toy_gate :: QueueDeliveryGate where
  "toy_gate = Editing ''lease'' ''tablet'' ''ui'' 0 60000 ''one''"

lemma toy_begin:
  "begin_queued_message_edit list_ops toy_host 0 ''lease'' ''a'' ''tablet'' ''ui'' toy_queue =
     (Inr (Acquired ''lease'' ''one'' [] ''one'' 60000), toy_leased)"
  "qh_doc toy_leased = [MapRow [(''id'', JStr ''a''), (''text'', JStr ''one''), (''deliveryGate'', gate_to_json toy_gate)],
     toy_row ''b'' ''two'']"
proof -
  have f: "find_queued list_ops ''a'' toy_queue = Some (toy_message ''a'' ''one'')"
    by (simp add: find_queued_def toy_queue_read toy_message_def queued_message_new_def)
  have g: "set_queued_delivery_gate list_ops ''a'' (Some toy_gate) (qh_doc toy_queue) =
      (True, [MapRow [(''id'', JStr ''a''), (''text'', JStr ''one''), (''deliveryGate'', gate_to_json toy_gate)], toy_row ''b'' ''two''])"
    by (simp add: set_queued_delivery_gate_def index_of_def has_id_def list_ops_def toy_queue_def toy_row_def)
  have d: "begin_queued_message_edit list_ops toy_host 0 ''lease'' ''a'' ''tablet'' ''ui'' toy_queue =
      (Inr (Acquired ''lease'' ''one'' [] ''one'' 60000), arm_queue_edit_expiry ''a'' ''lease'' 60000 (host_save (publish_queue list_ops
         (toy_queue\<lparr>qh_doc := snd (set_queued_delivery_gate list_ops ''a'' (Some toy_gate) (qh_doc toy_queue))\<rparr>))))"
    using g unfolding begin_queued_message_edit_def f
    by (simp add: toy_host_def toy_message_def queued_message_new_def live_lease_def QUEUE_EDIT_LEASE_MS_def toy_gate_def Let_def)
  show "begin_queued_message_edit list_ops toy_host 0 ''lease'' ''a'' ''tablet'' ''ui'' toy_queue =
     (Inr (Acquired ''lease'' ''one'' [] ''one'' 60000), toy_leased)" by (simp add: toy_leased_def d)
  show "qh_doc toy_leased = [MapRow [(''id'', JStr ''a''), (''text'', JStr ''one''), (''deliveryGate'', gate_to_json toy_gate)],
     toy_row ''b'' ''two'']" by (simp add: toy_leased_def d g)
qed


theorem edit_resolved_by_holder_witness:
  "snd (finish_queued_message_edit list_ops toy_host 5 ''a'' ''other'' Discard None None None [] toy_leased) = toy_leased"
proof -
  have q: "queue_ok list_ops (qh_doc toy_leased)"
    by (simp add: toy_begin(2) queue_ok_def rows_ok_def toy_row_def list_ops_def)
  have m: "find_queued list_ops ''a'' toy_leased = Some ((toy_message ''a'' ''one'')\<lparr>qm_delivery_gate := Some toy_gate\<rparr>)"
    using read_gate_written [of toy_gate]
    by (simp add: find_queued_def toy_begin(2) list_ops_def read_queue_def map_filter_simps queued_from_json_def str_member_def
        int_member_def toy_message_def queued_message_new_def toy_gate_def in_i64_def)
  obtain r' h' where fin: "finish_queued_message_edit list_ops toy_host 5 ''a'' ''other'' Discard None None None [] toy_leased = (r', h')"
    by fastforce
  from edit_resolved_by_holder [OF list_ops_ok q toy_flags(2) m _ fin] have "h' = toy_leased"
    by (auto simp: toy_message_def toy_gate_def)
  with fin show ?thesis by simp
qed


theorem failed_delivery_freezes_witness:
  "let h' = drain_queue list_ops toy_host [toy_round (Inr ''run''), toy_round (Inl ''down'')] toy_queue
   in read_queue list_ops (qh_doc h') = [toy_message ''b'' ''two''] \<and> qh_paused h'"
  using failed_delivery_freezes [OF list_ops_ok toy_queue_ok toy_flags, of "[toy_round (Inr ''run'')]" "toy_round (Inl ''down'')" _ "[]", OF _ _ _ refl]
  by (simp add: Let_def toy_ready toy_queue_read toy_message_def queued_message_new_def)

theorem queued_message_roundtrip_witness:
  "read_queue list_ops (snd (push_queued list_ops (toy_message ''c'' ''three'') (qh_doc toy_queue))) =
    [toy_message ''a'' ''one'', toy_message ''b'' ''two'', toy_message ''c'' ''three'']"
proof -
  have "message_ok (toy_message ''c'' ''three'')"
    by (simp add: message_ok_def toy_message_def queued_message_new_def in_i64_def)
  from queued_message_roundtrip [OF list_ops_ok this prod.collapse [symmetric], of "qh_doc toy_queue"] toy_queue_read
  show ?thesis by (simp add: toy_message_def queued_message_new_def)
qed

theorem second_cancel_sends_witness:
  "\<exists>c. last (qh_calls (snd (host_run list_ops toy_host
      [EvInterrupt (toy_world True (Inr True) (Inr [])), EvInterrupt (toy_world True (Inr False) (Inr [])),
       EvDrain [toy_round (Inr ''run'')]] toy_queue))) = c \<and> delivered (toy_message ''a'' ''one'') c"
  by (rule second_cancel_sends [OF list_ops_ok toy_queue_ok toy_flags(1,2) toy_queue_read _ _ _ _ _ toy_ready(1), THEN conjunct2])
    (simp_all add: toy_world_def toy_message_def queued_message_new_def)

lemma padded_trim: "trim '' a'' = ''a''"
proof -
  have "starting ws_encodings '' a'' = Some '' ''" by code_simp
  then have "trim_start '' a'' = trim_start ''a''" unfolding trim_start_def by (subst strip_starting.simps) simp
  then show ?thesis by (simp add: trim_def) (metis toy_trims(1) trim_def)
qed

text \<open>An identity is checked trimmed and stored as it came: a row with white space around its identity is
  accepted, read under the trimmed one, and then never found: it can be neither delivered nor taken back,
  and the rows behind it wait.\<close>

theorem padded_identity_blocks:
  "let (r, q) = push_queued list_ops (toy_message '' a'' ''one'') []; (r', q') = push_queued list_ops (toy_message ''b'' ''two'') q;
       h = drain_queue list_ops toy_host [toy_round (Inr ''run''), toy_round (Inr ''run'')] (toy_queue\<lparr>qh_doc := q'\<rparr>)
   in r = Inr () \<and> r' = Inr () \<and> map qm_id (read_queue list_ops q') = [''a'', ''b''] \<and> qh_doc h = q' \<and> qh_calls h = [] \<and>
      fst (remove_queued list_ops ''a'' q') = False"
proof -
  obtain q1 where q1: "push_queued list_ops (toy_message '' a'' ''one'') [] = (Inr (), q1)" "q1 = [MapRow (queued_entries (toy_message '' a'' ''one''))]"
    using written_rows [OF list_ops_ok, of 0 "[]" "toy_message '' a'' ''one''"] padded_trim
    by (simp add: push_queued_def toy_message_def queued_message_new_def list_ops_def insert_row_def Let_def)
  obtain q2 where q2: "push_queued list_ops (toy_message ''b'' ''two'') q1 = (Inr (), q2)"
    "q2 = [MapRow (queued_entries (toy_message '' a'' ''one'')), MapRow (queued_entries (toy_message ''b'' ''two''))]"
    using written_rows [OF list_ops_ok, of 1 q1 "toy_message ''b'' ''two''"] q1(2)
    by (simp add: push_queued_def toy_message_def queued_message_new_def list_ops_def insert_row_def Let_def)
  have read: "read_queue list_ops q2 = [toy_message ''a'' ''one'', toy_message ''b'' ''two'']"
    using padded_trim by (simp add: q2(2) list_ops_def read_queue_def map_filter_simps queued_from_json_def str_member_def int_member_def
      queued_entries_def in_i64_def toy_message_def queued_message_new_def)
  have none: "index_of list_ops ''a'' q2 = None"
    by (simp add: q2(2) index_of_def list_ops_def has_id_def queued_entries_def toy_message_def queued_message_new_def)
  have "drain_queue list_ops toy_host [toy_round (Inr ''run''), toy_round (Inr ''run'')] (toy_queue\<lparr>qh_doc := q2\<rparr>) = toy_queue\<lparr>qh_doc := q2\<rparr>"
    using read none by (simp add: drain_queue_def toy_host_def toy_queue_def toy_message_def queued_message_new_def take_queued_def
      toy_round_def toy_world_def)
  with q1(1) q2(1) read none show ?thesis
    by (simp add: toy_message_def queued_message_new_def remove_queued_def toy_queue_def)
qed

end
