(* ===== verification/Run_Journal.thy ===== *)
theory Run_Journal
  imports Hlc Text Agent
begin

text \<open>
  The journal of a chat's runs (\<^verbatim>\<open>src/crates/engine/src/run_journal.rs\<close>): one file per chat, one line per event, which
  a stream is replayed from and which tells after a crash whether a run was cut off.

  The files of the directory are kept as their bytes. The serializer of a line and its parser are an argument. A write
  may be cut off by the death of the process or fail after some of its bytes; other calls of the file system
  succeed.
\<close>

section \<open>UTF-8\<close>

definition byte_in :: "nat \<Rightarrow> nat \<Rightarrow> char \<Rightarrow> bool" where
  "byte_in lo hi c \<longleftrightarrow> lo \<le> (of_char c :: nat) \<and> (of_char c :: nat) \<le> hi"

text \<open>\<^verbatim>\<open>std::str::from_utf8\<close>: no overlong forms, no surrogates, nothing above U+10FFFF.\<close>

fun utf8_ok :: "string \<Rightarrow> bool" where
  "utf8_ok [] = True"
| "utf8_ok (a # s) =
     (if byte_in 0x00 0x7F a then utf8_ok s
      else case s of
        [] \<Rightarrow> False
      | b # s \<Rightarrow>
          if byte_in 0xC2 0xDF a then is_cont b \<and> utf8_ok s
          else case s of
            [] \<Rightarrow> False
          | c # s \<Rightarrow>
              if byte_in 0xE0 0xEF a then
                (if byte_in 0xE0 0xE0 a then byte_in 0xA0 0xBF b else if byte_in 0xED 0xED a then byte_in 0x80 0x9F b else is_cont b) \<and>
                is_cont c \<and> utf8_ok s
              else case s of
                [] \<Rightarrow> False
              | d # s \<Rightarrow>
                  byte_in 0xF0 0xF4 a \<and>
                  (if byte_in 0xF0 0xF0 a then byte_in 0x90 0xBF b else if byte_in 0xF4 0xF4 a then byte_in 0x80 0x8F b else is_cont b) \<and>
                  is_cont c \<and> is_cont d \<and> utf8_ok s)"

section \<open>The store\<close>

text \<open>The derived serializer of a \<^verbatim>\<open>JournalLine\<close> and its parser.\<close>

record JournalSerde =
  js_to :: "u64 \<Rightarrow> AgentEvent \<Rightarrow> string"
  js_from :: "string \<Rightarrow> (u64 \<times> AgentEvent) option"

record ChatJournal =
  cj_next_seq :: u64
  cj_needs_newline :: bool

record RunJournal =
  rj_dir :: "(string \<times> string) list"
  rj_open :: "(string, ChatJournal) hmap"

definition journal_open :: "(string \<times> string) list \<Rightarrow> RunJournal" where
  "journal_open dir = \<lparr>rj_dir = dir, rj_open = []\<rparr>"

definition ascii_alphanumeric :: "char \<Rightarrow> bool" where
  "ascii_alphanumeric c \<longleftrightarrow> byte_in 0x30 0x39 c \<or> byte_in 0x41 0x5A c \<or> byte_in 0x61 0x7A c"

text \<open>A character of several bytes is replaced once.\<close>

definition sanitize_id :: "string \<Rightarrow> string" where
  "sanitize_id chat =
     map (\<lambda>c. if ascii_alphanumeric c \<or> c \<in> set ''-_'' then c else CHR ''_'') (filter (\<lambda>c. \<not> is_cont c) chat)"

definition path_for :: "string \<Rightarrow> string" where
  "path_for chat = sanitize_id chat @ ''.jsonl''"

definition attempts_path :: "string \<Rightarrow> string" where
  "attempts_path chat = sanitize_id chat @ ''.resume''"

definition journal_paths :: "string \<Rightarrow> string \<times> string" where
  "journal_paths chat = (let stem = sanitize_id chat in (stem @ ''.jsonl'', stem @ ''.resume''))"

section \<open>Reading\<close>

text \<open>A line that is not UTF-8 ends the reading with an error; one that does not parse is skipped.\<close>

fun parse_lines :: "JournalSerde \<Rightarrow> string list \<Rightarrow> string + (u64 \<times> AgentEvent) list" where
  "parse_lines S [] = Inr []"
| "parse_lines S (l # ls) =
     (if \<not> utf8_ok l then Inl ''io''
      else case parse_lines S ls of
             Inl e \<Rightarrow> Inl e
           | Inr rest \<Rightarrow>
               Inr (if trim l = [] then rest else case js_from S l of Some entry \<Rightarrow> entry # rest | None \<Rightarrow> rest))"

definition read_lines :: "JournalSerde \<Rightarrow> string option \<Rightarrow> string + (u64 \<times> AgentEvent) list" where
  "read_lines S file = (case file of None \<Rightarrow> Inr [] | Some bs \<Rightarrow> parse_lines S (str_lines bs))"

definition scan_tail :: "JournalSerde \<Rightarrow> string option \<Rightarrow> string + u64 \<times> bool" where
  "scan_tail S file =
     (case file of
        None \<Rightarrow> Inr (1, False)
      | Some bs \<Rightarrow>
          let needs_newline = (bs \<noteq> [] \<and> last bs \<noteq> nl)
          in case read_lines S file of
               Inl e \<Rightarrow> Inl e
             | Inr entries \<Rightarrow> Inr (if entries = [] then 1 else fst (last entries) + 1, needs_newline))"

definition replay :: "JournalSerde \<Rightarrow> string \<Rightarrow> u64 \<Rightarrow> RunJournal \<Rightarrow> string + (u64 \<times> AgentEvent) list" where
  "replay S chat after_seq j =
     (case read_lines S (map_of (rj_dir j) (path_for chat)) of
        Inl e \<Rightarrow> Inl e
      | Inr all \<Rightarrow>
          let last_seq = (if all = [] then 0 else fst (last all));
              from_seq = (if after_seq > last_seq then 0 else after_seq)
          in Inr (filter (\<lambda>(seq, _). seq > from_seq) all))"

definition last_event :: "JournalSerde \<Rightarrow> string \<Rightarrow> RunJournal \<Rightarrow> string + (u64 \<times> AgentEvent) option" where
  "last_event S chat j =
     (case read_lines S (map_of (rj_dir j) (path_for chat)) of
        Inl e \<Rightarrow> Inl e
      | Inr all \<Rightarrow> Inr (if all = [] then None else Some (last all)))"

fun notification :: "AgentEvent \<Rightarrow> bool" where
  "notification (EvPrimeEvent _) = True"
| "notification (EvGoalUpdate _ _) = True"
| "notification _ = False"

fun is_done :: "AgentEvent \<Rightarrow> bool" where
  "is_done (EvDone _ _ _ _) = True"
| "is_done _ = False"

definition is_stale :: "(u64 \<times> AgentEvent) list \<Rightarrow> bool" where
  "is_stale all =
     (case find (\<lambda>(_, ev). \<not> notification ev) (rev all) of
        Some (_, ev) \<Rightarrow> \<not> is_done ev
      | None \<Rightarrow> False)"

definition strip_jsonl :: "string \<Rightarrow> string option" where
  "strip_jsonl name =
     (if 6 < length name \<and> drop (length name - 6) name = ''.jsonl'' then Some (take (length name - 6) name) else None)"

fun stale_scan :: "JournalSerde \<Rightarrow> (string \<times> string) list \<Rightarrow> string + string list" where
  "stale_scan S [] = Inr []"
| "stale_scan S ((name, bs) # dir) =
     (case strip_jsonl name of
        None \<Rightarrow> stale_scan S dir
      | Some chat \<Rightarrow>
          (case read_lines S (Some bs) of
             Inl e \<Rightarrow> Inl e
           | Inr all \<Rightarrow> map_sum id (\<lambda>ids. if is_stale all then chat # ids else ids) (stale_scan S dir)))"

definition stale_sessions :: "JournalSerde \<Rightarrow> RunJournal \<Rightarrow> string + string list" where
  "stale_sessions S j = map_sum id sort (stale_scan S (rj_dir j))"

section \<open>Appending\<close>

definition OPEN_FILE_CAP :: nat where "OPEN_FILE_CAP = 16"

definition open_journal :: "JournalSerde \<Rightarrow> string \<Rightarrow> RunJournal \<Rightarrow> (string + ChatJournal) \<times> RunJournal" where
  "open_journal S chat j =
     (case map_of (rj_open j) chat of
        Some cj \<Rightarrow> (Inr cj, j)
      | None \<Rightarrow>
          let j = (if length (rj_open j) \<ge> OPEN_FILE_CAP then j\<lparr>rj_open := []\<rparr> else j);
              path = path_for chat
          in case scan_tail S (map_of (rj_dir j) path) of
               Inl e \<Rightarrow> (Inl e, j)
             | Inr (next_seq, needs_newline) \<Rightarrow>
                 let cj = \<lparr>cj_next_seq = next_seq, cj_needs_newline = needs_newline\<rparr>;
                     dir = (if map_of (rj_dir j) path = None then AList.update path [] (rj_dir j) else rj_dir j)
                 in (Inr cj, j\<lparr>rj_dir := dir, rj_open := AList.update chat cj (rj_open j)\<rparr>))"

text \<open>The bytes of one append.\<close>

definition append_buf :: "JournalSerde \<Rightarrow> ChatJournal \<Rightarrow> AgentEvent \<Rightarrow> string" where
  "append_buf S cj ev = (if cj_needs_newline cj then [nl] else []) @ js_to S (cj_next_seq cj) ev @ [nl]"

definition write_bytes :: "string \<Rightarrow> string \<Rightarrow> RunJournal \<Rightarrow> RunJournal" where
  "write_bytes chat bs j =
     j\<lparr>rj_dir := AList.update (path_for chat)
       ((case map_of (rj_dir j) (path_for chat) of Some old \<Rightarrow> old | None \<Rightarrow> []) @ bs) (rj_dir j)\<rparr>"

text \<open>\<open>written\<close> is \<open>None\<close> when every byte is written, or the number of bytes after which \<^verbatim>\<open>write_all\<close> fails.\<close>

definition journal_append ::
  "JournalSerde \<Rightarrow> nat option \<Rightarrow> string \<Rightarrow> AgentEvent \<Rightarrow> RunJournal \<Rightarrow> (string + u64) \<times> RunJournal" where
  "journal_append S written chat ev j =
     (case open_journal S chat j of
        (Inl e, j) \<Rightarrow> (Inl e, j)
      | (Inr cj, j) \<Rightarrow>
          let buf = append_buf S cj ev in
          case written of
            Some n \<Rightarrow> (Inl ''io'', write_bytes chat (take n buf) j)
          | None \<Rightarrow>
              let cj' = \<lparr>cj_next_seq = cj_next_seq cj + 1, cj_needs_newline = False\<rparr>
              in (Inr (cj_next_seq cj), (write_bytes chat buf j)\<lparr>rj_open := AList.update chat cj' (rj_open j)\<rparr>))"

definition journal_discard :: "string \<Rightarrow> RunJournal \<Rightarrow> RunJournal" where
  "journal_discard chat j =
     j\<lparr>rj_open := AList.delete chat (rj_open j), rj_dir := AList.delete (path_for chat) (rj_dir j)\<rparr>"

text \<open>A process that dies in an append leaves some of its bytes, and nothing open.\<close>

definition crash_in_append :: "JournalSerde \<Rightarrow> nat \<Rightarrow> string \<Rightarrow> AgentEvent \<Rightarrow> RunJournal \<Rightarrow> RunJournal" where
  "crash_in_append S n chat ev j = journal_open (rj_dir (snd (journal_append S (Some n) chat ev j)))"

section \<open>The budget of revivals\<close>

text \<open>A file that is missing, is not UTF-8 or does not parse counts as zero.\<close>

definition resume_attempts :: "string \<Rightarrow> RunJournal \<Rightarrow> u32" where
  "resume_attempts chat j =
     (case map_of (rj_dir j) (attempts_path chat) of
        None \<Rightarrow> 0
      | Some s \<Rightarrow> if utf8_ok s then (case parse_u32 (trim s) of Some n \<Rightarrow> n | None \<Rightarrow> 0) else 0)"

text \<open>\<open>written\<close> tells whether the write succeeds; a write that fails is logged only.\<close>

definition note_resume_attempt :: "bool \<Rightarrow> string \<Rightarrow> RunJournal \<Rightarrow> u32 \<times> RunJournal" where
  "note_resume_attempt written chat j =
     (let attempt = resume_attempts chat j + 1
      in (attempt, if written then j\<lparr>rj_dir := AList.update (attempts_path chat) (dec (unat attempt)) (rj_dir j)\<rparr> else j))"

definition clear_resume_attempts :: "string \<Rightarrow> RunJournal \<Rightarrow> RunJournal" where
  "clear_resume_attempts chat j = j\<lparr>rj_dir := AList.delete (attempts_path chat) (rj_dir j)\<rparr>"

end
