(* ===== verification/Run_Recovery.thy ===== *)
theory Run_Recovery
  imports Run_Journal Transcript
begin

text \<open>
  What an engine does at its start about the runs that the last one left behind (\<^verbatim>\<open>SessionManager::recover_stale\<close> of
  \<^verbatim>\<open>src/crates/engine/src/sessions.rs\<close> and \<^verbatim>\<open>ChatDocHandle::mark_abandoned_streams\<close> of
  \<^verbatim>\<open>src/crates/engine/src/doc_host.rs\<close>): it closes the journal of each, stamps the entries that were still
  streaming, and takes a fresh run up again as long as the chat's budget of revivals lasts.

  A chat's document is the list of its transcript's entries. The status that is shown for the chat, the watchers of
  its events and the dispatch of the revived run are not modelled: a revival is the request that recovery hands over.
\<close>

section \<open>Entries left streaming\<close>

fun set_message_status :: "string \<Rightarrow> MessageStatus \<Rightarrow> SessionMessageEntry list \<Rightarrow> bool \<times> SessionMessageEntry list" where
  "set_message_status ident st [] = (False, [])"
| "set_message_status ident st (e # es) =
     (if me_id e = ident then (True, e\<lparr>me_status := Some st\<rparr> # es)
      else (case set_message_status ident st es of (found, es) \<Rightarrow> (found, e # es)))"

text \<open>A part that is there already is not added again.\<close>

fun append_error_part :: "string \<Rightarrow> string \<Rightarrow> string \<Rightarrow> SessionMessageEntry list \<Rightarrow> bool \<times> SessionMessageEntry list" where
  "append_error_part ident part message [] = (False, [])"
| "append_error_part ident part message (e # es) =
     (if me_id e = ident then
        (True, (if part \<in> part_id ` set (me_parts e) then e else e\<lparr>me_parts := me_parts e @ [PError part message]\<rparr>) # es)
      else (case append_error_part ident part message es of (found, es) \<Rightarrow> (found, e # es)))"

definition abandoned :: "string \<Rightarrow> SessionMessageEntry \<Rightarrow> bool" where
  "abandoned dev e \<longleftrightarrow> me_role e = RoleAssistant \<and> me_status e = Some Streaming \<and> me_device_id e = dev"

definition stamp_entry :: "string \<Rightarrow> SessionMessageEntry \<Rightarrow> SessionMessageEntry list \<Rightarrow> bool \<times> SessionMessageEntry list" where
  "stamp_entry note e es =
     (case set_message_status (me_id e) Aborted es of
        (False, es) \<Rightarrow> (False, es)
      | (True, es) \<Rightarrow> (True, snd (append_error_part (me_id e) (me_id e @ ''-recovery'') note es)))"

text \<open>The loop goes over the entries as they were read at its start.\<close>

definition mark_abandoned_streams ::
  "string \<Rightarrow> string \<Rightarrow> SessionMessageEntry list \<Rightarrow> (string \<times> int) list \<times> SessionMessageEntry list" where
  "mark_abandoned_streams dev note entries =
     fold (\<lambda>e (stamped, es).
         if abandoned dev e then
           (case stamp_entry note e es of
              (True, es) \<Rightarrow> (stamped @ [(me_id e, me_created_at e)], es)
            | (False, es) \<Rightarrow> (stamped, es))
         else (stamped, es))
       entries ([], entries)"

section \<open>What is known of the run\<close>

text \<open>The harness session to continue, from the journal itself.\<close>

fun harness_scan :: "string \<Rightarrow> (string \<times> string) option \<Rightarrow> AgentEvent list \<Rightarrow> (string \<times> string) option" where
  "harness_scan cwd found [] = found"
| "harness_scan cwd found (EvSessionStarted h m tools cwd' session_id x # evs) =
     harness_scan cwd' (if session_id \<noteq> [] then Some (session_id, cwd') else found) evs"
| "harness_scan cwd found (EvDone st result err (Some session_id) # evs) =
     harness_scan cwd (if session_id \<noteq> [] then Some (session_id, cwd) else found) evs"
| "harness_scan cwd found (_ # evs) = harness_scan cwd found evs"

definition journal_harness_session :: "JournalSerde \<Rightarrow> string \<Rightarrow> RunJournal \<Rightarrow> (string \<times> string) option" where
  "journal_harness_session S chat j =
     (case replay S chat 0 j of Inl _ \<Rightarrow> None | Inr events \<Rightarrow> harness_scan [] None (map snd events))"

text \<open>The first text of the last message of the user, under that message's id.\<close>

fun first_text :: "MessagePart list \<Rightarrow> string option" where
  "first_text [] = None"
| "first_text (PText _ s # ps) = Some s"
| "first_text (_ # ps) = first_text ps"

definition revival_prompt :: "SessionMessageEntry list \<Rightarrow> (string \<times> string) option" where
  "revival_prompt es =
     (case find (\<lambda>e. me_role e = RoleUser) (rev es) of
        None \<Rightarrow> None
      | Some e \<Rightarrow> map_option (\<lambda>s. (me_id e, s)) (first_text (me_parts e)))"

definition MAX_AUTO_RESUME :: u32 where "MAX_AUTO_RESUME = 3"
definition RESUME_FRESH_MS :: int where "RESUME_FRESH_MS = 12 * 60 * 60 * 1000"

definition resume_fresh :: "int \<Rightarrow> SessionMessageEntry list \<Rightarrow> bool" where
  "resume_fresh now_ms es =
     (case find (\<lambda>e. me_status e = Some Streaming) (rev es) of
        None \<Rightarrow> False
      | Some e \<Rightarrow> now_ms - me_created_at e < RESUME_FRESH_MS)"

section \<open>Recovery\<close>

text \<open>What recovery is given: the device, the chats that run already, the documents (none where one cannot be
  opened), the clock, and for each chat whether the write to its journal and the one to its budget succeed.\<close>

record RecoveryEnv =
  re_device :: string
  re_live :: "string \<Rightarrow> bool"
  re_now :: "string \<Rightarrow> int"
  re_publish :: "string \<Rightarrow> nat option"
  re_noted :: "string \<Rightarrow> bool"

record Revival =
  rv_chat :: string
  rv_attempt :: u32
  rv_message :: string
  rv_prompt :: string

record Recovery =
  rs_journal :: RunJournal
  rs_docs :: "string \<Rightarrow> SessionMessageEntry list option"
  rs_sessions :: "(string, string \<times> string) hmap"
  rs_revived :: "Revival list"

definition recovery_note :: "bool \<Rightarrow> string" where
  "recovery_note will_resume =
     (if will_resume then ''Run interrupted by engine restart '' @ [CHR 0xE2, CHR 0x80, CHR 0x94] @ '' resuming''
      else ''Run interrupted by engine restart'')"

definition interrupted_done :: "string \<Rightarrow> AgentEvent" where
  "interrupted_done note = EvDone DoneInterrupted None (Some note) None"

definition will_resume :: "RecoveryEnv \<Rightarrow> string \<Rightarrow> SessionMessageEntry list \<Rightarrow> RunJournal \<Rightarrow> bool" where
  "will_resume E chat es j \<longleftrightarrow>
     resume_fresh (re_now E chat) es \<and> revival_prompt es \<noteq> None \<and> resume_attempts chat j < MAX_AUTO_RESUME"

definition recover_chat ::
  "JournalSerde \<Rightarrow> RecoveryEnv \<Rightarrow> string \<Rightarrow> SessionMessageEntry list \<Rightarrow> Recovery \<Rightarrow> Recovery" where
  "recover_chat S E chat es r =
     (let j = rs_journal r;
          sessions = (case journal_harness_session S chat j of
              Some ref \<Rightarrow> AList.update chat ref (rs_sessions r)
            | None \<Rightarrow> rs_sessions r);
          resumed = will_resume E chat es j;
          note = recovery_note resumed;
          j = snd (journal_append S (re_publish E chat) chat (interrupted_done note) j);
          es' = snd (mark_abandoned_streams (re_device E) note es);
          r = r\<lparr>rs_journal := j, rs_docs := (rs_docs r)(chat \<mapsto> es'), rs_sessions := sessions\<rparr>
      in case revival_prompt es of
           None \<Rightarrow> r
         | Some (message, prompt) \<Rightarrow>
             if \<not> resumed then r
             else case note_resume_attempt (re_noted E chat) chat j of
               (attempt, j) \<Rightarrow>
                 r\<lparr>rs_journal := j, rs_revived := rs_revived r @ [\<lparr>rv_chat = chat, rv_attempt = attempt, rv_message = message, rv_prompt = prompt\<rparr>]\<rparr>)"

text \<open>The loop over the stale chats; a document that cannot be opened ends it.\<close>

fun recover_chats ::
  "JournalSerde \<Rightarrow> RecoveryEnv \<Rightarrow> string list \<Rightarrow> nat \<Rightarrow> Recovery \<Rightarrow> (string + nat) \<times> Recovery" where
  "recover_chats S E [] n r = (Inr n, r)"
| "recover_chats S E (chat # chats) n r =
     (if re_live E chat then recover_chats S E chats n r
      else case rs_docs r chat of
        None \<Rightarrow> (Inl ''doc'', r)
      | Some es \<Rightarrow> recover_chats S E chats (Suc n) (recover_chat S E chat es r))"

definition recover_stale :: "JournalSerde \<Rightarrow> RecoveryEnv \<Rightarrow> Recovery \<Rightarrow> (string + nat) \<times> Recovery" where
  "recover_stale S E r =
     (case stale_sessions S (rs_journal r) of
        Inl e \<Rightarrow> (Inl e, r)
      | Inr stale \<Rightarrow> recover_chats S E stale 0 r)"

end
