(* ===== verification/Journal_Recovery.thy ===== *)
theory Journal_Recovery
  imports Run_Journal
begin

text \<open>
  The journal under appends, restarts and deaths in the middle of a write: what is acknowledged is replayed, and what a
  failed write does to the next. The serializer of a line is assumed to write one line of UTF-8 that parses back and no proper
  part of which parses (\<open>serde_ok\<close>), as JSON objects are.
\<close>

section \<open>Lines of a file\<close>

declare utf8_ok.simps(2) [simp del]

lemma split_inclusive_Nil [simp]: "split_inclusive c = [] \<longleftrightarrow> c = []"
  by (cases c) (auto split: list.splits)

lemma split_inclusive_append:
  "c = [] \<or> last c = nl \<Longrightarrow> split_inclusive (c @ x) = split_inclusive c @ split_inclusive x"
proof (induction c)
  case (Cons a c)
  then show ?case by (cases "split_inclusive c") (auto split: if_splits)
qed simp

lemma split_inclusive_line: "nl \<notin> set l \<Longrightarrow> split_inclusive (l @ [nl]) = [l @ [nl]]"
  by (induction l) auto

lemma split_inclusive_part: "nl \<notin> set l \<Longrightarrow> l \<noteq> [] \<Longrightarrow> split_inclusive l = [l]"
proof (induction l)
  case (Cons a l)
  then show ?case by (cases "l = []") auto
qed simp

lemma str_lines_append: "c = [] \<or> last c = nl \<Longrightarrow> str_lines (c @ x) = str_lines c @ str_lines x"
  by (simp add: str_lines_def split_inclusive_append)

lemma nl_not_cr [simp]: "nl \<noteq> cr" "cr \<noteq> nl"
  by (simp_all add: nl_def cr_def)

lemma split_inclusive_close:
  "c \<noteq> [] \<Longrightarrow> last c \<noteq> nl \<Longrightarrow>
   split_inclusive (c @ [nl]) = butlast (split_inclusive c) @ [last (split_inclusive c) @ [nl]] \<and>
   last (split_inclusive c) \<noteq> [] \<and> last (last (split_inclusive c)) = last c"
proof (induction c)
  case (Cons a c)
  show ?case
  proof (cases "c = []")
    case False
    with Cons have IH: "split_inclusive (c @ [nl]) = butlast (split_inclusive c) @ [last (split_inclusive c) @ [nl]]"
      "last (split_inclusive c) \<noteq> []" "last (last (split_inclusive c)) = last c" by simp_all
    obtain l ls where s: "split_inclusive c = l # ls" using False by (cases "split_inclusive c") auto
    show ?thesis using IH s False by (cases "ls = []") auto
  qed (use Cons.prems in simp)
qed simp

lemma str_lines_close:
  assumes "c \<noteq> []" "last c \<noteq> nl" "last c \<noteq> cr"
  shows "str_lines (c @ [nl]) = str_lines c"
proof -
  note s = split_inclusive_close [OF assms(1,2)]
  have "split_inclusive c = butlast (split_inclusive c) @ [last (split_inclusive c)]" using assms(1) by simp
  then have "map strip_eol (split_inclusive c) = map strip_eol (butlast (split_inclusive c)) @ [strip_eol (last (split_inclusive c))]"
    by (metis list.simps(8,9) map_append)
  with s assms(2,3) show ?thesis by (simp add: str_lines_def strip_eol_def)
qed

lemma str_lines_line: "nl \<notin> set l \<Longrightarrow> cr \<notin> set l \<Longrightarrow> str_lines (l @ [nl]) = [l]"
  by (auto simp: str_lines_def split_inclusive_line strip_eol_def Let_def dest: last_in_set)

lemma str_lines_part: "nl \<notin> set l \<Longrightarrow> l \<noteq> [] \<Longrightarrow> str_lines l = [l]"
  by (auto simp: str_lines_def split_inclusive_part strip_eol_def dest: last_in_set)

lemma str_lines_Nil [simp]: "str_lines [] = []"
  by (simp add: str_lines_def)

lemma parse_lines_append:
  "parse_lines S ls = Inr xs \<Longrightarrow> parse_lines S (ls @ ls') = map_sum id ((@) xs) (parse_lines S ls')"
proof (induction ls arbitrary: xs)
  case Nil
  then show ?case by (cases "parse_lines S ls'") auto
next
  case (Cons l ls)
  then show ?case by (cases "parse_lines S ls'") (auto split: if_splits sum.splits option.splits)
qed

section \<open>A file and its entries\<close>

definition serde_ok :: "JournalSerde \<Rightarrow> AgentEvent set \<Rightarrow> bool" where
  "serde_ok S E \<longleftrightarrow> (\<forall>s. \<forall>ev \<in> E.
     nl \<notin> set (js_to S s ev) \<and> cr \<notin> set (js_to S s ev) \<and> trim (js_to S s ev) \<noteq> [] \<and> utf8_ok (js_to S s ev) \<and>
     js_from S (js_to S s ev) = Some (s, ev) \<and>
     (\<forall>n. 0 < n \<longrightarrow> n < length (js_to S s ev) \<longrightarrow> js_from S (take n (js_to S s ev)) = None))"

lemma serdeD:
  assumes "serde_ok S E" "ev \<in> E"
  shows "nl \<notin> set (js_to S s ev)" "cr \<notin> set (js_to S s ev)" "trim (js_to S s ev) \<noteq> []" "utf8_ok (js_to S s ev)"
    "js_from S (js_to S s ev) = Some (s, ev)" "0 < n \<Longrightarrow> n < length (js_to S s ev) \<Longrightarrow> js_from S (take n (js_to S s ev)) = None"
    "js_to S s ev \<noteq> []"
proof -
  have f: "nl \<notin> set (js_to S s ev) \<and> cr \<notin> set (js_to S s ev) \<and> trim (js_to S s ev) \<noteq> [] \<and> utf8_ok (js_to S s ev) \<and>
     js_from S (js_to S s ev) = Some (s, ev) \<and>
     (\<forall>n. 0 < n \<longrightarrow> n < length (js_to S s ev) \<longrightarrow> js_from S (take n (js_to S s ev)) = None)"
    using assms unfolding serde_ok_def by blast
  then show "nl \<notin> set (js_to S s ev)" "cr \<notin> set (js_to S s ev)" "trim (js_to S s ev) \<noteq> []" "utf8_ok (js_to S s ev)"
    "js_from S (js_to S s ev) = Some (s, ev)" "0 < n \<Longrightarrow> n < length (js_to S s ev) \<Longrightarrow> js_from S (take n (js_to S s ev)) = None"
    by blast+
  have "trim [] = []" by code_simp
  with f show "js_to S s ev \<noteq> []" by metis
qed

definition numbered :: "(u64 \<times> AgentEvent) list \<Rightarrow> bool" where
  "numbered xs \<longleftrightarrow> map fst xs = map (\<lambda>i. of_nat (Suc i)) [0..<length xs]"

definition file_ok :: "JournalSerde \<Rightarrow> string \<Rightarrow> (u64 \<times> AgentEvent) list \<Rightarrow> bool" where
  "file_ok S c xs \<longleftrightarrow> parse_lines S (str_lines c) = Inr xs \<and> (c = [] \<or> last c \<noteq> cr) \<and> numbered xs"

definition unclosed :: "string \<Rightarrow> bool" where
  "unclosed c \<longleftrightarrow> c \<noteq> [] \<and> last c \<noteq> nl"

definition entry_for :: "string \<Rightarrow> (u64 \<times> AgentEvent) list \<Rightarrow> ChatJournal" where
  "entry_for c xs = \<lparr>cj_next_seq = of_nat (Suc (length xs)), cj_needs_newline = unclosed c\<rparr>"

lemma numbered_last:
  assumes "numbered xs" "xs \<noteq> []"
  shows "fst (last xs) = of_nat (length xs)"
proof -
  have "fst (last xs) = map fst xs ! (length xs - 1)" using assms(2) by (simp add: last_conv_nth)
  also have "\<dots> = of_nat (length xs)" unfolding assms(1) [unfolded numbered_def] using assms(2) by (simp del: of_nat_Suc)
  finally show ?thesis .
qed

lemma numbered_snoc: "numbered xs \<Longrightarrow> numbered (xs @ [(of_nat (Suc (length xs)), ev)])"
  by (simp add: numbered_def)

lemma scan_tail_ok:
  assumes "file_ok S c xs"
  shows "scan_tail S (Some c) = Inr (cj_next_seq (entry_for c xs), cj_needs_newline (entry_for c xs))"
  using assms numbered_last [of xs] by (auto simp: scan_tail_def read_lines_def file_ok_def entry_for_def unclosed_def)

text \<open>The line feed that closes a torn line changes no line.\<close>

lemma file_closed:
  assumes "file_ok S c xs"
  shows "file_ok S (c @ (if unclosed c then [nl] else [])) xs \<and> \<not> unclosed (c @ (if unclosed c then [nl] else []))"
  using assms by (auto simp: file_ok_def unclosed_def str_lines_close)

lemma file_extend:
  assumes "file_ok S c xs" "\<not> unclosed c" "parse_lines S (str_lines x) = Inr ys" "numbered (xs @ ys)" "x = [] \<or> last x \<noteq> cr"
  shows "file_ok S (c @ x) (xs @ ys)"
  using assms str_lines_append [of c x] parse_lines_append [of S "str_lines c" xs "str_lines x"]
  by (auto simp: file_ok_def unclosed_def last_append split: if_splits)

text \<open>What a write of some of an append's bytes does.\<close>

definition completed :: "JournalSerde \<Rightarrow> nat \<Rightarrow> ChatJournal \<Rightarrow> AgentEvent \<Rightarrow> (u64 \<times> AgentEvent) list" where
  "completed S n cj ev = (if length (append_buf S cj ev) \<le> Suc n then [(cj_next_seq cj, ev)] else [])"

lemma partial_line:
  assumes "serde_ok S E" "ev \<in> E" "utf8_ok (take m (js_to S s ev))"
  shows "parse_lines S (str_lines (take m (js_to S s ev @ [nl]))) =
      Inr (if length (js_to S s ev) \<le> m then [(s, ev)] else [])"
proof -
  note sd = serdeD [OF assms(1,2)]
  have n: "nl \<notin> set (take m (js_to S s ev))" using sd(1) by (auto dest: in_set_takeD)
  consider "m = 0" | "0 < m" "m < length (js_to S s ev)" | "m = length (js_to S s ev)" | "m > length (js_to S s ev)" by linarith
  then show ?thesis
  proof cases
    case 1
    then show ?thesis using sd(7) by simp
  next
    case 2
    have "take m (js_to S s ev) \<noteq> []" using 2 sd(7) by simp
    then show ?thesis using 2 str_lines_part [OF n] assms(3) sd(6) by simp
  next
    case 3
    then show ?thesis using str_lines_part [OF sd(1,7)] sd by simp
  next
    case 4
    then show ?thesis using str_lines_line [OF sd(1,2)] sd by simp
  qed
qed

lemma utf8_app: "utf8_ok a \<Longrightarrow> utf8_ok (a @ b) \<longleftrightarrow> utf8_ok b"
proof (induction a rule: utf8_ok.induct)
  case (2 x s)
  note u = utf8_ok.simps(2) [of x]
  show ?case
  proof (cases "byte_in 0x00 0x7F x")
    case True
    with 2 show ?thesis by (simp add: u)
  next
    case one: False
    with 2 obtain y s1 where s1: "s = y # s1" by (cases s) (simp_all add: u)
    show ?thesis
    proof (cases "byte_in 0xC2 0xDF x")
      case True
      with 2 one s1 show ?thesis by (simp add: u)
    next
      case two: False
      with 2 one s1 obtain z s2 where s2: "s1 = z # s2" by (cases s1) (simp_all add: u)
      show ?thesis
      proof (cases "byte_in 0xE0 0xEF x")
        case True
        with 2 one two s1 s2 show ?thesis by (simp add: u)
      next
        case three: False
        with 2 one two s1 s2 obtain w s3 where "s2 = w # s3" by (cases s2) (simp_all add: u)
        with 2 one two three s1 s2 show ?thesis by (simp add: u)
      qed
    qed
  qed
qed simp

lemma utf8_newline: "utf8_ok (nl # s) \<longleftrightarrow> utf8_ok s"
  by (simp add: nl_def byte_in_def utf8_ok.simps)

lemma write_part:
  assumes "serde_ok S E" "ev \<in> E" "file_ok S c xs" "utf8_ok (take n (append_buf S (entry_for c xs) ev))"
  shows "file_ok S (c @ take n (append_buf S (entry_for c xs) ev)) (xs @ completed S n (entry_for c xs) ev)"
proof -
  let ?s = "of_nat (Suc (length xs)) :: u64"
  let ?l = "js_to S ?s ev"
  note sd = serdeD [OF assms(1,2)]
  define c' where "c' = c @ (if unclosed c then [nl] else [])"
  define m where "m = (if unclosed c then n - 1 else n)"
  have c': "file_ok S c' xs" "\<not> unclosed c'" using file_closed [OF assms(3)] by (simp_all add: c'_def)
  show ?thesis
  proof (cases "unclosed c \<and> n = 0")
    case True
    then show ?thesis using assms(3) sd(7) [of ?s]
      by (simp add: completed_def append_buf_def entry_for_def)
  next
    case False
    then have b: "c @ take n (append_buf S (entry_for c xs) ev) = c' @ take m (?l @ [nl])"
      "completed S n (entry_for c xs) ev = (if length ?l \<le> m then [(?s, ev)] else [])"
      by (auto simp: append_buf_def entry_for_def c'_def m_def completed_def take_Cons' simp del: of_nat_Suc)
    have u: "utf8_ok (take m ?l)"
    proof (cases "length ?l \<le> m")
      case True
      then show ?thesis using sd(4) by simp
    next
      case False
      with assms(4) \<open>\<not> (unclosed c \<and> n = 0)\<close> show ?thesis
        by (auto simp: append_buf_def entry_for_def m_def take_Cons' utf8_newline simp del: of_nat_Suc split: if_splits)
    qed
    have cr: "take m (?l @ [nl]) = [] \<or> last (take m (?l @ [nl])) \<noteq> cr"
    proof -
      have "cr \<notin> set (take m (?l @ [nl]))" using sd(2) [of ?s] by (auto dest!: in_set_takeD)
      then show ?thesis by (metis last_in_set)
    qed
    show ?thesis unfolding b
      by (rule file_extend [OF c' partial_line [OF assms(1,2) u] _ cr])
        (use assms(3) numbered_snoc [of xs ev] in \<open>auto simp: file_ok_def\<close>)
  qed
qed


section \<open>Runs of the store\<close>

datatype JournalStep = JAppend string AgentEvent | JCrash nat string AgentEvent | JRestart

fun jrun :: "JournalSerde \<Rightarrow> string \<Rightarrow> JournalStep list \<Rightarrow> RunJournal \<Rightarrow> (string + u64 \<times> AgentEvent) list \<times> RunJournal" where
  "jrun S chat [] j = ([], j)"
| "jrun S chat (JAppend other ev # steps) j =
     (case journal_append S None other ev j of
        (r, j) \<Rightarrow> (case jrun S chat steps j of
          (acks, j) \<Rightarrow> (if other = chat then map_sum id (\<lambda>seq. (seq, ev)) r # acks else acks, j)))"
| "jrun S chat (JCrash n other ev # steps) j = jrun S chat steps (crash_in_append S n other ev j)"
| "jrun S chat (JRestart # steps) j = jrun S chat steps (journal_open (rj_dir j))"

text \<open>A write that is cut off ends at the end of a character.\<close>

definition cut_at_char :: "JournalSerde \<Rightarrow> nat \<Rightarrow> string \<Rightarrow> AgentEvent \<Rightarrow> RunJournal \<Rightarrow> bool" where
  "cut_at_char S n chat ev j \<longleftrightarrow>
     (case fst (open_journal S chat j) of Inr cj \<Rightarrow> utf8_ok (take n (append_buf S cj ev)) | Inl _ \<Rightarrow> True)"

fun cuts_ok :: "JournalSerde \<Rightarrow> string \<Rightarrow> JournalStep list \<Rightarrow> RunJournal \<Rightarrow> bool" where
  "cuts_ok S chat [] j \<longleftrightarrow> True"
| "cuts_ok S chat (JAppend other ev # steps) j \<longleftrightarrow> cuts_ok S chat steps (snd (journal_append S None other ev j))"
| "cuts_ok S chat (JCrash n other ev # steps) j \<longleftrightarrow>
     (other = chat \<longrightarrow> cut_at_char S n chat ev j) \<and> cuts_ok S chat steps (crash_in_append S n other ev j)"
| "cuts_ok S chat (JRestart # steps) j \<longleftrightarrow> cuts_ok S chat steps (journal_open (rj_dir j))"

text \<open>The steps concern the chat or chats whose file is another one.\<close>

fun step_chat :: "JournalStep \<Rightarrow> string option" where
  "step_chat (JAppend chat _) = Some chat"
| "step_chat (JCrash _ chat _) = Some chat"
| "step_chat JRestart = None"

fun step_event :: "JournalStep \<Rightarrow> AgentEvent option" where
  "step_event (JAppend _ ev) = Some ev"
| "step_event (JCrash _ _ ev) = Some ev"
| "step_event JRestart = None"

definition own_file :: "string \<Rightarrow> JournalStep \<Rightarrow> bool" where
  "own_file chat st \<longleftrightarrow> (\<forall>other. step_chat st = Some other \<longrightarrow> other = chat \<or> path_for other \<noteq> path_for chat)"

definition contents :: "RunJournal \<Rightarrow> string \<Rightarrow> string" where
  "contents j chat = (case map_of (rj_dir j) (path_for chat) of Some c \<Rightarrow> c | None \<Rightarrow> [])"

definition journal_inv :: "JournalSerde \<Rightarrow> string \<Rightarrow> (u64 \<times> AgentEvent) list \<Rightarrow> RunJournal \<Rightarrow> bool" where
  "journal_inv S chat xs j \<longleftrightarrow> file_ok S (contents j chat) xs \<and>
     (\<forall>cj. map_of (rj_open j) chat = Some cj \<longrightarrow> cj = entry_for (contents j chat) xs)"

lemma file_ok_Nil [simp]: "file_ok S [] xs \<longleftrightarrow> xs = []"
  by (auto simp: file_ok_def numbered_def)

lemma cap_frame [simp]: "rj_dir (if b then j\<lparr>rj_open := []\<rparr> else j) = rj_dir j"
  by simp

lemma open_journal_ok:
  assumes "journal_inv S chat xs j"
  obtains j' where "open_journal S chat j = (Inr (entry_for (contents j chat) xs), j')" "contents j' chat = contents j chat"
    "journal_inv S chat xs j'"
proof (cases "map_of (rj_open j) chat")
  case (Some cj)
  with assms show thesis by (intro that [of j]) (auto simp: open_journal_def journal_inv_def)
next
  case None
  have f: "file_ok S (contents j chat) xs" using assms by (simp add: journal_inv_def)
  have s: "scan_tail S (map_of (rj_dir j) (path_for chat)) =
      Inr (cj_next_seq (entry_for (contents j chat) xs), cj_needs_newline (entry_for (contents j chat) xs))"
  proof (cases "map_of (rj_dir j) (path_for chat)")
    case None
    with f have "contents j chat = []" "xs = []" by (simp_all add: contents_def)
    with None show ?thesis by (simp add: scan_tail_def entry_for_def unclosed_def)
  next
    case (Some c)
    with f scan_tail_ok [of S c xs] show ?thesis by (simp add: contents_def)
  qed
  obtain cj j' where o: "open_journal S chat j = (Inr cj, j')" "cj = entry_for (contents j chat) xs"
    using None s by (simp add: open_journal_def Let_def entry_for_def)
  have c: "contents j' chat = contents j chat" and m: "map_of (rj_open j') chat = Some cj"
    using o None s by (auto simp: open_journal_def Let_def entry_for_def contents_def update_conv' split: option.splits)
  show thesis by (rule that [of j']) (use o c m f in \<open>simp_all add: journal_inv_def\<close>)
qed

text \<open>What happens to other files leaves the chat's alone; its entry may be closed.\<close>

lemma open_journal_other:
  assumes "journal_inv S chat xs j" "path_for other \<noteq> path_for chat"
  shows "journal_inv S chat xs (snd (open_journal S other j))"
  using assms
  by (auto simp: open_journal_def Let_def journal_inv_def contents_def update_conv' split: option.splits sum.splits prod.splits)

lemma contents_write: "contents (write_bytes chat bs j) chat = contents j chat @ bs"
  by (simp add: contents_def write_bytes_def update_conv' split: option.split)

lemma contents_write_other: "path_for other \<noteq> path_for chat \<Longrightarrow> contents (write_bytes other bs j) chat = contents j chat"
  by (simp add: contents_def write_bytes_def update_conv')

lemma append_other:
  assumes "journal_inv S chat xs j" "path_for other \<noteq> path_for chat"
  shows "journal_inv S chat xs (snd (journal_append S written other ev j))"
proof -
  obtain r j1 where o: "open_journal S other j = (r, j1)" by fastforce
  with open_journal_other [OF assms] have "journal_inv S chat xs j1" by simp
  with o assms(2) show ?thesis
    by (auto simp: journal_append_def Let_def journal_inv_def contents_write_other update_conv' write_bytes_def contents_def
        split: sum.split option.split)
qed

lemma journal_reopen: "journal_inv S chat xs j \<Longrightarrow> journal_inv S chat xs (journal_open (rj_dir j))"
  by (simp add: journal_inv_def journal_open_def contents_def)

lemma append_own:
  assumes "serde_ok S E" "ev \<in> E" "journal_inv S chat xs j"
  shows "fst (journal_append S None chat ev j) = Inr (of_nat (Suc (length xs))) \<and>
    journal_inv S chat (xs @ [(of_nat (Suc (length xs)), ev)]) (snd (journal_append S None chat ev j))"
proof -
  obtain j1 where o: "open_journal S chat j = (Inr (entry_for (contents j chat) xs), j1)" "contents j1 chat = contents j chat"
    "journal_inv S chat xs j1" by (rule open_journal_ok [OF assms(3)])
  let ?buf = "append_buf S (entry_for (contents j chat) xs) ev"
  have f: "file_ok S (contents j chat) xs" using assms(3) by (simp add: journal_inv_def)
  have "utf8_ok (take (length ?buf) ?buf)"
    using serdeD(4) [OF assms(1,2)] utf8_app by (auto simp: append_buf_def utf8_newline)
  from write_part [OF assms(1,2) f this] have w: "file_ok S (contents j chat @ ?buf) (xs @ [(of_nat (Suc (length xs)), ev)])"
    by (simp add: completed_def entry_for_def)
  have "\<not> unclosed (contents j chat @ ?buf)" by (simp add: unclosed_def append_buf_def)
  with w o show ?thesis
    by (auto simp: journal_append_def Let_def journal_inv_def contents_write entry_for_def contents_def update_conv' write_bytes_def
        append_buf_def split: option.splits)
qed

lemma crash_own:
  assumes "serde_ok S E" "ev \<in> E" "journal_inv S chat xs j" "cut_at_char S n chat ev j"
  shows "\<exists>ys. journal_inv S chat (xs @ ys) (crash_in_append S n chat ev j) \<and> (ys = [] \<or> (\<exists>s. ys = [(s, ev)]))"
proof -
  obtain j1 where o: "open_journal S chat j = (Inr (entry_for (contents j chat) xs), j1)" "contents j1 chat = contents j chat"
    "journal_inv S chat xs j1" by (rule open_journal_ok [OF assms(3)])
  have f: "file_ok S (contents j chat) xs" using assms(3) by (simp add: journal_inv_def)
  have "utf8_ok (take n (append_buf S (entry_for (contents j chat) xs) ev))" using assms(4) o(1) by (simp add: cut_at_char_def)
  from write_part [OF assms(1,2) f this] o show ?thesis
    by (intro exI [of _ "completed S n (entry_for (contents j chat) xs) ev"])
      (auto simp: crash_in_append_def journal_append_def journal_inv_def journal_open_def contents_def write_bytes_def update_conv'
        completed_def Let_def split: option.splits)
qed


definition issued :: "string \<Rightarrow> JournalStep list \<Rightarrow> AgentEvent set" where
  "issued chat steps = {ev. \<exists>st \<in> set steps. step_chat st = Some chat \<and> step_event st = Some ev}"

lemma jrun_ok:
  assumes "serde_ok S E"
  shows "journal_inv S chat xs j \<Longrightarrow> \<forall>st \<in> set steps. own_file chat st \<Longrightarrow> issued chat steps \<subseteq> E \<Longrightarrow> cuts_ok S chat steps j \<Longrightarrow>
    jrun S chat steps j = (acks, j') \<Longrightarrow>
    \<exists>ys got. journal_inv S chat (xs @ ys) j' \<and> acks = map Inr got \<and> subseq got ys \<and> snd ` set ys \<subseteq> issued chat steps \<and>
      length ys \<le> length steps"
proof (induction steps arbitrary: xs j acks)
  case Nil
  then show ?case by (intro exI [of _ "[]"]) (auto simp: issued_def)
next
  case (Cons st steps)
  have own: "\<forall>st \<in> set steps. own_file chat st" using Cons.prems(2) by simp
  have sub: "issued chat steps \<subseteq> issued chat (st # steps)" by (auto simp: issued_def)
  note IH = Cons.IH [OF _ own subset_trans [OF sub Cons.prems(3)]]
  show ?case
  proof (cases st)
    case (JAppend other ev)
    obtain r j1 where a: "journal_append S None other ev j = (r, j1)" by fastforce
    obtain acks1 where run: "jrun S chat steps j1 = (acks1, j')"
      "acks = (if other = chat then map_sum id (\<lambda>seq. (seq, ev)) r # acks1 else acks1)"
      using Cons.prems(5) a JAppend by (auto split: prod.splits)
    have cuts: "cuts_ok S chat steps j1" using Cons.prems(4) a JAppend by simp
    show ?thesis
    proof (cases "other = chat")
      case True
      have "ev \<in> issued chat (st # steps)" using JAppend True by (auto simp: issued_def)
      with append_own [OF assms _ Cons.prems(1), of ev] Cons.prems(3) a True have r: "r = Inr (of_nat (Suc (length xs)))"
        "journal_inv S chat (xs @ [(of_nat (Suc (length xs)), ev)]) j1" by auto
      from IH [OF r(2) cuts run(1)] obtain ys got where y: "journal_inv S chat ((xs @ [(of_nat (Suc (length xs)), ev)]) @ ys) j'"
        "acks1 = map Inr got" "subseq got ys" "snd ` set ys \<subseteq> issued chat steps" "length ys \<le> length steps" by blast
      with run(2) r(1) True \<open>ev \<in> issued chat (st # steps)\<close> sub show ?thesis
        by (intro exI [of _ "(of_nat (Suc (length xs)), ev) # ys"] exI [of _ "(of_nat (Suc (length xs)), ev) # got"]) auto
    next
      case False
      then have "path_for other \<noteq> path_for chat" using Cons.prems(2) JAppend by (auto simp: own_file_def)
      with append_other [OF Cons.prems(1), of other None ev] a have "journal_inv S chat xs j1" by simp
      from IH [OF this cuts run(1)] run(2) False sub show ?thesis by (auto intro: le_SucI)
    qed
  next
    case (JCrash n other ev)
    have run: "jrun S chat steps (crash_in_append S n other ev j) = (acks, j')" using Cons.prems(5) JCrash by simp
    have cuts: "cuts_ok S chat steps (crash_in_append S n other ev j)" using Cons.prems(4) JCrash by simp
    show ?thesis
    proof (cases "other = chat")
      case True
      have ev: "ev \<in> issued chat (st # steps)" using JCrash True by (auto simp: issued_def)
      have "cut_at_char S n chat ev j" using Cons.prems(4) JCrash True by simp
      with crash_own [OF assms _ Cons.prems(1), of ev n] ev Cons.prems(3) True obtain zs where
        z: "journal_inv S chat (xs @ zs) (crash_in_append S n other ev j)" "zs = [] \<or> (\<exists>s. zs = [(s, ev)])" by auto
      from IH [OF z(1) cuts run] obtain ys got where y: "journal_inv S chat ((xs @ zs) @ ys) j'"
        "acks = map Inr got" "subseq got ys" "snd ` set ys \<subseteq> issued chat steps" "length ys \<le> length steps" by blast
      have "subseq got (zs @ ys)" using y(3) by (rule subseq_drop_many)
      with y z(2) ev sub show ?thesis by (intro exI [of _ "zs @ ys"] exI [of _ got]) auto
    next
      case False
      then have "path_for other \<noteq> path_for chat" using Cons.prems(2) JCrash by (auto simp: own_file_def)
      with append_other [OF Cons.prems(1), of other "Some n" ev] have "journal_inv S chat xs (crash_in_append S n other ev j)"
        by (simp add: crash_in_append_def journal_reopen)
      from IH [OF this cuts run] sub show ?thesis by (auto intro: le_SucI)
    qed
  next
    case JRestart
    from Cons.prems(4,5) JRestart IH [OF journal_reopen [OF Cons.prems(1)]] sub show ?thesis by (auto intro: le_SucI)
  qed
qed

lemma journal_inv_empty: "journal_inv S chat [] (journal_open [])"
  by (simp add: journal_inv_def journal_open_def contents_def)

lemma len64: "(2 :: nat) ^ LENGTH(64) = 2 ^ 64"
  by simp

lemma replay_all:
  assumes "journal_inv S chat xs j" "length xs < 2 ^ 64"
  shows "replay S chat 0 j = Inr xs"
proof -
  have f: "file_ok S (contents j chat) xs" using assms(1) by (simp add: journal_inv_def)
  then have r: "read_lines S (map_of (rj_dir j) (path_for chat)) = Inr xs"
    by (cases "map_of (rj_dir j) (path_for chat)") (simp_all add: read_lines_def contents_def, simp add: file_ok_def)
  have "fst x > 0" if "x \<in> set xs" for x
  proof -
    from that f have "fst x \<in> set (map (\<lambda>i. of_nat (Suc i)) [0..<length xs])"
      unfolding file_ok_def numbered_def by (metis (no_types) image_eqI list.set_map)
    then obtain i where "i < length xs" "fst x = of_nat (Suc i)" by auto
    then have b: "Suc i < 2 ^ 64" using assms(2) by linarith
    have "unat (of_nat (Suc i) :: u64) = Suc i mod 2 ^ 64" by (simp only: unat_of_nat len64)
    then have "unat (fst x) = Suc i" unfolding \<open>fst x = of_nat (Suc i)\<close> mod_less [OF b] .
    then have "fst x \<noteq> 0" by (metis nat.distinct(1) unat_0)
    then show ?thesis by (simp only: word_gt_0)
  qed
  then have "filter (\<lambda>(seq, _). 0 < seq) xs = xs" by (auto simp: filter_id_conv)
  with r show ?thesis by (simp add: replay_def Let_def)
qed


lemma parse_bad: "parse_lines S ls = Inr xs \<Longrightarrow> \<not> utf8_ok l \<Longrightarrow> parse_lines S (ls @ l # ls') = Inl ''io''"
  by (induction ls arbitrary: xs) (auto split: if_splits sum.splits)

lemma torn_file:
  assumes "serde_ok S E" "ev \<in> E" "file_ok S c xs" "\<not> utf8_ok (take n (append_buf S (entry_for c xs) ev))"
  shows "parse_lines S (str_lines (c @ take n (append_buf S (entry_for c xs) ev))) = Inl ''io''"
proof -
  let ?l = "js_to S (of_nat (Suc (length xs))) ev"
  note sd = serdeD [OF assms(1,2)]
  define c' where "c' = c @ (if unclosed c then [nl] else [])"
  define m where "m = (if unclosed c then n - 1 else n)"
  have c': "file_ok S c' xs" "\<not> unclosed c'" using file_closed [OF assms(3)] by (simp_all add: c'_def)
  have n: "\<not> (unclosed c \<and> n = 0)" using assms(4) by (cases n) auto
  have u: "\<not> utf8_ok (take m (?l @ [nl]))" using assms(4) n
    by (auto simp: append_buf_def entry_for_def m_def take_Cons' utf8_newline simp del: of_nat_Suc split: if_splits)
  have m: "m < length ?l"
  proof (rule ccontr)
    assume "\<not> m < length ?l"
    then have "take m (?l @ [nl]) = ?l \<or> take m (?l @ [nl]) = ?l @ [nl]" by (cases "m = length ?l") auto
    with u sd(4) show False by (auto simp: utf8_app utf8_newline)
  qed
  have b: "c @ take n (append_buf S (entry_for c xs) ev) = c' @ take m ?l"
    using n m by (cases "unclosed c") (simp_all add: append_buf_def entry_for_def c'_def m_def take_Cons' del: of_nat_Suc)
  have t: "\<not> utf8_ok (take m ?l)" "nl \<notin> set (take m ?l)" using u m sd(1) by (auto dest: in_set_takeD)
  from t(1) have ne: "take m ?l \<noteq> []" using utf8_ok.simps(1) by metis
  have "str_lines (c' @ take m ?l) = str_lines c' @ [take m ?l]"
    using str_lines_append [of c'] c'(2) str_lines_part [OF t(2) ne] by (auto simp: unclosed_def)
  with c'(1) parse_bad [of S "str_lines c'" xs "take m ?l" "[]"] t(1) show ?thesis unfolding b by (simp add: file_ok_def)
qed

lemma stale_scan_bad:
  "(name, bs) \<in> set dir \<Longrightarrow> strip_jsonl name \<noteq> None \<Longrightarrow> read_lines S (Some bs) = Inl ''io'' \<Longrightarrow> \<exists>e. stale_scan S dir = Inl e"
  by (induction dir) (auto split: option.splits sum.splits)

lemma strip_path: "sanitize_id chat \<noteq> [] \<Longrightarrow> strip_jsonl (path_for chat) \<noteq> None"
  by (simp add: strip_jsonl_def path_for_def)


text \<open>A chat's journal and its budget of revivals are files of the journal directory itself whatever the chat is
  called: their names hold no separator, and the two have different endings.\<close>

theorem journal_names_stay_inside:
  "journal_paths chat = (path_for chat, attempts_path chat) \<and> set (path_for chat) \<inter> {CHR ''/'', CHR 0x5C} = {} \<and>
   set (attempts_path chat) \<inter> {CHR ''/'', CHR 0x5C} = {} \<and> CHR ''.'' \<notin> set (sanitize_id chat) \<and> path_for chat \<noteq> attempts_path other"
proof -
  have s: "c \<in> set (sanitize_id chat) \<Longrightarrow> ascii_alphanumeric c \<or> c \<in> set ''-_''" for c
    by (auto simp: sanitize_id_def split: if_splits)
  have bad: "\<not> ascii_alphanumeric (CHR ''/'')" "\<not> ascii_alphanumeric (CHR 0x5C)" "\<not> ascii_alphanumeric (CHR ''.'')"
    by (simp_all add: ascii_alphanumeric_def byte_in_def)
  have "CHR ''/'' \<notin> set (sanitize_id chat)" "CHR 0x5C \<notin> set (sanitize_id chat)" "CHR ''.'' \<notin> set (sanitize_id chat)"
    using s bad by fastforce+
  moreover have "path_for chat \<noteq> attempts_path other"
  proof
    assume "path_for chat = attempts_path other"
    from arg_cong [OF this, of last] show False by (simp add: path_for_def attempts_path_def)
  qed
  ultimately show ?thesis by (auto simp: journal_paths_def path_for_def attempts_path_def Let_def)
qed

section \<open>Witnesses\<close>

text \<open>A format for one event: a brace, the number in unary, two bytes of one character, and a brace.\<close>

definition toy_event :: AgentEvent where "toy_event = EvTextDelta ([CHR 0xC3, CHR 0xA9])"

definition toy_serde :: JournalSerde where
  "toy_serde = \<lparr>js_to = (\<lambda>s ev. CHR 0x7B # replicate (unat s) (CHR ''x'') @ [CHR 0xC3, CHR 0xA9] @ [CHR 0x7D]),
     js_from = (\<lambda>l. if 4 \<le> length l \<and> last l = CHR 0x7D \<and> list_all (\<lambda>c. c \<noteq> CHR 0x7B \<and> c \<noteq> CHR 0x7D) (butlast (tl l))
       then Some (of_nat (length l - 4), toy_event) else None)\<rparr>"

lemma toy_part: "0 < n \<Longrightarrow> n < length (js_to toy_serde s ev) \<Longrightarrow> CHR 0x7D \<notin> set (take n (js_to toy_serde s ev))"
proof -
  assume "n < length (js_to toy_serde s ev)"
  then have "take n (js_to toy_serde s ev) = take n (butlast (js_to toy_serde s ev))" by (simp add: take_butlast)
  moreover have "CHR 0x7D \<notin> set (butlast (js_to toy_serde s ev))" by (simp add: toy_serde_def butlast_append)
  ultimately show ?thesis by (auto dest: in_set_takeD)
qed

lemma utf8_replicate: "utf8_ok (replicate n (CHR ''x'') @ s) \<longleftrightarrow> utf8_ok s"
  by (induction n) (simp_all add: utf8_ok.simps(2) byte_in_def)

lemma toy_serde_ok: "serde_ok toy_serde {toy_event}"
  unfolding serde_ok_def
proof (intro allI ballI conjI impI)
  fix s ev n assume ev: "ev \<in> {toy_event}"
  let ?l = "js_to toy_serde s ev"
  show "nl \<notin> set ?l" "cr \<notin> set ?l" by (auto simp: toy_serde_def nl_def cr_def)
  have "trim ?l = ?l" by (rule trim_graphic) (simp_all add: toy_serde_def graphic_def)
  then show "trim ?l \<noteq> []" by (simp add: toy_serde_def)
  show "utf8_ok ?l" by (simp add: toy_serde_def utf8_ok.simps(2) [of "CHR 0x7B"] byte_in_def utf8_replicate, code_simp)
  show "js_from toy_serde ?l = Some (s, ev)" using ev
    by (simp add: toy_serde_def butlast_append list_all_iff)
  assume "0 < n" "n < length ?l"
  from toy_part [OF this] this have "last (take n ?l) \<noteq> CHR 0x7D"
    by (metis gr_implies_not0 last_in_set length_0_conv length_greater_0_conv take_eq_Nil)
  then show "js_from toy_serde (take n ?l) = None" by (simp add: toy_serde_def)
qed


definition toy_steps :: "JournalStep list" where
  "toy_steps = [JAppend ''chat'' toy_event, JCrash 1 ''chat'' toy_event, JAppend ''other'' toy_event, JAppend ''chat'' toy_event, JRestart]"

lemma toy_issued: "issued ''chat'' toy_steps = {toy_event}"
  by (auto simp: issued_def toy_steps_def)

lemma toy_own: "\<forall>st \<in> set toy_steps. own_file ''chat'' st"
proof -
  have "sanitize_id ''chat'' \<noteq> sanitize_id ''other''" by code_simp
  then show ?thesis by (auto simp: toy_steps_def own_file_def path_for_def)
qed

lemma toy_cut: "cut_at_char toy_serde (Suc 0) chat ev j"
  by (auto simp: cut_at_char_def append_buf_def toy_serde_def nl_def utf8_ok.simps(2) byte_in_def split: sum.split)

lemma toy_cuts: "cuts_ok toy_serde ''chat'' toy_steps (journal_open [])"
  by (simp add: toy_steps_def toy_cut)



end
