(* ===== verification/Boot_Budget.thy ===== *)
theory Boot_Budget
  imports Run_Recovery Journal_Recovery
begin

text \<open>
  The budget of revivals over the boots and crashes of an engine: the note of an attempt reads back, a boot spends at
  most what is left, and no chat is revived a fourth time before one of its turns is completed.
\<close>

section \<open>The budget\<close>

lemma attempts_not_path [simp]: "attempts_path c \<noteq> path_for d" "path_for d \<noteq> attempts_path c"
proof -
  show "attempts_path c \<noteq> path_for d"
  proof
    assume "attempts_path c = path_for d"
    from arg_cong [OF this, of last] show False by (simp add: path_for_def attempts_path_def)
  qed
  then show "path_for d \<noteq> attempts_path c" by metis
qed

lemma char_digit_char: "k < 10 \<Longrightarrow> char_digit (digit_char k) = Some k"
  by (simp add: char_digit_def digit_char_def Let_def)

lemma digit_cases: "k < 10 \<Longrightarrow> k = 0 \<or> k = 1 \<or> k = 2 \<or> k = 3 \<or> k = 4 \<or> k = 5 \<or> k = 6 \<or> k = 7 \<or> k = 8 \<or> k = (9::nat)"
  by arith

lemma digit_char_facts: "k < 10 \<Longrightarrow> digit_char k \<noteq> CHR ''+'' \<and> graphic (digit_char k) \<and> byte_in 0 127 (digit_char k)"
  by (drule digit_cases) (elim disjE; hypsubst, code_simp)

lemma parse_digits_dec: "parse_digits 0 (dec n) = Some n"
proof (induction n rule: dec.induct)
  case (1 n)
  show ?case
  proof (cases "n < 10")
    case True
    then show ?thesis by (simp add: dec.simps [of n] char_digit_char)
  next
    case False
    with 1 show ?thesis by (simp add: dec.simps [of n] parse_digits_append char_digit_char)
  qed
qed

lemma dec_chars: "dec n \<noteq> [] \<and> set (dec n) \<subseteq> digit_char ` {..<10}"
proof (induction n rule: dec.induct)
  case (1 n)
  then show ?case by (cases "n < 10") (auto simp: dec.simps [of n])
qed

lemma utf8_ascii: "\<forall>c \<in> set s. byte_in 0 127 c \<Longrightarrow> utf8_ok s"
  by (induction s) (simp_all add: utf8_ok.simps(2))

lemma attempts_written:
  "utf8_ok (dec (unat (a :: u32))) \<and> parse_u32 (trim (dec (unat a))) = Some a"
proof -
  have d: "c \<in> set (dec (unat a)) \<Longrightarrow> c \<noteq> CHR ''+'' \<and> graphic c \<and> byte_in 0 127 c" for c
    using dec_chars [of "unat a"] digit_char_facts by fastforce
  have ne: "dec (unat a) \<noteq> []" using dec_chars by blast
  have t: "trim (dec (unat a)) = dec (unat a)" by (rule trim_graphic) (use d ne in auto)
  obtain c s where cs: "dec (unat a) = c # s" using ne by (cases "dec (unat a)") auto
  have "c \<noteq> CHR ''+''" using d [of c] by (simp add: cs)
  moreover have "parse_nat (dec (unat a)) = Some (unat a)" by (simp add: parse_nat_def ne parse_digits_dec)
  moreover have "unat a < 2 ^ 32" using unsigned_less [of a] by simp
  ultimately have "parse_u32 (dec (unat a)) = Some a" by (simp add: parse_u32_def cs Let_def)
  moreover have "utf8_ok (dec (unat a))" by (rule utf8_ascii) (use d in blast)
  ultimately show ?thesis by (simp add: t)
qed

lemma note_attempts [simp]:
  "fst (note_resume_attempt w c j) = resume_attempts c j + 1"
  "attempts_path d \<noteq> attempts_path c \<Longrightarrow> resume_attempts d (snd (note_resume_attempt w c j)) = resume_attempts d j"
  "attempts_path d = attempts_path c \<Longrightarrow> resume_attempts d (snd (note_resume_attempt True c j)) = resume_attempts c j + 1"
  by (simp_all add: note_resume_attempt_def resume_attempts_def Let_def update_conv' attempts_written)

lemma attempts_cong: "map_of (rj_dir j') (attempts_path c) = map_of (rj_dir j) (attempts_path c) \<Longrightarrow> resume_attempts c j' = resume_attempts c j"
  by (simp add: resume_attempts_def)

lemma append_attempts [simp]: "resume_attempts d (snd (journal_append S w c ev j)) = resume_attempts d j"
  by (rule attempts_cong)
    (auto simp: journal_append_def open_journal_def Let_def write_bytes_def update_conv' split: option.split sum.split prod.split)

lemma crash_attempts [simp]: "resume_attempts d (crash_in_append S n c ev j) = resume_attempts d j"
  using append_attempts [of d S "Some n" c ev j] by (simp add: resume_attempts_def crash_in_append_def journal_open_def)

section \<open>Boots and crashes\<close>

text \<open>A life of the engine and its crashes: events of runs, deaths in an append, starts with their recovery, and turns
  that are completed.\<close>

datatype EngineStep = EAppend string AgentEvent | ECrash nat string AgentEvent
  | EBoot RecoveryEnv "string \<Rightarrow> SessionMessageEntry list option" | ECompleted string

definition booted :: "RunJournal \<Rightarrow> (string \<Rightarrow> SessionMessageEntry list option) \<Rightarrow> Recovery" where
  "booted j docs = \<lparr>rs_journal = journal_open (rj_dir j), rs_docs = docs, rs_sessions = [], rs_revived = []\<rparr>"

fun engine_run :: "JournalSerde \<Rightarrow> EngineStep list \<Rightarrow> RunJournal \<Rightarrow> Revival list \<times> RunJournal" where
  "engine_run S [] j = ([], j)"
| "engine_run S (EAppend c ev # steps) j = engine_run S steps (snd (journal_append S None c ev j))"
| "engine_run S (ECrash n c ev # steps) j = engine_run S steps (crash_in_append S n c ev j)"
| "engine_run S (EBoot E docs # steps) j =
     (let r = snd (recover_stale S E (booted j docs))
      in map_prod ((@) (rs_revived r)) id (engine_run S steps (rs_journal r)))"
| "engine_run S (ECompleted c # steps) j = engine_run S steps (clear_resume_attempts c j)"

definition spends :: "string \<Rightarrow> u32 \<Rightarrow> Revival list \<Rightarrow> u32 \<Rightarrow> bool" where
  "spends chat a vs b \<longleftrightarrow> a \<le> b \<and> sorted_wrt (<) (map rv_attempt (filter (\<lambda>v. rv_chat v = chat) vs)) \<and>
     (\<forall>v \<in> set vs. rv_chat v = chat \<longrightarrow> a < rv_attempt v \<and> rv_attempt v \<le> b)"

lemma spends_trans: "spends chat a vs b \<Longrightarrow> spends chat b ws c \<Longrightarrow> spends chat a (vs @ ws) c"
  unfolding spends_def by (auto simp: sorted_wrt_append dest: order_trans le_less_trans)

lemma spends_Nil [simp]: "spends chat a [] b \<longleftrightarrow> a \<le> b"
  by (simp add: spends_def)

definition budget :: "string \<Rightarrow> RunJournal \<Rightarrow> u32" where
  "budget chat j = min (resume_attempts chat j) 3"

lemma budget_append [simp]: "budget chat (snd (journal_append S w c ev j)) = budget chat j"
  by (simp add: budget_def)

lemma small_attempts: "(a :: u32) \<le> 3 \<Longrightarrow> a = 0 \<or> a = 1 \<or> a = 2 \<or> a = 3"
proof -
  assume "a \<le> 3"
  then have "unat a \<le> 3" by (simp add: word_le_nat_alt)
  then have "unat a \<in> {0, 1, 2, 3}" by auto
  moreover have "unat a \<in> {0, 1, 2, 3} \<Longrightarrow> of_nat (unat a) \<in> {0, 1, 2, 3 :: u32}" by fastforce
  moreover have "of_nat (unat a) = a" by simp
  ultimately show ?thesis by simp
qed

lemma budget_note:
  assumes "resume_attempts c j < MAX_AUTO_RESUME" "attempts_path chat = attempts_path c \<longrightarrow> w"
  shows "spends chat (budget chat j) [\<lparr>rv_chat = c, rv_attempt = resume_attempts c j + 1, rv_message = m, rv_prompt = p\<rparr>]
    (budget chat (snd (note_resume_attempt w c j)))"
proof (cases "attempts_path chat = attempts_path c")
  case True
  then have a: "resume_attempts chat j = resume_attempts c j" by (simp add: resume_attempts_def)
  have "resume_attempts c j = 0 \<or> resume_attempts c j = 1 \<or> resume_attempts c j = 2"
    using small_attempts [OF less_imp_le [OF assms(1) [unfolded MAX_AUTO_RESUME_def]]] assms(1) [unfolded MAX_AUTO_RESUME_def] by auto
  then have "resume_attempts c j < resume_attempts c j + 1" "resume_attempts c j + 1 \<le> 3" "resume_attempts c j \<le> 3"
    by (elim disjE; simp)+
  then have "min (resume_attempts c j) 3 = resume_attempts c j" "min (resume_attempts c j + 1) 3 = resume_attempts c j + 1"
    by (simp_all only: min_absorb1)
  moreover have "budget chat (snd (note_resume_attempt w c j)) = min (resume_attempts c j + 1) 3"
    using True assms(2) by (simp add: budget_def)
  moreover have "budget chat j = min (resume_attempts c j) 3" using a by (simp add: budget_def)
  ultimately show ?thesis using \<open>resume_attempts c j < resume_attempts c j + 1\<close>
    by (auto simp: spends_def less_imp_le)
next
  case False
  then show ?thesis by (auto simp: spends_def budget_def)
qed

lemma recover_chat_spends:
  assumes "attempts_path chat = attempts_path c \<longrightarrow> re_noted E c"
  shows "\<exists>vs. rs_revived (recover_chat S E c es r) = rs_revived r @ vs \<and>
    spends chat (budget chat (rs_journal r)) vs (budget chat (rs_journal (recover_chat S E c es r)))"
proof (cases "will_resume E c es (rs_journal r)")
  case True
  then obtain m p where m: "revival_prompt es = Some (m, p)" "resume_attempts c (rs_journal r) < MAX_AUTO_RESUME"
    by (auto simp: will_resume_def)
  let ?j = "snd (journal_append S (re_publish E c) c (interrupted_done (recovery_note True)) (rs_journal r))"
  have "spends chat (budget chat ?j) [\<lparr>rv_chat = c, rv_attempt = resume_attempts c ?j + 1, rv_message = m, rv_prompt = p\<rparr>]
    (budget chat (snd (note_resume_attempt (re_noted E c) c ?j)))" by (rule budget_note) (use m assms in simp_all)
  then show ?thesis
    by (intro exI [of _ "[\<lparr>rv_chat = c, rv_attempt = resume_attempts c ?j + 1, rv_message = m, rv_prompt = p\<rparr>]"])
      (simp add: recover_chat_def Let_def True m split_beta)
next
  case False
  then show ?thesis by (auto simp: recover_chat_def Let_def split: option.split prod.split)
qed

lemma recover_chats_spends:
  assumes "\<forall>d. attempts_path chat = attempts_path d \<longrightarrow> re_noted E d"
  shows "\<exists>vs. rs_revived (snd (recover_chats S E cs n r)) = rs_revived r @ vs \<and>
    spends chat (budget chat (rs_journal r)) vs (budget chat (rs_journal (snd (recover_chats S E cs n r))))"
proof (induction cs arbitrary: n r)
  case (Cons c cs)
  show ?case
  proof (cases "re_live E c \<or> rs_docs r c = None")
    case True
    then show ?thesis using Cons.IH [of n r] by (auto split: option.split)
  next
    case False
    then obtain es where es: "rs_docs r c = Some es" "\<not> re_live E c" by auto
    obtain vs where vs: "rs_revived (recover_chat S E c es r) = rs_revived r @ vs"
      "spends chat (budget chat (rs_journal r)) vs (budget chat (rs_journal (recover_chat S E c es r)))"
      using recover_chat_spends [of chat c E] assms by metis
    from Cons.IH [of "Suc n" "recover_chat S E c es r"] obtain ws where
      "rs_revived (snd (recover_chats S E cs (Suc n) (recover_chat S E c es r))) = (rs_revived r @ vs) @ ws"
      "spends chat (budget chat (rs_journal (recover_chat S E c es r))) ws
        (budget chat (rs_journal (snd (recover_chats S E cs (Suc n) (recover_chat S E c es r)))))" unfolding vs(1) by blast
    with spends_trans [OF vs(2)] es show ?thesis by auto
  qed
qed simp

lemma recover_stale_spends:
  assumes "\<forall>d. attempts_path chat = attempts_path d \<longrightarrow> re_noted E d"
  shows "spends chat (budget chat j) (rs_revived (snd (recover_stale S E (booted j docs))))
    (budget chat (rs_journal (snd (recover_stale S E (booted j docs)))))"
proof -
  have b: "budget chat (journal_open (rj_dir j)) = budget chat j"
    by (simp add: budget_def resume_attempts_def journal_open_def)
  show ?thesis
    using recover_chats_spends [OF assms, of S _ 0 "booted j docs"]
    by (auto simp: recover_stale_def booted_def b split: sum.split)
qed

fun budget_step :: "string \<Rightarrow> EngineStep \<Rightarrow> bool" where
  "budget_step chat (EBoot E docs) \<longleftrightarrow> (\<forall>d. attempts_path chat = attempts_path d \<longrightarrow> re_noted E d)"
| "budget_step chat (ECompleted d) \<longleftrightarrow> attempts_path chat \<noteq> attempts_path d"
| "budget_step chat _ \<longleftrightarrow> True"

lemma engine_run_spends:
  "\<forall>st \<in> set steps. budget_step chat st \<Longrightarrow>
   spends chat (budget chat j) (fst (engine_run S steps j)) (budget chat (snd (engine_run S steps j)))"
proof (induction S steps j rule: engine_run.induct)
  case (4 S E docs steps j)
  then show ?case
    using spends_trans [OF recover_stale_spends [of chat E j S docs]] by (simp add: Let_def)
next
  case (5 S c steps j)
  have "budget chat (clear_resume_attempts c j) = budget chat j"
    using 5 by (simp add: budget_def resume_attempts_def clear_resume_attempts_def delete_conv')
  with 5 show ?case by simp
qed (simp_all add: budget_def)


end
