(* ===== verification/Journal_Store.thy ===== *)
theory Journal_Store
  imports Boot_Budget
begin

text \<open>
  The whole directory of journals: every file is in the state its chat's appends left it in, the scan for interrupted
  runs finds exactly the chats whose log does not end in a \<open>Done\<close>, and the operations keep that.
\<close>

section \<open>The directory\<close>

text \<open>Chats whose name is their file's: ids are made of letters, digits and dashes.\<close>

definition plain :: "string \<Rightarrow> bool" where
  "plain chat \<longleftrightarrow> chat \<noteq> [] \<and> sanitize_id chat = chat"

lemma plain_path [simp]: "plain c \<Longrightarrow> plain d \<Longrightarrow> path_for c = path_for d \<longleftrightarrow> c = d"
  by (simp add: plain_def path_for_def)

lemma strip_plain [simp]:
  "plain c \<Longrightarrow> strip_jsonl (path_for c) = Some c"
  "strip_jsonl (attempts_path c) = None"
  by (auto simp: plain_def path_for_def attempts_path_def strip_jsonl_def)

definition logged :: "JournalSerde \<Rightarrow> string \<Rightarrow> RunJournal \<Rightarrow> (u64 \<times> AgentEvent) list" where
  "logged S chat j = (case parse_lines S (str_lines (contents j chat)) of Inr xs \<Rightarrow> xs | Inl _ \<Rightarrow> [])"

definition store_inv :: "JournalSerde \<Rightarrow> RunJournal \<Rightarrow> bool" where
  "store_inv S j \<longleftrightarrow> distinct (map fst (rj_dir j)) \<and>
     (\<forall>name \<in> fst ` set (rj_dir j). \<exists>c. plain c \<and> (name = path_for c \<or> name = attempts_path c)) \<and>
     (\<forall>c. plain c \<longrightarrow> journal_inv S c (logged S c j) j)"

lemma logged_inv: "journal_inv S c xs j \<Longrightarrow> logged S c j = xs"
  by (simp add: logged_def journal_inv_def file_ok_def)

lemma store_read:
  assumes "store_inv S j" "plain c"
  shows "read_lines S (map_of (rj_dir j) (path_for c)) = Inr (logged S c j)"
proof -
  have "journal_inv S c (logged S c j) j" using assms by (simp add: store_inv_def)
  then show ?thesis
    by (cases "map_of (rj_dir j) (path_for c)") (auto simp: read_lines_def journal_inv_def file_ok_def contents_def numbered_def)
qed

lemma stale_scan_ok:
  assumes "\<forall>(name, bs) \<in> set dir. \<exists>c. plain c \<and> (name = path_for c \<and> read_lines S (Some bs) = Inr (f c) \<or> name = attempts_path c)"
    "distinct (map fst dir)"
  shows "\<exists>ids. stale_scan S dir = Inr ids \<and> distinct ids \<and> set ids = {c. plain c \<and> path_for c \<in> fst ` set dir \<and> is_stale (f c)}"
  using assms
proof (induction dir)
  case (Cons x dir)
  obtain name bs where x: "x = (name, bs)" by fastforce
  from Cons obtain ids where ids: "stale_scan S dir = Inr ids" "distinct ids"
    "set ids = {c. plain c \<and> path_for c \<in> fst ` set dir \<and> is_stale (f c)}" by auto
  from Cons.prems(1) x obtain c where c: "plain c" "name = path_for c \<and> read_lines S (Some bs) = Inr (f c) \<or> name = attempts_path c"
    by auto
  from c(2) show ?case
  proof
    assume n: "name = path_for c \<and> read_lines S (Some bs) = Inr (f c)"
    have "c \<notin> set ids" using Cons.prems(2) ids(3) x n by auto
    with ids c(1) n x show ?thesis by auto
  next
    assume "name = attempts_path c"
    with ids x show ?thesis by auto
  qed
qed simp

lemma store_stale:
  assumes "store_inv S j"
  shows "\<exists>ids. stale_sessions S j = Inr ids \<and> distinct ids \<and> set ids = {c. plain c \<and> is_stale (logged S c j)}"
proof -
  have d: "distinct (map fst (rj_dir j))" using assms by (simp add: store_inv_def)
  have "\<forall>(name, bs) \<in> set (rj_dir j). \<exists>c. plain c \<and>
      (name = path_for c \<and> read_lines S (Some bs) = Inr (logged S c j) \<or> name = attempts_path c)"
  proof clarify
    fix name bs assume nb: "(name, bs) \<in> set (rj_dir j)"
    then obtain c where c: "plain c" "name = path_for c \<or> name = attempts_path c" using assms by (force simp: store_inv_def)
    moreover have "map_of (rj_dir j) name = Some bs" using d nb by simp
    ultimately show "\<exists>c. plain c \<and> (name = path_for c \<and> read_lines S (Some bs) = Inr (logged S c j) \<or> name = attempts_path c)"
      using store_read [OF assms c(1)] by auto
  qed
  from stale_scan_ok [OF this d] obtain ids where ids: "stale_scan S (rj_dir j) = Inr ids" "distinct ids"
    "set ids = {c. plain c \<and> path_for c \<in> fst ` set (rj_dir j) \<and> is_stale (logged S c j)}" by blast
  have "path_for c \<in> fst ` set (rj_dir j)" if "plain c" "is_stale (logged S c j)" for c
  proof (rule ccontr)
    assume "path_for c \<notin> fst ` set (rj_dir j)"
    then have "map_of (rj_dir j) (path_for c) = None" by (simp add: map_of_eq_None_iff)
    with store_read [OF assms that(1)] that(2) show False by (simp add: read_lines_def is_stale_def)
  qed
  then have "set ids = {c. plain c \<and> is_stale (logged S c j)}" using ids(3) by auto
  with ids show ?thesis by (intro exI [of _ "sort ids"]) (simp add: stale_sessions_def)
qed

section \<open>What the operations do to it\<close>

lemma keys_update: "fst ` set (AList.update k v xs) = insert k (fst ` set xs)"
  using arg_cong [OF update_keys [of k v xs], of set] by auto

lemma open_dir:
  "rj_dir (snd (open_journal S c j)) = rj_dir j \<or>
   map_of (rj_dir j) (path_for c) = None \<and> rj_dir (snd (open_journal S c j)) = AList.update (path_for c) [] (rj_dir j)"
  by (auto simp: open_journal_def Let_def split: option.split sum.split prod.split)

lemma append_dir:
  assumes "distinct (map fst (rj_dir j))"
  shows "distinct (map fst (rj_dir (snd (journal_append S w c ev j)))) \<and>
    fst ` set (rj_dir (snd (journal_append S w c ev j))) \<subseteq> insert (path_for c) (fst ` set (rj_dir j))"
proof -
  obtain r j1 where o: "open_journal S c j = (r, j1)" by fastforce
  have "distinct (map fst (rj_dir j1)) \<and> fst ` set (rj_dir j1) \<subseteq> insert (path_for c) (fst ` set (rj_dir j))"
    using open_dir [of S c j] o assms distinct_update [of "rj_dir j" "path_for c" "[]"]
    by (elim disjE conjE) (simp_all add: keys_update subset_insertI)
  with o show ?thesis
    by (auto simp: journal_append_def Let_def write_bytes_def keys_update distinct_update split: sum.split option.split)
qed

lemma store_invI:
  assumes "store_inv S j" "plain c" "distinct (map fst (rj_dir j'))"
    "fst ` set (rj_dir j') \<subseteq> insert (path_for c) (insert (attempts_path c) (fst ` set (rj_dir j)))"
    "\<And>d. plain d \<Longrightarrow> \<exists>xs. journal_inv S d xs j'"
  shows "store_inv S j'"
proof -
  have "\<exists>d. plain d \<and> (name = path_for d \<or> name = attempts_path d)" if "name \<in> fst ` set (rj_dir j')" for name
  proof -
    have "name = path_for c \<or> name = attempts_path c \<or> name \<in> fst ` set (rj_dir j)" using assms(4) that by blast
    with assms(1,2) show ?thesis unfolding store_inv_def by blast
  qed
  moreover have "journal_inv S d (logged S d j') j'" if "plain d" for d
    using assms(5) [OF that] logged_inv by metis
  ultimately show ?thesis unfolding store_inv_def using assms(3) by blast
qed

lemma store_append:
  assumes "store_inv S j" "serde_ok S E" "ev \<in> E" "plain c"
  shows "store_inv S (snd (journal_append S None c ev j)) \<and>
    (\<forall>d. plain d \<longrightarrow> logged S d (snd (journal_append S None c ev j)) =
       logged S d j @ (if d = c then [(of_nat (Suc (length (logged S c j))), ev)] else []))"
proof -
  let ?j = "snd (journal_append S None c ev j)"
  let ?xs = "\<lambda>d. logged S d j @ (if d = c then [(of_nat (Suc (length (logged S c j))), ev)] else [])"
  have i: "journal_inv S d (?xs d) ?j" if "plain d" for d
  proof (cases "d = c")
    case True
    then show ?thesis using append_own [OF assms(2,3), of c "logged S c j" j] assms(1,4) by (simp add: store_inv_def)
  next
    case False
    then show ?thesis using append_other [of S d "logged S d j" j c None ev] assms(1,4) that by (simp add: store_inv_def)
  qed
  then have l: "plain d \<Longrightarrow> logged S d ?j = ?xs d" for d using logged_inv by blast
  have "distinct (map fst (rj_dir j))" using assms(1) by (simp add: store_inv_def)
  note a = append_dir [OF this, of S None c ev]
  have "store_inv S ?j" by (rule store_invI [OF assms(1,4)]) (use a i in blast)+
  with l show ?thesis by blast
qed

lemma store_crash:
  assumes "store_inv S j" "serde_ok S E" "ev \<in> E" "plain c" "cut_at_char S n c ev j"
  shows "store_inv S (crash_in_append S n c ev j)"
proof -
  let ?j = "crash_in_append S n c ev j"
  have "\<exists>xs. journal_inv S d xs ?j" if "plain d" for d
  proof (cases "d = c")
    case True
    then show ?thesis using crash_own [OF assms(2,3) _ assms(5), of "logged S c j"] assms(1,4) by (auto simp: store_inv_def)
  next
    case False
    then have "journal_inv S d (logged S d j) (snd (journal_append S (Some n) c ev j))"
      using append_other [of S d "logged S d j" j c "Some n" ev] assms(1,4) that by (simp add: store_inv_def)
    then show ?thesis unfolding crash_in_append_def by (blast intro: journal_reopen)
  qed
  note i = this
  have "distinct (map fst (rj_dir j))" using assms(1) by (simp add: store_inv_def)
  note a = append_dir [OF this, of S "Some n" c ev]
  have "rj_dir ?j = rj_dir (snd (journal_append S (Some n) c ev j))" by (simp add: crash_in_append_def journal_open_def)
  with a show ?thesis by (intro store_invI [OF assms(1,4) _ _ i]) auto
qed

lemma store_reopen:
  assumes "store_inv S j"
  shows "store_inv S (journal_open (rj_dir j)) \<and> (\<forall>d. logged S d (journal_open (rj_dir j)) = logged S d j)"
proof -
  have "logged S d (journal_open (rj_dir j)) = logged S d j" for d by (simp add: logged_def contents_def journal_open_def)
  then show ?thesis using assms journal_reopen [of S _ _ j] by (simp add: store_inv_def journal_open_def)
qed

lemma store_empty: "store_inv S (journal_open [])"
  using journal_inv_empty [of S] logged_inv [OF journal_inv_empty [of S]] by (simp add: store_inv_def) (simp add: journal_open_def)

lemma store_note:
  assumes "store_inv S j" "plain c"
  shows "store_inv S (snd (note_resume_attempt w c j)) \<and> (\<forall>d. logged S d (snd (note_resume_attempt w c j)) = logged S d j)"
proof -
  let ?j = "snd (note_resume_attempt w c j)"
  have c: "contents ?j d = contents j d" for d
    by (simp add: contents_def note_resume_attempt_def Let_def update_conv')
  have o: "rj_open ?j = rj_open j" by (simp add: note_resume_attempt_def Let_def)
  have "journal_inv S d xs ?j \<longleftrightarrow> journal_inv S d xs j" for d xs by (simp add: journal_inv_def c o)
  then have i: "plain d \<Longrightarrow> \<exists>xs. journal_inv S d xs ?j" for d using assms(1) unfolding store_inv_def by blast
  have l: "logged S d ?j = logged S d j" for d by (simp add: logged_def c)
  have "distinct (map fst (rj_dir j))" using assms(1) by (simp add: store_inv_def)
  then have "distinct (map fst (rj_dir ?j))" "fst ` set (rj_dir ?j) \<subseteq> insert (attempts_path c) (fst ` set (rj_dir j))"
    by (auto simp: note_resume_attempt_def Let_def keys_update distinct_update)
  then have "store_inv S ?j" by (intro store_invI [OF assms _ _ i]) auto
  with l show ?thesis by blast
qed

end
