(* ===== verification/Boot_Properties.thy ===== *)
theory Boot_Properties
  imports Journal_Store
begin

text \<open>
  A boot's recovery over all chats: the entries left streaming are stamped, the journals are closed, the runs that may
  go on are handed over; and what a line torn inside a character does to it. The witnesses use small formats of a
  journal line.
\<close>

section \<open>Stamping\<close>

lemma ids_apart: "me_id a \<notin> me_id ` set es \<Longrightarrow> x \<in> set es \<Longrightarrow> me_id x \<noteq> me_id a"
  by (metis imageI)

lemma set_status_there:
  assumes "distinct (map me_id es)"
  shows "snd (set_message_status i st es) = map (\<lambda>x. if me_id x = i then x\<lparr>me_status := Some st\<rparr> else x) es \<and>
    fst (set_message_status i st es) = (i \<in> me_id ` set es)"
  using assms
proof (induction es)
  case (Cons a es)
  then have "me_id a \<notin> me_id ` set es" by simp
  note n = ids_apart [OF this]
  with Cons show ?case by (cases "me_id a = i") (auto split: prod.split intro!: map_idI [symmetric] dest: n)
qed simp

definition with_note :: "string \<Rightarrow> string \<Rightarrow> SessionMessageEntry \<Rightarrow> SessionMessageEntry" where
  "with_note part note e = (if part \<in> part_id ` set (me_parts e) then e else e\<lparr>me_parts := me_parts e @ [PError part note]\<rparr>)"

lemma append_error_there:
  assumes "distinct (map me_id es)"
  shows "snd (append_error_part i p m es) = map (\<lambda>x. if me_id x = i then with_note p m x else x) es"
  using assms
proof (induction es)
  case (Cons a es)
  then have "me_id a \<notin> me_id ` set es" by simp
  note n = ids_apart [OF this]
  with Cons show ?case by (cases "me_id a = i") (auto simp: with_note_def split: prod.split intro!: map_idI [symmetric] dest: n)
qed simp

definition stamped_entry :: "string \<Rightarrow> SessionMessageEntry \<Rightarrow> SessionMessageEntry" where
  "stamped_entry note e = with_note (me_id e @ ''-recovery'') note (e\<lparr>me_status := Some Aborted\<rparr>)"

lemma stamp_entry_there:
  assumes "distinct (map me_id es)" "me_id e \<in> me_id ` set es"
  shows "stamp_entry note e es = (True, map (\<lambda>x. if me_id x = me_id e then stamped_entry note x else x) es)"
proof -
  obtain b es1 where s: "set_message_status (me_id e) Aborted es = (b, es1)" by fastforce
  with set_status_there [OF assms(1), of "me_id e" Aborted] assms(2)
  have b: "b" "es1 = map (\<lambda>x. if me_id x = me_id e then x\<lparr>me_status := Some Aborted\<rparr> else x) es" by simp_all
  have "map me_id es1 = map me_id es" unfolding b(2) by simp
  then have "distinct (map me_id es1)" using assms(1) by simp
  from append_error_there [OF this] s b show ?thesis by (simp add: stamp_entry_def stamped_entry_def)
qed

text \<open>Every entry of the device that was streaming is aborted and says why; the others stay as they are.\<close>

lemma mark_abandoned:
  assumes "distinct (map me_id es)"
  shows "mark_abandoned_streams dev note es =
    (map (\<lambda>e. (me_id e, me_created_at e)) (filter (abandoned dev) es),
     map (\<lambda>e. if abandoned dev e then stamped_entry note e else e) es)"
proof -
  let ?step = "\<lambda>e (stamped, es). if abandoned dev e then
      (case stamp_entry note e es of (True, es) \<Rightarrow> (stamped @ [(me_id e, me_created_at e)], es) | (False, es) \<Rightarrow> (stamped, es))
    else (stamped, es)"
  have "fold ?step rest (st, map (\<lambda>e. if abandoned dev e then stamped_entry note e else e) pre @ rest) =
    (st @ map (\<lambda>e. (me_id e, me_created_at e)) (filter (abandoned dev) rest),
     map (\<lambda>e. if abandoned dev e then stamped_entry note e else e) (pre @ rest))"
    if "distinct (map me_id (pre @ rest))" for st pre rest
    using that
  proof (induction rest arbitrary: st pre)
    case (Cons e rest)
    let ?f = "\<lambda>e. if abandoned dev e then stamped_entry note e else e"
    have ids: "me_id (?f x) = me_id x" for x by (simp add: stamped_entry_def with_note_def)
    have d: "distinct (map me_id (map ?f pre @ e # rest))" using Cons.prems by (simp add: ids comp_def)
    have "me_id e \<notin> me_id ` set (pre @ rest)" using Cons.prems by auto
    note n = ids_apart [OF this]
    have s: "stamp_entry note e (map ?f pre @ e # rest) = (True, map ?f pre @ stamped_entry note e # rest)"
    proof -
      have "map (\<lambda>x. if me_id x = me_id e then stamped_entry note x else x) (map ?f pre @ e # rest) =
          map ?f pre @ stamped_entry note e # rest" using n by (auto simp: ids intro!: map_idI)
      with stamp_entry_there [OF d, of e "note"] show ?thesis by simp
    qed
    show ?case
    proof (cases "abandoned dev e")
      case True
      with s Cons.IH [of "pre @ [e]"] Cons.prems show ?thesis by simp
    next
      case False
      with Cons.IH [of "pre @ [e]"] Cons.prems show ?thesis by simp
    qed
  qed simp
  from this [of "[]" es "[]"] assms show ?thesis by (simp add: mark_abandoned_streams_def)
qed

lemma not_abandoned_stamped [simp]: "\<not> abandoned dev (stamped_entry note e)"
  by (simp add: stamped_entry_def with_note_def abandoned_def)

section \<open>Recovery\<close>

lemma attempts_plain [simp]: "plain c \<Longrightarrow> plain d \<Longrightarrow> attempts_path c = attempts_path d \<longleftrightarrow> c = d"
  by (simp add: plain_def attempts_path_def)

definition closing :: "JournalSerde \<Rightarrow> RecoveryEnv \<Rightarrow> string \<Rightarrow> SessionMessageEntry list \<Rightarrow> RunJournal \<Rightarrow> u64 \<times> AgentEvent" where
  "closing S E c es j = (of_nat (Suc (length (logged S c j))), interrupted_done (recovery_note (will_resume E c es j)))"

definition settled_doc :: "RecoveryEnv \<Rightarrow> string \<Rightarrow> SessionMessageEntry list \<Rightarrow> RunJournal \<Rightarrow> SessionMessageEntry list" where
  "settled_doc E c es j =
     map (\<lambda>e. if abandoned (re_device E) e then stamped_entry (recovery_note (will_resume E c es j)) e else e) es"

definition can_recover :: "JournalSerde \<Rightarrow> AgentEvent set \<Rightarrow> RecoveryEnv \<Rightarrow> (string \<Rightarrow> SessionMessageEntry list option) \<Rightarrow> bool" where
  "can_recover S A E docs \<longleftrightarrow> serde_ok S A \<and> (\<forall>b. interrupted_done (recovery_note b) \<in> A) \<and>
     (\<forall>c. \<not> re_live E c \<and> re_publish E c = None \<and> (\<exists>es. docs c = Some es \<and> distinct (map me_id es)))"

lemma recover_chat_ok:
  assumes "store_inv S (rs_journal r)" "can_recover S A E docs" "plain c" "distinct (map me_id es)"
  shows "store_inv S (rs_journal (recover_chat S E c es r)) \<and>
    (\<forall>d. plain d \<longrightarrow> logged S d (rs_journal (recover_chat S E c es r)) =
       logged S d (rs_journal r) @ (if d = c then [closing S E c es (rs_journal r)] else [])) \<and>
    (\<forall>d. plain d \<longrightarrow> d \<noteq> c \<longrightarrow> resume_attempts d (rs_journal (recover_chat S E c es r)) = resume_attempts d (rs_journal r)) \<and>
    rs_docs (recover_chat S E c es r) = (rs_docs r)(c \<mapsto> settled_doc E c es (rs_journal r)) \<and>
    map rv_chat (rs_revived (recover_chat S E c es r)) =
      map rv_chat (rs_revived r) @ (if will_resume E c es (rs_journal r) then [c] else [])"
proof -
  let ?b = "will_resume E c es (rs_journal r)"
  let ?j = "snd (journal_append S (re_publish E c) c (interrupted_done (recovery_note ?b)) (rs_journal r))"
  have E: "serde_ok S A" "interrupted_done (recovery_note ?b) \<in> A" "re_publish E c = None" using assms(2) by (simp_all add: can_recover_def)
  note s = store_append [OF assms(1) E(1,2) assms(3)]
  have s': "store_inv S ?j" "\<forall>d. plain d \<longrightarrow> logged S d ?j =
      logged S d (rs_journal r) @ (if d = c then [closing S E c es (rs_journal r)] else [])"
    using s by (simp_all add: E(3) closing_def del: of_nat_Suc)
  note n = store_note [OF s'(1) assms(3), of "re_noted E c"]
  have d: "snd (mark_abandoned_streams (re_device E) (recovery_note ?b) es) = settled_doc E c es (rs_journal r)"
    by (simp add: mark_abandoned [OF assms(4)] settled_doc_def)
  show ?thesis
  proof (cases ?b)
    case True
    then obtain m p where m: "revival_prompt es = Some (m, p)" by (auto simp: will_resume_def)
    have r: "rs_journal (recover_chat S E c es r) = snd (note_resume_attempt (re_noted E c) c ?j)"
      "rs_docs (recover_chat S E c es r) = (rs_docs r)(c \<mapsto> settled_doc E c es (rs_journal r))"
      "map rv_chat (rs_revived (recover_chat S E c es r)) = map rv_chat (rs_revived r) @ [c]"
      using True d by (simp_all add: recover_chat_def Let_def m split_beta)
    have "resume_attempts x (snd (note_resume_attempt (re_noted E c) c ?j)) = resume_attempts x (rs_journal r)"
      if "plain x" "x \<noteq> c" for x using that assms(3) by simp
    then show ?thesis unfolding r using n s' True by simp
  next
    case False
    have r: "rs_journal (recover_chat S E c es r) = ?j"
      "rs_docs (recover_chat S E c es r) = (rs_docs r)(c \<mapsto> settled_doc E c es (rs_journal r))"
      "rs_revived (recover_chat S E c es r) = rs_revived r"
      using False d by (simp_all add: recover_chat_def Let_def split: option.split prod.split)
    show ?thesis unfolding r using s' False by simp
  qed
qed

lemma resume_cong: "resume_attempts c j' = resume_attempts c j \<Longrightarrow> will_resume E c es j' = will_resume E c es j"
  by (simp add: will_resume_def)

lemma recover_chats_ok:
  assumes "can_recover S A E docs"
  shows "store_inv S (rs_journal r) \<Longrightarrow> \<forall>c \<in> set cs. plain c \<and> rs_docs r c = docs c \<Longrightarrow> distinct cs \<Longrightarrow>
    \<exists>r'. recover_chats S E cs n r = (Inr (n + length cs), r') \<and> store_inv S (rs_journal r') \<and>
      (\<forall>d. plain d \<longrightarrow> logged S d (rs_journal r') =
         logged S d (rs_journal r) @ (if d \<in> set cs then [closing S E d (the (docs d)) (rs_journal r)] else [])) \<and>
      (\<forall>d. rs_docs r' d = (if d \<in> set cs then Some (settled_doc E d (the (docs d)) (rs_journal r)) else rs_docs r d)) \<and>
      map rv_chat (rs_revived r') =
        map rv_chat (rs_revived r) @ filter (\<lambda>c. will_resume E c (the (docs c)) (rs_journal r)) cs"
proof (induction cs arbitrary: n r)
  case (Cons c cs)
  obtain es where es: "docs c = Some es" "distinct (map me_id es)" using assms by (auto simp: can_recover_def)
  have c: "plain c" "rs_docs r c = Some es" "\<not> re_live E c" using Cons.prems(2) es assms by (simp_all add: can_recover_def)
  let ?r = "recover_chat S E c es r"
  from recover_chat_ok [OF Cons.prems(1) assms c(1) es(2)] have r: "store_inv S (rs_journal ?r)"
    "\<forall>d. plain d \<longrightarrow> logged S d (rs_journal ?r) = logged S d (rs_journal r) @ (if d = c then [closing S E c es (rs_journal r)] else [])"
    "\<forall>d. plain d \<longrightarrow> d \<noteq> c \<longrightarrow> resume_attempts d (rs_journal ?r) = resume_attempts d (rs_journal r)"
    "rs_docs ?r = (rs_docs r)(c \<mapsto> settled_doc E c es (rs_journal r))"
    "map rv_chat (rs_revived ?r) = map rv_chat (rs_revived r) @ (if will_resume E c es (rs_journal r) then [c] else [])" by blast+
  have "\<forall>d \<in> set cs. plain d \<and> rs_docs ?r d = docs d" using Cons.prems(2,3) r(4) by auto
  from Cons.IH [OF r(1) this, of "Suc n"] Cons.prems(3) obtain r' where r':
    "recover_chats S E cs (Suc n) ?r = (Inr (Suc n + length cs), r')" "store_inv S (rs_journal r')"
    "\<forall>d. plain d \<longrightarrow> logged S d (rs_journal r') =
       logged S d (rs_journal ?r) @ (if d \<in> set cs then [closing S E d (the (docs d)) (rs_journal ?r)] else [])"
    "\<forall>d. rs_docs r' d = (if d \<in> set cs then Some (settled_doc E d (the (docs d)) (rs_journal ?r)) else rs_docs ?r d)"
    "map rv_chat (rs_revived r') = map rv_chat (rs_revived ?r) @ filter (\<lambda>c. will_resume E c (the (docs c)) (rs_journal ?r)) cs"
    by auto
  have later: "d \<in> set cs \<Longrightarrow> plain d \<and> d \<noteq> c" for d using Cons.prems(2,3) by auto
  have w: "d \<in> set cs \<Longrightarrow> will_resume E d x (rs_journal ?r) = will_resume E d x (rs_journal r)" for d x
    using r(3) later resume_cong by metis
  have cl: "d \<in> set cs \<Longrightarrow> closing S E d x (rs_journal ?r) = closing S E d x (rs_journal r)" for d x
    using w later r(2) by (simp add: closing_def)
  have sd: "d \<in> set cs \<Longrightarrow> settled_doc E d x (rs_journal ?r) = settled_doc E d x (rs_journal r)" for d x
    using w by (simp add: settled_doc_def)
  have f: "filter (\<lambda>c. will_resume E c (the (docs c)) (rs_journal ?r)) cs = filter (\<lambda>c. will_resume E c (the (docs c)) (rs_journal r)) cs"
    by (rule filter_cong) (use w in auto)
  show ?case
  proof (intro exI conjI)
    show "recover_chats S E (c # cs) n r = (Inr (n + length (c # cs)), r')" using r'(1) c by simp
    show "store_inv S (rs_journal r')" by (fact r'(2))
    show "\<forall>d. plain d \<longrightarrow> logged S d (rs_journal r') =
        logged S d (rs_journal r) @ (if d \<in> set (c # cs) then [closing S E d (the (docs d)) (rs_journal r)] else [])"
      using r'(3) r(2) later cl es(1) by auto
    show "\<forall>d. rs_docs r' d = (if d \<in> set (c # cs) then Some (settled_doc E d (the (docs d)) (rs_journal r)) else rs_docs r d)"
      using r'(4) r(4) later sd es(1) by auto
    show "map rv_chat (rs_revived r') =
        map rv_chat (rs_revived r) @ filter (\<lambda>c. will_resume E c (the (docs c)) (rs_journal r)) (c # cs)"
      using r'(5) r(5) f es(1) by simp
  qed
qed simp

lemma store_jrun:
  "serde_ok S A \<Longrightarrow> store_inv S j \<Longrightarrow> \<forall>st \<in> set steps. \<forall>c ev. step_chat st = Some c \<longrightarrow> step_event st = Some ev \<longrightarrow> plain c \<and> ev \<in> A \<Longrightarrow>
    \<forall>c. cuts_ok S c steps j \<Longrightarrow> store_inv S (snd (jrun S chat steps j))"
proof (induction S chat steps j rule: jrun.induct)
  case (2 S chat other ev steps j)
  from 2 store_append [of S j A ev other] show ?case by (auto split: prod.split)
next
  case (3 S chat n other ev steps j)
  from 3 store_crash [of S j A ev other n] show ?case by (auto split: prod.split)
next
  case (4 S chat steps j)
  from 4 store_reopen show ?case by auto
qed simp


text \<open>C39: a process that dies in the middle of a character's bytes ruins the journal for good: after the restart every
  append and every replay of that chat fails, and no chat at all is recovered: the scan for interrupted runs fails, so the
  boot revives nothing, closes nothing and stamps nothing.\<close>

theorem torn_character_blocks_journal:
  assumes "serde_ok S (insert ev (issued chat steps))" "\<forall>st \<in> set steps. own_file chat st" "cuts_ok S chat steps (journal_open [])"
    "jrun S chat steps (journal_open []) = (acks, j)" "\<not> cut_at_char S n chat ev j" "sanitize_id chat \<noteq> []"
    "j' = crash_in_append S n chat ev j"
  shows "fst (journal_append S written chat ev' j') = Inl ''io'' \<and> replay S chat k j' = Inl ''io'' \<and>
    (\<exists>e. stale_sessions S j' = Inl e \<and> recover_stale S E (booted j' docs) = (Inl e, booted j' docs))"
proof -
  from jrun_ok [OF assms(1) journal_inv_empty assms(2) _ assms(3,4)] obtain xs where inv: "journal_inv S chat xs j" by auto
  obtain j1 where o: "open_journal S chat j = (Inr (entry_for (contents j chat) xs), j1)" "contents j1 chat = contents j chat"
    by (rule open_journal_ok [OF inv])
  let ?buf = "append_buf S (entry_for (contents j chat) xs) ev"
  have "\<not> utf8_ok (take n ?buf)" using assms(5) o(1) by (simp add: cut_at_char_def)
  then have p: "parse_lines S (str_lines (contents j chat @ take n ?buf)) = Inl ''io''"
    using torn_file [OF assms(1)] inv by (simp add: journal_inv_def)
  have f: "map_of (rj_dir j') (path_for chat) = Some (contents j chat @ take n ?buf)" "rj_open j' = []"
    using o unfolding assms(7) crash_in_append_def journal_append_def
    by (auto simp: journal_open_def write_bytes_def update_conv' contents_def Let_def)
  have r: "read_lines S (map_of (rj_dir j') (path_for chat)) = Inl ''io''" by (simp add: f read_lines_def p)
  have s: "scan_tail S (map_of (rj_dir j') (path_for chat)) = Inl ''io''" using r f(1) by (simp add: scan_tail_def Let_def)
  have "fst (journal_append S written chat ev' j') = Inl ''io''"
    using s f(2) by (auto simp: journal_append_def open_journal_def Let_def)
  moreover have "replay S chat k j' = Inl ''io''" using r by (simp add: replay_def)
  moreover from stale_scan_bad [OF map_of_SomeD [OF f(1)] strip_path [OF assms(6)], of S] r f(1)
  obtain e where "stale_scan S (rj_dir j') = Inl e" by auto
  then have "\<exists>e. stale_sessions S j' = Inl e \<and> recover_stale S E (booted j' docs) = (Inl e, booted j' docs)"
    by (auto simp: stale_sessions_def recover_stale_def booted_def journal_open_def)
  ultimately show ?thesis by blast
qed

section \<open>Witnesses\<close>

text \<open>A format for three events: a brace, the number in unary, a letter for the event, and a brace.\<close>

definition toy_said :: AgentEvent where "toy_said = EvTextDelta ''a''"

definition toy_letter :: "AgentEvent \<Rightarrow> char" where
  "toy_letter ev = (if ev = toy_said then CHR ''t'' else if ev = interrupted_done (recovery_note True) then CHR ''r'' else CHR ''s'')"

definition toy_lines :: JournalSerde where
  "toy_lines = \<lparr>js_to = (\<lambda>s ev. CHR 0x7B # replicate (unat s) (CHR ''x'') @ [toy_letter ev] @ [CHR 0x7D]),
     js_from = (\<lambda>l. if 3 \<le> length l \<and> last l = CHR 0x7D
       then Some (of_nat (length l - 3), if last (butlast l) = CHR ''t'' then toy_said else interrupted_done (recovery_note (last (butlast l) = CHR ''r'')))
       else None)\<rparr>"

lemma toy_notes: "recovery_note True \<noteq> recovery_note False"
  by (simp add: recovery_note_def)

lemma toy_letters:
  "toy_letter ev \<in> {CHR ''r'', CHR ''s'', CHR ''t''}"
  "ev \<in> {toy_said, interrupted_done (recovery_note True), interrupted_done (recovery_note False)} \<Longrightarrow>
    (if toy_letter ev = CHR ''t'' then toy_said else interrupted_done (recovery_note (toy_letter ev = CHR ''r''))) = ev"
  using toy_notes by (auto simp: toy_letter_def toy_said_def interrupted_done_def)

lemma toy_lines_ok:
  "serde_ok toy_lines {toy_said, interrupted_done (recovery_note True), interrupted_done (recovery_note False)}"
  unfolding serde_ok_def
proof (intro allI ballI conjI impI)
  fix s ev n assume ev: "ev \<in> {toy_said, interrupted_done (recovery_note True), interrupted_done (recovery_note False)}"
  let ?l = "js_to toy_lines s ev"
  note tl = toy_letters(1) [of ev]
  show "nl \<notin> set ?l" "cr \<notin> set ?l" using tl by (auto simp: toy_lines_def nl_def cr_def)
  have "trim ?l = ?l" by (rule trim_graphic) (simp_all add: toy_lines_def graphic_def)
  then show "trim ?l \<noteq> []" by (simp add: toy_lines_def)
  have "byte_in 0 127 (toy_letter ev)" using tl by (auto simp: byte_in_def)
  then have "\<forall>c \<in> set ?l. byte_in 0 127 c" by (auto simp: toy_lines_def byte_in_def)
  then show "utf8_ok ?l" by (rule utf8_ascii)
  show "js_from toy_lines ?l = Some (s, ev)" using toy_letters(2) [OF ev]
    by (simp add: toy_lines_def butlast_append split: if_splits)
  assume "0 < n" "n < length ?l"
  then have "take n ?l = take n (butlast ?l)" "take n ?l \<noteq> []" by (simp add: take_butlast, auto simp: toy_lines_def)
  moreover have "CHR 0x7D \<notin> set (butlast ?l)" using tl by (auto simp: toy_lines_def butlast_append)
  ultimately have "last (take n ?l) \<noteq> CHR 0x7D" by (metis in_set_takeD last_in_set)
  then show "js_from toy_lines (take n ?l) = None" by (simp add: toy_lines_def)
qed

definition toy_boot :: RecoveryEnv where
  "toy_boot = \<lparr>re_device = ''d'', re_live = (\<lambda>_. False), re_now = (\<lambda>_. 0), re_publish = (\<lambda>_. None), re_noted = (\<lambda>_. True)\<rparr>"

definition toy_docs :: "string \<Rightarrow> SessionMessageEntry list option" where
  "toy_docs = (\<lambda>_. Some [])"



theorem torn_character_blocks_journal_witness:
  "replay toy_serde ''chat'' 0 (crash_in_append toy_serde 3 ''chat'' toy_event (journal_open [])) = Inl ''io''"
proof -
  have "\<not> cut_at_char toy_serde 3 ''chat'' toy_event (journal_open [])" by code_simp
  moreover have "sanitize_id ''chat'' \<noteq> []" by code_simp
  moreover have "serde_ok toy_serde (insert toy_event (issued ''chat'' []))" using toy_serde_ok by (simp add: issued_def)
  ultimately show ?thesis
    using torn_character_blocks_journal [where steps = "[]" and S = toy_serde and ev = toy_event and chat = "''chat''" and n = 3
        and j' = "crash_in_append toy_serde 3 ''chat'' toy_event (journal_open [])"] by simp
qed

end
