(* ===== verification/Spec2Isabelle.thy ===== *)
theory Spec2Isabelle
  imports Sidebar Drain Sync Transcript View Chat_Network Queue_Properties Boot_Properties
begin

text \<open>
  Verification of the shared state of Zeron: the workspace registry, the chat rooms, the parts and deltas of a
  transcript, the command plane, the queue of messages, and the journal of runs.

  \<^bold>\<open>The program.\<close> Zeron runs coding agents on a person's own devices. What the devices share is an
  index of devices, spaces (checked-out directories), chats, session states and the sidebar. The index
  is a replicated table: every device holds a \<^verbatim>\<open>RegistryDoc\<close> (\<^verbatim>\<open>src/crates/doc/src/registry.rs\<close>), a
  copy of the server's rows plus a queue of its own unacknowledged operations, and one room on the
  server holds the rows of record. A row is a set of fields, each stamped with a hybrid logical clock;
  a field write wins when its clock is newer. A device writes by queueing operations in batches, pushes
  the batches, and drops each when it is acknowledged; the server sends a state frame at connection
  time and a broadcast after each batch. Reads go through an overlay: the server's row with the queued
  operations applied. On top sit the typed interface (one operation per thing the application does to a
  device, space, chat or session) and the sidebar (sections, pins and where a session is placed).

  A chat is a document of its own, held by the library Loro, which its devices exchange through a chat room: a
  log of opaque updates, numbered by the room, and one checkpoint that stands for the rows it covers. The client
  (\<^verbatim>\<open>src/crates/sync/src/chat_client.rs\<close>) keeps a cursor, the number up to which the document has every
  row, a durable queue of its own updates, and catches up over a socket or plain HTTPS. The engine behind it
  imports rows, saves snapshots and posts checkpoints. The document carries the transcript, which is shown to
  the application by deltas, and a ledger of commands (run, steer, interrupt, answer), which the device that
  hosts the chat evaluates and executes, each once. It also carries the queue of messages that wait for the agent, which
  people edit under a lease while the host delivers it row by row. What a run says is appended to a journal on the
  host's disk, from which a boot recovers the runs that the last process left behind.

  \<^bold>\<open>The theories and the code.\<close>

  \<^item> \<open>Prelude\<close>: strings as bytes, ordered and hash maps, JSON, decimal numerals, machine integers. The
    locales \<open>table\<close> and \<open>dict\<close> are the interface of the maps; they are interpreted on the sorted map
    (\<open>bt\<close>), the hash map (\<open>hm\<close>) and the replica's two-level row table (\<open>auth\<close>, in \<open>Registry_Doc\<close>).
  \<^item> \<open>Hlc\<close>: \<^verbatim>\<open>encode_hlc\<close>, \<^verbatim>\<open>hlc_newer\<close>, \<^verbatim>\<open>HlcClock\<close> of \<^verbatim>\<open>registry.rs\<close>, and the observation of another
    device's clock (\<^verbatim>\<open>registry/sidebar_sections.rs\<close>).
  \<^item> \<open>Convergence\<close>: the locale \<open>replicated\<close>, the contract between a replicated record and a transport
    that reorders and repeats; interpreted on live rows (\<open>row\<close>, in \<open>Registry_Row\<close>).
  \<^item> \<open>Registry_Row\<close>: \<^verbatim>\<open>RegistryRow\<close>, \<^verbatim>\<open>RowOp\<close>, \<^verbatim>\<open>apply_op\<close>, \<^verbatim>\<open>row_to_seed_op\<close>.
  \<^item> \<open>Registry_Doc\<close>: \<^verbatim>\<open>RegistryDoc\<close> with persistence, server frames, pushing, local writes and overlay.
  \<^item> \<open>Entities\<close>: the entities (\<^verbatim>\<open>src/crates/proto/src/entities.rs\<close>) and the row shapes they are read from
    (\<^verbatim>\<open>src/crates/doc/src/workspace.rs\<close>).
  \<^item> \<open>Registry_Api\<close>: the typed interface and the migration of the legacy workspace.
  \<^item> \<open>Pin_Order\<close>: ordering keys and intents (\<^verbatim>\<open>src/crates/proto/src/sidebar_pins.rs\<close>).
  \<^item> \<open>Sidebar\<close>: \<^verbatim>\<open>registry/sidebar_sections.rs\<close> and \<^verbatim>\<open>registry/sidebar_pins.rs\<close>.
  \<^item> \<open>Room_Core\<close>, \<open>Registry_Room\<close>: the registry's room (\<^verbatim>\<open>src/edge/src/registry-core.ts\<close>,
    \<^verbatim>\<open>registry-room.ts\<close>); \<open>Registry_Client\<close>: its client (\<^verbatim>\<open>src/crates/sync/src/registry.rs\<close>); \<open>Sync\<close>: a
    room, a device and the network between them.
  \<^item> \<open>Agent\<close>: requests, tool calls and events (\<^verbatim>\<open>src/crates/proto/src/agent.rs\<close>).
  \<^item> \<open>Commands\<close>: entries and their evaluation (\<^verbatim>\<open>src/crates/doc/src/commands.rs\<close>); \<open>Drain\<close>: the drain loop
    (\<^verbatim>\<open>drain_commands\<close> of \<^verbatim>\<open>src/crates/engine/src/doc_host.rs\<close>).
  \<^item> \<open>Text\<close>: UTF-8 text; \<open>Parts\<close>: the parts of a message (\<^verbatim>\<open>src/crates/doc/src/parts.rs\<close>); \<open>Transcript\<close>: the
    deltas (\<^verbatim>\<open>transcript_delta.rs\<close>); \<open>View\<close>: what the application derives (\<^verbatim>\<open>src/crates/proto/src/view.rs\<close>).
  \<^item> \<open>Chat_Frames\<close>: the binary frames (\<^verbatim>\<open>src/crates/sync/src/chat_frames.rs\<close>); \<open>Docs_Store\<close>: the store of a
    device (\<^verbatim>\<open>store.rs\<close>); \<open>Chat_Client\<close>: the client; \<open>Chat_Contract\<close>: the locale \<open>chat_sink\<close>, the interface
    \<^verbatim>\<open>ChatDocSink\<close> between client and document, and the client's contract proved in it.
  \<^item> \<open>Chat_Host\<close>: the engine's sink and persister (\<^verbatim>\<open>src/crates/engine/src/chat_persistence.rs\<close>,
    \<^verbatim>\<open>chat2_host.rs\<close>, \<^verbatim>\<open>spawn_chat2_checkpoint\<close> of \<^verbatim>\<open>doc_host.rs\<close>), on which \<open>chat_sink\<close> is interpreted
    (\<open>engine\<close>); \<open>Chat_Durability\<close>: theorems on them.
  \<^item> \<open>Chat_Room\<close>: the room (\<^verbatim>\<open>src/edge/src/chat-log.ts\<close>, \<^verbatim>\<open>chat-room.ts\<close>); \<open>Chat_Sync\<close>: a room, a device and
    the network between them; \<open>Chat_Invariant\<close>, \<open>Chat_Debt\<close>: its invariants; \<open>Chat_Network\<close>: the theorems.
  \<^item> \<open>Queue\<close>: the rows of the queue and the prompt they become (\<^verbatim>\<open>src/crates/doc/src/queue.rs\<close>); \<open>Queue_Host\<close>: the
    host's operations on it (\<^verbatim>\<open>doc_host.rs\<close>: queueing, moving, retyping, the edit lease, the drain, Send now,
    Steer now and Cancel); \<open>Queue_Rows\<close>, \<open>Queue_Safety\<close>, \<open>Queue_Delivery\<close>: lemmas on the list, the leases and the
    drain; \<open>Queue_Properties\<close>: the theorems.
  \<^item> \<open>Run_Journal\<close>: the journal (\<^verbatim>\<open>src/crates/engine/src/run_journal.rs\<close>); \<open>Journal_Recovery\<close>: the journal under crashes;
    \<open>Run_Recovery\<close>: the recovery at a boot (\<^verbatim>\<open>recover_stale\<close> of \<^verbatim>\<open>src/crates/engine/src/sessions.rs\<close>,
    \<^verbatim>\<open>mark_abandoned_streams\<close> of \<^verbatim>\<open>doc_host.rs\<close>); \<open>Boot_Budget\<close>, \<open>Journal_Store\<close>, \<open>Boot_Properties\<close>: its theorems.

  The state of each part is a record with the fields of the Rust structure; a method that takes
  \<^verbatim>\<open>&mut self\<close> becomes a function returning the changed record, with its result or error first when it has
  one. Names are the source's, with a prefix where two parts use the same one. An asynchronous session is a
  function from a phase (what it waits for) and an event to the next phase and the frames sent.

  \<^bold>\<open>What is shown.\<close>

  \<^item> Clocks: the string order is the order of (milliseconds, counter, device); a replica never issues the
    same or an earlier clock again, whatever the wall clock does; after an observation it issues newer
    clocks than the observed one.
  \<^item> Rows: the merge refines one last-writer-wins register per field; coherent sets of field writes
    converge in any order and multiplicity; re-application is a no-op; the change flag is exact; updates
    never create or revive; deletes follow the newest clock on the row; a re-seed restores every present
    field, and forgets the clocks of cleared ones. The room's merge is the replica's.
  \<^item> Replica: the invariant over every run of its steps; batches are chunked in order and under the
    server's cap; no state frame silently drops a row; the cursor never jumps over a gap; a write shows at
    once and changes nothing else; the listing is exact; a snapshot loads back to the same replica.
  \<^item> Exchange with the registry's room: with one transport at a time every row below the cursor is the one
    the device holds, and a hello catches it up; two transports at once can lose an update, and a purged
    deletion can come back.
  \<^item> Typed interface: every operation only queues; deleting a space cascades; a space reads back as
    written; the seen marker only moves forward; the migration is the same on every device.
  \<^item> Sidebar: a session has one placement whatever was merged; a local placement wins on its device; pins
    are sorted and valid; ordering keys always exist between two others, and determine their clock.
  \<^item> Commands: only interrupts are superseded; a drain executes no command twice and leaves none behind.
  \<^item> Transcript: parts are well formed, split within bounds and sanitized to what is shown; a delta applied
    to its base gives its target, outside two cases in which it does not.
  \<^item> Chat rooms: the frames decode exactly; no run of the network moves the cursor past an update the document
    lacks, save for a debt up to the room's checkpoint while that is fetched, which a session that has caught up
    has paid; the room loses nothing to compaction by honest checkpoints; a checkpoint posted in debt, or a room
    that grew again after a reset, does lose updates.
  \<^item> Durability: a stored snapshot contains the rows of the cursor stored with it and is never mixed with
    another; a failed outbox write is replayed; a download is one checkpoint, unless two have the same number.
  \<^item> Queue: a row under edit is not delivered before the edit is resolved; a drain delivers the head rows in order, each
    once; a failed delivery puts its row back and freezes the queue; only the holder of a lease resolves it.
  \<^item> Journal: what was acknowledged is replayed in order after any deaths in the middle of a write, if they end at the end of a
    character, and otherwise the chat's journal and the recovery of all chats fail; a write that fails half way swallows
    the next one; a boot closes and stamps what the last one left, once, and revives a run at most three times.

  \<^bold>\<open>Bounds and hypotheses.\<close> An encoded clock has 13 digits of milliseconds and 6 of counter; the string
  order is the clock order inside these widths (until the year 2286, and for a million clocks in one
  millisecond), which \<open>hlc_ok\<close> states and the runs keep through \<open>within M\<close> and \<open>roomy M\<close>: \<open>M\<close> bounds the
  wall clock, and \<open>roomy\<close> says that the counters left cover the ticks still to come. An ordering key has
  at most 8192 digits, of which 300 are the middle digit, the encoded clock and the terminator, so bounds
  of up to 7892 digits always leave room. A batch has at most 400 operations. Loops that are not
  structural (\<open>enqueue_loop\<close>, \<open>drain_loop\<close>, \<open>split_range\<close>, \<open>body_frames\<close>) are total functions with a measure;
  the key loop runs its 8192 rounds at most, the download its 4. A room numbers fewer than 2 to the 53 rows
  (\<open>room_full\<close>), where a JavaScript number is exact. Arguments of the model are the wall clock, the serializers
  derived by serde, the calendar's conversion from milliseconds, the outcome of each SQL statement and send, for
  the drain the executor, the processed ledger and the attachment store, and for a chat the operations of Loro
  (\<open>Loro\<close>), of which \<open>loro_ok\<close> states what its documentation promises; its movable list (\<open>MovableList\<close>,
  \<open>movable_list_ok\<close>) for the queue; and the JSON of a journal line (\<open>JournalSerde\<close>): \<open>serde_ok\<close> says that it is one line of
  UTF-8, parses back, and no proper part of it parses.

  \<^bold>\<open>Not modelled.\<close> Loro itself, SQLite, sockets and HTTP; on the server ownership, sidecars and backups; the
  agent harnesses and their processes, previews, terminals, source control, the desktop interface and the
  iOS client. They are input and output, rendering, or third-party state; the manifest lists each with its
  reason.
\<close>

end
